(* ===== verification/Prelude.thy ===== *)
theory Prelude
  imports Main "HOL-Library.Word" "HOL-Library.Monad_Syntax"
begin

text \<open>
  Shared ground of the development: the integer types of \<open>types.h\<close>, the reading of
  characters as bytes, the collections of facts the component theories fill, and generic
  lemmas on words, lists and the option monad.

  A result of type \<open>'a option\<close> is used throughout for code that may never hand control
  back: \<open>None\<close> is a page fault (the handler of vector 14 spins for ever), an endless loop, or
  an access outside the C object it names.
\<close>

unbundle bit_operations_syntax

section \<open>Integer types\<close>

type_synonym u8 = "8 word"
type_synonym u16 = "16 word"
type_synonym u32 = "32 word"

text \<open>
  \<open>uint32_t\<close> and \<open>int32_t\<close> are both \<open>u32\<close>; a signed reading is written out with \<open>sint\<close>.
  \<open>int8_t\<close> is a signed \<open>char\<close>: \<open>s8\<close> narrows an \<open>int\<close> to it as a C assignment does.
\<close>

definition slt :: "u32 \<Rightarrow> u32 \<Rightarrow> bool" where
  "slt a b \<longleftrightarrow> sint a < sint b"

definition s8 :: "int \<Rightarrow> int" where
  "s8 x = sint (word_of_int x :: u8)"

definition s16 :: "int \<Rightarrow> int" where
  "s16 x = sint (word_of_int x :: u16)"

definition asc :: "char \<Rightarrow> u8" where
  "asc c = of_nat (of_char c)"

definition bytes :: "string \<Rightarrow> u8 list" where
  "bytes = map asc"

section \<open>Collections\<close>

named_theorems mem_simps \<open>reading and writing memory\<close>
named_theorems xlate_simps \<open>address translation under the kernel's tables\<close>
named_theorems frame_simps \<open>fields an operation leaves alone\<close>

section \<open>Words\<close>

lemma unat_minus_1_less: "n \<noteq> 0 \<Longrightarrow> unat (n - 1) < unat (n :: 'a::len word)"
  by (simp add: unat_minus_one unat_gt_0)

lemma unat_pred: "n \<noteq> 0 \<Longrightarrow> unat (n :: 'a::len word) = Suc (unat (n - 1))"
  using unat_minus_1_less [of n] by (simp add: unat_minus_one)

lemma unat_add_exact:
  "unat a + unat b < 2 ^ 32 \<Longrightarrow> unat (a + b :: u32) = unat a + unat b"
  by (simp add: unat_word_ariths)

lemma unat_add_of_nat:
  "unat a + n < 2 ^ 32 \<Longrightarrow> unat (a + of_nat n :: u32) = unat a + n"
  by (simp add: unat_word_ariths unat_of_nat)

lemma unat_of_nat_small: "n < 2 ^ 32 \<Longrightarrow> unat (of_nat n :: u32) = n"
  by (simp add: unat_of_nat)

lemma word_add_of_nat_inj:
  "i < 2 ^ 32 \<Longrightarrow> j < 2 ^ 32 \<Longrightarrow> (a + of_nat i = a + (of_nat j :: u32)) = (i = j)"
  by (metis add_left_cancel unat_of_nat_small)

lemma mod_range: "k * m \<le> (a::nat) \<Longrightarrow> a < k * m + m \<Longrightarrow> a mod m = a - k * m"
proof -
  assume "k * m \<le> a" "a < k * m + m"
  then have "a = (a - k * m) + k * m" "a - k * m < m" by auto
  then show ?thesis by (metis mod_less mod_mult_self1)
qed

lemma div_range: "k * m \<le> (a::nat) \<Longrightarrow> a < k * m + m \<Longrightarrow> a div m = k"
  by (rule div_nat_eqI) (simp_all add: mult.commute)

lemma div_range_iff:
  fixes a :: nat
  assumes "0 < m"
  shows "a div m = k \<longleftrightarrow> k * m \<le> a \<and> a < k * m + m"
proof
  assume "a div m = k"
  then have "a = k * m + a mod m" by (metis div_mult_mod_eq)
  moreover have "a mod m < m" using assms by simp
  ultimately show "k * m \<le> a \<and> a < k * m + m" by linarith
qed (auto intro: div_range)

section \<open>Lists and options\<close>

lemma find_upt_first:
  assumes "k < n" "P k" "\<And>j. j < n \<Longrightarrow> P j \<Longrightarrow> j = k"
  shows "find P [0..<n] = Some k"
proof -
  have "find P [0..<n] \<noteq> None"
    using assms(1,2) by (auto simp: find_None_iff)
  then obtain x where x: "find P [0..<n] = Some x" by auto
  then have "x < n \<and> P x" by (auto simp: find_Some_iff)
  with assms(3) x show ?thesis by auto
qed

lemma find_upt_none: "(\<And>j. j < n \<Longrightarrow> \<not> P j) \<Longrightarrow> find P [0..<n] = None"
  by (auto simp: find_None_iff)

lemma bind_Some_iff: "(x \<bind> f = Some y) \<longleftrightarrow> (\<exists>a. x = Some a \<and> f a = Some y)"
  by (cases x) auto

fun foldM :: "('b \<Rightarrow> 's \<Rightarrow> 's option) \<Rightarrow> 'b list \<Rightarrow> 's \<Rightarrow> 's option" where
  "foldM f [] s = Some s"
| "foldM f (x # xs) s = do { s' \<leftarrow> f x s; foldM f xs s' }"

lemma foldM_append: "foldM f (xs @ ys) s = foldM f xs s \<bind> foldM f ys"
  by (induction xs arbitrary: s) (auto split: bind_splits)

text \<open>A counting loop that never fails, by its invariant.\<close>

lemma foldM_upt:
  assumes "P m s" "m \<le> n" "\<And>i s. m \<le> i \<Longrightarrow> i < n \<Longrightarrow> P i s \<Longrightarrow> \<exists>t. f i s = Some t \<and> P (Suc i) t"
  shows "\<exists>t. foldM f [m..<n] s = Some t \<and> P n t"
  using assms(2,1,3)
proof (induction "n - m" arbitrary: m s)
  case (Suc k)
  then obtain t where t: "f m s = Some t" "P (Suc m) t" by (metis Suc_diff_le diff_is_0_eq' le_eq_less_or_eq nat.distinct(1) order_refl)
  have "\<exists>u. foldM f [Suc m..<n] t = Some u \<and> P n u"
    using Suc.hyps(2) Suc.prems t(2) by (intro Suc.hyps(1)) auto
  with t(1) Suc.hyps(2) show ?case by (simp add: upt_conv_Cons)
qed auto

lemma forall_less_Suc_shift: "(\<forall>i<Suc n. P i) \<longleftrightarrow> P 0 \<and> (\<forall>i<n. P (Suc i))"
  by (metis Suc_less_eq less_Suc_eq_0_disj)

lemma less_3_cases: "(i::nat) < 3 \<Longrightarrow> i = 0 \<or> i = 1 \<or> i = 2"
  by auto

lemma less_6_cases: "(i::nat) < 6 \<Longrightarrow> i = 0 \<or> i = 1 \<or> i = 2 \<or> i = 3 \<or> i = 4 \<or> i = 5"
  by auto

end
