(* ===== verification/Machine.thy ===== *)
theory Machine
  imports Prelude
begin

text \<open>
  The machine the kernel runs on, and \<open>paging.h\<close> / \<open>paging.c\<close>: the page directories and page
  tables of the six processes with their bit-field layout, \<open>init_paging\<close>, \<open>flush_tlb\<close>,
  \<open>set_cr0\<close>, \<open>set_pse\<close>, and what the processor makes of them: a load or store goes through the
  tables CR3 selects, and one that finds no present entry does not return. The port macros of
  \<open>lib.h\<close> are here too, as a log of port reads and writes.
\<close>

section \<open>Table entries\<close>

text \<open>
  The two unions of \<open>paging.h\<close>. The bit-fields are the record's fields; \<open>pde_word\<close> and
  \<open>pte_word\<close> are the \<open>uint32_t\<close> member of the union, with gcc's layout (first field in the low
  bit), and the inverse functions give the fields of a word stored through that member.
\<close>

record page_directory_entry =
  pd_present :: bool
  pd_read_write :: bool
  pd_user_supervisor :: bool
  pd_write_through :: bool
  pd_cache_disabled :: bool
  pd_accessed :: bool
  pd_reserved :: bool
  pd_page_size :: bool
  pd_global :: bool
  pd_avail :: "3 word"
  pd_page_table_addr :: "20 word"

record page_table_entry =
  pt_present :: bool
  pt_read_write :: bool
  pt_user_supervisor :: bool
  pt_write_through :: bool
  pt_cache_disabled :: bool
  pt_accessed :: bool
  pt_dirty :: bool
  pt_reserved :: bool
  pt_global :: bool
  pt_avail :: "3 word"
  pt_phys_page_addr :: "20 word"

definition flag :: "nat \<Rightarrow> bool \<Rightarrow> u32" where
  "flag n b = (if b then push_bit n 1 else 0)"

definition pde_word :: "page_directory_entry \<Rightarrow> u32" where
  "pde_word e = flag 0 (pd_present e) OR flag 1 (pd_read_write e) OR flag 2 (pd_user_supervisor e)
     OR flag 3 (pd_write_through e) OR flag 4 (pd_cache_disabled e) OR flag 5 (pd_accessed e)
     OR flag 6 (pd_reserved e) OR flag 7 (pd_page_size e) OR flag 8 (pd_global e)
     OR push_bit 9 (ucast (pd_avail e)) OR push_bit 12 (ucast (pd_page_table_addr e))"

definition pde_of_word :: "u32 \<Rightarrow> page_directory_entry" where
  "pde_of_word w = \<lparr> pd_present = bit w 0, pd_read_write = bit w 1, pd_user_supervisor = bit w 2,
     pd_write_through = bit w 3, pd_cache_disabled = bit w 4, pd_accessed = bit w 5,
     pd_reserved = bit w 6, pd_page_size = bit w 7, pd_global = bit w 8,
     pd_avail = ucast (drop_bit 9 w), pd_page_table_addr = ucast (drop_bit 12 w) \<rparr>"

definition pte_word :: "page_table_entry \<Rightarrow> u32" where
  "pte_word e = flag 0 (pt_present e) OR flag 1 (pt_read_write e) OR flag 2 (pt_user_supervisor e)
     OR flag 3 (pt_write_through e) OR flag 4 (pt_cache_disabled e) OR flag 5 (pt_accessed e)
     OR flag 6 (pt_dirty e) OR flag 7 (pt_reserved e) OR flag 8 (pt_global e)
     OR push_bit 9 (ucast (pt_avail e)) OR push_bit 12 (ucast (pt_phys_page_addr e))"

definition pte_of_word :: "u32 \<Rightarrow> page_table_entry" where
  "pte_of_word w = \<lparr> pt_present = bit w 0, pt_read_write = bit w 1, pt_user_supervisor = bit w 2,
     pt_write_through = bit w 3, pt_cache_disabled = bit w 4, pt_accessed = bit w 5,
     pt_dirty = bit w 6, pt_reserved = bit w 7, pt_global = bit w 8,
     pt_avail = ucast (drop_bit 9 w), pt_phys_page_addr = ucast (drop_bit 12 w) \<rparr>"

section \<open>The machine state\<close>

datatype io_event = Outb u8 u16 | Inb u16 u8

text \<open>
  \<open>pd_base\<close>, \<open>pt_base\<close> and \<open>vt_base\<close> are the link addresses of the three arrays
  \<open>page_directory\<close>, \<open>page_table\<close> and \<open>video_table\<close>; no code writes them.
\<close>

record machine =
  phys :: "u32 \<Rightarrow> u8"
  page_directory :: "nat \<Rightarrow> nat \<Rightarrow> page_directory_entry"
  page_table :: "nat \<Rightarrow> nat \<Rightarrow> page_table_entry"
  video_table :: "nat \<Rightarrow> nat \<Rightarrow> page_table_entry"
  cr0 :: u32
  cr3 :: u32
  cr4 :: u32
  pd_base :: u32
  pt_base :: u32
  vt_base :: u32
  iflag :: bool
  io_log :: "io_event list"

definition outb :: "u8 \<Rightarrow> u16 \<Rightarrow> 'a machine_scheme \<Rightarrow> 'a machine_scheme" where
  "outb v port s = s\<lparr>io_log := io_log s @ [Outb v port]\<rparr>"

text \<open>What a device answers is outside the kernel: any function of the port traffic so far.\<close>

type_synonym device = "io_event list \<Rightarrow> u16 \<Rightarrow> u8"

definition inb :: "device \<Rightarrow> u16 \<Rightarrow> 'a machine_scheme \<Rightarrow> u8 \<times> 'a machine_scheme" where
  "inb dev port s =
     (let v = dev (io_log s) port in (v, s\<lparr>io_log := io_log s @ [Inb port v]\<rparr>))"

definition cli :: "'a machine_scheme \<Rightarrow> 'a machine_scheme" where
  "cli s = s\<lparr>iflag := False\<rparr>"

definition sti :: "'a machine_scheme \<Rightarrow> 'a machine_scheme" where
  "sti s = s\<lparr>iflag := True\<rparr>"

section \<open>Address translation\<close>

definition table_addr :: "u32 \<Rightarrow> nat \<Rightarrow> u32" where
  "table_addr base p = base + of_nat (4096 * p)"

definition find_table :: "u32 \<Rightarrow> u32 \<Rightarrow> nat option" where
  "find_table base a = find (\<lambda>p. table_addr base p = a) [0..<6]"

definition current_dir :: "'a machine_scheme \<Rightarrow> nat option" where
  "current_dir s = find_table (pd_base s) (cr3 s AND 0xFFFFF000)"

definition big_page :: "20 word \<Rightarrow> u32 \<Rightarrow> u32" where
  "big_page f va = of_nat (unat f div 1024 * 4194304 + unat va mod 4194304)"

definition small_page :: "20 word \<Rightarrow> u32 \<Rightarrow> u32" where
  "small_page f va = of_nat (unat f * 4096 + unat va mod 4096)"

definition walk_table :: "'a machine_scheme \<Rightarrow> 20 word \<Rightarrow> nat \<Rightarrow> page_table_entry option" where
  "walk_table s f i =
     (let a = push_bit 12 (ucast f)
      in case find_table (pt_base s) a of
           Some q \<Rightarrow> Some (page_table s q i)
         | None \<Rightarrow> (case find_table (vt_base s) a of
                      Some q \<Rightarrow> Some (video_table s q i)
                    | None \<Rightarrow> None))"

text \<open>
  The walk of a 32-bit processor in protected mode, with 4 MB pages when CR4.PSE is set. The
  kernel runs at privilege level 0 with CR0.WP clear, so only presence is checked;
  \<open>user_translate\<close> is the walk for code at level 3, which also needs the user bit at each level.
\<close>

definition translate :: "'a machine_scheme \<Rightarrow> u32 \<Rightarrow> u32 option" where
  "translate s va =
     (if \<not> bit (cr0 s) 31 then Some va
      else case current_dir s of
        None \<Rightarrow> None
      | Some p \<Rightarrow>
          (let e = page_directory s p (unat va div 4194304) in
           if \<not> pd_present e then None
           else if pd_page_size e \<and> bit (cr4 s) 4 then Some (big_page (pd_page_table_addr e) va)
           else case walk_table s (pd_page_table_addr e) (unat va div 4096 mod 1024) of
                  None \<Rightarrow> None
                | Some t \<Rightarrow> if pt_present t then Some (small_page (pt_phys_page_addr t) va)
                            else None))"

definition user_translate :: "'a machine_scheme \<Rightarrow> u32 \<Rightarrow> u32 option" where
  "user_translate s va =
     (if \<not> bit (cr0 s) 31 then Some va
      else case current_dir s of
        None \<Rightarrow> None
      | Some p \<Rightarrow>
          (let e = page_directory s p (unat va div 4194304) in
           if \<not> pd_present e \<or> \<not> pd_user_supervisor e then None
           else if pd_page_size e \<and> bit (cr4 s) 4 then Some (big_page (pd_page_table_addr e) va)
           else case walk_table s (pd_page_table_addr e) (unat va div 4096 mod 1024) of
                  None \<Rightarrow> None
                | Some t \<Rightarrow> if pt_present t \<and> pt_user_supervisor t
                            then Some (small_page (pt_phys_page_addr t) va) else None))"

definition ld :: "'a machine_scheme \<Rightarrow> u32 \<Rightarrow> u8 option" where
  "ld s va = map_option (phys s) (translate s va)"

definition st :: "u32 \<Rightarrow> u8 \<Rightarrow> 'a machine_scheme \<Rightarrow> 'a machine_scheme option" where
  "st va b s = map_option (\<lambda>pa. s\<lparr>phys := (phys s)(pa := b)\<rparr>) (translate s va)"

section \<open>paging.c\<close>

definition blank_pde :: page_directory_entry where
  "blank_pde = pde_of_word 0"

definition blank_pte :: page_table_entry where
  "blank_pte = pte_of_word 0"

definition set_pde ::
    "nat \<Rightarrow> nat \<Rightarrow> (page_directory_entry \<Rightarrow> page_directory_entry) \<Rightarrow> 'a machine_scheme \<Rightarrow> 'a machine_scheme" where
  "set_pde p i f s = s\<lparr>page_directory := (page_directory s)(p := (page_directory s p)(i := f (page_directory s p i)))\<rparr>"

definition set_pte ::
    "nat \<Rightarrow> nat \<Rightarrow> (page_table_entry \<Rightarrow> page_table_entry) \<Rightarrow> 'a machine_scheme \<Rightarrow> 'a machine_scheme" where
  "set_pte p i f s = s\<lparr>page_table := (page_table s)(p := (page_table s p)(i := f (page_table s p i)))\<rparr>"

definition set_vte ::
    "nat \<Rightarrow> nat \<Rightarrow> (page_table_entry \<Rightarrow> page_table_entry) \<Rightarrow> 'a machine_scheme \<Rightarrow> 'a machine_scheme" where
  "set_vte p i f s = s\<lparr>video_table := (video_table s)(p := (video_table s p)(i := f (video_table s p i)))\<rparr>"

definition flush_tlb :: "nat \<Rightarrow> 'a machine_scheme \<Rightarrow> 'a machine_scheme" where
  "flush_tlb process_index s =
     (let pd_ptr = table_addr (pd_base s) process_index;
          ecx = pd_ptr AND 0xFFFFF000;
          eax = cr3 s AND 0x00000FFF
      in s\<lparr>cr3 := eax + ecx\<rparr>)"

definition set_cr0 :: "'a machine_scheme \<Rightarrow> 'a machine_scheme" where
  "set_cr0 s = s\<lparr>cr0 := cr0 s OR 0x80000000\<rparr>"

definition set_pse :: "'a machine_scheme \<Rightarrow> 'a machine_scheme" where
  "set_pse s = s\<lparr>cr4 := cr4 s OR 0x00000010\<rparr>"

text \<open>The two nested loops of \<open>init_paging\<close>: clearing, then mapping one process.\<close>

definition clear_tables :: "nat \<Rightarrow> 'a machine_scheme \<Rightarrow> 'a machine_scheme" where
  "clear_tables p s =
     fold (\<lambda>i s. set_pte p i (\<lambda>_. pte_of_word 0) (set_pde p i (\<lambda>_. pde_of_word 0) s)) [0..<1024] s"

definition map_kernel :: "nat \<Rightarrow> 'a machine_scheme \<Rightarrow> 'a machine_scheme" where
  "map_kernel p = set_pde p 1 (\<lambda>e. e\<lparr>pd_present := True, pd_page_size := True, pd_global := True,
     pd_page_table_addr := 0x400\<rparr>)"

definition map_program :: "nat \<Rightarrow> 'a machine_scheme \<Rightarrow> 'a machine_scheme" where
  "map_program p = set_pde p 32 (\<lambda>e. e\<lparr>pd_present := True, pd_page_size := True, pd_read_write := True,
     pd_user_supervisor := True, pd_page_table_addr := of_nat (0x800 + p * 0x400)\<rparr>)"

definition map_video_dirs :: "nat \<Rightarrow> 'a machine_scheme \<Rightarrow> 'a machine_scheme" where
  "map_video_dirs p s =
     (let s1 = set_pde p 0 (\<lambda>e. e\<lparr>pd_present := True, pd_read_write := True, pd_user_supervisor := True,
                 pd_page_table_addr := ucast (drop_bit 12 (table_addr (pt_base s) p))\<rparr>) s
      in set_pde p 33 (\<lambda>e. e\<lparr>pd_present := True, pd_read_write := True, pd_user_supervisor := True,
                 pd_page_table_addr := ucast (drop_bit 12 (table_addr (vt_base s) p))\<rparr>) s1)"

definition map_video_pages :: "nat \<Rightarrow> 'a machine_scheme \<Rightarrow> 'a machine_scheme" where
  "map_video_pages p s =
     (let s1 = set_pte p 0xB8 (\<lambda>e. e\<lparr>pt_present := True, pt_read_write := True, pt_user_supervisor := True,
                 pt_phys_page_addr := (if p < 3 then of_nat (0xB8 + 2 * p) else 0xB8)\<rparr>) s
      in fold (\<lambda>k. set_vte p (0xB8 + 2 * k) (\<lambda>e. e\<lparr>pt_present := True, pt_read_write := True,
                 pt_user_supervisor := True, pt_phys_page_addr := of_nat (0xB8 + 2 * k)\<rparr>)) [0..<3] s1)"

definition map_process :: "nat \<Rightarrow> 'a machine_scheme \<Rightarrow> 'a machine_scheme" where
  "map_process p s = map_video_pages p (map_video_dirs p (map_program p (map_kernel p s)))"

definition init_paging :: "'a machine_scheme \<Rightarrow> 'a machine_scheme" where
  "init_paging s = set_cr0 (flush_tlb 0 (set_pse
     (fold map_process [0..<6] (fold clear_tables [0..<6] s))))"

section \<open>Bit fields and alignment\<close>

lemma bit_flag [simp]: "bit (flag n b) k \<longleftrightarrow> b \<and> k = n \<and> n < 32"
  by (auto simp: flag_def bit_simps simp del: push_bit_of_1)

lemma ucast_drop_bit_field:
  "(ucast (drop_bit m w) :: 'a::len word) = (v :: 'a word) \<longleftrightarrow>
     (\<forall>i<LENGTH('a). (bit (w :: 'b::len word) (m + i)) = bit v i)"
  by (auto simp: bit_eq_iff bit_simps dest: bit_imp_le_length)

lemma bit_field_wide: "bit (push_bit m (ucast (v :: 'a::len word)) :: u32) n \<longleftrightarrow> m \<le> n \<and> n < 32 \<and> bit v (n - m)"
  by (auto simp: bit_simps)

lemma bit_pde_word:
  "bit (pde_word e) n \<longleftrightarrow> (n = 0 \<and> pd_present e) \<or> (n = 1 \<and> pd_read_write e) \<or> (n = 2 \<and> pd_user_supervisor e)
     \<or> (n = 3 \<and> pd_write_through e) \<or> (n = 4 \<and> pd_cache_disabled e) \<or> (n = 5 \<and> pd_accessed e)
     \<or> (n = 6 \<and> pd_reserved e) \<or> (n = 7 \<and> pd_page_size e) \<or> (n = 8 \<and> pd_global e)
     \<or> (9 \<le> n \<and> n < 32 \<and> bit (pd_avail e) (n - 9)) \<or> (12 \<le> n \<and> n < 32 \<and> bit (pd_page_table_addr e) (n - 12))"
  unfolding pde_word_def bit_or_iff bit_field_wide bit_flag by auto

lemma pde_of_word_pde_word: "pde_of_word (pde_word e) = e"
  unfolding pde_of_word_def
  by (cases e) (auto simp: bit_pde_word ucast_drop_bit_field dest: bit_imp_le_length)

lemma pde_word_pde_of_word: "pde_word (pde_of_word w) = w"
proof (rule bit_word_eqI)
  fix n :: nat assume n: "n < LENGTH(32)"
  have f: "bit (ucast (drop_bit 9 w) :: 3 word) (n - 9) \<longleftrightarrow> n - 9 < 3 \<and> bit w (9 + (n - 9))"
    "bit (ucast (drop_bit 12 w) :: 20 word) (n - 12) \<longleftrightarrow> n - 12 < 20 \<and> bit w (12 + (n - 12))"
    by (auto simp: bit_simps)
  consider "n = 0" | "n = 1" | "n = 2" | "n = 3" | "n = 4" | "n = 5" | "n = 6" | "n = 7" | "n = 8"
    | "9 \<le> n" "n < 12" | "12 \<le> n" by linarith
  then show "bit (pde_word (pde_of_word w)) n = bit w n"
    using n f by cases (auto simp: bit_pde_word pde_of_word_def less_diff_conv2)
qed

lemma bit_pte_word:
  "bit (pte_word e) n \<longleftrightarrow> (n = 0 \<and> pt_present e) \<or> (n = 1 \<and> pt_read_write e) \<or> (n = 2 \<and> pt_user_supervisor e)
     \<or> (n = 3 \<and> pt_write_through e) \<or> (n = 4 \<and> pt_cache_disabled e) \<or> (n = 5 \<and> pt_accessed e)
     \<or> (n = 6 \<and> pt_dirty e) \<or> (n = 7 \<and> pt_reserved e) \<or> (n = 8 \<and> pt_global e)
     \<or> (9 \<le> n \<and> n < 32 \<and> bit (pt_avail e) (n - 9)) \<or> (12 \<le> n \<and> n < 32 \<and> bit (pt_phys_page_addr e) (n - 12))"
  unfolding pte_word_def bit_or_iff bit_field_wide bit_flag by auto

lemma pte_of_word_pte_word: "pte_of_word (pte_word e) = e"
  unfolding pte_of_word_def
  by (cases e) (auto simp: bit_pte_word ucast_drop_bit_field dest: bit_imp_le_length)

lemma pte_word_pte_of_word: "pte_word (pte_of_word w) = w"
proof (rule bit_word_eqI)
  fix n :: nat assume n: "n < LENGTH(32)"
  have f: "bit (ucast (drop_bit 9 w) :: 3 word) (n - 9) \<longleftrightarrow> n - 9 < 3 \<and> bit w (9 + (n - 9))"
    "bit (ucast (drop_bit 12 w) :: 20 word) (n - 12) \<longleftrightarrow> n - 12 < 20 \<and> bit w (12 + (n - 12))"
    by (auto simp: bit_simps)
  consider "n = 0" | "n = 1" | "n = 2" | "n = 3" | "n = 4" | "n = 5" | "n = 6" | "n = 7" | "n = 8"
    | "9 \<le> n" "n < 12" | "12 \<le> n" by linarith
  then show "bit (pte_word (pte_of_word w)) n = bit w n"
    using n f by cases (auto simp: bit_pte_word pte_of_word_def less_diff_conv2)
qed

definition aligned :: "u32 \<Rightarrow> bool" where
  "aligned a \<longleftrightarrow> a AND 0xFFF = 0"

lemma low_mask: "(0xFFF :: u32) = mask 12" by (simp add: mask_eq_exp_minus_1)
lemma high_mask: "(0xFFFFF000 :: u32) = NOT (mask 12)" by (simp add: mask_eq_exp_minus_1 not_eq_complement)

lemma aligned_take_bit: "aligned a \<longleftrightarrow> take_bit 12 a = 0"
  by (simp add: aligned_def low_mask take_bit_eq_mask)

lemma aligned_unat: "aligned a \<longleftrightarrow> unat a mod 4096 = 0"
proof -
  have "unat (take_bit 12 a) = unat a mod 4096" by (simp add: unsigned_take_bit_eq take_bit_eq_mod unat_mod)
  then show ?thesis by (metis aligned_take_bit unat_0 unat_eq_zero)
qed

lemma aligned_table_addr: "aligned base \<Longrightarrow> aligned (table_addr base p)"
proof -
  assume a: "aligned base"
  have "unat (table_addr base p) mod 4096 = (unat base + 4096 * p) mod 2 ^ 32 mod 4096"
    by (simp add: table_addr_def unat_word_ariths unat_of_nat mod_simps del: of_nat_mult)
  also have "\<dots> = (unat base + 4096 * p) mod 4096" by (rule mod_mod_cancel) simp
  finally show ?thesis using a by (simp add: aligned_unat)
qed

lemma aligned_high: "aligned a \<Longrightarrow> a AND 0xFFFFF000 = a"
  by (rule bit_word_eqI) (auto simp: high_mask bit_simps aligned_take_bit bit_eq_iff [of "take_bit 12 a"])

lemma aligned_frame: "aligned a \<Longrightarrow> push_bit 12 (ucast (ucast (drop_bit 12 a) :: 20 word)) = (a :: u32)"
  by (rule bit_word_eqI)
     (auto simp: bit_simps aligned_take_bit bit_eq_iff [of "take_bit 12 a"])

lemma high_add_low: "((x AND 0xFFF) + (y AND 0xFFFFF000)) AND 0xFFFFF000 = (y AND 0xFFFFF000 :: u32)"
proof -
  have "(x AND 0xFFF) + (y AND 0xFFFFF000) = (x AND 0xFFF) OR (y AND 0xFFFFF000)"
    by (rule disjunctive_add) (auto simp: low_mask high_mask bit_simps)
  then show ?thesis by (auto simp: low_mask high_mask bit_simps intro!: bit_word_eqI)
qed

end
