(* ===== verification/Paging.thy ===== *)
theory Paging
  imports Machine
begin

text \<open>
  What \<open>init_paging\<close> of \<open>paging.c\<close> builds and what it means for addresses. \<open>mmu_ok\<close> is the
  invariant of the tables (the directories as built, each process's 0xB8000 entry on one of the
  three screen pages), \<open>kernel_map\<close> the address space it gives a process as a function of the
  address alone, and \<open>translate_kernel_map\<close> says the processor's walk computes that function.
\<close>

section \<open>Table lookups\<close>

lemma table_addr_inj:
  "i < 6 \<Longrightarrow> j < 6 \<Longrightarrow> table_addr b i = table_addr b j \<longleftrightarrow> i = j"
proof -
  assume "i < 6" "j < 6"
  then have "(b + of_nat (4096 * i) = b + (of_nat (4096 * j) :: u32)) = (4096 * i = 4096 * j)"
    by (intro word_add_of_nat_inj) auto
  then show ?thesis by (simp add: table_addr_def del: of_nat_mult)
qed

lemma find_table_self: "p < 6 \<Longrightarrow> find_table b (table_addr b p) = Some p"
  unfolding find_table_def by (rule find_upt_first) (auto simp: table_addr_inj)

lemma page_directory_set [simp]:
  "page_directory (set_pde p i f s) = (page_directory s)(p := (page_directory s p)(i := f (page_directory s p i)))"
  "page_directory (set_pte p i g s) = page_directory s"
  "page_directory (set_vte p i g s) = page_directory s"
  by (simp_all add: set_pde_def set_pte_def set_vte_def)

lemma page_table_set [simp]:
  "page_table (set_pte p i f s) = (page_table s)(p := (page_table s p)(i := f (page_table s p i)))"
  "page_table (set_pde p i g s) = page_table s"
  "page_table (set_vte p i f s) = page_table s"
  by (simp_all add: set_pde_def set_pte_def set_vte_def)

lemma video_table_set [simp]:
  "video_table (set_vte p i f s) = (video_table s)(p := (video_table s p)(i := f (video_table s p i)))"
  "video_table (set_pde p i g s) = video_table s"
  "video_table (set_pte p i f s) = video_table s"
  by (simp_all add: set_pde_def set_pte_def set_vte_def)

lemma clear_tables_upto:
  fixes s :: "'a machine_scheme"
  shows "page_directory (fold (\<lambda>i s. set_pte p i (\<lambda>_. pte_of_word 0) (set_pde p i (\<lambda>_. pde_of_word 0) s)) [0..<n] s)
      = (page_directory s)(p := (\<lambda>i. if i < n then blank_pde else page_directory s p i))"
    "page_table (fold (\<lambda>i s. set_pte p i (\<lambda>_. pte_of_word 0) (set_pde p i (\<lambda>_. pde_of_word 0) s)) [0..<n] s)
      = (page_table s)(p := (\<lambda>i. if i < n then blank_pte else page_table s p i))"
    "video_table (fold (\<lambda>i s. set_pte p i (\<lambda>_. pte_of_word 0) (set_pde p i (\<lambda>_. pde_of_word 0) s)) [0..<n] s)
      = video_table s"
  by (induction n) (auto simp: fun_eq_iff blank_pde_def blank_pte_def)

lemma clear_tables_simps [simp]:
  "page_directory (clear_tables p s) = (page_directory s)(p := (\<lambda>i. if i < 1024 then blank_pde else page_directory s p i))"
  "page_table (clear_tables p s) = (page_table s)(p := (\<lambda>i. if i < 1024 then blank_pte else page_table s p i))"
  "video_table (clear_tables p s) = video_table s"
  unfolding clear_tables_def by (rule clear_tables_upto)+

lemma upt_6: "[0..<6] = [0, 1, 2, 3, 4, 5::nat]" by (simp add: upt_rec)
lemma upt_3: "[0..<3] = [0, 1, 2::nat]" by (simp add: upt_rec)

definition same_link :: "'a machine_scheme \<Rightarrow> 'a machine_scheme \<Rightarrow> bool" where
  "same_link s t \<longleftrightarrow> pd_base t = pd_base s \<and> pt_base t = pt_base s \<and> vt_base t = vt_base s"

lemma base_set [simp]:
  "pd_base (set_pde p i f s) = pd_base s" "pt_base (set_pde p i f s) = pt_base s" "vt_base (set_pde p i f s) = vt_base s"
  "pd_base (set_pte p i g s) = pd_base s" "pt_base (set_pte p i g s) = pt_base s" "vt_base (set_pte p i g s) = vt_base s"
  "pd_base (set_vte p i g s) = pd_base s" "pt_base (set_vte p i g s) = pt_base s" "vt_base (set_vte p i g s) = vt_base s"
  by (simp_all add: set_pde_def set_pte_def set_vte_def)

lemma fold_keeps: "(\<And>x s. g (f x s) = g s) \<Longrightarrow> g (fold f xs s) = g s"
  by (induction xs arbitrary: s) auto

lemma base_clear [simp]:
  "pd_base (clear_tables p s) = pd_base s" "pt_base (clear_tables p s) = pt_base s" "vt_base (clear_tables p s) = vt_base s"
  unfolding clear_tables_def by (simp_all add: fold_keeps)

definition dir_entry :: "u32 \<Rightarrow> u32 \<Rightarrow> nat \<Rightarrow> nat \<Rightarrow> page_directory_entry" where
  "dir_entry ptb vtb p i =
     (if i = 0 then blank_pde\<lparr>pd_present := True, pd_read_write := True, pd_user_supervisor := True,
                      pd_page_table_addr := ucast (drop_bit 12 (table_addr ptb p))\<rparr>
      else if i = 1 then blank_pde\<lparr>pd_present := True, pd_page_size := True, pd_global := True,
                      pd_page_table_addr := 0x400\<rparr>
      else if i = 32 then blank_pde\<lparr>pd_present := True, pd_page_size := True, pd_read_write := True,
                      pd_user_supervisor := True, pd_page_table_addr := of_nat (0x800 + p * 0x400)\<rparr>
      else if i = 33 then blank_pde\<lparr>pd_present := True, pd_read_write := True, pd_user_supervisor := True,
                      pd_page_table_addr := ucast (drop_bit 12 (table_addr vtb p))\<rparr>
      else blank_pde)"

definition screen_pte :: "nat \<Rightarrow> page_table_entry" where
  "screen_pte k = blank_pte\<lparr>pt_present := True, pt_read_write := True, pt_user_supervisor := True,
     pt_phys_page_addr := of_nat (0xB8 + 2 * k)\<rparr>"

lemma base_map_process [simp]:
  "pd_base (map_process p s) = pd_base s" "pt_base (map_process p s) = pt_base s" "vt_base (map_process p s) = vt_base s"
  by (simp_all add: map_process_def map_video_pages_def map_video_dirs_def map_program_def map_kernel_def
       upt_3 Let_def)

lemma map_process_dir:
  "page_directory (map_process p s) = (page_directory s)(p := (page_directory (map_process p s) p))"
  "(\<And>i. i < 1024 \<Longrightarrow> page_directory s p i = blank_pde) \<Longrightarrow> i < 1024 \<Longrightarrow>
     page_directory (map_process p s) p i = dir_entry (pt_base s) (vt_base s) p i"
  by (simp_all add: map_process_def map_video_pages_def map_video_dirs_def map_program_def map_kernel_def
       upt_3 Let_def dir_entry_def)

lemma map_process_pt:
  "page_table s p 0xB8 = blank_pte \<Longrightarrow>
   page_table (map_process p s) p = (page_table s p)(0xB8 := screen_pte (if p < 3 then p else 0))"
  by (simp add: map_process_def map_video_pages_def map_video_dirs_def map_program_def map_kernel_def
       upt_3 Let_def screen_pte_def)

lemma map_process_vt:
  "video_table s p = (\<lambda>_. blank_pte) \<Longrightarrow>
   video_table (map_process p s) = (video_table s)(p := (\<lambda>i. if i = 0xB8 then screen_pte 0 else
      if i = 0xBA then screen_pte 1 else if i = 0xBC then screen_pte 2 else blank_pte))"
  by (simp add: map_process_def map_video_pages_def map_video_dirs_def map_program_def map_kernel_def
       upt_3 Let_def screen_pte_def fun_eq_iff)


definition link_ok :: "'a machine_scheme \<Rightarrow> bool" where
  "link_ok s \<longleftrightarrow> aligned (pd_base s) \<and> aligned (pt_base s) \<and> aligned (vt_base s)
     \<and> unat (pt_base s) + 24576 \<le> 0x800000 \<and> unat (vt_base s) + 24576 \<le> 0x800000
     \<and> (unat (pt_base s) + 24576 \<le> unat (vt_base s) \<or> unat (vt_base s) + 24576 \<le> unat (pt_base s))"

definition paging_on :: "'a machine_scheme \<Rightarrow> bool" where
  "paging_on s \<longleftrightarrow> bit (cr0 s) 31 \<and> bit (cr4 s) 4"

definition tables_ok :: "'a machine_scheme \<Rightarrow> bool" where
  "tables_ok s \<longleftrightarrow>
     (\<forall>p<6. \<forall>i<1024. page_directory s p i = dir_entry (pt_base s) (vt_base s) p i)
   \<and> (\<forall>p<6. \<exists>k<3. page_table s p 0xB8 = screen_pte k)
   \<and> (\<forall>p<6. \<forall>i<1024. i \<noteq> 0xB8 \<longrightarrow> page_table s p i = blank_pte)
   \<and> (\<forall>p<6. \<forall>i<1024. video_table s p i = (if i = 0xB8 then screen_pte 0 else
        if i = 0xBA then screen_pte 1 else if i = 0xBC then screen_pte 2 else blank_pte))"

definition mmu_ok :: "'a machine_scheme \<Rightarrow> bool" where
  "mmu_ok s \<longleftrightarrow> link_ok s \<and> paging_on s \<and> tables_ok s"

lemma pd_addr_bits: "aligned (pd_base s) \<Longrightarrow> table_addr (pd_base s) p AND 0xFFFFF000 = table_addr (pd_base s) p"
  by (rule aligned_high [OF aligned_table_addr])

lemma current_dir_flush_tlb:
  "aligned (pd_base s) \<Longrightarrow> p < 6 \<Longrightarrow> current_dir (flush_tlb p s) = Some p"
proof -
  assume "aligned (pd_base s)" "p < 6"
  have "cr3 (flush_tlb p s) AND 0xFFFFF000
      = ((cr3 s AND 0xFFF) + (table_addr (pd_base s) p AND 0xFFFFF000)) AND 0xFFFFF000"
    by (simp add: flush_tlb_def Let_def)
  also have "\<dots> = table_addr (pd_base s) p AND 0xFFFFF000" by (rule high_add_low)
  also have "\<dots> = table_addr (pd_base s) p" by (rule pd_addr_bits) fact
  finally have "cr3 (flush_tlb p s) AND 0xFFFFF000 = table_addr (pd_base s) p" .
  moreover have "pd_base (flush_tlb p s) = pd_base s" by (simp add: flush_tlb_def Let_def)
  ultimately show ?thesis using \<open>p < 6\<close> by (simp only: current_dir_def find_table_self)
qed

lemma find_table_other:
  assumes "unat b + 24576 \<le> unat c \<or> unat c + 24576 \<le> unat b"
    "unat b + 24576 \<le> 0x800000" "unat c + 24576 \<le> 0x800000" "p < 6"
  shows "find_table b (table_addr c p) = None"
  unfolding find_table_def
proof (rule find_upt_none)
  fix j :: nat assume "j < 6"
  with assms have "unat (table_addr b j) = unat b + 4096 * j" "unat (table_addr c p) = unat c + 4096 * p"
    by (simp_all add: table_addr_def unat_add_of_nat del: of_nat_mult)
  with assms \<open>j < 6\<close> show "table_addr b j \<noteq> table_addr c p" by auto
qed

lemma walk_page_table:
  "link_ok s \<Longrightarrow> p < 6 \<Longrightarrow>
   walk_table s (ucast (drop_bit 12 (table_addr (pt_base s) p))) i = Some (page_table s p i)"
  by (simp add: walk_table_def link_ok_def aligned_frame aligned_table_addr find_table_self Let_def)

lemma walk_video_table:
  "link_ok s \<Longrightarrow> p < 6 \<Longrightarrow>
   walk_table s (ucast (drop_bit 12 (table_addr (vt_base s) p))) i = Some (video_table s p i)"
  by (auto simp add: walk_table_def link_ok_def aligned_frame aligned_table_addr find_table_self
      find_table_other Let_def)

lemma blank_fields [simp]:
  "\<not> pd_present blank_pde" "\<not> pd_page_size blank_pde" "\<not> pd_user_supervisor blank_pde" "\<not> pt_present blank_pte" "\<not> pt_user_supervisor blank_pte"
  by (simp_all add: blank_pde_def blank_pte_def pde_of_word_def pte_of_word_def)

lemma screen_pte_fields [simp]:
  "pt_present (screen_pte k)" "pt_user_supervisor (screen_pte k)" "pt_phys_page_addr (screen_pte k) = of_nat (0xB8 + 2 * k)"
  by (simp_all add: screen_pte_def)

lemma unat_of_nat_20: "n < 1048576 \<Longrightarrow> unat (of_nat n :: 20 word) = n"
  by (simp add: unat_of_nat)

lemma screen_page:
  assumes "k < 3"
  shows "small_page (of_nat (0xB8 + 2 * k)) va = of_nat (0xB8000 + 0x2000 * k + unat va mod 4096)"
proof -
  have "unat (of_nat (0xB8 + 2 * k) :: 20 word) = 0xB8 + 2 * k" using assms by (intro unat_of_nat_20) simp
  moreover have "(0xB8 + 2 * k) * 4096 = 0xB8000 + 0x2000 * k" by simp
  ultimately show ?thesis by (simp only: small_page_def)
qed

lemma program_frame: "big_page (of_nat (1024 * q)) va = of_nat (q * 4194304 + unat va mod 4194304)"
  if "q < 1024"
proof -
  have "unat (of_nat (1024 * q) :: 20 word) = 1024 * q" using that by (intro unat_of_nat_20) simp
  then have "unat (of_nat (1024 * q) :: 20 word) div 1024 = q" by (simp only: nonzero_mult_div_cancel_left)
  then show ?thesis by (simp only: big_page_def)
qed

lemma program_page:
  assumes "p < 6"
  shows "big_page (of_nat (0x800 + p * 0x400)) va = of_nat (0x800000 + 0x400000 * p + unat va mod 0x400000)"
proof -
  have "0x800 + p * 0x400 = 1024 * (2 + p)" "(2 + p) * 4194304 = 0x800000 + 0x400000 * p" by simp_all
  then show ?thesis using assms program_frame [of "2 + p" va] by (simp only:)
qed

text \<open>What every address of the kernel's address space is mapped to.\<close>

definition screen_of :: "'a machine_scheme \<Rightarrow> nat \<Rightarrow> nat" where
  "screen_of s p = (unat (pt_phys_page_addr (page_table s p 0xB8)) - 0xB8) div 2"

definition kernel_map :: "'a machine_scheme \<Rightarrow> nat \<Rightarrow> u32 \<Rightarrow> u32 option" where
  "kernel_map s p va =
     (let a = unat va in
      if 0x400000 \<le> a \<and> a < 0x800000 then Some va
      else if 0x8000000 \<le> a \<and> a < 0x8400000 then Some (of_nat (0x800000 + 0x400000 * p + (a - 0x8000000)))
      else if 0xB8000 \<le> a \<and> a < 0xB9000 then Some (of_nat (0xB8000 + 0x2000 * screen_of s p + (a - 0xB8000)))
      else if 0x84B8000 \<le> a \<and> a < 0x84B9000 then Some (of_nat (a - 0x8400000))
      else if 0x84BA000 \<le> a \<and> a < 0x84BB000 then Some (of_nat (a - 0x8400000))
      else if 0x84BC000 \<le> a \<and> a < 0x84BD000 then Some (of_nat (a - 0x8400000))
      else None)"

lemma screen_of_pte: "page_table s p 0xB8 = screen_pte k \<Longrightarrow> k < 3 \<Longrightarrow> screen_of s p = k"
  by (auto dest!: less_3_cases simp: screen_of_def)


lemma translate_walk:
  assumes "mmu_ok s" "current_dir s = Some p" "p < 6"
  shows "translate s va =
    (let i = unat va div 4194304; j = unat va div 4096 mod 1024 in
     if i = 1 then Some (big_page 0x400 va)
     else if i = 32 then Some (big_page (of_nat (0x800 + p * 0x400)) va)
     else if i = 0 then (if j = 0xB8 then Some (small_page (pt_phys_page_addr (page_table s p 0xB8)) va) else None)
     else if i = 33 then (if j = 0xB8 then Some (small_page 0xB8 va)
        else if j = 0xBA then Some (small_page 0xBA va)
        else if j = 0xBC then Some (small_page 0xBC va) else None)
     else None)"
proof -
  have i: "unat va div 4194304 < 1024"
    using unsigned_less [of va] by (simp add: div_less_iff_less_mult)
  have j: "unat va div 4096 mod 1024 < 1024" by simp
  from assms have link: "link_ok s" and on: "bit (cr0 s) 31" "bit (cr4 s) 4"
    and dirs: "\<And>i. i < 1024 \<Longrightarrow> page_directory s p i = dir_entry (pt_base s) (vt_base s) p i"
    and pt: "\<exists>k<3. page_table s p 0xB8 = screen_pte k" "\<And>i. i < 1024 \<Longrightarrow> i \<noteq> 0xB8 \<Longrightarrow> page_table s p i = blank_pte"
    and vt: "\<And>i. i < 1024 \<Longrightarrow> video_table s p i = (if i = 0xB8 then screen_pte 0 else
        if i = 0xBA then screen_pte 1 else if i = 0xBC then screen_pte 2 else blank_pte)"
    by (auto simp: mmu_ok_def paging_on_def tables_ok_def)
  note walk = walk_page_table [OF link assms(3)] walk_video_table [OF link assms(3)]
  show ?thesis
    using i j on pt(1) assms(2)
    by (auto simp: translate_def Let_def dirs dir_entry_def walk vt pt(2))
qed

lemma page_range:
  fixes a :: nat
  shows "(a div 4194304 = i \<and> a div 4096 mod 1024 = j) \<longleftrightarrow> (j < 1024 \<and> i * 4194304 + j * 4096 \<le> a \<and> a < i * 4194304 + j * 4096 + 4096)"
proof
  assume "a div 4194304 = i \<and> a div 4096 mod 1024 = j"
  moreover have "a div 4194304 = a div 4096 div 1024" by (simp add: div_mult2_eq [symmetric])
  moreover have "a div 4096 = a div 4096 div 1024 * 1024 + a div 4096 mod 1024" by simp
  moreover have "a = a div 4096 * 4096 + a mod 4096" "a mod 4096 < 4096" by simp_all
  ultimately show "j < 1024 \<and> i * 4194304 + j * 4096 \<le> a \<and> a < i * 4194304 + j * 4096 + 4096"
    by auto
next
  assume h: "j < 1024 \<and> i * 4194304 + j * 4096 \<le> a \<and> a < i * 4194304 + j * 4096 + 4096"
  then have d: "a div 4096 = i * 1024 + j" by (intro div_range) auto
  have "a div 4194304 = a div 4096 div 1024" by (simp add: div_mult2_eq [symmetric])
  with d h show "a div 4194304 = i \<and> a div 4096 mod 1024 = j" by simp
qed

section \<open>The address space of a process\<close>

lemma big_kernel: "unat va div 4194304 = 1 \<Longrightarrow> big_page 0x400 va = va"
proof -
  assume "unat va div 4194304 = 1"
  then have "4194304 + unat va mod 4194304 = unat va"
    using div_mult_mod_eq [of "unat va" 4194304] by simp
  then have "of_nat (4194304 + unat va mod 4194304) = va" by (simp only: word_unat_eq_iff) simp
  then show ?thesis by (simp add: big_page_def)
qed

lemma small_frame_eq: "small_page 0xB8 va = of_nat (0xB8000 + unat va mod 4096)"
  "small_page 0xBA va = of_nat (0xBA000 + unat va mod 4096)"
  "small_page 0xBC va = of_nat (0xBC000 + unat va mod 4096)"
  by (simp_all add: small_page_def)

theorem translate_kernel_map:
  assumes "mmu_ok s" "current_dir s = Some p" "p < 6"
  shows "translate s va = kernel_map s p va"
proof -
  let ?a = "unat va"
  have r: "?a div 4194304 = 1 \<longleftrightarrow> 0x400000 \<le> ?a \<and> ?a < 0x800000"
    "?a div 4194304 = 32 \<longleftrightarrow> 0x8000000 \<le> ?a \<and> ?a < 0x8400000"
    by (auto simp: div_range_iff)
  have q: "?a div 4194304 = 0 \<and> ?a div 4096 mod 1024 = 0xB8 \<longleftrightarrow> 0xB8000 \<le> ?a \<and> ?a < 0xB9000"
    "?a div 4194304 = 33 \<and> ?a div 4096 mod 1024 = 0xB8 \<longleftrightarrow> 0x84B8000 \<le> ?a \<and> ?a < 0x84B9000"
    "?a div 4194304 = 33 \<and> ?a div 4096 mod 1024 = 0xBA \<longleftrightarrow> 0x84BA000 \<le> ?a \<and> ?a < 0x84BB000"
    "?a div 4194304 = 33 \<and> ?a div 4096 mod 1024 = 0xBC \<longleftrightarrow> 0x84BC000 \<le> ?a \<and> ?a < 0x84BD000"
    by (simp_all add: page_range)
  obtain k where k: "k < 3" "page_table s p 0xB8 = screen_pte k"
    using assms by (auto simp: mmu_ok_def tables_ok_def)
  then have sk: "screen_of s p = k" by (simp add: screen_of_pte)
  have m: "0x8000000 \<le> ?a \<and> ?a < 0x8400000 \<Longrightarrow> ?a mod 0x400000 = ?a - 0x8000000"
    "0xB8000 \<le> ?a \<and> ?a < 0xB9000 \<Longrightarrow> ?a mod 4096 = ?a - 0xB8000"
    "0x84B8000 \<le> ?a \<and> ?a < 0x84B9000 \<Longrightarrow> ?a mod 4096 = ?a - 0x84B8000"
    "0x84BA000 \<le> ?a \<and> ?a < 0x84BB000 \<Longrightarrow> ?a mod 4096 = ?a - 0x84BA000"
    "0x84BC000 \<le> ?a \<and> ?a < 0x84BD000 \<Longrightarrow> ?a mod 4096 = ?a - 0x84BC000"
    using mod_range [of 32 "0x400000" ?a] mod_range [of "0xB8" 4096 ?a] mod_range [of "0x84B8" 4096 ?a]
      mod_range [of "0x84BA" 4096 ?a] mod_range [of "0x84BC" 4096 ?a] by simp_all
  have tw: "translate s va =
    (let i = ?a div 4194304; j = ?a div 4096 mod 1024 in
     if i = 1 then Some va
     else if i = 32 then Some (of_nat (0x800000 + 0x400000 * p + ?a mod 0x400000))
     else if i = 0 \<and> j = 0xB8 then Some (of_nat (0xB8000 + 0x2000 * k + ?a mod 4096))
     else if i = 33 \<and> j = 0xB8 then Some (of_nat (0xB8000 + ?a mod 4096))
     else if i = 33 \<and> j = 0xBA then Some (of_nat (0xBA000 + ?a mod 4096))
     else if i = 33 \<and> j = 0xBC then Some (of_nat (0xBC000 + ?a mod 4096))
     else None)"
    unfolding translate_walk [OF assms] Let_def k(2) screen_pte_fields screen_page [OF k(1)]
      program_page [OF assms(3)] small_frame_eq
    by (simp add: big_kernel)
  show ?thesis
    unfolding tw kernel_map_def Let_def r q sk
    by (auto simp: m)
qed


section \<open>What init\_paging builds\<close>

lemma base_fold_map [simp]:
  "pd_base (fold map_process ps s) = pd_base s" "pt_base (fold map_process ps s) = pt_base s" "vt_base (fold map_process ps s) = vt_base s"
  "pd_base (fold clear_tables ps s) = pd_base s" "pt_base (fold clear_tables ps s) = pt_base s" "vt_base (fold clear_tables ps s) = vt_base s"
  by (simp_all add: fold_keeps)

lemma clear_all:
  "p < 6 \<Longrightarrow> i < 1024 \<Longrightarrow> page_directory (fold clear_tables [0..<6] s) p i = blank_pde"
  "p < 6 \<Longrightarrow> i < 1024 \<Longrightarrow> page_table (fold clear_tables [0..<6] s) p i = blank_pte"
  "video_table (fold clear_tables [0..<6] s) = video_table s"
  by (auto simp: upt_6 dest!: less_6_cases)

text \<open>One process is mapped without touching what the others have.\<close>

lemma map_process_others:
  "p \<noteq> q \<Longrightarrow> page_directory (map_process q s) p = page_directory s p"
  "p \<noteq> q \<Longrightarrow> page_table (map_process q s) p = page_table s p"
  "p \<noteq> q \<Longrightarrow> video_table (map_process q s) p = video_table s p"
  by (simp_all add: map_process_def map_video_pages_def map_video_dirs_def map_program_def map_kernel_def
       upt_3 Let_def)

lemma map_all_others:
  "p \<notin> set qs \<Longrightarrow> page_directory (fold map_process qs s) p = page_directory s p"
  "p \<notin> set qs \<Longrightarrow> page_table (fold map_process qs s) p = page_table s p"
  "p \<notin> set qs \<Longrightarrow> video_table (fold map_process qs s) p = video_table s p"
  by (induction qs arbitrary: s) (auto simp: map_process_others)

lemma map_all_dir:
  assumes "p \<in> set qs" "distinct qs" "\<And>i. i < 1024 \<Longrightarrow> page_directory s p i = blank_pde" "i < 1024"
  shows "page_directory (fold map_process qs s) p i = dir_entry (pt_base s) (vt_base s) p i"
  using assms
proof (induction qs arbitrary: s)
  case (Cons q qs)
  show ?case
  proof (cases "p = q")
    case True
    with Cons.prems show ?thesis by (simp add: map_all_others map_process_dir(2))
  next
    case False
    then have "\<And>i. i < 1024 \<Longrightarrow> page_directory (map_process q s) p i = blank_pde"
      using Cons.prems by (simp add: map_process_others)
    with False Cons.IH [of "map_process q s"] Cons.prems show ?thesis by simp
  qed
qed simp

lemma map_all_pt:
  assumes "p \<in> set qs" "distinct qs" "page_table s p = (\<lambda>i. if i < 1024 then blank_pte else r i)"
  shows "page_table (fold map_process qs s) p =
    (\<lambda>i. if i = 0xB8 then screen_pte (if p < 3 then p else 0) else if i < 1024 then blank_pte else r i)"
  using assms
proof (induction qs arbitrary: s)
  case (Cons q qs)
  show ?case
  proof (cases "p = q")
    case True
    with Cons.prems show ?thesis
      by (simp add: map_all_others map_process_pt fun_eq_iff)
  next
    case False
    then have "page_table (map_process q s) p = (\<lambda>i. if i < 1024 then blank_pte else r i)"
      using Cons.prems by (simp add: map_process_others)
    with False Cons.IH [of "map_process q s"] Cons.prems show ?thesis by simp
  qed
qed simp

lemma map_all_vt:
  assumes "p \<in> set qs" "distinct qs" "video_table s p = (\<lambda>_. blank_pte)"
  shows "video_table (fold map_process qs s) p = (\<lambda>i. if i = 0xB8 then screen_pte 0 else
      if i = 0xBA then screen_pte 1 else if i = 0xBC then screen_pte 2 else blank_pte)"
  using assms
proof (induction qs arbitrary: s)
  case (Cons q qs)
  show ?case
  proof (cases "p = q")
    case True
    with Cons.prems show ?thesis by (simp add: map_all_others map_process_vt)
  next
    case False
    then have "video_table (map_process q s) p = (\<lambda>_. blank_pte)"
      using Cons.prems by (simp add: map_process_others)
    with False Cons.IH [of "map_process q s"] Cons.prems show ?thesis by simp
  qed
qed simp


lemma tables_ok_mapped:
  fixes s :: "'a machine_scheme"
  assumes "video_table s = (\<lambda>_ _. blank_pte)"
  shows "tables_ok (fold map_process [0..<6] (fold clear_tables [0..<6] s))"
    and "p < 6 \<Longrightarrow> screen_of (fold map_process [0..<6] (fold clear_tables [0..<6] s)) p = (if p < 3 then p else 0)"
proof -
  let ?c = "fold clear_tables [0..<6] s"
  let ?m = "fold map_process [0..<6] ?c"
  have dir: "page_directory ?m p i = dir_entry (pt_base s) (vt_base s) p i" if "p < 6" "i < 1024" for p i
    using map_all_dir [of p "[0..<6]" ?c i] that by (simp add: clear_all)
  have pt: "page_table ?m p = (\<lambda>i. if i = 0xB8 then screen_pte (if p < 3 then p else 0)
      else if i < 1024 then blank_pte else page_table ?c p i)" if "p < 6" for p
    using map_all_pt [of p "[0..<6]" ?c "page_table ?c p"] that by (simp add: clear_all fun_eq_iff)
  have vt: "video_table ?m p = (\<lambda>i. if i = 0xB8 then screen_pte 0 else
      if i = 0xBA then screen_pte 1 else if i = 0xBC then screen_pte 2 else blank_pte)" if "p < 6" for p
    using map_all_vt [of p "[0..<6]" ?c] that assms by (simp add: clear_all)
  show "tables_ok ?m"
    unfolding tables_ok_def base_fold_map
    using dir pt vt by (auto intro: exI [of _ "if p < 3 then p else 0" for p])
  show "p < 6 \<Longrightarrow> screen_of ?m p = (if p < 3 then p else 0)"
    by (rule screen_of_pte) (simp_all add: pt)
qed

lemma machine_fields_flush [simp]:
  "phys (flush_tlb p s) = phys s" "page_directory (flush_tlb p s) = page_directory s"
  "page_table (flush_tlb p s) = page_table s" "video_table (flush_tlb p s) = video_table s"
  "cr0 (flush_tlb p s) = cr0 s" "cr4 (flush_tlb p s) = cr4 s" "pd_base (flush_tlb p s) = pd_base s"
  "pt_base (flush_tlb p s) = pt_base s" "vt_base (flush_tlb p s) = vt_base s"
  "iflag (flush_tlb p s) = iflag s" "io_log (flush_tlb p s) = io_log s"
  by (simp_all add: flush_tlb_def Let_def)

lemma machine_fields_control [simp]:
  "phys (set_cr0 s) = phys s" "page_directory (set_cr0 s) = page_directory s"
  "page_table (set_cr0 s) = page_table s" "video_table (set_cr0 s) = video_table s"
  "cr3 (set_cr0 s) = cr3 s" "cr4 (set_cr0 s) = cr4 s" "pd_base (set_cr0 s) = pd_base s"
  "pt_base (set_cr0 s) = pt_base s" "vt_base (set_cr0 s) = vt_base s"
  "phys (set_pse s) = phys s" "page_directory (set_pse s) = page_directory s"
  "page_table (set_pse s) = page_table s" "video_table (set_pse s) = video_table s"
  "cr3 (set_pse s) = cr3 s" "cr0 (set_pse s) = cr0 s" "pd_base (set_pse s) = pd_base s"
  "pt_base (set_pse s) = pt_base s" "vt_base (set_pse s) = vt_base s"
  by (simp_all add: set_cr0_def set_pse_def)

lemma mmu_ok_flush [simp]: "mmu_ok (flush_tlb p s) = mmu_ok s"
  by (simp add: mmu_ok_def link_ok_def paging_on_def tables_ok_def)

lemma screen_of_flush [simp]: "screen_of (flush_tlb p s) q = screen_of s q"
  by (simp add: screen_of_def)

lemma control_bits: "bit (cr0 (set_cr0 s)) 31" "bit (cr4 (set_pse s)) 4"
  by (simp_all add: set_cr0_def set_pse_def bit_or_iff)

lemma current_dir_set_cr0 [simp]: "current_dir (set_cr0 s) = current_dir s"
  by (simp add: current_dir_def)

theorem init_paging_establishes:
  fixes s :: "'a machine_scheme"
  assumes "link_ok s" "video_table s = (\<lambda>_ _. blank_pte)"
  shows "mmu_ok (init_paging s) \<and> current_dir (init_paging s) = Some 0
    \<and> (\<forall>p<6. screen_of (init_paging s) p = (if p < 3 then p else 0))"
proof -
  let ?m = "fold map_process [0..<6] (fold clear_tables [0..<6] s)"
  have t: "tables_ok (init_paging s)" "\<And>p. p < 6 \<Longrightarrow> screen_of (init_paging s) p = (if p < 3 then p else 0)"
    using tables_ok_mapped [OF assms(2)] by (simp_all add: init_paging_def tables_ok_def screen_of_def)
  have "link_ok (init_paging s)" using assms(1) by (simp add: init_paging_def link_ok_def)
  moreover have "paging_on (init_paging s)"
    by (simp add: init_paging_def paging_on_def control_bits)
  moreover have "current_dir (init_paging s) = Some 0"
    using assms(1) by (simp add: init_paging_def link_ok_def current_dir_flush_tlb)
  ultimately show ?thesis using t by (simp add: mmu_ok_def)
qed

section \<open>What user code can reach\<close>

definition in_program :: "nat \<Rightarrow> u32 \<Rightarrow> bool" where
  "in_program p pa \<longleftrightarrow> 0x800000 + 0x400000 * p \<le> unat pa \<and> unat pa < 0xC00000 + 0x400000 * p"

definition in_screen :: "nat \<Rightarrow> u32 \<Rightarrow> bool" where
  "in_screen k pa \<longleftrightarrow> 0xB8000 + 0x2000 * k \<le> unat pa \<and> unat pa < 0xB9000 + 0x2000 * k"

lemma user_translate_sub: "user_translate s va = Some pa \<Longrightarrow> translate s va = Some pa"
  by (auto simp: user_translate_def translate_def Let_def split: if_splits option.splits)

lemma user_translate_no_kernel:
  assumes "mmu_ok s" "current_dir s = Some p" "p < 6" "user_translate s va = Some pa"
  shows "unat va div 4194304 \<noteq> 1"
proof
  assume i: "unat va div 4194304 = 1"
  have "page_directory s p 1 = dir_entry (pt_base s) (vt_base s) p 1"
    using assms by (simp add: mmu_ok_def tables_ok_def)
  then have "\<not> pd_user_supervisor (page_directory s p 1)" by (simp add: dir_entry_def)
  moreover have "bit (cr0 s) 31" using assms by (simp add: mmu_ok_def paging_on_def)
  ultimately show False using assms(2,4) i by (simp add: user_translate_def Let_def)
qed

lemma screen_of_less: "mmu_ok s \<Longrightarrow> p < 6 \<Longrightarrow> screen_of s p < 3"
  by (auto simp: mmu_ok_def tables_ok_def screen_of_pte)

lemma kernel_map_program:
  assumes "0x8000000 \<le> unat va" "unat va < 0x8400000" "p < 6" "kernel_map s p va = Some pa"
  shows "in_program p pa"
proof -
  have pa: "pa = of_nat (0x800000 + 0x400000 * p + (unat va - 0x8000000))"
    using assms by (simp add: kernel_map_def Let_def)
  have "0x800000 + 0x400000 * p + (unat va - 0x8000000) < 2 ^ 32" using assms(2,3) by simp
  then have "unat pa = 0x800000 + 0x400000 * p + (unat va - 0x8000000)"
    unfolding pa by (rule unat_of_nat_small)
  then show ?thesis using assms(1,2) unfolding in_program_def by linarith
qed

lemma kernel_map_video:
  assumes "\<not> (0x400000 \<le> unat va \<and> unat va < 0x800000)" "\<not> (0x8000000 \<le> unat va \<and> unat va < 0x8400000)"
    "screen_of s p < 3" "kernel_map s p va = Some pa"
  shows "\<exists>k<3. in_screen k pa"
proof -
  define a where "a = unat va"
  consider "0xB8000 \<le> a \<and> a < 0xB9000" "pa = of_nat (0xB8000 + 0x2000 * screen_of s p + (a - 0xB8000))"
    | "0x84B8000 \<le> a \<and> a < 0x84B9000 \<or> 0x84BA000 \<le> a \<and> a < 0x84BB000 \<or> 0x84BC000 \<le> a \<and> a < 0x84BD000"
      "pa = of_nat (a - 0x8400000)"
    using assms unfolding kernel_map_def Let_def a_def [symmetric] by (auto split: if_splits)
  then show ?thesis
  proof cases
    case 1
    have "0xB8000 + 0x2000 * screen_of s p + (a - 0xB8000) < 2 ^ 32" using 1(1) assms(3) by simp
    then have "unat pa = 0xB8000 + 0x2000 * screen_of s p + (a - 0xB8000)"
      unfolding 1(2) by (rule unat_of_nat_small)
    with 1 assms(3) show ?thesis by (auto simp: in_screen_def intro: exI [of _ "screen_of s p"])
  next
    case 2
    then have "a - 0x8400000 < 2 ^ 32" by auto
    then have pa: "unat pa = a - 0x8400000" unfolding 2(2) by (rule unat_of_nat_small)
    from 2(1) show ?thesis
    proof (elim disjE)
      assume "0x84B8000 \<le> a \<and> a < 0x84B9000" then show ?thesis using pa by (auto simp: in_screen_def intro: exI [of _ 0])
    next
      assume "0x84BA000 \<le> a \<and> a < 0x84BB000" then show ?thesis using pa by (auto simp: in_screen_def intro: exI [of _ 1])
    next
      assume "0x84BC000 \<le> a \<and> a < 0x84BD000" then show ?thesis using pa by (auto simp: in_screen_def intro: exI [of _ 2])
    qed
  qed
qed

theorem user_space_confined:
  assumes "mmu_ok s" "current_dir s = Some p" "p < 6" "user_translate s va = Some pa"
  shows "in_program p pa \<or> (\<exists>k<3. in_screen k pa)"
proof -
  have k: "kernel_map s p va = Some pa"
    using user_translate_sub [OF assms(4)] translate_kernel_map [OF assms(1-3)] by simp
  have "\<not> (0x400000 \<le> unat va \<and> unat va < 0x800000)"
    using user_translate_no_kernel [OF assms] by (simp add: div_range_iff)
  then show ?thesis
    using kernel_map_program [OF _ _ assms(3) k] kernel_map_video [OF _ _ screen_of_less [OF assms(1,3)] k]
    by blast
qed

lemma in_program_disjoint: "in_program p pa \<Longrightarrow> in_program q pa \<Longrightarrow> p = q"
  by (auto simp: in_program_def)

lemma in_screen_disjoint: "in_screen i pa \<Longrightarrow> in_screen j pa \<Longrightarrow> i = j"
  by (auto simp: in_screen_def)

lemma program_not_screen: "in_program p pa \<Longrightarrow> k < 3 \<Longrightarrow> \<not> in_screen k pa"
  by (auto simp: in_program_def in_screen_def)

definition user_store :: "u32 \<Rightarrow> u8 \<Rightarrow> 'a machine_scheme \<Rightarrow> 'a machine_scheme option" where
  "user_store va b s = map_option (\<lambda>pa. s\<lparr>phys := (phys s)(pa := b)\<rparr>) (user_translate s va)"

theorem user_store_isolated:
  assumes "mmu_ok s" "current_dir s = Some p" "p < 6" "user_store va b s = Some t"
    and "q \<noteq> p" "in_program q pa"
  shows "phys t pa = phys s pa"
proof -
  obtain pb where pb: "user_translate s va = Some pb" "t = s\<lparr>phys := (phys s)(pb := b)\<rparr>"
    using assms(4) by (auto simp: user_store_def)
  then have "pa \<noteq> pb"
    using user_space_confined [OF assms(1-3) pb(1)] assms(5,6) in_program_disjoint program_not_screen [OF assms(6)]
    by force
  with pb show ?thesis by simp
qed

text \<open>Translation at the addresses the kernel uses.\<close>

lemma translate_kernel [xlate_simps]:
  "mmu_ok s \<Longrightarrow> current_dir s = Some p \<Longrightarrow> p < 6 \<Longrightarrow> 0x400000 \<le> unat va \<Longrightarrow> unat va < 0x800000 \<Longrightarrow>
   translate s va = Some va"
  by (simp add: translate_kernel_map kernel_map_def Let_def)

lemma translate_screen [xlate_simps]:
  assumes "mmu_ok s" "current_dir s = Some p" "p < 6" "unat off < 4096"
  shows "translate s (0xB8000 + off) = Some (of_nat (0xB8000 + 0x2000 * screen_of s p + unat off))"
proof -
  have "unat (0xB8000 + off) = 0xB8000 + unat off"
    using assms(4) by (subst unat_add_exact) auto
  then show ?thesis using assms by (simp add: translate_kernel_map kernel_map_def Let_def)
qed

lemma translate_read_screen [xlate_simps]:
  assumes "mmu_ok s" "current_dir s = Some p" "p < 6" "unat off < 4096" "k < 3"
  shows "translate s (0x84B8000 + of_nat (0x2000 * k) + off) = Some (of_nat (0xB8000 + 0x2000 * k + unat off))"
proof -
  have "unat (0x84B8000 + of_nat (0x2000 * k) + off :: u32) = 0x84B8000 + 0x2000 * k + unat off"
    using assms(4,5) by (subst unat_add_exact, subst unat_add_of_nat; simp add: unat_add_of_nat del: of_nat_mult)+
  with assms less_3_cases [OF assms(5)] show ?thesis
    by (auto simp: translate_kernel_map kernel_map_def Let_def)
qed

lemma translate_program [xlate_simps]:
  assumes "mmu_ok s" "current_dir s = Some p" "p < 6" "0x8000000 \<le> unat va" "unat va < 0x8400000"
  shows "translate s va = Some (of_nat (0x800000 + 0x400000 * p + (unat va - 0x8000000)))"
  using assms by (simp add: translate_kernel_map kernel_map_def Let_def)


section \<open>Memory operations leave the tables alone\<close>

text \<open>\<open>mmu\<close> is the part of the state a translation depends on; every kernel operation but the
  remapping of a screen page in \<open>execute\<close> keeps it, up to CR3.\<close>

definition mmu where
  "mmu s = (page_directory s, page_table s, video_table s, cr0 s, cr3 s, cr4 s, pd_base s, pt_base s, vt_base s)"

lemma mmu_cong:
  assumes "mmu s = mmu t"
  shows "translate s = translate t" "user_translate s = user_translate t" "mmu_ok s = mmu_ok t"
    "current_dir s = current_dir t" "screen_of s = screen_of t"
proof -
  have e: "page_directory s = page_directory t" "page_table s = page_table t" "video_table s = video_table t"
    "cr0 s = cr0 t" "cr3 s = cr3 t" "cr4 s = cr4 t" "pd_base s = pd_base t" "pt_base s = pt_base t" "vt_base s = vt_base t"
    using assms by (simp_all add: mmu_def)
  have w: "walk_table s f i = walk_table t f i" for f i unfolding walk_table_def e ..
  show c: "current_dir s = current_dir t" by (simp add: current_dir_def e)
  show "translate s = translate t" unfolding translate_def [abs_def] c e w ..
  show "user_translate s = user_translate t" unfolding user_translate_def [abs_def] c e w ..
  show "mmu_ok s = mmu_ok t" unfolding mmu_ok_def link_ok_def paging_on_def tables_ok_def e ..
  show "screen_of s = screen_of t" unfolding screen_of_def [abs_def] e ..
qed

lemma translate_phys [simp]: "translate (s\<lparr>phys := x\<rparr>) = translate s"
  by (rule mmu_cong(1)) (simp add: mmu_def)

lemma mmu_io [simp]:
  "mmu (outb v port s) = mmu s" "mmu (snd (inb dev port s)) = mmu s" "mmu (cli s) = mmu s" "mmu (sti s) = mmu s"
  "mmu (s\<lparr>phys := x\<rparr>) = mmu s"
  by (simp_all add: mmu_def outb_def inb_def cli_def sti_def Let_def)

lemma st_mmu: "st a b s = Some t \<Longrightarrow> mmu t = mmu s"
  by (auto simp: st_def)

end
