(* ===== verification/Memlib.thy ===== *)
theory Memlib
  imports Paging
begin

text \<open>
  The memory and string routines of \<open>lib.c\<close>. The assembly bodies of \<open>memset\<close> and \<open>memcpy\<close> are
  transcribed block by block (byte loop up to alignment, \<open>rep\<close> on double words, byte tail), and
  shown equal to the byte-wise reference \<open>put_bytes\<close>. Character loops that run until a NUL are
  \<open>partial_function\<close>s: a string with no terminator in reach gives \<open>None\<close>. Buffers that are local
  arrays of the C code (\<open>conv_buf\<close> of \<open>printf\<close>) are byte lists, and an access outside one is \<open>None\<close>.
\<close>

section \<open>Byte sequences in memory\<close>

fun ld_bytes :: "'a machine_scheme \<Rightarrow> u32 \<Rightarrow> nat \<Rightarrow> u8 list option" where
  "ld_bytes s a 0 = Some []"
| "ld_bytes s a (Suc n) = do { b \<leftarrow> ld s a; bs \<leftarrow> ld_bytes s (a + 1) n; Some (b # bs) }"

fun put_bytes :: "u32 \<Rightarrow> u8 list \<Rightarrow> 'a machine_scheme \<Rightarrow> 'a machine_scheme option" where
  "put_bytes a [] s = Some s"
| "put_bytes a (b # bs) s = do { s' \<leftarrow> st a b s; put_bytes (a + 1) bs s' }"

section \<open>memset\<close>

function memset_top :: "u32 \<Rightarrow> u8 \<Rightarrow> u32 \<Rightarrow> 'a machine_scheme \<Rightarrow> (u32 \<times> u32 \<times> 'a machine_scheme) option" where
  "memset_top edi al ecx s =
     (if ecx = 0 \<or> edi AND 3 = 0 then Some (edi, ecx, s)
      else do { s' \<leftarrow> st edi al s; memset_top (edi + 1) al (ecx - 1) s' })"
  by pat_completeness auto
termination by (relation "measure (\<lambda>(_, _, ecx, _). unat ecx)") (auto simp: unat_minus_1_less)

definition st_dword :: "u32 \<Rightarrow> u32 \<Rightarrow> 'a machine_scheme \<Rightarrow> 'a machine_scheme option" where
  "st_dword a v s = put_bytes a [ucast v, ucast (drop_bit 8 v), ucast (drop_bit 16 v), ucast (drop_bit 24 v)] s"

function rep_stosl :: "u32 \<Rightarrow> u32 \<Rightarrow> u32 \<Rightarrow> 'a machine_scheme \<Rightarrow> (u32 \<times> 'a machine_scheme) option" where
  "rep_stosl edi eax ecx s =
     (if ecx = 0 then Some (edi, s)
      else do { s' \<leftarrow> st_dword edi eax s; rep_stosl (edi + 4) eax (ecx - 1) s' })"
  by pat_completeness auto
termination by (relation "measure (\<lambda>(_, _, ecx, _). unat ecx)") (auto simp: unat_minus_1_less)

function memset_bottom :: "u32 \<Rightarrow> u8 \<Rightarrow> u32 \<Rightarrow> 'a machine_scheme \<Rightarrow> 'a machine_scheme option" where
  "memset_bottom edi al edx s =
     (if edx = 0 then Some s
      else do { s' \<leftarrow> st edi al s; memset_bottom (edi + 1) al (edx - 1) s' })"
  by pat_completeness auto
termination by (relation "measure (\<lambda>(_, _, edx, _). unat edx)") (auto simp: unat_minus_1_less)

definition memset :: "u32 \<Rightarrow> u32 \<Rightarrow> u32 \<Rightarrow> 'a machine_scheme \<Rightarrow> 'a machine_scheme option" where
  "memset p c n s =
     (let c = c AND 0xFF; eax = push_bit 24 c OR push_bit 16 c OR push_bit 8 c OR c
      in do { (edi, ecx, s1) \<leftarrow> memset_top p (ucast eax) n s;
              if ecx = 0 then Some s1
              else do { (edi, s2) \<leftarrow> rep_stosl edi eax (drop_bit 2 ecx) s1;
                        memset_bottom edi (ucast eax) (ecx AND 3) s2 } })"

section \<open>memcpy\<close>

function memcpy_top ::
    "u32 \<Rightarrow> u32 \<Rightarrow> u32 \<Rightarrow> 'a machine_scheme \<Rightarrow> (u32 \<times> u32 \<times> u32 \<times> 'a machine_scheme) option" where
  "memcpy_top edi esi ecx s =
     (if ecx = 0 \<or> edi AND 3 = 0 then Some (edi, esi, ecx, s)
      else do { al \<leftarrow> ld s esi; s' \<leftarrow> st edi al s; memcpy_top (edi + 1) (esi + 1) (ecx - 1) s' })"
  by pat_completeness auto
termination by (relation "measure (\<lambda>(_, _, ecx, _). unat ecx)") (auto simp: unat_minus_1_less)

function rep_movsl :: "u32 \<Rightarrow> u32 \<Rightarrow> u32 \<Rightarrow> 'a machine_scheme \<Rightarrow> (u32 \<times> u32 \<times> 'a machine_scheme) option" where
  "rep_movsl edi esi ecx s =
     (if ecx = 0 then Some (edi, esi, s)
      else do { bs \<leftarrow> ld_bytes s esi 4; s' \<leftarrow> put_bytes edi bs s; rep_movsl (edi + 4) (esi + 4) (ecx - 1) s' })"
  by pat_completeness auto
termination by (relation "measure (\<lambda>(_, _, ecx, _). unat ecx)") (auto simp: unat_minus_1_less)

function memcpy_bottom :: "u32 \<Rightarrow> u32 \<Rightarrow> u32 \<Rightarrow> 'a machine_scheme \<Rightarrow> 'a machine_scheme option" where
  "memcpy_bottom edi esi edx s =
     (if edx = 0 then Some s
      else do { al \<leftarrow> ld s esi; s' \<leftarrow> st edi al s; memcpy_bottom (edi + 1) (esi + 1) (edx - 1) s' })"
  by pat_completeness auto
termination by (relation "measure (\<lambda>(_, _, edx, _). unat edx)") (auto simp: unat_minus_1_less)

definition memcpy :: "u32 \<Rightarrow> u32 \<Rightarrow> u32 \<Rightarrow> 'a machine_scheme \<Rightarrow> 'a machine_scheme option" where
  "memcpy dest src n s =
     do { (edi, esi, ecx, s1) \<leftarrow> memcpy_top dest src n s;
          if ecx = 0 then Some s1
          else do { (edi, esi, s2) \<leftarrow> rep_movsl edi esi (drop_bit 2 ecx) s1;
                    memcpy_bottom edi esi (ecx AND 3) s2 } }"

declare memset_top.simps [simp del] rep_stosl.simps [simp del] memset_bottom.simps [simp del]
  memcpy_top.simps [simp del] rep_movsl.simps [simp del] memcpy_bottom.simps [simp del]

section \<open>The routines as byte sequences\<close>


lemma ld_phys: "ld s a = Some b \<longleftrightarrow> (\<exists>pa. translate s a = Some pa \<and> phys s pa = b)"
  by (auto simp: ld_def)

lemma st_Some: "st a b s = Some t \<longleftrightarrow> (\<exists>pa. translate s a = Some pa \<and> t = s\<lparr>phys := (phys s)(pa := b)\<rparr>)"
  by (auto simp: st_def)

lemma st_translate: "st a b s = Some t \<Longrightarrow> translate t = translate s"
  by (auto simp: st_def)

lemma ld_st_same: "st a b s = Some t \<Longrightarrow> ld t a = Some b"
  by (auto simp: ld_def st_def)

lemma ld_st_other: "st a b s = Some t \<Longrightarrow> translate s c \<noteq> translate s a \<Longrightarrow> ld t c = ld s c"
  by (cases "translate s c") (auto simp: ld_def st_def)

text \<open>No byte of the destination is, physically, a byte of the source.\<close>

definition noalias :: "'a machine_scheme \<Rightarrow> u32 \<Rightarrow> u32 \<Rightarrow> nat \<Rightarrow> bool" where
  "noalias s d src n \<longleftrightarrow>
     (\<forall>i<n. \<forall>j<n. translate s (d + of_nat i) \<noteq> None \<longrightarrow> translate s (src + of_nat j) \<noteq> translate s (d + of_nat i))"

lemma ld_bytes_length: "ld_bytes s a n = Some bs \<Longrightarrow> length bs = n"
  by (induction n arbitrary: a bs) (auto simp: bind_Some_iff)

lemma ld_bytes_nth:
  "ld_bytes s a n = Some bs \<longleftrightarrow> length bs = n \<and> (\<forall>i<n. ld s (a + of_nat i) = Some (bs ! i))"
proof (induction n arbitrary: a bs)
  case (Suc n)
  show ?case
    by (cases bs) (auto simp: bind_Some_iff Suc forall_less_Suc_shift algebra_simps)
qed auto

lemma ld_bytes_st:
  assumes "ld_bytes s a n = Some bs" "st d b s = Some t" "\<And>i. i < n \<Longrightarrow> translate s (a + of_nat i) \<noteq> translate s d"
  shows "ld_bytes t a n = Some bs"
  using assms by (auto simp: ld_bytes_nth ld_st_other)

lemma ld_bytes_append:
  "ld_bytes s a (m + n) = do { xs \<leftarrow> ld_bytes s a m; ys \<leftarrow> ld_bytes s (a + of_nat m) n; Some (xs @ ys) }"
  by (induction m arbitrary: a) (auto simp: algebra_simps)

lemma put_bytes_append: "put_bytes a (xs @ ys) s = put_bytes a xs s \<bind> put_bytes (a + of_nat (length xs)) ys"
proof (induction xs arbitrary: a s)
  case (Cons x xs)
  then show ?case by (cases "st a x s") (auto simp: algebra_simps)
qed simp

lemma put_bytes_mmu: "put_bytes a bs s = Some t \<Longrightarrow> mmu t = mmu s"
  by (induction bs arbitrary: a s) (auto simp: bind_Some_iff dest: st_mmu)

lemma noalias_step:
  assumes "noalias s d src (Suc n)" "ld_bytes s src (Suc n) = Some (b # bs)" "st d b s = Some t"
  shows "ld_bytes t (src + 1) n = Some bs" "noalias t (d + 1) (src + 1) n"
proof -
  have "ld_bytes s (src + 1) n = Some bs" using assms(2) by (auto simp: bind_Some_iff)
  moreover have "translate s (src + 1 + of_nat i) \<noteq> translate s d" if "i < n" for i
    using assms(1) [unfolded noalias_def, rule_format, of 0 "Suc i"] assms(3) that
    by (auto simp: st_Some algebra_simps)
  ultimately show "ld_bytes t (src + 1) n = Some bs" using assms(3) by (auto intro: ld_bytes_st)
  show "noalias t (d + 1) (src + 1) n"
    unfolding noalias_def st_translate [OF assms(3)]
  proof (intro allI impI)
    fix i j assume "i < n" "j < n" "translate s (d + 1 + of_nat i) \<noteq> None"
    then show "translate s (src + 1 + of_nat j) \<noteq> translate s (d + 1 + of_nat i)"
      using assms(1) [unfolded noalias_def, rule_format, of "Suc i" "Suc j"] by (simp add: algebra_simps)
  qed
qed

lemma noalias_0 [simp]: "noalias s d src 0" by (simp add: noalias_def)

lemma ld_bytes_ConsD: "ld_bytes s a n = Some bs \<Longrightarrow> n \<noteq> 0 \<Longrightarrow> \<exists>b bs'. bs = b # bs' \<and> ld s a = Some b"
  by (cases n) (auto simp: bind_Some_iff)

lemma memcpy_top_put:
  assumes "ld_bytes s src (unat n) = Some bs" "noalias s d src (unat n)"
    and "\<And>d' src' n' s' bs'. ld_bytes s' src' (unat n') = Some bs' \<Longrightarrow> noalias s' d' src' (unat n') \<Longrightarrow>
           rest (d', src', n', s') = put_bytes d' bs' s'"
  shows "memcpy_top d src n s \<bind> rest = put_bytes d bs s"
  using assms(1,2)
proof (induction d src n s arbitrary: bs rule: memcpy_top.induct)
  case (1 d src n s)
  show ?case
  proof (cases "n = 0 \<or> d AND 3 = 0")
    case True
    then have "memcpy_top d src n s = Some (d, src, n, s)" by (subst memcpy_top.simps) simp
    then show ?thesis using assms(3) "1.prems" by simp
  next
    case False
    then obtain m where m: "unat n = Suc m" "unat (n - 1) = m"
      using unat_pred [of n] by blast
    obtain b bs' where bs: "bs = b # bs'" "ld s src = Some b"
      using ld_bytes_ConsD [OF "1.prems"(1)] m by auto
    show ?thesis
    proof (cases "st d b s")
      case None
      with False bs show ?thesis by (subst memcpy_top.simps) simp
    next
      case (Some t)
      have *: "ld_bytes t (src + 1) m = Some bs'" "noalias t (d + 1) (src + 1) m"
        using noalias_step [of s d src m b bs' t] "1.prems" m(1) bs(1) Some by auto
      have "memcpy_top (d + 1) (src + 1) (n - 1) t \<bind> rest = put_bytes (d + 1) bs' t"
        using "1.IH" [OF False bs(2) Some, of bs'] * m(2) by simp
      then show ?thesis using False bs Some by (subst memcpy_top.simps) simp
    qed
  qed
qed


lemma memcpy_bottom_put:
  assumes "ld_bytes s src (unat n) = Some bs" "noalias s d src (unat n)"
  shows "memcpy_bottom d src n s = put_bytes d bs s"
  using assms
proof (induction d src n s arbitrary: bs rule: memcpy_bottom.induct)
  case (1 d src n s)
  show ?case
  proof (cases "n = 0")
    case True
    with "1.prems" show ?thesis by (subst memcpy_bottom.simps) simp
  next
    case False
    then obtain m where m: "unat n = Suc m" "unat (n - 1) = m"
      using unat_pred [of n] by blast
    obtain b bs' where bs: "bs = b # bs'" "ld s src = Some b"
      using ld_bytes_ConsD [OF "1.prems"(1)] m by auto
    show ?thesis
    proof (cases "st d b s")
      case None
      with False bs show ?thesis by (subst memcpy_bottom.simps) simp
    next
      case (Some t)
      have *: "ld_bytes t (src + 1) m = Some bs'" "noalias t (d + 1) (src + 1) m"
        using noalias_step [of s d src m b bs' t] "1.prems" m(1) bs(1) Some by auto
      have "memcpy_bottom (d + 1) (src + 1) (n - 1) t = put_bytes (d + 1) bs' t"
        using "1.IH" [OF False bs(2) Some, of bs'] * m(2) by simp
      then show ?thesis using False bs Some by (subst memcpy_bottom.simps) simp
    qed
  qed
qed

text \<open>A block copied at once: what is left to copy is untouched.\<close>

lemma noalias_block:
  assumes "noalias s d src (k + n)" "ld_bytes s src (k + n) = Some (xs @ bs)" "length xs = k" "put_bytes d xs s = Some t"
  shows "ld_bytes t (src + of_nat k) n = Some bs \<and> noalias t (d + of_nat k) (src + of_nat k) n"
  using assms
proof (induction k arbitrary: s d src xs)
  case (Suc k)
  then obtain x xs' where x: "xs = x # xs'" "length xs' = k" by (cases xs) auto
  obtain u where u: "st d x s = Some u" "put_bytes (d + 1) xs' u = Some t"
    using Suc.prems(4) x by (auto simp: bind_Some_iff)
  have "ld_bytes u (src + 1) (k + n) = Some (xs' @ bs)" "noalias u (d + 1) (src + 1) (k + n)"
    using noalias_step [of s d src "k + n" x "xs' @ bs" u] Suc.prems(1,2) x u(1) by simp_all
  from Suc.IH [OF this(2,1) x(2) u(2)] show ?case by (simp add: algebra_simps)
qed simp

lemma rep_movsl_put:
  assumes "ld_bytes s src (4 * unat q + r) = Some bs" "noalias s d src (4 * unat q + r)"
    and "\<And>d' src' s' bs'. ld_bytes s' src' r = Some bs' \<Longrightarrow> noalias s' d' src' r \<Longrightarrow>
           rest (d', src', s') = put_bytes d' bs' s'"
  shows "rep_movsl d src q s \<bind> rest = put_bytes d bs s"
  using assms(1,2)
proof (induction d src q s arbitrary: bs rule: rep_movsl.induct)
  case (1 d src q s)
  show ?case
  proof (cases "q = 0")
    case True
    then have "rep_movsl d src q s = Some (d, src, s)" by (subst rep_movsl.simps) simp
    then show ?thesis using assms(3) "1.prems" True by simp
  next
    case False
    then obtain m where m: "unat q = Suc m" "unat (q - 1) = m" using unat_pred [of q] by blast
    then have len: "4 * unat q + r = 4 + (4 * m + r)" by simp
    obtain xs ys where xy: "ld_bytes s src 4 = Some xs" "ld_bytes s (src + of_nat 4) (4 * m + r) = Some ys" "bs = xs @ ys"
      using "1.prems"(1) unfolding len ld_bytes_append by (auto simp: bind_Some_iff)
    have l4: "length xs = 4" using ld_bytes_length [OF xy(1)] .
    show ?thesis
    proof (cases "put_bytes d xs s")
      case None
      with False xy l4 show ?thesis by (subst rep_movsl.simps) (simp add: put_bytes_append)
    next
      case (Some t)
      have "ld_bytes t (src + of_nat 4) (4 * m + r) = Some ys \<and> noalias t (d + of_nat 4) (src + of_nat 4) (4 * m + r)"
        using noalias_block [of s d src 4 "4 * m + r" xs ys t] "1.prems" len xy(3) l4 Some by simp
      then have "rep_movsl (d + 4) (src + 4) (q - 1) t \<bind> rest = put_bytes (d + 4) ys t"
        using "1.IH" [OF False xy(1) Some, of ys] m(2) by simp
      then show ?thesis using False xy l4 Some by (subst rep_movsl.simps) (simp add: put_bytes_append)
    qed
  qed
qed

lemma dword_split: "unat (n :: u32) = 4 * unat (drop_bit 2 n) + unat (n AND 3)"
proof -
  have "unat (drop_bit 2 n) = unat n div 4" by (simp add: drop_bit_eq_div unat_div)
  moreover have "n AND 3 = take_bit 2 n" by (simp add: take_bit_eq_mask mask_eq_exp_minus_1)
  then have "unat (n AND 3) = unat n mod 4" by (simp add: take_bit_eq_mod unat_mod)
  ultimately show ?thesis by simp
qed

theorem memcpy_put_bytes:
  fixes s :: "'a machine_scheme"
  assumes "ld_bytes s src (unat n) = Some bs" "noalias s d src (unat n)"
  shows "memcpy d src n s = put_bytes d bs s"
  unfolding memcpy_def
proof (rule memcpy_top_put [OF assms])
  fix d' src' n' :: u32 and s' :: "'a machine_scheme" and bs'
  assume h: "ld_bytes s' src' (unat n') = Some bs'" "noalias s' d' src' (unat n')"
  show "(case (d', src', n', s') of (edi, esi, ecx, s1) \<Rightarrow>
          if ecx = 0 then Some s1
          else rep_movsl edi esi (drop_bit 2 ecx) s1 \<bind> (\<lambda>(edi, esi, s2). memcpy_bottom edi esi (ecx AND 3) s2)) =
        put_bytes d' bs' s'"
  proof (cases "n' = 0")
    case False
    then show ?thesis
      using rep_movsl_put [of s' src' "drop_bit 2 n'" "unat (n' AND 3)" bs' d'
        "\<lambda>(edi, esi, s2). memcpy_bottom edi esi (n' AND 3) s2"] h
      by (simp add: memcpy_bottom_put flip: dword_split)
  qed (use h in simp)
qed


section \<open>memset is the byte-wise fill\<close>

lemma memset_top_put:
  fixes s :: "'a machine_scheme" and rest :: "u32 \<times> u32 \<times> 'a machine_scheme \<Rightarrow> 'a machine_scheme option"
  assumes "\<And>d' n' s'. rest (d', n', s') = put_bytes d' (replicate (unat n') b) s'"
  shows "memset_top d b n s \<bind> rest = put_bytes d (replicate (unat n) b) s"
proof (induction "unat n" arbitrary: d n s)
  case 0
  then have "n = 0" by (simp add: unat_eq_0)
  then show ?case using assms by (simp add: memset_top.simps)
next
  case (Suc k)
  then have n: "n \<noteq> 0" by auto
  then have k: "k = unat (n - 1)" using Suc.hyps(2) unat_pred [of n] by simp
  show ?case
  proof (cases "d AND 3 = 0")
    case True
    then have "memset_top d b n s = Some (d, n, s)" by (subst memset_top.simps) simp
    then show ?thesis using assms by simp
  next
    case False
    with n have step: "memset_top d b n s = st d b s \<bind> (\<lambda>s'. memset_top (d + 1) b (n - 1) s')"
      by (subst memset_top.simps) simp
    show ?thesis
      unfolding step Suc.hyps(2) [symmetric]
      by (cases "st d b s") (simp_all add: Suc.hyps(1) [OF k] k)
  qed
qed

lemma memset_bottom_put: "memset_bottom d b n s = put_bytes d (replicate (unat n) b) s"
proof (induction d b n s rule: memset_bottom.induct)
  case (1 d b n s)
  show ?case
  proof (cases "n = 0")
    case False
    then have "unat n = Suc (unat (n - 1))" using unat_pred [of n] by blast
    with False "1.IH" show ?thesis
      by (cases "st d b s") (subst memset_bottom.simps, simp)+
  qed (simp add: memset_bottom.simps)
qed

lemma rep_stosl_put:
  fixes s :: "'a machine_scheme" and rest :: "u32 \<times> 'a machine_scheme \<Rightarrow> 'a machine_scheme option"
  assumes rest: "\<And>d' s'. rest (d', s') = put_bytes d' (replicate r b) s'"
    and v: "[ucast v, ucast (drop_bit 8 v), ucast (drop_bit 16 v), ucast (drop_bit 24 v)] = replicate 4 b"
  shows "rep_stosl d v q s \<bind> rest = put_bytes d (replicate (4 * unat q + r) b) s"
proof (induction "unat q" arbitrary: d q s)
  case 0
  then have "q = 0" by (simp add: unat_eq_0)
  then show ?case using rest by (simp add: rep_stosl.simps)
next
  case (Suc k)
  then have q: "q \<noteq> 0" by auto
  then have k: "k = unat (q - 1)" using Suc.hyps(2) unat_pred [of q] by simp
  have len: "replicate (4 * unat q + r) b = replicate 4 b @ replicate (4 * unat (q - 1) + r) b"
    unfolding Suc.hyps(2) [symmetric] k [symmetric] by (simp flip: replicate_add)
  have step: "rep_stosl d v q s = st_dword d v s \<bind> (\<lambda>s'. rep_stosl (d + 4) v (q - 1) s')"
    by (subst rep_stosl.simps) (simp add: q)
  show ?case
    unfolding step len put_bytes_append st_dword_def v
    by (cases "put_bytes d (replicate 4 b) s") (simp_all add: Suc.hyps(1) [OF k])
qed


lemma memset_word_split:
  assumes "c = (x::u32) AND 0xFF"
  shows "ucast (push_bit 24 c OR push_bit 16 c OR push_bit 8 c OR c) = (ucast x :: u8)"
    "ucast (drop_bit 8 (push_bit 24 c OR push_bit 16 c OR push_bit 8 c OR c)) = (ucast x :: u8)"
    "ucast (drop_bit 16 (push_bit 24 c OR push_bit 16 c OR push_bit 8 c OR c)) = (ucast x :: u8)"
    "ucast (drop_bit 24 (push_bit 24 c OR push_bit 16 c OR push_bit 8 c OR c)) = (ucast x :: u8)"
proof -
  have "(0xFF :: u32) = mask 8" by (simp add: mask_eq_exp_minus_1)
  then have "c = take_bit 8 x" unfolding assms by (simp only: take_bit_eq_mask)
  then have bit8: "bit c k = (k < 8 \<and> bit x k)" for k by (simp add: bit_simps)
  show "ucast (push_bit 24 c OR push_bit 16 c OR push_bit 8 c OR c) = (ucast x :: u8)"
    "ucast (drop_bit 8 (push_bit 24 c OR push_bit 16 c OR push_bit 8 c OR c)) = (ucast x :: u8)"
    "ucast (drop_bit 16 (push_bit 24 c OR push_bit 16 c OR push_bit 8 c OR c)) = (ucast x :: u8)"
    "ucast (drop_bit 24 (push_bit 24 c OR push_bit 16 c OR push_bit 8 c OR c)) = (ucast x :: u8)"
    by (rule bit_word_eqI; auto simp: bit_simps bit8)+
qed

lemma dword_count: "4 * unat (drop_bit 2 (n::u32)) + unat (n AND 3) = unat n"
proof -
  have "(3 :: u32) = mask 2" by (simp add: mask_eq_exp_minus_1)
  then have "n AND 3 = take_bit 2 n" by (simp only: take_bit_eq_mask)
  then have "unat (n AND 3) = unat n mod 4" by (simp only: unsigned_take_bit_eq) (simp add: take_bit_eq_mod)
  moreover have "unat (drop_bit 2 n) = unat n div 4" by (simp add: drop_bit_eq_div unat_div)
  ultimately show ?thesis by simp
qed

lemma memset_tail:
  fixes s :: "'a machine_scheme"
  assumes "[ucast e, ucast (drop_bit 8 e), ucast (drop_bit 16 e), ucast (drop_bit 24 e)] = replicate 4 b"
    and "ucast e = b"
  shows "rep_stosl d e (drop_bit 2 n) s \<bind> (\<lambda>(edi, s2). memset_bottom edi b (n AND 3) s2)
    = put_bytes d (replicate (unat n) b) s"
  unfolding dword_count [of n, symmetric]
  by (rule rep_stosl_put) (simp_all only: memset_bottom_put split assms(1))

theorem memset_put_bytes: "memset p c n s = put_bytes p (replicate (unat n) (ucast c)) s"
proof -
  define e where "e = push_bit 24 (c AND 0xFF) OR push_bit 16 (c AND 0xFF) OR push_bit 8 (c AND 0xFF) OR (c AND 0xFF)"
  note sp = memset_word_split [OF refl, of c, folded e_def]
  have four: "[ucast e, ucast (drop_bit 8 e), ucast (drop_bit 16 e), ucast (drop_bit 24 e)] = replicate 4 (ucast c :: u8)"
    unfolding sp by (simp add: numeral_eq_Suc)
  show ?thesis
    unfolding memset_def Let_def e_def [symmetric] sp(1)
  proof (rule memset_top_put)
    fix d n' :: u32 and s' :: "'a machine_scheme"
    show "(case (d, n', s') of (edi, ecx, s1) \<Rightarrow> if ecx = 0 then Some s1
        else rep_stosl edi e (drop_bit 2 ecx) s1 \<bind> (\<lambda>(edi, s2). memset_bottom edi (ucast c) (ecx AND 3) s2))
      = put_bytes d (replicate (unat n') (ucast c)) s'"
      using memset_tail [OF four sp(1), of d n' s'] by simp
  qed
qed

section \<open>memset_word, memset_dword and memmove\<close>

function rep_stosw :: "u32 \<Rightarrow> u32 \<Rightarrow> u32 \<Rightarrow> 'a machine_scheme \<Rightarrow> 'a machine_scheme option" where
  "rep_stosw edi eax ecx s =
     (if ecx = 0 then Some s
      else do { s' \<leftarrow> put_bytes edi [ucast eax, ucast (drop_bit 8 eax)] s; rep_stosw (edi + 2) eax (ecx - 1) s' })"
  by pat_completeness auto
termination by (relation "measure (\<lambda>(_, _, ecx, _). unat ecx)") (auto simp: unat_minus_1_less)

definition memset_word :: "u32 \<Rightarrow> u32 \<Rightarrow> u32 \<Rightarrow> 'a machine_scheme \<Rightarrow> 'a machine_scheme option" where
  "memset_word p c n s = rep_stosw p c n s"

definition memset_dword :: "u32 \<Rightarrow> u32 \<Rightarrow> u32 \<Rightarrow> 'a machine_scheme \<Rightarrow> 'a machine_scheme option" where
  "memset_dword p c n s = map_option snd (rep_stosl p c n s)"

text \<open>\<open>rep movsb\<close> moves by \<open>step\<close>, which is 1 after \<open>cld\<close> and -1 after \<open>std\<close>.\<close>

function rep_movsb :: "u32 \<Rightarrow> u32 \<Rightarrow> u32 \<Rightarrow> u32 \<Rightarrow> 'a machine_scheme \<Rightarrow> 'a machine_scheme option" where
  "rep_movsb step edi esi ecx s =
     (if ecx = 0 then Some s
      else do { al \<leftarrow> ld s esi; s' \<leftarrow> st edi al s; rep_movsb step (edi + step) (esi + step) (ecx - 1) s' })"
  by pat_completeness auto
termination by (relation "measure (\<lambda>(_, _, _, ecx, _). unat ecx)") (auto simp: unat_minus_1_less)

text \<open>The first component of the result is the direction flag the routine leaves behind.\<close>

definition memmove :: "u32 \<Rightarrow> u32 \<Rightarrow> u32 \<Rightarrow> 'a machine_scheme \<Rightarrow> (bool \<times> 'a machine_scheme) option" where
  "memmove dest src n s =
     (if dest \<le> src then map_option (Pair False) (rep_movsb 1 dest src n s)
      else map_option (Pair True) (rep_movsb (-1) (dest + n - 1) (src + n - 1) n s))"

declare rep_stosw.simps [simp del] rep_movsb.simps [simp del]

text \<open>Different addresses of \<open>A\<close> that are mapped at all are different bytes of physical memory.\<close>

definition unshared :: "'a machine_scheme \<Rightarrow> u32 set \<Rightarrow> bool" where
  "unshared s A \<longleftrightarrow> (\<forall>a\<in>A. \<forall>b\<in>A. a \<noteq> b \<longrightarrow> translate s a \<noteq> None \<longrightarrow> translate s a \<noteq> translate s b)"

definition span :: "u32 \<Rightarrow> nat \<Rightarrow> u32 set" where
  "span a n = {a + of_nat i | i. i < n}"

lemma unshared_subset: "unshared s A \<Longrightarrow> B \<subseteq> A \<Longrightarrow> unshared s B"
  unfolding unshared_def by blast

lemma unshared_st: "unshared s A \<Longrightarrow> st a b s = Some t \<Longrightarrow> unshared t A"
  by (simp add: unshared_def st_translate)

lemma unsharedD: "unshared s A \<Longrightarrow> a \<in> A \<Longrightarrow> b \<in> A \<Longrightarrow> a \<noteq> b \<Longrightarrow> translate s a \<noteq> None \<Longrightarrow> translate s b \<noteq> translate s a"
  unfolding unshared_def by metis

lemma spanI: "i < n \<Longrightarrow> a + of_nat i \<in> span a n"
  unfolding span_def by blast

lemma span_Suc: "span a (Suc n) = insert a (span (a + 1) n)" "span a (Suc n) = insert (a + of_nat n) (span a n)"
proof -
  have "{..<Suc n} = insert 0 (Suc ` {..<n})" by (rule lessThan_Suc_eq_insert_0)
  moreover have img: "span a n = (\<lambda>i. a + of_nat i) ` {..<n}" for a n unfolding span_def by auto
  ultimately show "span a (Suc n) = insert a (span (a + 1) n)"
    by (simp only: img image_insert image_image) (simp add: algebra_simps)
  show "span a (Suc n) = insert (a + of_nat n) (span a n)"
    by (simp add: img lessThan_Suc)
qed

lemma st_commute:
  assumes "translate s a \<noteq> None \<Longrightarrow> translate s a' \<noteq> translate s a"
  shows "st a b s \<bind> st a' b' = st a' b' s \<bind> st a b"
  using assms unfolding st_def
  by (cases "translate s a"; cases "translate s a'") (auto simp: fun_upd_twist)

lemma put_bytes_snoc:
  assumes "unshared s (span a (Suc (length bs)))" "length bs < 2 ^ 32"
  shows "put_bytes a (bs @ [b]) s = st (a + of_nat (length bs)) b s \<bind> put_bytes a bs"
  using assms
proof (induction bs arbitrary: a s)
  case Nil
  then show ?case by (cases "st a b s") simp_all
next
  case (Cons c bs)
  let ?e = "a + of_nat (length (c # bs))"
  have e: "a + 1 + of_nat (length bs) = ?e" by (simp add: algebra_simps)
  have ne: "?e \<noteq> a"
  proof
    assume "?e = a"
    then have "a + of_nat (length (c # bs)) = a + of_nat 0" by simp
    then show False using word_add_of_nat_inj [of "length (c # bs)" 0 a] Cons.prems(2) by simp
  qed
  have comm: "st a c s \<bind> st ?e b = st ?e b s \<bind> st a c"
  proof (rule st_commute)
    assume "translate s a \<noteq> None"
    then show "translate s ?e \<noteq> translate s a"
      using unsharedD [OF Cons.prems(1), of a ?e] ne spanI [of 0 "Suc (length (c # bs))" a]
        spanI [of "length (c # bs)" "Suc (length (c # bs))" a] by simp
  qed
  have IH: "put_bytes (a + 1) (bs @ [b]) t = st ?e b t \<bind> put_bytes (a + 1) bs" if "st a c s = Some t" for t
    using Cons.IH [of t "a + 1"] unshared_st [OF unshared_subset [OF Cons.prems(1)] that, of "span (a + 1) (Suc (length bs))"]
      span_Suc(1) [of a "Suc (length bs)"] subset_insertI Cons.prems(2) by (simp add: e [symmetric] subset_insertI add.assoc [symmetric])
  have "put_bytes a ((c # bs) @ [b]) s = st a c s \<bind> st ?e b \<bind> put_bytes (a + 1) bs"
    using IH by (cases "st a c s") (simp_all del: of_nat_Suc)
  also have "\<dots> = st ?e b s \<bind> put_bytes a (c # bs)"
    unfolding comm by (cases "st ?e b s") (simp_all del: of_nat_Suc)
  finally show ?case .
qed

lemma rep_movsb_up:
  assumes "ld_bytes s src (unat n) = Some bs"
    and "\<forall>i<unat n. \<forall>j<unat n. i < j \<longrightarrow> translate s (d + of_nat i) \<noteq> None \<longrightarrow>
           translate s (src + of_nat j) \<noteq> translate s (d + of_nat i)"
  shows "rep_movsb 1 d src n s = put_bytes d bs s"
  using assms
proof (induction "unat n" arbitrary: d src n s bs)
  case 0
  then have "n = 0" by (simp add: unat_eq_0)
  then show ?case using 0 by (simp add: rep_movsb.simps)
next
  case (Suc k)
  then have n: "n \<noteq> 0" by auto
  then have k: "k = unat (n - 1)" using Suc.hyps(2) unat_pred [of n] by simp
  obtain b bs' where bs: "bs = b # bs'" "ld s src = Some b" "ld_bytes s (src + 1) k = Some bs'"
    using Suc.prems(1) unfolding Suc.hyps(2) [symmetric] by (auto simp: bind_Some_iff)
  have step: "rep_movsb 1 d src n s = st d b s \<bind> rep_movsb 1 (d + 1) (src + 1) (n - 1)"
    using n bs(2) by (subst rep_movsb.simps) simp
  have "rep_movsb 1 (d + 1) (src + 1) (n - 1) t = put_bytes (d + 1) bs' t" if t: "st d b s = Some t" for t
  proof (rule Suc.hyps(1) [OF k])
    show "ld_bytes t (src + 1) (unat (n - 1)) = Some bs'"
      unfolding k [symmetric]
    proof (rule ld_bytes_st [OF bs(3) t])
      fix i assume "i < k"
      then show "translate s (src + 1 + of_nat i) \<noteq> translate s d"
        using Suc.prems(2) [rule_format, of 0 "Suc i"] t Suc.hyps(2) [symmetric] by (auto simp: st_Some algebra_simps)
    qed
    show "\<forall>i<unat (n - 1). \<forall>j<unat (n - 1). i < j \<longrightarrow> translate t (d + 1 + of_nat i) \<noteq> None \<longrightarrow>
        translate t (src + 1 + of_nat j) \<noteq> translate t (d + 1 + of_nat i)"
      unfolding st_translate [OF t] k [symmetric]
    proof (intro allI impI)
      fix i j assume "i < k" "j < k" "i < j" "translate s (d + 1 + of_nat i) \<noteq> None"
      then show "translate s (src + 1 + of_nat j) \<noteq> translate s (d + 1 + of_nat i)"
        using Suc.prems(2) [rule_format, of "Suc i" "Suc j"] Suc.hyps(2) [symmetric] by (simp add: algebra_simps)
    qed
  qed
  then show ?case unfolding step bs(1) by (cases "st d b s") simp_all
qed

lemma rep_movsb_down:
  assumes "ld_bytes s src (unat n) = Some bs" "unshared s (span d (unat n))"
    and "\<forall>i<unat n. \<forall>j<unat n. j < i \<longrightarrow> translate s (d + of_nat i) \<noteq> None \<longrightarrow>
           translate s (src + of_nat j) \<noteq> translate s (d + of_nat i)"
  shows "rep_movsb (-1) (d + n - 1) (src + n - 1) n s = put_bytes d bs s"
  using assms
proof (induction "unat n" arbitrary: n s bs)
  case 0
  then have "n = 0" by (simp add: unat_eq_0)
  then show ?case using 0 by (simp add: rep_movsb.simps)
next
  case (Suc k)
  then have n: "n \<noteq> 0" by auto
  then have k: "k = unat (n - 1)" using Suc.hyps(2) unat_pred [of n] by simp
  have nk: "of_nat k = n - 1" unfolding k by simp
  have k1: "unat n = k + 1" using Suc.hyps(2) by simp
  obtain bs' b where bs: "bs = bs' @ [b]" "ld_bytes s src k = Some bs'" "ld s (src + (n - 1)) = Some b"
    using Suc.prems(1) unfolding k1 ld_bytes_append nk by (auto simp: bind_Some_iff)
  have len: "length bs' = k" using ld_bytes_length [OF bs(2)] .
  have step: "rep_movsb (-1) (d + n - 1) (src + n - 1) n s
      = st (d + (n - 1)) b s \<bind> rep_movsb (-1) (d + (n - 1) - 1) (src + (n - 1) - 1) (n - 1)"
    using n bs(3) by (subst rep_movsb.simps) (simp add: algebra_simps)
  have "rep_movsb (-1) (d + (n - 1) - 1) (src + (n - 1) - 1) (n - 1) t = put_bytes d bs' t"
    if t: "st (d + (n - 1)) b s = Some t" for t
  proof (rule Suc.hyps(1) [OF k])
    show "ld_bytes t src (unat (n - 1)) = Some bs'"
      unfolding k [symmetric]
    proof (rule ld_bytes_st [OF bs(2) t])
      fix i assume "i < k"
      then show "translate s (src + of_nat i) \<noteq> translate s (d + (n - 1))"
        using Suc.prems(3) [rule_format, of k i] t Suc.hyps(2) [symmetric] nk by (auto simp: st_Some)
    qed
    have "span d k \<subseteq> span d (Suc k)" unfolding span_def by auto
    then show "unshared t (span d (unat (n - 1)))"
      using unshared_st [OF unshared_subset [OF Suc.prems(2)] t] Suc.hyps(2) k by simp
    show "\<forall>i<unat (n - 1). \<forall>j<unat (n - 1). j < i \<longrightarrow> translate t (d + of_nat i) \<noteq> None \<longrightarrow>
        translate t (src + of_nat j) \<noteq> translate t (d + of_nat i)"
      unfolding st_translate [OF t] k [symmetric]
    proof (intro allI impI)
      fix i j assume "i < k" "j < k" "j < i" "translate s (d + of_nat i) \<noteq> None"
      then show "translate s (src + of_nat j) \<noteq> translate s (d + of_nat i)"
        using Suc.prems(3) [rule_format, of i j] Suc.hyps(2) [symmetric] by simp
    qed
  qed
  then have "rep_movsb (-1) (d + n - 1) (src + n - 1) n s = st (d + (n - 1)) b s \<bind> put_bytes d bs'"
    unfolding step by (cases "st (d + (n - 1)) b s") simp_all
  also have "\<dots> = put_bytes d bs s"
    unfolding bs(1)
  proof (subst put_bytes_snoc)
    show "unshared s (span d (Suc (length bs')))" using Suc.prems(2) len Suc.hyps(2) by simp
    show "length bs' < 2 ^ 32" using len k unsigned_less [of "n - 1", where ?'a = nat] by simp
  qed (simp add: len nk)
  finally show ?case .
qed

theorem memmove_put_bytes:
  assumes src: "ld_bytes s src (unat n) = Some bs"
    and wrap: "unat d + unat n \<le> 2 ^ 32" "unat src + unat n \<le> 2 ^ 32"
    and shared: "unshared s (span d (unat n) \<union> span src (unat n))"
  shows "memmove d src n s = map_option (Pair (src < d)) (put_bytes d bs s)"
proof -
  have off: "unat (a + of_nat i) = unat a + i" if "unat a + unat n \<le> 2 ^ 32" "i < unat n" for a :: u32 and i
    by (rule unat_add_of_nat) (use that in simp)
  have apart: "translate s (src + of_nat j) \<noteq> translate s (d + of_nat i)"
    if "i < unat n" "j < unat n" "unat src + j \<noteq> unat d + i" "translate s (d + of_nat i) \<noteq> None" for i j
  proof (rule unsharedD [OF shared])
    show "d + of_nat i \<noteq> src + of_nat j"
      using off [OF wrap(1) that(1)] off [OF wrap(2) that(2)] that(3) by metis
  qed (use that in \<open>auto intro: spanI\<close>)
  show ?thesis
  proof (cases "d \<le> src")
    case True
    then have "rep_movsb 1 d src n s = put_bytes d bs s"
      using apart by (intro rep_movsb_up [OF src]) (auto simp: word_le_nat_alt)
    with True show ?thesis by (simp add: memmove_def leD)
  next
    case False
    then have "rep_movsb (-1) (d + n - 1) (src + n - 1) n s = put_bytes d bs s"
      using apart by (intro rep_movsb_down [OF src] unshared_subset [OF shared]) (auto simp: word_le_nat_alt)
    moreover have "src < d" using False by simp
    ultimately show ?thesis using False by (simp add: memmove_def del: not_le)
  qed
qed

end
