(* ===== verification/Usermem.thy ===== *)
theory Usermem
  imports Memlib
begin

text \<open>
  Buffers of a user program: the kernel writes through the program's page at 0x8000000, which is
  mapped and maps different addresses to different bytes, so what is copied there can be read back
  and nothing outside the program's own memory changes.
\<close>

definition user_buffer :: "u32 \<Rightarrow> nat \<Rightarrow> bool" where
  "user_buffer a n \<longleftrightarrow> 0x8000000 \<le> unat a \<and> unat a + n \<le> 0x8400000"

definition runs :: "'a machine_scheme \<Rightarrow> nat \<Rightarrow> bool" where
  "runs s p \<longleftrightarrow> mmu_ok s \<and> current_dir s = Some p \<and> p < 6"

lemma runs_mmu: "mmu s = mmu t \<Longrightarrow> runs s p = runs t p"
  unfolding runs_def using mmu_cong(3,4) by metis

definition prog_addr :: "nat \<Rightarrow> u32 \<Rightarrow> u32" where
  "prog_addr p va = of_nat (0x800000 + 0x400000 * p + (unat va - 0x8000000))"

lemma translate_user:
  "runs s p \<Longrightarrow> 0x8000000 \<le> unat va \<Longrightarrow> unat va < 0x8400000 \<Longrightarrow> translate s va = Some (prog_addr p va)"
  unfolding runs_def prog_addr_def by (intro translate_program) auto

lemma prog_addr_inj:
  assumes "p < 6" "0x8000000 \<le> unat a" "unat a < 0x8400000" "0x8000000 \<le> unat b" "unat b < 0x8400000" "prog_addr p a = prog_addr p b"
  shows "a = b"
proof -
  have u: "unat (prog_addr p x) = 0x800000 + 0x400000 * p + (unat x - 0x8000000)" if "unat x < 0x8400000" for x
    unfolding prog_addr_def by (rule unat_of_nat_small) (use assms(1) that in simp)
  have "unat (prog_addr p a) = unat (prog_addr p b)" using assms(6) by simp
  then have "unat a = unat b" unfolding u [OF assms(3)] u [OF assms(5)] using assms(2,4) by linarith
  then show ?thesis by (simp add: word_unat_eq_iff)
qed

lemma user_buffer_at: "user_buffer a n \<Longrightarrow> i < n \<Longrightarrow> unat (a + of_nat i) = unat a + i \<and> 0x8000000 \<le> unat a + i \<and> unat a + i < 0x8400000"
  unfolding user_buffer_def by (subst unat_add_of_nat) auto

lemma user_span_addr: "user_buffer a n \<Longrightarrow> x \<in> span a n \<Longrightarrow> 0x8000000 \<le> unat x \<and> unat x < 0x8400000"
  unfolding span_def using user_buffer_at by fastforce

lemma user_unshared: "runs s p \<Longrightarrow> user_buffer a n \<Longrightarrow> unshared s (span a n)"
  unfolding unshared_def
proof (intro ballI impI)
  fix x y assume h: "runs s p" "user_buffer a n" "x \<in> span a n" "y \<in> span a n" "x \<noteq> y"
  then have x: "0x8000000 \<le> unat x \<and> unat x < 0x8400000" and y: "0x8000000 \<le> unat y \<and> unat y < 0x8400000"
    using user_span_addr by blast+
  moreover have "p < 6" using h(1) by (simp add: runs_def)
  ultimately show "translate s x \<noteq> translate s y"
    using prog_addr_inj [of p x y] h(5) by (auto simp: translate_user [OF h(1)])
qed

lemma user_buffer_step: "user_buffer a (Suc n) \<Longrightarrow> user_buffer (a + 1) n"
  unfolding user_buffer_def using unat_add_of_nat [of a 1] by simp

lemma user_buffer_mono: "user_buffer a n \<Longrightarrow> m \<le> n \<Longrightarrow> user_buffer a m"
  by (simp add: user_buffer_def)

lemma user_buffer_shift: "user_buffer a (m + n) \<Longrightarrow> user_buffer (a + of_nat m) n"
  unfolding user_buffer_def using unat_add_of_nat [of a m] by simp

text \<open>What a copy changes: memory, and there only the program's bytes.\<close>

definition only_program :: "nat \<Rightarrow> 'a machine_scheme \<Rightarrow> 'a machine_scheme \<Rightarrow> bool" where
  "only_program p s t \<longleftrightarrow> t = s\<lparr>phys := phys t\<rparr> \<and> (\<forall>a. \<not> in_program p a \<longrightarrow> phys t a = phys s a)"

lemma only_program_refl [simp]: "only_program p s s"
  by (simp add: only_program_def)

lemma only_program_trans: "only_program p s t \<Longrightarrow> only_program p t u \<Longrightarrow> only_program p s u"
proof -
  assume h: "only_program p s t" "only_program p t u"
  then have "u = t\<lparr>phys := phys u\<rparr>" "t = s\<lparr>phys := phys t\<rparr>" by (auto simp: only_program_def)
  then have "u = s\<lparr>phys := phys u\<rparr>" by (metis machine.surjective machine.update_convs(1))
  with h show ?thesis by (simp add: only_program_def)
qed

lemma only_program_runs: "only_program p s t \<Longrightarrow> runs t q = runs s q"
  unfolding only_program_def using runs_mmu [of t s] mmu_io(5) by metis

lemma prog_addr_in: "p < 6 \<Longrightarrow> 0x8000000 \<le> unat va \<Longrightarrow> unat va < 0x8400000 \<Longrightarrow> in_program p (prog_addr p va)"
proof -
  assume h: "p < 6" "0x8000000 \<le> unat va" "unat va < 0x8400000"
  have "unat (prog_addr p va) = 0x800000 + 0x400000 * p + (unat va - 0x8000000)"
    unfolding prog_addr_def by (rule unat_of_nat_small) (use h in simp)
  then show ?thesis using h unfolding in_program_def by linarith
qed

lemma user_st:
  assumes "runs s p" "0x8000000 \<le> unat a" "unat a < 0x8400000"
  shows "st a b s = Some (s\<lparr>phys := (phys s)(prog_addr p a := b)\<rparr>)"
    "only_program p s (s\<lparr>phys := (phys s)(prog_addr p a := b)\<rparr>)"
  using assms prog_addr_in [of p a] by (auto simp: st_def translate_user only_program_def runs_def)

lemma user_put_bytes:
  assumes "runs s p" "user_buffer a (length bs)"
  shows "\<exists>t. put_bytes a bs s = Some t \<and> only_program p s t"
  using assms
proof (induction bs arbitrary: a s)
  case (Cons b bs)
  have a: "0x8000000 \<le> unat a" "unat a < 0x8400000" using Cons.prems(2) by (auto simp: user_buffer_def)
  note st1 = user_st [OF Cons.prems(1) a, of b]
  then obtain t where "put_bytes (a + 1) bs (s\<lparr>phys := (phys s)(prog_addr p a := b)\<rparr>) = Some t"
    "only_program p (s\<lparr>phys := (phys s)(prog_addr p a := b)\<rparr>) t"
    using Cons.IH [of "s\<lparr>phys := (phys s)(prog_addr p a := b)\<rparr>" "a + 1"] Cons.prems only_program_runs user_buffer_step by fastforce
  then show ?case using st1 only_program_trans by auto
qed simp

lemma put_bytes_other:
  assumes "put_bytes a bs s = Some t" "\<And>i. i < length bs \<Longrightarrow> translate s c \<noteq> translate s (a + of_nat i)"
  shows "ld t c = ld s c"
  using assms
proof (induction bs arbitrary: a s)
  case (Cons b bs)
  then obtain u where u: "st a b s = Some u" "put_bytes (a + 1) bs u = Some t" by (auto simp: bind_Some_iff)
  have "translate u c \<noteq> translate u (a + 1 + of_nat i)" if "i < length bs" for i
    using Cons.prems(2) [of "Suc i"] that st_translate [OF u(1)] by (simp add: algebra_simps)
  then have "ld t c = ld u c" using Cons.IH [OF u(2)] by blast
  also have "\<dots> = ld s c" using ld_st_other [OF u(1)] Cons.prems(2) [of 0] by simp
  finally show ?case .
qed simp

lemma put_then_ld:
  assumes "put_bytes a bs s = Some t" "unshared s (span a (length bs))" "length bs < 2 ^ 32"
  shows "ld_bytes t a (length bs) = Some bs"
  using assms
proof (induction bs arbitrary: a s)
  case (Cons b bs)
  then obtain u where u: "st a b s = Some u" "put_bytes (a + 1) bs u = Some t" by (auto simp: bind_Some_iff)
  have sp: "span a (length (b # bs)) = insert a (span (a + 1) (length bs))" using span_Suc(1) by simp
  then have "unshared u (span (a + 1) (length bs))"
    using Cons.prems(2) unshared_subset unshared_st [OF _ u(1)] by (metis subset_insertI)
  then have rest: "ld_bytes t (a + 1) (length bs) = Some bs" using Cons.IH [OF u(2)] Cons.prems(3) by simp
  have m: "translate s a \<noteq> None" using u(1) by (auto simp: st_Some)
  have "translate u a \<noteq> translate u (a + 1 + of_nat i)" if "i < length bs" for i
  proof -
    have "a + 1 + of_nat i = a + of_nat (Suc i)" by (simp add: algebra_simps)
    moreover have "a + of_nat (Suc i) \<noteq> a + of_nat 0"
      using word_add_of_nat_inj [of "Suc i" 0 a] that Cons.prems(3) by simp
    ultimately have "a + 1 + of_nat i \<noteq> a" by simp
    then have "translate s (a + 1 + of_nat i) \<noteq> translate s a"
      using unsharedD [OF Cons.prems(2), of a "a + 1 + of_nat i"] sp that m by (auto intro: spanI)
    then show ?thesis by (simp add: st_translate [OF u(1)])
  qed
  then have "ld t a = ld u a" using put_bytes_other [OF u(2)] by blast
  then show ?case using rest ld_st_same [OF u(1)] by simp
qed simp

text \<open>Both at once: the copy succeeds, is confined, and is there afterwards.\<close>

lemma user_copy:
  assumes "runs s p" "user_buffer a (length bs)"
  obtains t where "put_bytes a bs s = Some t" "only_program p s t" "ld_bytes t a (length bs) = Some bs"
proof -
  obtain t where t: "put_bytes a bs s = Some t" "only_program p s t" using user_put_bytes [OF assms] by blast
  have "length bs < 2 ^ 32" using assms(2) by (simp add: user_buffer_def)
  then have "ld_bytes t a (length bs) = Some bs"
    using put_then_ld [OF t(1) user_unshared [OF assms]] by blast
  with t show ?thesis by (rule that)
qed

lemma user_translate_program:
  assumes "runs s p" "0x8000000 \<le> unat va" "unat va < 0x8400000"
  shows "user_translate s va = Some (prog_addr p va)"
proof -
  have i: "unat va div 4194304 = 32" using assms(2,3) by (simp add: div_range_iff)
  have "page_directory s p 32 = dir_entry (pt_base s) (vt_base s) p 32"
    using assms(1) by (simp add: runs_def mmu_ok_def tables_ok_def)
  then have "pd_user_supervisor (page_directory s p 32)" "pd_present (page_directory s p 32)" "pd_page_size (page_directory s p 32)"
    by (simp_all add: dir_entry_def)
  moreover have "bit (cr0 s) 31" "bit (cr4 s) 4" "current_dir s = Some p"
    using assms(1) by (simp_all add: runs_def mmu_ok_def paging_on_def)
  ultimately show ?thesis
    using translate_user [OF assms] by (simp add: user_translate_def translate_def i Let_def)
qed

lemma runs_flush: "mmu_ok s \<Longrightarrow> p < 6 \<Longrightarrow> runs (flush_tlb p s) p"
  by (simp add: runs_def current_dir_flush_tlb mmu_ok_def [of s] link_ok_def [of s])

end
