(* ===== verification/Strings.thy ===== *)
theory Strings
  imports Memlib
begin

text \<open>
  The string routines of \<open>lib.c\<close>. A pointer that is only read is the function from an index to
  the byte there, \<open>None\<close> where the access faults or leaves the array; \<open>at s p\<close> is the pointer \<open>p\<close>
  into memory and \<open>lit xs\<close> a constant of the kernel image. A local array that is written is a byte list.
\<close>

type_synonym reader = "u32 \<Rightarrow> u8 option"

definition at :: "'a machine_scheme \<Rightarrow> u32 \<Rightarrow> reader" where
  "at s p i = ld s (p + i)"

definition lit :: "u8 list \<Rightarrow> reader" where
  "lit xs i = (if unat i < length xs then Some (xs ! unat i) else None)"

definition buf_get :: "u8 list \<Rightarrow> nat \<Rightarrow> u8 option" where
  "buf_get xs i = (if i < length xs then Some (xs ! i) else None)"

definition buf_set :: "u8 list \<Rightarrow> nat \<Rightarrow> u8 \<Rightarrow> u8 list option" where
  "buf_set xs i b = (if i < length xs then Some (xs[i := b]) else None)"

section \<open>strlen, strncmp, strcpy, strncpy\<close>

partial_function (option) strlen_from :: "reader \<Rightarrow> u32 \<Rightarrow> u32 option" where
  "strlen_from rd len = do { b \<leftarrow> rd len; if b = 0 then Some len else strlen_from rd (len + 1) }"

definition strlen :: "reader \<Rightarrow> u32 option" where
  "strlen rd = strlen_from rd 0"

lemma unat_diff_less: "i < n \<Longrightarrow> unat (n :: u32) - unat (i + 1) < unat n - unat i"
proof -
  assume "i < n"
  moreover from this have "unat (i + 1) = unat i + 1"
    using unat_add_of_nat [of i 1] unsigned_less [of n, where ?'a = nat] by (simp add: word_less_nat_alt)
  ultimately show ?thesis by (simp add: word_less_nat_alt)
qed

function strncmp_from :: "reader \<Rightarrow> reader \<Rightarrow> u32 \<Rightarrow> u32 \<Rightarrow> int option" where
  "strncmp_from s1 s2 n i =
     (if \<not> i < n then Some 0
      else do { a \<leftarrow> s1 i; b \<leftarrow> s2 i;
                if a \<noteq> b \<or> a = 0 then Some (sint a - sint b) else strncmp_from s1 s2 n (i + 1) })"
  by pat_completeness auto

termination by (relation "measure (\<lambda>(_, _, n, i). unat n - unat i)") (auto simp: unat_diff_less)

definition strncmp :: "reader \<Rightarrow> reader \<Rightarrow> u32 \<Rightarrow> int option" where
  "strncmp s1 s2 n = strncmp_from s1 s2 n 0"

partial_function (option) strcpy_from :: "u32 \<Rightarrow> u32 \<Rightarrow> u32 \<Rightarrow> 'a machine_scheme \<Rightarrow> 'a machine_scheme option" where
  "strcpy_from dest src i s =
     do { b \<leftarrow> ld s (src + i);
          if b \<noteq> 0 then do { s' \<leftarrow> st (dest + i) b s; strcpy_from dest src (i + 1) s' }
          else st (dest + i) 0 s }"

definition strcpy :: "u32 \<Rightarrow> u32 \<Rightarrow> 'a machine_scheme \<Rightarrow> 'a machine_scheme option" where
  "strcpy dest src s = strcpy_from dest src 0 s"

function strncpy_pad :: "u32 \<Rightarrow> u32 \<Rightarrow> u32 \<Rightarrow> 'a machine_scheme \<Rightarrow> 'a machine_scheme option" where
  "strncpy_pad dest n i s =
     (if i < n then do { s' \<leftarrow> st (dest + i) 0 s; strncpy_pad dest n (i + 1) s' } else Some s)"
  by pat_completeness auto
termination by (relation "measure (\<lambda>(_, n, i, _). unat n - unat i)") (auto simp: unat_diff_less)

text \<open>The loop reads \<open>src[i]\<close> before it compares \<open>i\<close> with \<open>n\<close>, so also at \<open>i = n\<close>.\<close>

function strncpy_from :: "u32 \<Rightarrow> u32 \<Rightarrow> u32 \<Rightarrow> u32 \<Rightarrow> 'a machine_scheme \<Rightarrow> 'a machine_scheme option" where
  "strncpy_from dest src n i s =
     do { b \<leftarrow> ld s (src + i);
          if b \<noteq> 0 \<and> i < n then do { s' \<leftarrow> st (dest + i) b s; strncpy_from dest src n (i + 1) s' }
          else strncpy_pad dest n i s }"
  by pat_completeness auto
termination by (relation "measure (\<lambda>(_, _, n, i, _). unat n - unat i)") (auto simp: unat_diff_less)

definition strncpy :: "u32 \<Rightarrow> u32 \<Rightarrow> u32 \<Rightarrow> 'a machine_scheme \<Rightarrow> 'a machine_scheme option" where
  "strncpy dest src n s = strncpy_from dest src n 0 s"

section \<open>strrev and itoa\<close>

function strrev_loop :: "nat \<Rightarrow> int \<Rightarrow> int \<Rightarrow> u8 list \<Rightarrow> u8 list option" where
  "strrev_loop off beg fin s =
     (if beg < fin then
        do { tmp \<leftarrow> buf_get s (off + nat fin); b \<leftarrow> buf_get s (off + nat beg);
             s \<leftarrow> buf_set s (off + nat fin) b; s \<leftarrow> buf_set s (off + nat beg) tmp;
             strrev_loop off (beg + 1) (fin - 1) s }
      else Some s)"
  by pat_completeness auto
termination by (relation "measure (\<lambda>(_, b, e, _). nat (e - b))") auto

definition strrev :: "u8 list \<Rightarrow> nat \<Rightarrow> u8 list option" where
  "strrev s off = do { n \<leftarrow> strlen (\<lambda>i. buf_get s (off + unat i)); strrev_loop off 0 (sint (n - 1)) s }"

definition lookup_digits :: "u8 list" where
  "lookup_digits = bytes ''0123456789ABCDEFGHIJKLMNOPQRSTUVWXYZ'' @ [0]"

text \<open>\<open>buf\<close> is the array, \<open>off\<close> the index in it of the pointer the routine is given.\<close>

function itoa_loop :: "u32 \<Rightarrow> u32 \<Rightarrow> u8 list \<Rightarrow> nat \<Rightarrow> (u8 list \<times> nat) option" where
  "itoa_loop newval radix buf newbuf =
     (if newval > 0 then
        if radix = 0 then None
        else if newbuf < length buf then
               do { d \<leftarrow> buf_get lookup_digits (unat (newval mod radix)); b \<leftarrow> buf_set buf newbuf d;
                    itoa_loop (newval div radix) radix b (newbuf + 1) }
             else None
      else Some (buf, newbuf))"
  by pat_completeness auto
termination
  by (relation "measure (\<lambda>(_, _, buf, newbuf). length buf - newbuf)") (auto simp: buf_set_def split: if_splits)

definition itoa :: "u32 \<Rightarrow> u8 list \<Rightarrow> nat \<Rightarrow> u32 \<Rightarrow> u8 list option" where
  "itoa value buf off radix =
     (if value = 0 then do { b \<leftarrow> buf_set buf off (asc CHR ''0''); buf_set b (off + 1) 0 }
      else do { (b, newbuf) \<leftarrow> itoa_loop value radix buf off; b \<leftarrow> buf_set b newbuf 0; strrev b off })"

declare strncmp_from.simps [simp del] strncpy_pad.simps [simp del] strncpy_from.simps [simp del]
  strrev_loop.simps [simp del] itoa_loop.simps [simp del]

section \<open>What they compute\<close>

text \<open>\<open>cstr_n rd n xs\<close>: the characters at \<open>rd\<close> up to a NUL, or \<open>n\<close> of them if none comes before.\<close>

definition cstr_n :: "reader \<Rightarrow> nat \<Rightarrow> u8 list \<Rightarrow> bool" where
  "cstr_n rd n xs \<longleftrightarrow> length xs \<le> n \<and> (\<forall>i<length xs. rd (of_nat i) = Some (xs ! i) \<and> xs ! i \<noteq> 0)
     \<and> (length xs < n \<longrightarrow> rd (of_nat (length xs)) = Some 0)"

definition cstr :: "reader \<Rightarrow> u8 list \<Rightarrow> bool" where
  "cstr rd xs \<longleftrightarrow> length xs < 2 ^ 32 - 1 \<and> (\<forall>i<length xs. rd (of_nat i) = Some (xs ! i) \<and> xs ! i \<noteq> 0)
     \<and> rd (of_nat (length xs)) = Some 0"

lemma cstr_take: "cstr rd xs \<Longrightarrow> cstr_n rd n (take n xs)"
  by (auto simp: cstr_def cstr_n_def min_def)

lemma strlen_from_cstr: "cstr rd xs \<Longrightarrow> k \<le> length xs \<Longrightarrow> strlen_from rd (of_nat (length xs - k)) = Some (of_nat (length xs))"
proof (induction k)
  case 0
  then show ?case by (subst strlen_from.simps) (simp add: cstr_def)
next
  case (Suc k)
  define j where "j = length xs - Suc k"
  have j: "j < length xs" "Suc j = length xs - k" using Suc.prems by (auto simp: j_def)
  then have "rd (of_nat j) = Some (xs ! j)" "xs ! j \<noteq> 0" using Suc.prems by (auto simp: cstr_def)
  moreover have "of_nat j + 1 = (of_nat (length xs - k) :: u32)"
    using j(2) by (metis add.commute of_nat_Suc)
  ultimately show ?case using Suc unfolding j_def [symmetric] by (subst strlen_from.simps) simp
qed

lemma strlen_cstr: "cstr rd xs \<Longrightarrow> strlen rd = Some (of_nat (length xs))"
  using strlen_from_cstr [of rd xs "length xs"] by (simp add: strlen_def)

lemma strncmp_from_cstr:
  assumes "cstr_n s1 (unat n) xs" "cstr_n s2 (unat n) ys" "take i xs = take i ys" "i \<le> length xs" "i \<le> length ys"
  shows "\<exists>r. strncmp_from s1 s2 n (of_nat i) = Some r \<and> (r = 0 \<longleftrightarrow> xs = ys)"
  using assms(3-)
proof (induction "unat n - i" arbitrary: i rule: less_induct)
  case less
  have le: "length xs \<le> unat n" "length ys \<le> unat n" using assms(1,2) by (auto simp: cstr_n_def)
  then have small: "i < 2 ^ 32" using less.prems unsigned_less [of n, where ?'a = nat] by simp
  show ?case
  proof (cases "i = unat n")
    case True
    then have "xs = ys" using le less.prems by simp
    with True show ?thesis by (subst strncmp_from.simps) simp
  next
    case False
    then have lt: "i < unat n" "of_nat i < n" using le less.prems small by (auto simp: word_less_nat_alt unat_of_nat_small)
    define a where "a = (if i < length xs then xs ! i else 0)"
    define b where "b = (if i < length ys then ys ! i else 0)"
    have rd: "s1 (of_nat i) = Some a" "s2 (of_nat i) = Some b"
      using assms(1,2) less.prems lt by (auto simp: cstr_n_def a_def b_def)
    have nz: "a = 0 \<longleftrightarrow> i = length xs" "b = 0 \<longleftrightarrow> i = length ys"
      using assms(1,2) less.prems by (auto simp: cstr_n_def a_def b_def)
    show ?thesis
    proof (cases "a \<noteq> b \<or> a = 0")
      case True
      then have "strncmp_from s1 s2 n (of_nat i) = Some (sint a - sint b)"
        using rd lt by (subst strncmp_from.simps) simp
      moreover have "a = b \<longleftrightarrow> xs = ys"
      proof
        assume "a = b"
        then have "i = length xs" "i = length ys" using True nz by auto
        then show "xs = ys" using less.prems(1) by simp
      qed (simp add: a_def b_def)
      ultimately show ?thesis by (metis signed_word_eqI eq_iff_diff_eq_0)
    next
      case False
      then have lt': "i < length xs" "i < length ys" using nz less.prems by auto
      then have "take (Suc i) xs = take (Suc i) ys"
        using False less.prems by (simp add: take_Suc_conv_app_nth a_def b_def)
      then have "\<exists>r. strncmp_from s1 s2 n (of_nat (Suc i)) = Some r \<and> (r = 0 \<longleftrightarrow> xs = ys)"
        using less.hyps [of "Suc i"] lt lt' by simp
      then show ?thesis using False rd lt by (subst strncmp_from.simps) (simp add: add.commute)
    qed
  qed
qed

theorem strncmp_cstr:
  assumes "cstr_n s1 (unat n) xs" "cstr_n s2 (unat n) ys"
  obtains r where "strncmp s1 s2 n = Some r" "r = 0 \<longleftrightarrow> xs = ys"
  using strncmp_from_cstr [OF assms, of 0] by (auto simp: strncmp_def)

lemma sint_of_int_small: "- (2 ^ 31) \<le> x \<Longrightarrow> x < 2 ^ 31 \<Longrightarrow> sint (of_int x :: u32) = x"
  unfolding int_word_sint by simp

lemma buf_swap:
  fixes L M R :: "u8 list"
  defines "i \<equiv> length L" and "j \<equiv> Suc (length L + length M)"
  shows "buf_get (L @ x # M @ y # R) i = Some x" "buf_get (L @ x # M @ y # R) j = Some y"
    "buf_set (L @ x # M @ y # R) j b = Some (L @ x # M @ b # R)"
    "buf_set (L @ x # M @ y # R) i b = Some (L @ b # M @ y # R)"
  by (simp_all add: buf_get_def buf_set_def i_def j_def nth_append list_update_append)

lemma strrev_loop_rev:
  "length L = off + nat b \<Longrightarrow> 0 \<le> b \<Longrightarrow> e = b + int (length M) - 1 \<Longrightarrow>
   strrev_loop off b e (L @ M @ R) = Some (L @ rev M @ R)"
proof (induction "length M" arbitrary: b e L M R rule: less_induct)
  case less
  show ?case
  proof (cases "length M < 2")
    case True
    then have "M = [] \<or> (\<exists>x. M = [x])" by (cases M) auto
    then have "rev M = M" "\<not> b < e" using less.prems by auto
    then show ?thesis by (subst strrev_loop.simps) simp
  next
    case False
    then obtain x M1 where M1: "M = x # M1" "M1 \<noteq> []" by (cases M) auto
    then obtain M' y where M: "M = x # M' @ [y]" by (metis rev_exhaust)
    define j where "j = off + nat e"
    have j: "j = length L + Suc (length M')" using less.prems M by (simp add: j_def nat_add_distrib)
    have l: "length L = off + nat b" using less.prems by simp
    have lt: "b < e" using less.prems(3) M by simp
    have "strrev_loop off b e (L @ M @ R) = strrev_loop off (b + 1) (e - 1) ((L @ [y]) @ M' @ (x # R))"
      unfolding M using lt by (subst strrev_loop.simps) (simp add: j_def [symmetric] j l [symmetric] buf_swap)
    also have "\<dots> = Some ((L @ [y]) @ rev M' @ (x # R))"
      using less.prems M by (intro less.hyps) (simp_all add: nat_add_distrib)
    finally show ?thesis using M by simp
  qed
qed

lemma strrev_rev:
  assumes "0 \<notin> set xs" "length xs < 2 ^ 31" "off = length L"
  shows "strrev (L @ xs @ 0 # R) off = Some (L @ rev xs @ 0 # R)"
proof -
  have "cstr (\<lambda>i. buf_get (L @ xs @ 0 # R) (off + unat i)) xs"
    using assms by (auto simp: cstr_def buf_get_def nth_append unat_of_nat_small in_set_conv_nth)
  moreover have "sint (of_nat (length xs) - 1 :: u32) = int (length xs) - 1"
    using sint_of_int_small [of "int (length xs) - 1"] assms(2) by simp
  ultimately show ?thesis
    using strrev_loop_rev [of L off 0 "int (length xs) - 1" xs "0 # R"] assms(3) by (simp add: strrev_def strlen_cstr)
qed

text \<open>The digits of a number, most significant first, and their value.\<close>

fun digits :: "nat \<Rightarrow> nat \<Rightarrow> u8 list" where
  "digits r v = (if v = 0 \<or> r < 2 then [] else digits r (v div r) @ [lookup_digits ! (v mod r)])"

declare digits.simps [simp del]

definition digit_value :: "u8 \<Rightarrow> nat" where
  "digit_value d = the (find (\<lambda>i. lookup_digits ! i = d) [0..<36])"

definition number :: "nat \<Rightarrow> u8 list \<Rightarrow> nat" where
  "number r ds = foldl (\<lambda>v d. v * r + digit_value d) 0 ds"

lemma lookup_digits_list:
  "lookup_digits = [48, 49, 50, 51, 52, 53, 54, 55, 56, 57, 65, 66, 67, 68, 69, 70, 71, 72, 73, 74, 75, 76, 77, 78,
     79, 80, 81, 82, 83, 84, 85, 86, 87, 88, 89, 90, 0]"
  by code_simp

lemma digit_value_lookup: "i < 36 \<Longrightarrow> digit_value (lookup_digits ! i) = i"
proof -
  have "\<forall>i\<in>set [0..<36]. digit_value (lookup_digits ! i) = i \<and> lookup_digits ! i \<noteq> 0" by code_simp
  then show "i < 36 \<Longrightarrow> digit_value (lookup_digits ! i) = i" by auto
qed

lemma lookup_digit_nonzero: "i < 36 \<Longrightarrow> lookup_digits ! i \<noteq> 0"
proof -
  have "\<forall>i\<in>set [0..<36]. lookup_digits ! i \<noteq> 0" by code_simp
  then show "i < 36 \<Longrightarrow> lookup_digits ! i \<noteq> 0" by auto
qed

lemma digits_nonzero: "r \<le> 36 \<Longrightarrow> 0 \<notin> set (digits r v)"
proof (induction r v rule: digits.induct)
  case (1 r v)
  show ?case
  proof (cases "v = 0 \<or> r < 2")
    case False
    then have "lookup_digits ! (v mod r) \<noteq> 0" using "1.prems" by (intro lookup_digit_nonzero) (metis mod_less_divisor less_le_trans not_less_eq_eq le0 not_less numeral_2_eq_2 gr0I zero_less_Suc)
    then show ?thesis using 1 False by (subst digits.simps) simp
  qed (simp add: digits.simps)
qed

lemma number_digits: "2 \<le> r \<Longrightarrow> r \<le> 36 \<Longrightarrow> number r (digits r v) = v"
proof (induction r v rule: digits.induct)
  case (1 r v)
  show ?case
  proof (cases "v = 0")
    case False
    have "v mod r < 36" using "1.prems" mod_less_divisor [of r v] by linarith
    then show ?thesis using 1 False by (subst digits.simps) (simp add: number_def digit_value_lookup)
  qed (simp add: number_def digits.simps)
qed

lemma digits_length: "2 \<le> r \<Longrightarrow> v < r ^ k \<Longrightarrow> length (digits r v) \<le> k"
proof (induction k arbitrary: v)
  case 0
  then show ?case by (simp add: digits.simps)
next
  case (Suc k)
  then have "v div r < r ^ k" by (simp add: less_mult_imp_div_less mult.commute)
  with Suc show ?case by (subst digits.simps) auto
qed

lemma itoa_loop_digits:
  assumes "2 \<le> unat r" "unat r \<le> 36"
  shows "length L + length (digits (unat r) (unat v)) \<le> length (L @ R) \<Longrightarrow>
    itoa_loop v r (L @ R) (length L)
      = Some (L @ rev (digits (unat r) (unat v)) @ drop (length (digits (unat r) (unat v))) R,
              length L + length (digits (unat r) (unat v)))"
proof (induction "unat v" arbitrary: v L R rule: less_induct)
  case less
  show ?case
  proof (cases "v = 0")
    case True
    then show ?thesis by (simp add: itoa_loop.simps digits.simps)
  next
    case False
    then have v: "0 < unat v" "v > 0" by (simp_all add: unat_gt_0 word_gt_0)
    have r0: "r \<noteq> 0" using assms by auto
    define d where "d = lookup_digits ! (unat v mod unat r)"
    have dg: "digits (unat r) (unat v) = digits (unat r) (unat (v div r)) @ [d]"
      using v assms by (subst digits.simps) (simp add: d_def unat_div)
    obtain x R' where R: "R = x # R'" using less.prems unfolding dg by (cases R) auto
    have "unat v mod unat r < 36" using assms mod_less_divisor [of "unat r" "unat v"] by linarith
    then have get: "buf_get lookup_digits (unat (v mod r)) = Some d"
      by (simp add: buf_get_def d_def unat_mod lookup_digits_list)
    have set: "buf_set (L @ R) (length L) d = Some ((L @ [d]) @ R')"
      by (simp add: buf_set_def R list_update_append)
    have "itoa_loop v r (L @ R) (length L) = itoa_loop (v div r) r ((L @ [d]) @ R') (length (L @ [d]))"
      using v r0 set by (subst itoa_loop.simps) (simp add: get R)
    also have "\<dots> = Some ((L @ [d]) @ rev (digits (unat r) (unat (v div r))) @ drop (length (digits (unat r) (unat (v div r)))) R',
        length (L @ [d]) + length (digits (unat r) (unat (v div r))))"
    proof (rule less.hyps)
      show "unat (v div r) < unat v" using v assms by (simp add: unat_div)
      show "length (L @ [d]) + length (digits (unat r) (unat (v div r))) \<le> length ((L @ [d]) @ R')"
        using less.prems unfolding dg R by simp
    qed
    finally show ?thesis unfolding dg R by simp
  qed
qed

text \<open>The digits as \<open>itoa\<close> writes them: a zero has one.\<close>

definition decimal :: "u32 \<Rightarrow> u32 \<Rightarrow> u8 list" where
  "decimal r v = (if v = 0 then [48] else digits (unat r) (unat v))"

theorem itoa_decimal:
  assumes r: "2 \<le> unat r" "unat r \<le> 36" and room: "length (decimal r v) < length R"
  shows "itoa v (L @ R) (length L) r = Some (L @ decimal r v @ 0 # drop (length (decimal r v) + 1) R)"
proof (cases "v = 0")
  case True
  with room obtain a b R' where "R = a # b # R'" by (cases R; cases "tl R") (auto simp: decimal_def)
  then show ?thesis
    using True by (simp add: itoa_def decimal_def buf_set_def list_update_append asc_def numeral_eq_Suc)
next
  case False
  define D where "D = digits (unat r) (unat v)"
  have dec: "decimal r v = D" using False by (simp add: decimal_def D_def)
  have loop: "itoa_loop v r (L @ R) (length L) = Some (L @ rev D @ drop (length D) R, length L + length D)"
    using itoa_loop_digits [OF r, of L v R] room unfolding dec D_def by simp
  obtain x R' where R: "drop (length D) R = x # R'" "R' = drop (length D + 1) R"
    using room unfolding dec by (metis Cons_nth_drop_Suc Suc_eq_plus1)
  have set: "buf_set (L @ rev D @ drop (length D) R) (length L + length D) 0 = Some (L @ rev D @ 0 # R')"
    unfolding R(1) by (simp add: buf_set_def list_update_append)
  have "length D \<le> 32"
  proof -
    have "unat v < 2 ^ 32" using unsigned_less [of v, where ?'a = nat] by simp
    also have "(2::nat) ^ 32 \<le> unat r ^ 32" using r by (intro power_mono) simp_all
    finally show ?thesis unfolding D_def by (rule digits_length [OF r(1)])
  qed
  then have "strrev (L @ rev D @ 0 # R') (length L) = Some (L @ rev (rev D) @ 0 # R')"
    using digits_nonzero [OF r(2), of "unat v"] by (intro strrev_rev) (simp_all add: D_def)
  then show ?thesis using False by (simp add: itoa_def loop set dec R(2))
qed

end
