(* ===== verification/Pic.thy ===== *)
theory Pic
  imports Strings
begin

text \<open>
  \<open>i8259.c\<close>: the two interrupt controllers. The kernel keeps a copy of each mask register
  (\<open>master_mask\<close>, \<open>slave_mask\<close>); \<open>enable_irq\<close> and \<open>disable_irq\<close> change the copy and write it
  out, \<open>send_eoi\<close> acknowledges an interrupt. \<open>pic_words\<close> is \<open>i8259_init\<close> without its first
  \<open>printf\<close>, which \<open>Console\<close> adds.
\<close>

section \<open>State and operations\<close>

record pic = machine +
  master_mask :: u8
  slave_mask :: u8

definition outb_all :: "(u8 \<times> u16) list \<Rightarrow> 'a machine_scheme \<Rightarrow> 'a machine_scheme" where
  "outb_all ws s = fold (\<lambda>(v, port). outb v port) ws s"

definition pic_words :: "'a pic_scheme \<Rightarrow> 'a pic_scheme" where
  "pic_words s =
     (let flags = iflag s;
          s = cli s;
          s = s\<lparr>master_mask := 0xFF, slave_mask := 0xFF\<rparr>;
          s = outb_all [(master_mask s, 0x21), (slave_mask s, 0xA1),
                (0x11, 0x20), (0x20, 0x21), (0x04, 0x21), (0x01, 0x21),
                (0x11, 0xA0), (0x28, 0xA1), (0x02, 0xA1), (0x01, 0xA1)] s
      in s\<lparr>iflag := flags\<rparr>)"

text \<open>\<open>1 << n\<close> as the processor shifts a 32-bit register: the count is taken modulo 32.\<close>

definition shl1 :: "u32 \<Rightarrow> u32" where
  "shl1 n = push_bit (unat n mod 32) 1"

definition enable_irq :: "u32 \<Rightarrow> 'a pic_scheme \<Rightarrow> 'a pic_scheme" where
  "enable_irq irq_num s =
     (if irq_num AND 8 \<noteq> 0 then
        let n = irq_num AND 7;
            s = s\<lparr>slave_mask := slave_mask s AND ucast (0xFF - shl1 n)\<rparr>;
            s = outb (slave_mask s) 0xA1 s;
            s = s\<lparr>master_mask := master_mask s AND ucast (0xFF - shl1 2)\<rparr>
        in outb (master_mask s) 0x21 s
      else
        let s = s\<lparr>master_mask := master_mask s AND ucast (0xFF - shl1 irq_num)\<rparr>
        in outb (master_mask s) 0x21 s)"

definition disable_irq :: "u32 \<Rightarrow> 'a pic_scheme \<Rightarrow> 'a pic_scheme" where
  "disable_irq irq_num s =
     (if irq_num AND 8 \<noteq> 0 then
        let n = irq_num AND 7;
            s = s\<lparr>slave_mask := slave_mask s OR ucast (shl1 n)\<rparr>
        in outb (slave_mask s) 0xA1 s
      else
        let s = s\<lparr>master_mask := master_mask s OR ucast (shl1 irq_num)\<rparr>
        in outb (master_mask s) 0x21 s)"

definition send_eoi :: "u32 \<Rightarrow> 'a machine_scheme \<Rightarrow> 'a machine_scheme" where
  "send_eoi irq_num s =
     (if irq_num AND 8 \<noteq> 0 then outb (2 OR 0x60) 0x20 (outb (ucast (irq_num - 8) OR 0x60) 0xA0 s)
      else outb (ucast irq_num OR 0x60) 0x20 s)"

section \<open>Lines and what the chips were last told\<close>

definition irq_enabled :: "'a pic_scheme \<Rightarrow> nat \<Rightarrow> bool" where
  "irq_enabled s i = (if i < 8 then \<not> bit (master_mask s) i else \<not> bit (slave_mask s) (i - 8))"

fun last_out :: "u16 \<Rightarrow> io_event list \<Rightarrow> u8 option" where
  "last_out port [] = None"
| "last_out port (e # es) =
     (case last_out port es of Some v \<Rightarrow> Some v
      | None \<Rightarrow> (case e of Outb v p \<Rightarrow> if p = port then Some v else None | Inb _ _ \<Rightarrow> None))"

definition pic_synced :: "'a pic_scheme \<Rightarrow> bool" where
  "pic_synced s \<longleftrightarrow> last_out 0x21 (io_log s) = Some (master_mask s) \<and> last_out 0xA1 (io_log s) = Some (slave_mask s)"

lemma last_out_append [simp]:
  "last_out port (es @ fs) = (case last_out port fs of Some v \<Rightarrow> Some v | None \<Rightarrow> last_out port es)"
  by (induction es) (auto split: option.splits)

text \<open>Clearing and setting one bit of a mask byte.\<close>

lemma bit_clear: "i < 8 \<Longrightarrow> n < 8 \<Longrightarrow> bit (m AND ucast (0xFF - shl1 (of_nat n)) :: u8) i \<longleftrightarrow> bit m i \<and> i \<noteq> n"
proof -
  assume "i < 8" "n < 8"
  moreover have "\<forall>n\<in>set [0..<8]. \<forall>i\<in>set [0..<8]. bit (ucast (0xFF - shl1 (of_nat n)) :: u8) i = (i \<noteq> n)" by code_simp
  ultimately show ?thesis by (auto simp: bit_and_iff)
qed

lemma bit_raise: "i < 8 \<Longrightarrow> n < 8 \<Longrightarrow> bit (m OR ucast (shl1 (of_nat n)) :: u8) i \<longleftrightarrow> bit m i \<or> i = n"
proof -
  assume "i < 8" "n < 8"
  moreover have "\<forall>n\<in>set [0..<8]. \<forall>i\<in>set [0..<8]. bit (ucast (shl1 (of_nat n)) :: u8) i = (i = n)" by code_simp
  ultimately show ?thesis by (auto simp: bit_or_iff)
qed

lemma irq_chip:
  "n < 8 \<Longrightarrow> (of_nat n :: u32) AND 8 = 0"
  "8 \<le> n \<Longrightarrow> n < 16 \<Longrightarrow> (of_nat n :: u32) AND 8 \<noteq> 0 \<and> of_nat n AND 7 = (of_nat (n - 8) :: u32)"
proof -
  have "\<forall>n\<in>set [0..<8]. (of_nat n :: u32) AND 8 = 0" by code_simp
  then show "n < 8 \<Longrightarrow> (of_nat n :: u32) AND 8 = 0" by auto
  have "\<forall>n\<in>set [8..<16]. (of_nat n :: u32) AND 8 \<noteq> 0 \<and> of_nat n AND 7 = (of_nat (n - 8) :: u32)" by code_simp
  then show "8 \<le> n \<Longrightarrow> n < 16 \<Longrightarrow> (of_nat n :: u32) AND 8 \<noteq> 0 \<and> of_nat n AND 7 = (of_nat (n - 8) :: u32)"
    by (metis atLeastLessThan_iff set_upt)
qed

lemma enable_irq_enabled:
  assumes "i < 16" "n < 16"
  shows "irq_enabled (enable_irq (of_nat n) s) i \<longleftrightarrow> irq_enabled s i \<or> i = n \<or> 8 \<le> n \<and> i = 2"
proof -
  have two: "bit (m AND ucast (0xFF - shl1 2) :: u8) i \<longleftrightarrow> bit m i \<and> i \<noteq> 2" if "i < 8" for m i
    using bit_clear [of i 2 m] that by simp
  show ?thesis
  proof (cases "n < 8")
    case True
    then show ?thesis
      using assms irq_chip(1) [of n] by (auto simp: enable_irq_def irq_enabled_def outb_def bit_clear Let_def)
  next
    case False
    then show ?thesis
      using assms irq_chip(2) [of n]
      by (auto simp: enable_irq_def irq_enabled_def outb_def bit_clear two Let_def simp del: of_nat_diff)
  qed
qed

lemma disable_irq_enabled:
  assumes "i < 16" "n < 16"
  shows "irq_enabled (disable_irq (of_nat n) s) i \<longleftrightarrow> irq_enabled s i \<and> i \<noteq> n"
proof (cases "n < 8")
  case True
  then show ?thesis
    using assms irq_chip(1) [of n] by (auto simp: disable_irq_def irq_enabled_def outb_def bit_raise Let_def)
next
  case False
  then show ?thesis
    using assms irq_chip(2) [of n]
    by (auto simp: disable_irq_def irq_enabled_def outb_def bit_raise Let_def simp del: of_nat_diff)
qed

lemma pic_synced_steps:
  "pic_synced s \<Longrightarrow> pic_synced (enable_irq n s)"
  "pic_synced s \<Longrightarrow> pic_synced (disable_irq n s)"
  "pic_synced s \<Longrightarrow> pic_synced (send_eoi n s)"
  by (simp_all add: pic_synced_def enable_irq_def disable_irq_def send_eoi_def outb_def Let_def)

lemma pic_frame [simp]:
  "mmu (enable_irq n s) = mmu s" "mmu (disable_irq n s) = mmu s" "mmu (send_eoi n t) = mmu t" "mmu (pic_words s) = mmu s"
  "phys (enable_irq n s) = phys s" "phys (disable_irq n s) = phys s" "phys (send_eoi n t) = phys t" "phys (pic_words s) = phys s"
  by (simp_all add: mmu_def enable_irq_def disable_irq_def send_eoi_def pic_words_def outb_all_def outb_def cli_def Let_def)

section \<open>The contract\<close>

text \<open>What the other components rely on: a line is up once enabled until it is disabled, and no
  call touches a line it does not name, but for the cascade line that carries the second chip.\<close>

locale irq_lines =
  fixes enable disable :: "nat \<Rightarrow> 's \<Rightarrow> 's" and up :: "'s \<Rightarrow> nat \<Rightarrow> bool" and cascade :: nat
  assumes up_enable: "n < 16 \<Longrightarrow> i < 16 \<Longrightarrow> up (enable n s) i \<longleftrightarrow> up s i \<or> i = n \<or> 8 \<le> n \<and> i = cascade"
    and up_disable: "n < 16 \<Longrightarrow> i < 16 \<Longrightarrow> up (disable n s) i \<longleftrightarrow> up s i \<and> i \<noteq> n"
    and cascade: "cascade < 8"
begin

lemma enable_all:
  "\<forall>n\<in>set ns. n < 16 \<Longrightarrow> i < 16 \<Longrightarrow>
   up (fold enable ns s) i \<longleftrightarrow> up s i \<or> i \<in> set ns \<or> i = cascade \<and> (\<exists>n\<in>set ns. 8 \<le> n)"
  by (induction ns arbitrary: s) (auto simp: up_enable)

lemma critical_section:
  "n < 16 \<Longrightarrow> i < 16 \<Longrightarrow> up s n \<Longrightarrow> (8 \<le> n \<longrightarrow> up s cascade) \<Longrightarrow> up (enable n (disable n s)) i \<longleftrightarrow> up s i"
  using cascade by (auto simp: up_enable up_disable)

end

interpretation lines: irq_lines "\<lambda>n. enable_irq (of_nat n)" "\<lambda>n. disable_irq (of_nat n)" irq_enabled 2
  by unfold_locales (auto simp: enable_irq_enabled disable_irq_enabled)

end
