(* ===== verification/Console.thy ===== *)
theory Console
  imports Pic
begin

text \<open>
  The console of \<open>lib.c\<close> and \<open>terminal.c\<close>: three terminals share the 80 x 24 text screen. \<open>putc\<close>
  writes through \<open>video_mem\<close> (the page the running process has at 0xB8000, normally the screen of
  \<open>curr_term\<close>); the keyboard side and \<open>clear\<close> write through \<open>VIDEO_FOR_READ\<close>, where every
  process sees all three screens. \<open>printf\<close>, \<open>puts\<close>, scrolling, the cursor registers, and
  \<open>setup_terms\<close>, \<open>switch_term\<close> are here. Globals of the kernel image are record fields.
\<close>

section \<open>State\<close>

record term_t =
  pid :: u8
  terminal_buf :: "u8 list"
  terminal_cnt :: u32
  terminal_read_on :: u32
  screen_x :: u32
  screen_y :: u32

record task_t =
  task_pid :: u32
  task_term :: u32
  task_next :: nat
  task_active :: u8

record console = pic +
  terms :: "nat \<Rightarrow> term_t"
  curr_term :: u8
  term_on_screen :: u8
  curr_pid :: u8
  terminal :: "nat \<Rightarrow> task_t"

definition upd_term :: "u8 \<Rightarrow> (term_t \<Rightarrow> term_t) \<Rightarrow> 'a console_scheme \<Rightarrow> 'a console_scheme" where
  "upd_term t f s = s\<lparr>terms := (terms s)(unat t := f (terms s (unat t)))\<rparr>"

definition cur :: "'a console_scheme \<Rightarrow> term_t" where
  "cur s = terms s (unat (curr_term s))"

definition shown :: "'a console_scheme \<Rightarrow> term_t" where
  "shown s = terms s (unat (term_on_screen s))"

definition upd_cur :: "(term_t \<Rightarrow> term_t) \<Rightarrow> 'a console_scheme \<Rightarrow> 'a console_scheme" where
  "upd_cur f s = upd_term (curr_term s) f s"

definition upd_shown :: "(term_t \<Rightarrow> term_t) \<Rightarrow> 'a console_scheme \<Rightarrow> 'a console_scheme" where
  "upd_shown f s = upd_term (term_on_screen s) f s"

text \<open>The address of character \<open>off\<close> of the screen at \<open>base\<close>: \<open>base + (off << 1)\<close>.\<close>

definition vga :: "u32 \<Rightarrow> u32 \<Rightarrow> u32" where
  "vga base off = base + push_bit 1 off"

definition video_mem :: u32 where
  "video_mem = 0xB8000"

definition shown_screen :: "'a console_scheme \<Rightarrow> u32" where
  "shown_screen s = 0x084B8000 + 0x2000 * ucast (term_on_screen s)"

section \<open>Cursor\<close>

definition update_cursor :: "'a console_scheme \<Rightarrow> 'a console_scheme" where
  "update_cursor s =
     (let position = ucast (screen_y (shown s) * 80 + screen_x (shown s) + ucast (term_on_screen s) * 4096) :: u16;
          s = outb 0x0F 0x3D4 s;
          s = outb (ucast (position AND 0xFF)) 0x3D5 s;
          s = outb 0x0E 0x3D4 s
      in outb (ucast (drop_bit 8 position AND 0xFF)) 0x3D5 s)"

definition reset_cursor :: "'a console_scheme \<Rightarrow> 'a console_scheme" where
  "reset_cursor s = upd_shown (\<lambda>t. t\<lparr>screen_x := 0, screen_y := 0\<rparr>) s"

definition backspace :: "'a console_scheme \<Rightarrow> 'a console_scheme option" where
  "backspace s =
     (let offset = screen_x (shown s) - 1 + screen_y (shown s) * 80;
          s = upd_shown (\<lambda>t. t\<lparr>screen_x := screen_x t - 1\<rparr>) s
      in do { s \<leftarrow> st (vga (shown_screen s) offset) 32 s;
              s \<leftarrow> st (vga (shown_screen s) offset + 1) 7 s;
              Some (update_cursor s) })"

section \<open>Characters\<close>

text \<open>The two loops of \<open>scroll_screen\<close>; row \<open>i\<close> goes to row \<open>i - 1\<close>.\<close>

definition scroll_cell :: "nat \<Rightarrow> nat \<Rightarrow> 'a machine_scheme \<Rightarrow> 'a machine_scheme option" where
  "scroll_cell i j s =
     do { c \<leftarrow> ld s (vga video_mem (of_nat (i * 80 + j))); st (vga video_mem (of_nat ((i - 1) * 80 + j))) c s }"

definition scroll_row :: "nat \<Rightarrow> 'a machine_scheme \<Rightarrow> 'a machine_scheme option" where
  "scroll_row i s = foldM (scroll_cell i) [0..<80] s"

definition scroll_blank :: "nat \<Rightarrow> 'a machine_scheme \<Rightarrow> 'a machine_scheme option" where
  "scroll_blank j s = st (vga video_mem (of_nat (23 * 80 + j))) 0 s"

definition scroll_screen :: "'a machine_scheme \<Rightarrow> 'a machine_scheme option" where
  "scroll_screen s = do { s \<leftarrow> foldM scroll_row [1..<24] s; foldM scroll_blank [0..<80] s }"

definition putc :: "u8 \<Rightarrow> 'a console_scheme \<Rightarrow> 'a console_scheme option" where
  "putc c s =
     (if c = 10 \<or> c = 13 then
        do { s \<leftarrow> Some (upd_cur (\<lambda>t. t\<lparr>screen_y := screen_y t + 1\<rparr>) s);
             s \<leftarrow> (if screen_y (cur s) = 24
                   then do { s \<leftarrow> scroll_screen s; Some (upd_cur (\<lambda>t. t\<lparr>screen_y := 23\<rparr>) s) }
                   else Some s);
             s \<leftarrow> Some (upd_cur (\<lambda>t. t\<lparr>screen_x := 0\<rparr>) s);
             Some (if term_on_screen s = curr_term s then update_cursor s else s) }
      else
        do { s \<leftarrow> st (vga video_mem (80 * screen_y (cur s) + screen_x (cur s))) c s;
             s \<leftarrow> st (vga video_mem (80 * screen_y (cur s) + screen_x (cur s)) + 1) 7 s;
             s \<leftarrow> Some (upd_cur (\<lambda>t. t\<lparr>screen_x := screen_x t + 1\<rparr>) s);
             s \<leftarrow> (if screen_x (cur s) = 80 then
                     do { s \<leftarrow> Some (upd_cur (\<lambda>t. t\<lparr>screen_x := 0, screen_y := screen_y t + 1\<rparr>) s);
                          if screen_y (cur s) = 24
                          then do { s \<leftarrow> scroll_screen s; Some (upd_cur (\<lambda>t. t\<lparr>screen_y := 24\<rparr>) s) }
                          else Some s }
                   else Some s);
             Some (if term_on_screen s = curr_term s then update_cursor s else s) })"

text \<open>\<open>puts\<close> reads each character when it is its turn, from the memory as it is then.\<close>

partial_function (option) puts_from ::
    "('a console_scheme \<Rightarrow> reader) \<Rightarrow> u32 \<Rightarrow> 'a console_scheme \<Rightarrow> (u32 \<times> 'a console_scheme) option" where
  "puts_from rd index s =
     do { c \<leftarrow> rd s index;
          if c = 0 then Some (index, s) else do { s \<leftarrow> putc c s; puts_from rd (index + 1) s } }"

definition puts :: "('a console_scheme \<Rightarrow> reader) \<Rightarrow> 'a console_scheme \<Rightarrow> (u32 \<times> 'a console_scheme) option" where
  "puts rd s = puts_from rd 0 s"

definition puts_const :: "string \<Rightarrow> 'a console_scheme \<Rightarrow> 'a console_scheme option" where
  "puts_const str s = map_option snd (puts (\<lambda>_. lit (bytes str @ [0])) s)"

definition puts_buf :: "u8 list \<Rightarrow> nat \<Rightarrow> 'a console_scheme \<Rightarrow> 'a console_scheme option" where
  "puts_buf buf off s = map_option snd (puts (\<lambda>_ i. buf_get buf (off + unat i)) s)"

section \<open>printf\<close>

text \<open>\<open>conv_buf\<close> is not initialised in the C code; every cell that is read has been written.\<close>

definition print_hex :: "u32 \<Rightarrow> 'a console_scheme \<Rightarrow> 'a console_scheme option" where
  "print_hex v s = do { b \<leftarrow> itoa v (replicate 64 0) 0 16; puts_buf b 0 s }"

definition pad_zeros :: "nat \<Rightarrow> u8 list \<Rightarrow> u8 list" where
  "pad_zeros i b = fold (\<lambda>i b. b[i := 48]) [i..<8] b"

definition print_hex_full :: "u32 \<Rightarrow> 'a console_scheme \<Rightarrow> 'a console_scheme option" where
  "print_hex_full v s =
     do { b \<leftarrow> itoa v (replicate 64 0) 8 16;
          starting_index \<leftarrow> strlen (\<lambda>i. buf_get b (8 + unat i));
          puts_buf (pad_zeros (unat starting_index) b) (unat starting_index) s }"

definition print_unsigned :: "u32 \<Rightarrow> 'a console_scheme \<Rightarrow> 'a console_scheme option" where
  "print_unsigned v s = do { b \<leftarrow> itoa v (replicate 36 0) 0 10; puts_buf b 0 s }"

definition print_signed :: "u32 \<Rightarrow> 'a console_scheme \<Rightarrow> 'a console_scheme option" where
  "print_signed v s =
     (if slt v 0 then do { b \<leftarrow> itoa (- v) ((replicate 36 0)[0 := 45]) 1 10; puts_buf b 0 s }
      else do { b \<leftarrow> itoa v (replicate 36 0) 0 10; puts_buf b 0 s })"

text \<open>One conversion: index in the format, remaining arguments. \<open>#\<close> goes round again.\<close>

definition next_arg :: "u32 list \<Rightarrow> (u32 \<times> u32 list) option" where
  "next_arg as = (case as of [] \<Rightarrow> None | a # as \<Rightarrow> Some (a, as))"

partial_function (option) conversion ::
    "reader \<Rightarrow> bool \<Rightarrow> u32 \<Rightarrow> u32 list \<Rightarrow> 'a console_scheme \<Rightarrow> (u32 \<times> u32 list \<times> 'a console_scheme) option" where
  "conversion format alternate buf esp s =
     do { c \<leftarrow> format buf;
          if c = asc CHR ''%'' then do { s \<leftarrow> putc 37 s; Some (buf, esp, s) }
          else if c = asc CHR ''#'' then conversion format True (buf + 1) esp s
          else if c = asc CHR ''x'' then
            do { (v, esp) \<leftarrow> next_arg esp; s \<leftarrow> (if alternate then print_hex_full v s else print_hex v s); Some (buf, esp, s) }
          else if c = asc CHR ''u'' then do { (v, esp) \<leftarrow> next_arg esp; s \<leftarrow> print_unsigned v s; Some (buf, esp, s) }
          else if c = asc CHR ''d'' then do { (v, esp) \<leftarrow> next_arg esp; s \<leftarrow> print_signed v s; Some (buf, esp, s) }
          else if c = asc CHR ''c'' then do { (v, esp) \<leftarrow> next_arg esp; s \<leftarrow> putc (ucast v) s; Some (buf, esp, s) }
          else if c = asc CHR ''s'' then
            do { (v, esp) \<leftarrow> next_arg esp; (n, s) \<leftarrow> puts (\<lambda>s. at s v) s; Some (buf, esp, s) }
          else Some (buf, esp, s) }"

partial_function (option) printf_from ::
    "reader \<Rightarrow> u32 \<Rightarrow> u32 list \<Rightarrow> 'a console_scheme \<Rightarrow> (u32 \<times> 'a console_scheme) option" where
  "printf_from format buf esp s =
     do { c \<leftarrow> format buf;
          if c = 0 then Some (buf, s)
          else if c = asc CHR ''%'' then
            do { (buf, esp, s) \<leftarrow> conversion format False (buf + 1) esp s; printf_from format (buf + 1) esp s }
          else do { s \<leftarrow> putc c s; printf_from format (buf + 1) esp s } }"

definition printf :: "string \<Rightarrow> u32 list \<Rightarrow> 'a console_scheme \<Rightarrow> (u32 \<times> 'a console_scheme) option" where
  "printf format args s = printf_from (lit (bytes format @ [0])) 0 args s"

section \<open>Clearing and switching\<close>

definition clear_cell :: "nat \<Rightarrow> 'a console_scheme \<Rightarrow> 'a console_scheme option" where
  "clear_cell i s =
     do { s \<leftarrow> st (vga (shown_screen s) (of_nat i)) 32 s; st (vga (shown_screen s) (of_nat i) + 1) 7 s }"

definition clear_key :: "'a console_scheme \<Rightarrow> 'a console_scheme option" where
  "clear_key s = do { s \<leftarrow> foldM clear_cell [0..<1920] s; Some (update_cursor (reset_cursor s)) }"

definition clear :: "'a console_scheme \<Rightarrow> 'a console_scheme option" where
  "clear s = do { s \<leftarrow> foldM clear_cell [0..<1920] s;
                  s \<leftarrow> puts_const ''391OS>'' (reset_cursor s);
                  Some (update_cursor s) }"

definition test_interrupts :: "'a console_scheme \<Rightarrow> 'a console_scheme option" where
  "test_interrupts s =
     foldM (\<lambda>i s. do { c \<leftarrow> ld s (vga video_mem (of_nat i)); st (vga video_mem (of_nat i)) (c + 1) s }) [0..<1920] s"

definition setup_terms :: "'a console_scheme \<Rightarrow> 'a console_scheme" where
  "setup_terms s =
     fold (\<lambda>i s. upd_term (of_nat i) (\<lambda>t. t\<lparr>pid := of_nat i, screen_x := 0, screen_y := 0\<rparr>) s) [0..<3] s"

definition switch_term :: "u8 \<Rightarrow> 'a console_scheme \<Rightarrow> 'a console_scheme" where
  "switch_term to_term s =
     (if term_on_screen s = to_term then s
      else let s = outb 0x0C 0x3D4 s;
               s = outb (0x10 * to_term) 0x3D5 s;
               s = outb 0x0D 0x3D4 s;
               s = outb 0 0x3D5 s;
               s = s\<lparr>term_on_screen := to_term\<rparr>;
               s = (if task_active (terminal s (unat to_term)) = 0
                    then s\<lparr>terminal := (terminal s)(unat to_term := (terminal s (unat to_term))\<lparr>task_active := 1\<rparr>)\<rparr>
                    else s)
           in update_cursor s)"

definition i8259_init :: "'a console_scheme \<Rightarrow> 'a console_scheme option" where
  "i8259_init s = do { (n, s) \<leftarrow> printf ''Initializing 8259\<newline>'' [] s; Some (pic_words s) }"

end
