(* ===== verification/Screen.thy ===== *)
theory Screen
  imports Console
begin

text \<open>
  What the console shows: a terminal as an abstract text screen (\<open>tty\<close>), and \<open>putc\<close>, \<open>puts\<close>,
  \<open>scroll_screen\<close> as operations on it. Frame lemmas say that output touches one screen only.
\<close>

section \<open>The screens in memory\<close>

definition screen_addr :: "nat \<Rightarrow> nat \<Rightarrow> u32" where
  "screen_addr k n = of_nat (0xB8000 + 0x2000 * k + n)"

text \<open>\<open>views s k\<close>: with the current tables, \<open>video_mem\<close> is the screen of terminal \<open>k\<close>; before paging is on, it
  is the screen of terminal 0.\<close>

definition views :: "'a machine_scheme \<Rightarrow> nat \<Rightarrow> bool" where
  "views s k \<longleftrightarrow> mmu_ok s \<and> (\<exists>p<6. current_dir s = Some p \<and> screen_of s p = k) \<or> \<not> bit (cr0 s) 31 \<and> k = 0"

definition cell :: "nat \<Rightarrow> nat \<Rightarrow> u32" where
  "cell k n = screen_addr k (2 * n)"

definition attr :: "nat \<Rightarrow> nat \<Rightarrow> u32" where
  "attr k n = screen_addr k (2 * n + 1)"

lemma views_less: "views s k \<Longrightarrow> k < 3"
  by (auto simp: views_def screen_of_less)

lemma views_mmu: "mmu s = mmu t \<Longrightarrow> views s k = views t k"
proof -
  assume m: "mmu s = mmu t"
  have "cr0 s = cr0 t" using m by (simp add: mmu_def)
  then show "views s k = views t k" unfolding views_def mmu_cong(3-5) [OF m] by simp
qed

lemma mmu_fields [simp]:
  "mmu (s\<lparr>io_log := l\<rparr>) = mmu s" "mmu (s\<lparr>iflag := b\<rparr>) = mmu s"
  "mmu (r\<lparr>terms := x\<rparr>) = mmu r" "mmu (r\<lparr>curr_term := c\<rparr>) = mmu r" "mmu (r\<lparr>term_on_screen := c\<rparr>) = mmu r"
  "mmu (r\<lparr>curr_pid := c\<rparr>) = mmu r" "mmu (r\<lparr>terminal := z\<rparr>) = mmu r"
  "mmu (q\<lparr>master_mask := m\<rparr>) = mmu q" "mmu (q\<lparr>slave_mask := m\<rparr>) = mmu q"
  by (simp_all add: mmu_def)

lemma views_phys [simp]: "views (s\<lparr>phys := x\<rparr>) k = views s k"
  by (rule views_mmu) simp

lemma screen_addr_inj: "k < 3 \<Longrightarrow> l < 3 \<Longrightarrow> m < 4096 \<Longrightarrow> n < 4096 \<Longrightarrow> screen_addr k m = screen_addr l n \<longleftrightarrow> k = l \<and> m = n"
proof -
  assume k: "k < 3" "l < 3" "m < 4096" "n < 4096"
  have "unat (screen_addr i j) = 0xB8000 + 0x2000 * i + j" if "i < 3" "j < 4096" for i j
    unfolding screen_addr_def by (rule unat_of_nat_small) (use that in simp)
  from this [OF k(1,3)] this [OF k(2,4)]
  have "screen_addr k m = screen_addr l n \<longleftrightarrow> 0x2000 * k + m = 0x2000 * l + n" by (simp add: word_unat_eq_iff)
  also have "\<dots> \<longleftrightarrow> k = l \<and> m = n" using k(3,4) less_3_cases [OF k(1)] less_3_cases [OF k(2)] by auto
  finally show ?thesis .
qed

lemma in_screen_addr: "k < 3 \<Longrightarrow> n < 4096 \<Longrightarrow> in_screen l (screen_addr k n) \<longleftrightarrow> l = k"
proof -
  assume k: "k < 3" "n < 4096"
  have "unat (screen_addr k n) = 0xB8000 + 0x2000 * k + n"
    unfolding screen_addr_def by (rule unat_of_nat_small) (use k in simp)
  then show ?thesis using k by (auto simp: in_screen_def)
qed

lemma cell_inj [simp]: "k < 3 \<Longrightarrow> m < 2048 \<Longrightarrow> n < 2048 \<Longrightarrow> cell k m = cell k n \<longleftrightarrow> m = n"
  by (simp add: cell_def screen_addr_inj)

lemma cell_attr [simp]: "k < 3 \<Longrightarrow> m < 2048 \<Longrightarrow> n < 2048 \<Longrightarrow> cell k m \<noteq> attr k n"
  by (simp add: cell_def attr_def screen_addr_inj) presburger

lemma vga_nat: "unat off < 2048 \<Longrightarrow> vga base off = base + of_nat (2 * unat off)"
proof -
  assume "unat off < 2048"
  have "push_bit 1 off = 2 * off" by (simp add: push_bit_eq_mult)
  then show ?thesis by (simp add: vga_def)
qed

lemma vga_access:
  assumes "views s k" "unat off < 2048"
  shows "ld s (vga video_mem off) = Some (phys s (cell k (unat off)))"
    and "st (vga video_mem off) b s = Some (s\<lparr>phys := (phys s)(cell k (unat off) := b)\<rparr>)"
    and "st (vga video_mem off + 1) b s = Some (s\<lparr>phys := (phys s)(attr k (unat off) := b)\<rparr>)"
proof -
  consider p where "mmu_ok s" "current_dir s = Some p" "p < 6" "screen_of s p = k" | "\<not> bit (cr0 s) 31" "k = 0"
    using assms(1) by (auto simp: views_def)
  then have t: "translate s (0xB8000 + of_nat n) = Some (screen_addr k n)" if "n < 4096" for n
  proof cases
    case 1
    then show ?thesis
      using translate_screen [OF 1(1-3), of "of_nat n"] that by (simp add: screen_addr_def unat_of_nat_small)
  qed (simp add: translate_def screen_addr_def)
  have "translate s (vga video_mem off) = Some (cell k (unat off))"
    using t [of "2 * unat off"] assms(2) by (simp add: vga_nat video_mem_def cell_def)
  then show "ld s (vga video_mem off) = Some (phys s (cell k (unat off)))"
    "st (vga video_mem off) b s = Some (s\<lparr>phys := (phys s)(cell k (unat off) := b)\<rparr>)"
    by (simp_all add: ld_def st_def)
  have "translate s (vga video_mem off + 1) = Some (attr k (unat off))"
    using t [of "2 * unat off + 1"] assms(2) by (simp add: vga_nat video_mem_def attr_def ac_simps)
  then show "st (vga video_mem off + 1) b s = Some (s\<lparr>phys := (phys s)(attr k (unat off) := b)\<rparr>)"
    by (simp add: st_def)
qed

lemma shown_access:
  assumes "mmu_ok s" "current_dir s = Some p" "p < 6" "unat (term_on_screen s) < 3" "unat off < 2048"
  defines "k \<equiv> unat (term_on_screen s)"
  shows "st (vga (shown_screen s) off) b s = Some (s\<lparr>phys := (phys s)(cell k (unat off) := b)\<rparr>)"
    and "st (vga (shown_screen s) off + 1) b s = Some (s\<lparr>phys := (phys s)(attr k (unat off) := b)\<rparr>)"
proof -
  have sc: "shown_screen s = 0x84B8000 + of_nat (0x2000 * k)"
    unfolding shown_screen_def k_def by (simp add: mult.commute)
  have t: "translate s (shown_screen s + of_nat n) = Some (screen_addr k n)" if "n < 4096" for n
    using translate_read_screen [OF assms(1-3), of "of_nat n" k] that assms(4)
    unfolding sc by (simp add: screen_addr_def k_def unat_of_nat_small)
  show "st (vga (shown_screen s) off) b s = Some (s\<lparr>phys := (phys s)(cell k (unat off) := b)\<rparr>)"
    using t [of "2 * unat off"] assms(5) by (simp add: st_def vga_nat cell_def)
  show "st (vga (shown_screen s) off + 1) b s = Some (s\<lparr>phys := (phys s)(attr k (unat off) := b)\<rparr>)"
    using t [of "2 * unat off + 1"] assms(5) by (simp add: st_def vga_nat attr_def ac_simps)
qed

section \<open>Scrolling\<close>

text \<open>\<open>scrolled k s m t\<close>: the first \<open>m\<close> cells of screen \<open>k\<close> have been shifted up by a row.\<close>

definition scrolled :: "nat \<Rightarrow> 'a machine_scheme \<Rightarrow> nat \<Rightarrow> 'a machine_scheme \<Rightarrow> bool" where
  "scrolled k s m t \<longleftrightarrow> t = s\<lparr>phys := phys t\<rparr>
     \<and> (\<forall>n<1920. phys t (cell k n) =
          (if n < m then if n < 1840 then phys s (cell k (n + 80)) else 0 else phys s (cell k n)))
     \<and> (\<forall>a. (\<forall>n<1920. a \<noteq> cell k n) \<longrightarrow> phys t a = phys s a)"

lemma scrolled_views: "scrolled k s m t \<Longrightarrow> views t l = views s l"
  unfolding scrolled_def using views_phys by metis

lemma scrolled_step:
  assumes "views s k" "scrolled k s m t" "m < 1920"
    and c: "c = (if m < 1840 then phys t (cell k (m + 80)) else 0)"
  shows "scrolled k s (Suc m) (t\<lparr>phys := (phys t)(cell k m := c)\<rparr>)"
proof -
  have ph: "t = s\<lparr>phys := phys t\<rparr>"
    "\<And>n. n < 1920 \<Longrightarrow> phys t (cell k n) = (if n < m then if n < 1840 then phys s (cell k (n + 80)) else 0 else phys s (cell k n))"
    "\<And>a. (\<forall>n<1920. a \<noteq> cell k n) \<Longrightarrow> phys t a = phys s a"
    using assms(2) unfolding scrolled_def by blast+
  have k: "k < 3" using views_less [OF assms(1)] .
  have c: "c = (if m < 1840 then phys s (cell k (m + 80)) else 0)" using c ph(2) [of "m + 80"] by simp
  have "t\<lparr>phys := f\<rparr> = s\<lparr>phys := f\<rparr>" for f by (subst ph(1)) simp
  then show ?thesis
    unfolding scrolled_def
    using ph(2,3) assms(3) k by (auto simp: less_Suc_eq c)
qed

lemma scroll_cell_step:
  assumes "views s k" "scrolled k s ((i - 1) * 80 + j) t" "1 \<le> i" "i < 24" "j < 80"
  shows "\<exists>u. scroll_cell i j t = Some u \<and> scrolled k s ((i - 1) * 80 + Suc j) u"
proof -
  have m: "(i - 1) * 80 + j + 80 = i * 80 + j" using assms(3) by (cases i) simp_all
  have lt: "i * 80 + j < 1920" using assms(4,5) by simp
  have v: "views t k" using assms(1,2) by (simp add: scrolled_views)
  have u: "unat (of_nat (i * 80 + j) :: u32) = i * 80 + j" "unat (of_nat ((i - 1) * 80 + j) :: u32) = (i - 1) * 80 + j"
    by (rule unat_of_nat_small; use lt m in simp)+
  have "scroll_cell i j t = Some (t\<lparr>phys := (phys t)(cell k ((i - 1) * 80 + j) := phys t (cell k (i * 80 + j)))\<rparr>)"
    unfolding scroll_cell_def using vga_access [OF v, of "of_nat (i * 80 + j)"] vga_access [OF v, of "of_nat ((i - 1) * 80 + j)"] lt m
    by (simp only: u) simp
  moreover have "scrolled k s (Suc ((i - 1) * 80 + j))
      (t\<lparr>phys := (phys t)(cell k ((i - 1) * 80 + j) := phys t (cell k (i * 80 + j)))\<rparr>)"
    using m lt by (intro scrolled_step [OF assms(1,2)]) (auto simp: m [symmetric])
  ultimately show ?thesis by simp
qed

lemma scroll_screen_scrolled:
  assumes "views s k"
  shows "\<exists>t. scroll_screen s = Some t \<and> scrolled k s 1920 t"
proof -
  have row: "\<exists>u. scroll_row i t = Some u \<and> scrolled k s ((Suc i - 1) * 80) u"
    if "1 \<le> i" "i < 24" "scrolled k s ((i - 1) * 80) t" for i t
  proof -
    have "\<exists>u. foldM (scroll_cell i) [0..<80] t = Some u \<and> scrolled k s ((i - 1) * 80 + 80) u"
      by (rule foldM_upt [where P = "\<lambda>j. scrolled k s ((i - 1) * 80 + j)"])
        (use that scroll_cell_step [OF assms] in auto)
    moreover have "(i - 1) * 80 + 80 = (Suc i - 1) * 80" using that(1) by (cases i) simp_all
    ultimately show ?thesis by (simp add: scroll_row_def)
  qed
  have "scrolled k s 0 s" by (simp add: scrolled_def)
  then have "\<exists>t. foldM scroll_row [1..<24] s = Some t \<and> scrolled k s ((24 - 1) * 80) t"
    by (intro foldM_upt [where P = "\<lambda>i. scrolled k s ((i - 1) * 80)"]) (auto intro: row [simplified])
  then obtain t where t: "foldM scroll_row [1..<24] s = Some t" "scrolled k s (1840 + 0) t" by auto
  have blank: "\<exists>u. scroll_blank j w = Some u \<and> scrolled k s (1840 + Suc j) u"
    if "j < 80" "scrolled k s (1840 + j) w" for j w
  proof -
    have v: "views w k" using assms that(2) by (simp add: scrolled_views)
    have "unat (of_nat (23 * 80 + j) :: u32) = 1840 + j" using that(1) by (subst unat_of_nat_small) auto
    then have "scroll_blank j w = Some (w\<lparr>phys := (phys w)(cell k (1840 + j) := 0)\<rparr>)"
      unfolding scroll_blank_def using vga_access(2) [OF v, of "of_nat (23 * 80 + j)"] that(1) by simp
    then show ?thesis using scrolled_step [OF assms that(2), of 0] that(1) by simp
  qed
  have "\<exists>u. foldM scroll_blank [0..<80] t = Some u \<and> scrolled k s (1840 + 80) u"
    by (rule foldM_upt [where P = "\<lambda>j. scrolled k s (1840 + j)"]) (use t(2) blank in auto)
  with t(1) show ?thesis by (auto simp: scroll_screen_def)
qed

lemma views_fields:
  "views (s\<lparr>io_log := l\<rparr>) k = views s k" "views (s\<lparr>iflag := b\<rparr>) k = views s k"
  "views (r\<lparr>terms := x\<rparr>) k = views r k" "views (r\<lparr>curr_term := c\<rparr>) k = views r k"
  "views (r\<lparr>term_on_screen := c\<rparr>) k = views r k" "views (r\<lparr>curr_pid := c\<rparr>) k = views r k"
  "views (r\<lparr>terminal := z\<rparr>) k = views r k"
  by (rule views_mmu, simp)+

section \<open>A terminal as a text screen\<close>

record tty =
  tty_char :: "nat \<Rightarrow> u8"
  tty_x :: nat
  tty_y :: nat

definition tty_scroll :: "tty \<Rightarrow> tty" where
  "tty_scroll t = t\<lparr>tty_char := (\<lambda>n. if n < 1840 then tty_char t (n + 80) else 0)\<rparr>"

definition tty_newline :: "tty \<Rightarrow> tty" where
  "tty_newline t = (if tty_y t = 23 then (tty_scroll t)\<lparr>tty_x := 0\<rparr> else t\<lparr>tty_x := 0, tty_y := tty_y t + 1\<rparr>)"

definition tty_putc :: "u8 \<Rightarrow> tty \<Rightarrow> tty" where
  "tty_putc c t =
     (if c = 10 \<or> c = 13 then tty_newline t
      else let t = t\<lparr>tty_char := (tty_char t)(80 * tty_y t + tty_x t := c)\<rparr>
           in if tty_x t = 79 then tty_newline t else t\<lparr>tty_x := tty_x t + 1\<rparr>)"

definition tty_ok :: "tty \<Rightarrow> bool" where
  "tty_ok t \<longleftrightarrow> tty_x t < 80 \<and> tty_y t < 24"

text \<open>The one place where \<open>putc\<close> leaves the abstract screen: a printable character in the last cell.\<close>

definition tty_last :: "u8 \<Rightarrow> tty \<Rightarrow> bool" where
  "tty_last c t \<longleftrightarrow> c \<noteq> 10 \<and> c \<noteq> 13 \<and> tty_x t = 79 \<and> tty_y t = 23"

fun tty_fits :: "u8 list \<Rightarrow> tty \<Rightarrow> bool" where
  "tty_fits [] t \<longleftrightarrow> True"
| "tty_fits (c # cs) t \<longleftrightarrow> \<not> tty_last c t \<and> tty_fits cs (tty_putc c t)"

lemma tty_ok_putc: "tty_ok t \<Longrightarrow> tty_ok (tty_putc c t)"
  by (auto simp: tty_ok_def tty_putc_def tty_newline_def tty_scroll_def Let_def)

text \<open>From column \<open>x\<close>, no character falls into column 79: then no line reaches the last cell of the screen,
  whatever row it is on.\<close>

fun narrow :: "nat \<Rightarrow> u8 list \<Rightarrow> bool" where
  "narrow x [] \<longleftrightarrow> True"
| "narrow x (c # cs) \<longleftrightarrow> (if c = 10 \<or> c = 13 then narrow 0 cs else x < 79 \<and> narrow (x + 1) cs)"

lemma narrow_fits: "narrow (tty_x t) xs \<Longrightarrow> tty_fits xs t"
proof (induction xs arbitrary: t)
  case (Cons c xs)
  have "tty_x (tty_putc c t) = (if c = 10 \<or> c = 13 then 0 else tty_x t + 1)" if "\<not> (c = 10 \<or> c = 13) \<longrightarrow> tty_x t < 79"
    using that by (auto simp: tty_putc_def tty_newline_def Let_def)
  then show ?case using Cons by (auto simp: tty_last_def split: if_splits)
qed simp

lemma narrow_line: "x + length xs \<le> 79 \<Longrightarrow> narrow 0 ys \<Longrightarrow> narrow x (xs @ [10] @ ys)"
proof (induction xs arbitrary: x)
  case (Cons c xs)
  show ?case using Cons.IH [of 0] Cons.IH [of "x + 1"] Cons.prems by simp
qed simp

lemma narrow_short: "x + length xs \<le> 79 \<Longrightarrow> narrow x xs"
proof (induction xs arbitrary: x)
  case (Cons c xs)
  show ?case using Cons.IH [of 0] Cons.IH [of "x + 1"] Cons.prems by simp
qed simp

lemma narrow_lines: "\<forall>l\<in>set ls. length l \<le> 79 \<Longrightarrow> narrow 0 (concat (map (\<lambda>l. l @ [10]) ls))"
  by (induction ls) (use narrow_line [of 0] in auto)

lemma narrow_more: "10 \<notin> set xs \<Longrightarrow> 13 \<notin> set xs \<Longrightarrow> x + length xs \<le> 79 \<Longrightarrow> narrow x (xs @ ys) = narrow (x + length xs) ys"
  by (induction xs arbitrary: x) auto

text \<open>Terminal \<open>k\<close> of a kernel state.\<close>

definition tty_of :: "nat \<Rightarrow> 'a console_scheme \<Rightarrow> tty" where
  "tty_of k s = \<lparr> tty_char = (\<lambda>n. if n < 1920 then phys s (cell k n) else 0),
     tty_x = unat (screen_x (terms s k)), tty_y = unat (screen_y (terms s k)) \<rparr>"

definition console_ok :: "'a console_scheme \<Rightarrow> bool" where
  "console_ok s \<longleftrightarrow> views s (unat (curr_term s)) \<and> unat (term_on_screen s) < 3"

text \<open>What output may change: the screen and the term structure of \<open>curr_term\<close>, and the ports.\<close>

definition output_only :: "'a console_scheme \<Rightarrow> 'a console_scheme \<Rightarrow> bool" where
  "output_only s t \<longleftrightarrow> (\<exists>ph l T. t = s\<lparr>phys := ph, io_log := l, terms := (terms s)(unat (curr_term s) := T)\<rparr>
     \<and> (\<forall>a. \<not> in_screen (unat (curr_term s)) a \<longrightarrow> ph a = phys s a)
     \<and> pid T = pid (cur s) \<and> terminal_buf T = terminal_buf (cur s) \<and> terminal_cnt T = terminal_cnt (cur s)
     \<and> terminal_read_on T = terminal_read_on (cur s))"

lemma output_only_refl: "output_only s s"
  unfolding output_only_def cur_def
  by (rule exI [of _ "phys s"], rule exI [of _ "io_log s"], rule exI [of _ "terms s (unat (curr_term s))"]) simp

lemma output_only_trans: "output_only s t \<Longrightarrow> output_only t u \<Longrightarrow> output_only s u"
  unfolding output_only_def cur_def by (elim exE conjE) (simp, blast)

lemma output_only_frame:
  assumes "output_only s t"
  shows "mmu t = mmu s" "curr_term t = curr_term s" "term_on_screen t = term_on_screen s" "curr_pid t = curr_pid s"
    "terminal t = terminal s" "master_mask t = master_mask s" "slave_mask t = slave_mask s" "iflag t = iflag s"
    "\<not> in_screen (unat (curr_term s)) a \<Longrightarrow> phys t a = phys s a"
    "i \<noteq> unat (curr_term s) \<Longrightarrow> terms t i = terms s i"
  using assms unfolding output_only_def by auto

lemma console_ok_output: "output_only s t \<Longrightarrow> console_ok s \<Longrightarrow> console_ok t"
  using views_mmu [OF output_only_frame(1)] output_only_frame(2,3) unfolding console_ok_def by metis

lemma update_cursor_log: "\<exists>l. update_cursor s = s\<lparr>io_log := l\<rparr>"
  by (auto simp: update_cursor_def outb_def Let_def)

definition cursor_log :: "'a console_scheme \<Rightarrow> 'a console_scheme" where
  "cursor_log s = (if term_on_screen s = curr_term s then update_cursor s else s)"

lemma cursor_log: "\<exists>l. cursor_log s = s\<lparr>io_log := l\<rparr>"
proof (cases "term_on_screen s = curr_term s")
  case False
  then have "cursor_log s = s\<lparr>io_log := io_log s\<rparr>" by (simp add: cursor_log_def)
  then show ?thesis ..
qed (use update_cursor_log in \<open>simp add: cursor_log_def\<close>)

text \<open>\<open>place s ph x y l\<close>: memory \<open>ph\<close>, the cursor of \<open>curr_term\<close> at \<open>(x, y)\<close>, port log \<open>l\<close>.\<close>

definition place :: "'a console_scheme \<Rightarrow> (u32 \<Rightarrow> u8) \<Rightarrow> u32 \<Rightarrow> u32 \<Rightarrow> io_event list \<Rightarrow> 'a console_scheme" where
  "place s ph x y l = s\<lparr>phys := ph, io_log := l,
     terms := (terms s)(unat (curr_term s) := (cur s)\<lparr>screen_x := x, screen_y := y\<rparr>)\<rparr>"

lemma next_row: "y + 1 = (24 :: u32) \<longleftrightarrow> y = 23" "x + 1 = (80 :: u32) \<longleftrightarrow> x = 79"
proof -
  have "y + 1 = (24 :: u32) \<longleftrightarrow> y = 24 - 1" by (simp only: eq_diff_eq)
  then show "y + 1 = (24 :: u32) \<longleftrightarrow> y = 23" by simp
  have "x + 1 = (80 :: u32) \<longleftrightarrow> x = 80 - 1" by (simp only: eq_diff_eq)
  then show "x + 1 = (80 :: u32) \<longleftrightarrow> x = 79" by simp
qed

lemma place_done: "\<exists>l. cursor_log (place s ph x y l0) = place s ph x y l"
proof -
  obtain l where l: "cursor_log (place s ph x y l0) = (place s ph x y l0)\<lparr>io_log := l\<rparr>" using cursor_log by blast
  then have "cursor_log (place s ph x y l0) = place s ph x y l" by (simp add: place_def)
  then show ?thesis ..
qed

lemma term_xy: "t\<lparr>screen_y := y, screen_x := x\<rparr> = t\<lparr>screen_x := x, screen_y := y\<rparr>"
  by simp

lemma putc_newline:
  assumes "c = 10 \<or> c = 13" "screen_y (cur s) \<noteq> 23"
  shows "\<exists>l. putc c s = Some (place s (phys s) 0 (screen_y (cur s) + 1) l)"
proof -
  have "putc c s = Some (cursor_log (place s (phys s) 0 (screen_y (cur s) + 1) (io_log s)))"
    using assms by (simp add: putc_def upd_cur_def upd_term_def cur_def place_def cursor_log_def next_row term_xy)
  then show ?thesis using place_done by metis
qed

lemma putc_newline_scroll:
  assumes "console_ok s" "c = 10 \<or> c = 13" "screen_y (cur s) = 23"
  shows "\<exists>ph l. putc c s = Some (place s ph 0 23 l) \<and> scrolled (unat (curr_term s)) s 1920 (s\<lparr>phys := ph\<rparr>)"
proof -
  let ?s = "upd_cur (\<lambda>t. t\<lparr>screen_y := screen_y t + 1\<rparr>) s"
  have "views ?s (unat (curr_term s))"
    using assms(1) by (simp add: console_ok_def upd_cur_def upd_term_def views_fields)
  then obtain t where t: "scroll_screen ?s = Some t" "scrolled (unat (curr_term s)) ?s 1920 t"
    using scroll_screen_scrolled by blast
  define ph where "ph = phys t"
  have ph: "t = ?s\<lparr>phys := ph\<rparr>" using t(2) by (simp add: scrolled_def ph_def)
  have "putc c s = Some (cursor_log (place s ph 0 23 (io_log s)))"
    using assms(2,3) t(1) unfolding ph
    by (simp add: putc_def upd_cur_def upd_term_def cur_def place_def cursor_log_def term_xy)
  moreover have "scrolled (unat (curr_term s)) s 1920 (s\<lparr>phys := ph\<rparr>)"
    using t(2) unfolding ph by (auto simp: scrolled_def upd_cur_def upd_term_def)
  ultimately show ?thesis using place_done by metis
qed


text \<open>A printable character, before the cursor moves.\<close>

definition drawn :: "nat \<Rightarrow> nat \<Rightarrow> u8 \<Rightarrow> (u32 \<Rightarrow> u8) \<Rightarrow> u32 \<Rightarrow> u8" where
  "drawn k n c ph = ph(cell k n := c, attr k n := 7)"

lemma unat_cell:
  fixes x y :: u32
  assumes "unat x < 80" "unat y < 25"
  shows "unat (80 * y + x) = 80 * unat y + unat x"
proof -
  have "unat (80 * y) = 80 * unat y" using assms by (simp add: unat_word_ariths)
  then show ?thesis using assms by (subst unat_add_exact) auto
qed

lemma putc_drawn:
  assumes "console_ok s" "c \<noteq> 10" "c \<noteq> 13" "unat (screen_x (cur s)) < 80" "unat (screen_y (cur s)) < 25"
  defines "s1 \<equiv> s\<lparr>phys := drawn (unat (curr_term s)) (80 * unat (screen_y (cur s)) + unat (screen_x (cur s))) c (phys s)\<rparr>"
  shows "putc c s =
    do { s \<leftarrow> Some (upd_cur (\<lambda>t. t\<lparr>screen_x := screen_x t + 1\<rparr>) s1);
         s \<leftarrow> (if screen_x (cur s) = 80 then
                 do { s \<leftarrow> Some (upd_cur (\<lambda>t. t\<lparr>screen_x := 0, screen_y := screen_y t + 1\<rparr>) s);
                      if screen_y (cur s) = 24
                      then do { s \<leftarrow> scroll_screen s; Some (upd_cur (\<lambda>t. t\<lparr>screen_y := 24\<rparr>) s) }
                      else Some s }
               else Some s);
         Some (cursor_log s) }"
proof -
  let ?k = "unat (curr_term s)" and ?n = "80 * unat (screen_y (cur s)) + unat (screen_x (cur s))"
  let ?off = "80 * screen_y (cur s) + screen_x (cur s)"
  have u: "unat ?off = ?n" "?n < 2048" using assms(4,5) by (simp_all add: unat_cell)
  have v: "views s ?k" using assms(1) by (simp add: console_ok_def)
  have st1: "st (vga video_mem ?off) c s = Some (s\<lparr>phys := (phys s)(cell ?k ?n := c)\<rparr>)"
    using vga_access(2) [OF v, of ?off] u by simp
  have st2: "st (vga video_mem ?off + 1) 7 (s\<lparr>phys := (phys s)(cell ?k ?n := c)\<rparr>) = Some s1"
    using vga_access(3) [of "s\<lparr>phys := (phys s)(cell ?k ?n := c)\<rparr>" ?k ?off] v u by (simp add: s1_def drawn_def)
  have cur: "cur (s\<lparr>phys := f\<rparr>) = cur s" for f by (simp add: cur_def)
  have nl: "(c = 10 \<or> c = 13) = False" using assms(2,3) by simp
  show ?thesis
    unfolding putc_def nl if_False st1 Option.bind.bind_lunit cur st2 cursor_log_def ..
qed

lemma putc_char:
  assumes "console_ok s" "c \<noteq> 10" "c \<noteq> 13" "unat (screen_x (cur s)) < 79" "unat (screen_y (cur s)) < 25"
  shows "\<exists>l. putc c s = Some (place s (drawn (unat (curr_term s)) (80 * unat (screen_y (cur s)) + unat (screen_x (cur s))) c (phys s))
    (screen_x (cur s) + 1) (screen_y (cur s)) l)"
proof -
  have x: "screen_x (cur s) \<noteq> 79" "unat (screen_x (cur s)) < 80" using assms(4) by auto
  define ph where "ph = drawn (unat (curr_term s)) (80 * unat (screen_y (cur s)) + unat (screen_x (cur s))) c (phys s)"
  have "putc c s = Some (cursor_log (place s ph (screen_x (cur s) + 1) (screen_y (cur s)) (io_log s)))"
    unfolding putc_drawn [OF assms(1-3) x(2) assms(5)] ph_def [symmetric]
    using x(1) by (simp add: upd_cur_def upd_term_def cur_def place_def next_row)
  then show ?thesis using place_done unfolding ph_def by metis
qed

lemma putc_wrap:
  assumes "console_ok s" "c \<noteq> 10" "c \<noteq> 13" "screen_x (cur s) = 79" "unat (screen_y (cur s)) < 25" "screen_y (cur s) \<noteq> 23"
  shows "\<exists>l. putc c s = Some (place s (drawn (unat (curr_term s)) (80 * unat (screen_y (cur s)) + 79) c (phys s))
    0 (screen_y (cur s) + 1) l)"
proof -
  have x: "unat (screen_x (cur s)) < 80" using assms(4) by simp
  define ph where "ph = drawn (unat (curr_term s)) (80 * unat (screen_y (cur s)) + 79) c (phys s)"
  have u: "80 * unat (screen_y (cur s)) + unat (screen_x (cur s)) = 80 * unat (screen_y (cur s)) + 79"
    using assms(4) by simp
  have "putc c s = Some (cursor_log (place s ph 0 (screen_y (cur s) + 1) (io_log s)))"
    unfolding putc_drawn [OF assms(1-3) x assms(5)] u ph_def [symmetric]
    using assms(4,6) by (simp add: upd_cur_def upd_term_def cur_def place_def next_row)
  then show ?thesis using place_done unfolding ph_def by metis
qed

lemma putc_corner:
  assumes "console_ok s" "c \<noteq> 10" "c \<noteq> 13" "screen_x (cur s) = 79" "screen_y (cur s) = 23"
  shows "\<exists>ph l. putc c s = Some (place s ph 0 24 l)
    \<and> scrolled (unat (curr_term s)) (s\<lparr>phys := drawn (unat (curr_term s)) 1919 c (phys s)\<rparr>) 1920 (s\<lparr>phys := ph\<rparr>)"
proof -
  have x: "unat (screen_x (cur s)) < 80" "unat (screen_y (cur s)) < 25" using assms(4,5) by simp_all
  define ph1 where "ph1 = drawn (unat (curr_term s)) 1919 c (phys s)"
  have u: "80 * unat (screen_y (cur s)) + unat (screen_x (cur s)) = 1919" using assms(4,5) by simp
  let ?s = "upd_cur (\<lambda>t. t\<lparr>screen_x := 0, screen_y := 24\<rparr>) (s\<lparr>phys := ph1\<rparr>)"
  have "views ?s (unat (curr_term s))"
    using assms(1) by (simp add: console_ok_def upd_cur_def upd_term_def views_fields)
  then obtain t where t: "scroll_screen ?s = Some t" "scrolled (unat (curr_term s)) ?s 1920 t"
    using scroll_screen_scrolled by blast
  define ph where "ph = phys t"
  have ph: "t = ?s\<lparr>phys := ph\<rparr>" using t(2) by (simp add: scrolled_def ph_def)
  have s: "upd_cur (\<lambda>t. t\<lparr>screen_x := 0, screen_y := screen_y t + 1\<rparr>) (upd_cur (\<lambda>t. t\<lparr>screen_x := screen_x t + 1\<rparr>) (s\<lparr>phys := ph1\<rparr>)) = ?s"
    using assms(5) by (simp add: upd_cur_def upd_term_def cur_def)
  have "putc c s = Some (cursor_log (place s ph 0 24 (io_log s)))"
    unfolding putc_drawn [OF assms(1-3) x] u ph1_def [symmetric] Option.bind.bind_lunit s
    using assms(4,5) t(1) unfolding ph
    by (simp add: upd_cur_def upd_term_def cur_def place_def)
  moreover have "scrolled (unat (curr_term s)) (s\<lparr>phys := ph1\<rparr>) 1920 (s\<lparr>phys := ph\<rparr>)"
    using t(2) unfolding ph by (auto simp: scrolled_def upd_cur_def upd_term_def)
  ultimately show ?thesis using place_done unfolding ph1_def by metis
qed

section \<open>putc and puts refine the abstract screen\<close>

lemma output_only_place:
  assumes "\<And>a. \<not> in_screen (unat (curr_term s)) a \<Longrightarrow> ph a = phys s a"
  shows "output_only s (place s ph x y l)"
  unfolding output_only_def
  by (rule exI [of _ ph], rule exI [of _ l], rule exI [of _ "(cur s)\<lparr>screen_x := x, screen_y := y\<rparr>"])
    (simp add: place_def assms)

lemma cell_in_screen: "k < 3 \<Longrightarrow> n < 2048 \<Longrightarrow> in_screen k (cell k n) \<and> in_screen k (attr k n)"
  by (simp add: cell_def attr_def in_screen_addr)

lemma drawn_frame: "k < 3 \<Longrightarrow> n < 2048 \<Longrightarrow> \<not> in_screen k a \<Longrightarrow> drawn k n c ph a = ph a"
  using cell_in_screen by (auto simp: drawn_def)

lemma drawn_cell: "k < 3 \<Longrightarrow> n < 2048 \<Longrightarrow> m < 2048 \<Longrightarrow> drawn k n c ph (cell k m) = (if m = n then c else ph (cell k m))"
  by (simp add: drawn_def)

lemma scrolled_frame: "k < 3 \<Longrightarrow> scrolled k s m t \<Longrightarrow> \<not> in_screen k a \<Longrightarrow> phys t a = phys s a"
proof -
  assume a: "k < 3" "scrolled k s m t" "\<not> in_screen k a"
  then have "\<forall>n<1920. a \<noteq> cell k n" using cell_in_screen [OF a(1)] by fastforce
  then show ?thesis using a(2) unfolding scrolled_def by blast
qed

lemma tty_of_place:
  "k = unat (curr_term s) \<Longrightarrow> tty_of k (place s ph x y l) =
   \<lparr> tty_char = (\<lambda>n. if n < 1920 then ph (cell k n) else 0), tty_x = unat x, tty_y = unat y \<rparr>"
  by (simp add: tty_of_def place_def fun_eq_iff)

lemma unat_next: "unat (x :: u32) < 100 \<Longrightarrow> unat (x + 1) = unat x + 1"
  by (subst unat_add_exact) auto

lemma tty_of_fields:
  "tty_x (tty_of (unat (curr_term s)) s) = unat (screen_x (cur s))"
  "tty_y (tty_of (unat (curr_term s)) s) = unat (screen_y (cur s))"
  by (simp_all add: tty_of_def cur_def)

lemma putc_refines_newline:
  assumes "console_ok s" "tty_ok (tty_of (unat (curr_term s)) s)" "c = 10 \<or> c = 13"
  shows "\<exists>t. putc c s = Some t \<and> tty_of (unat (curr_term s)) t = tty_putc c (tty_of (unat (curr_term s)) s) \<and> output_only s t"
proof (cases "screen_y (cur s) = 23")
  case True
  let ?k = "unat (curr_term s)"
  have k: "?k < 3" using assms(1) views_less by (auto simp: console_ok_def)
  obtain ph l where ph: "putc c s = Some (place s ph 0 23 l)" "scrolled ?k s 1920 (s\<lparr>phys := ph\<rparr>)"
    using putc_newline_scroll [OF assms(1,3) True] by blast
  have "tty_of ?k (place s ph 0 23 l) = tty_putc c (tty_of ?k s)"
    using ph(2) True assms(3)
    by (auto simp: tty_of_place tty_putc_def tty_newline_def tty_of_fields tty_scroll_def scrolled_def)
      (auto simp: tty_of_def cur_def fun_eq_iff)
  moreover have "output_only s (place s ph 0 23 l)"
    using scrolled_frame [OF k ph(2)] by (intro output_only_place) simp
  ultimately show ?thesis using ph(1) by blast
next
  case False
  let ?k = "unat (curr_term s)"
  obtain l where l: "putc c s = Some (place s (phys s) 0 (screen_y (cur s) + 1) l)"
    using putc_newline [OF assms(3) False] by blast
  have y: "unat (screen_y (cur s)) < 24" "unat (screen_y (cur s)) \<noteq> 23"
    using assms(2) False by (auto simp: tty_ok_def tty_of_fields word_unat_eq_iff)
  have "tty_of ?k (place s (phys s) 0 (screen_y (cur s) + 1) l) = tty_putc c (tty_of ?k s)"
    using y assms(3) by (auto simp: tty_of_place tty_putc_def tty_newline_def tty_of_fields unat_next)
      (simp_all add: tty_of_def cur_def)
  moreover have "output_only s (place s (phys s) 0 (screen_y (cur s) + 1) l)"
    by (intro output_only_place) simp
  ultimately show ?thesis using l by blast
qed

lemma putc_refines_char:
  assumes "console_ok s" "tty_ok (tty_of (unat (curr_term s)) s)" "c \<noteq> 10" "c \<noteq> 13" "\<not> tty_last c (tty_of (unat (curr_term s)) s)"
  shows "\<exists>t. putc c s = Some t \<and> tty_of (unat (curr_term s)) t = tty_putc c (tty_of (unat (curr_term s)) s) \<and> output_only s t"
proof -
  let ?k = "unat (curr_term s)" and ?x = "unat (screen_x (cur s))" and ?y = "unat (screen_y (cur s))"
  have k: "?k < 3" using assms(1) views_less by (auto simp: console_ok_def)
  have xy: "?x < 80" "?y < 24" using assms(2) by (simp_all add: tty_ok_def tty_of_fields)
  show ?thesis
  proof (cases "?x = 79")
    case True
    then have x: "screen_x (cur s) = 79" by (simp add: word_unat_eq_iff)
    have "?y \<noteq> 23" using assms(3-5) True by (simp add: tty_last_def tty_of_fields)
    then have y: "screen_y (cur s) \<noteq> 23" "?y < 25" "?y \<noteq> 23" using xy by (auto simp: word_unat_eq_iff)
    let ?ph = "drawn ?k (80 * ?y + 79) c (phys s)"
    obtain l where l: "putc c s = Some (place s ?ph 0 (screen_y (cur s) + 1) l)"
      using putc_wrap [OF assms(1,3,4) x y(2,1)] by blast
    have "tty_of ?k (place s ?ph 0 (screen_y (cur s) + 1) l) = tty_putc c (tty_of ?k s)"
      using xy y k assms(3,4) True
      by (simp add: tty_of_place tty_putc_def tty_newline_def tty_of_fields unat_next drawn_cell Let_def)
        (simp add: tty_of_def cur_def drawn_cell fun_eq_iff)
    moreover have "output_only s (place s ?ph 0 (screen_y (cur s) + 1) l)"
      using xy by (intro output_only_place drawn_frame [OF k]) auto
    ultimately show ?thesis using l by blast
  next
    case False
    then have x: "?x < 79" "?y < 25" using xy by auto
    let ?ph = "drawn ?k (80 * ?y + ?x) c (phys s)"
    obtain l where l: "putc c s = Some (place s ?ph (screen_x (cur s) + 1) (screen_y (cur s)) l)"
      using putc_char [OF assms(1,3,4) x] by blast
    have "tty_of ?k (place s ?ph (screen_x (cur s) + 1) (screen_y (cur s)) l) = tty_putc c (tty_of ?k s)"
      using xy x k assms(3,4) False
      by (simp add: tty_of_place tty_putc_def tty_of_fields unat_next drawn_cell Let_def)
        (simp add: tty_of_def cur_def drawn_cell fun_eq_iff)
    moreover have "output_only s (place s ?ph (screen_x (cur s) + 1) (screen_y (cur s)) l)"
      using xy by (intro output_only_place drawn_frame [OF k]) auto
    ultimately show ?thesis using l by blast
  qed
qed

lemma putc_refines:
  assumes "console_ok s" "tty_ok (tty_of (unat (curr_term s)) s)" "\<not> tty_last c (tty_of (unat (curr_term s)) s)"
  obtains t where "putc c s = Some t" "tty_of (unat (curr_term s)) t = tty_putc c (tty_of (unat (curr_term s)) s)" "output_only s t"
  using putc_refines_newline [OF assms(1,2)] putc_refines_char [OF assms(1,2) _ _ assms(3)] by blast

end
