(* ===== verification/Printf.thy ===== *)
theory Printf
  imports Screen
begin

text \<open>
  \<open>puts\<close> and \<open>printf\<close> against references on lists: \<open>puts\<close> writes the characters of its string,
  \<open>printf\<close> the characters \<open>render\<close> gives for the format and the arguments, both through the
  abstract screen of \<open>Screen\<close>, and both return what they say they return.
\<close>

section \<open>puts\<close>

text \<open>\<open>shows s xs t\<close>: the characters \<open>xs\<close> have been written, and nothing else has happened.\<close>

definition shows_out :: "'a console_scheme \<Rightarrow> u8 list \<Rightarrow> 'a console_scheme \<Rightarrow> bool" where
  "shows_out s xs t \<longleftrightarrow> tty_of (unat (curr_term s)) t = fold tty_putc xs (tty_of (unat (curr_term s)) s) \<and> output_only s t"

text \<open>A state in which \<open>xs\<close> can be written without meeting the corner.\<close>

definition can_show :: "'a console_scheme \<Rightarrow> u8 list \<Rightarrow> bool" where
  "can_show s xs \<longleftrightarrow> console_ok s \<and> tty_ok (tty_of (unat (curr_term s)) s) \<and> tty_fits xs (tty_of (unat (curr_term s)) s)"

lemma shows_out_Nil: "shows_out s [] s"
  by (simp add: shows_out_def output_only_refl)

lemma shows_out_append: "shows_out s xs t \<Longrightarrow> shows_out t ys u \<Longrightarrow> shows_out s (xs @ ys) u"
  using output_only_trans output_only_frame(2) unfolding shows_out_def by (metis fold_append comp_apply)

lemma tty_fits_append: "tty_fits (xs @ ys) t \<longleftrightarrow> tty_fits xs t \<and> tty_fits ys (fold tty_putc xs t)"
  by (induction xs arbitrary: t) auto

lemma tty_ok_fold: "tty_ok t \<Longrightarrow> tty_ok (fold tty_putc xs t)"
  by (induction xs arbitrary: t) (auto simp: tty_ok_putc)

lemma can_show_rest: "can_show s (xs @ ys) \<Longrightarrow> shows_out s xs t \<Longrightarrow> can_show t ys"
  unfolding can_show_def shows_out_def
  using console_ok_output output_only_frame(2) by (metis tty_fits_append tty_ok_fold)

lemma can_show_first: "can_show s (xs @ ys) \<Longrightarrow> can_show s xs"
  by (simp add: can_show_def tty_fits_append)

lemma putc_shows: "can_show s (c # cs) \<Longrightarrow> \<exists>t. putc c s = Some t \<and> shows_out s [c] t \<and> can_show t cs"
proof -
  assume c: "can_show s (c # cs)"
  then obtain t where t: "putc c s = Some t" "shows_out s [c] t"
    unfolding can_show_def shows_out_def by (auto elim: putc_refines)
  then show ?thesis using can_show_rest [of s "[c]" cs t] c by auto
qed

lemma puts_from_shows:
  assumes "cstr rd xs" "i \<le> length xs" "can_show s (drop i xs)"
  shows "\<exists>t. puts_from (\<lambda>_. rd) (of_nat i) s = Some (of_nat (length xs), t) \<and> shows_out s (drop i xs) t"
  using assms(2,3)
proof (induction "length xs - i" arbitrary: i s)
  case 0
  then have "rd (of_nat i) = Some 0" "i = length xs" using assms(1) by (auto simp: cstr_def)
  then show ?case by (subst puts_from.simps) (simp add: shows_out_Nil)
next
  case (Suc k)
  then have i: "i < length xs" by simp
  then have rd: "rd (of_nat i) = Some (xs ! i)" "xs ! i \<noteq> 0" using assms(1) by (auto simp: cstr_def)
  have d: "drop i xs = [xs ! i] @ drop (Suc i) xs" using i by (simp add: Cons_nth_drop_Suc)
  then obtain t where t: "putc (xs ! i) s = Some t" "shows_out s [xs ! i] t" "can_show t (drop (Suc i) xs)"
    using putc_shows Suc.prems(2) by fastforce
  have "k = length xs - Suc i" using Suc.hyps(2) by simp
  then obtain u where u: "puts_from (\<lambda>_. rd) (of_nat (Suc i)) t = Some (of_nat (length xs), u)" "shows_out t (drop (Suc i) xs) u"
    using Suc.hyps(1) [of "Suc i" t] t(3) i by auto
  then have "puts_from (\<lambda>_. rd) (of_nat i) s = Some (of_nat (length xs), u)"
    using rd t(1) by (subst puts_from.simps) (simp add: add.commute)
  moreover have "shows_out s (drop i xs) u" unfolding d by (rule shows_out_append [OF t(2) u(2)])
  ultimately show ?case by blast
qed

lemma puts_shows:
  "cstr rd xs \<Longrightarrow> can_show s xs \<Longrightarrow> \<exists>t. puts (\<lambda>_. rd) s = Some (of_nat (length xs), t) \<and> shows_out s xs t"
  using puts_from_shows [of rd xs 0 s] by (simp add: puts_def)

lemma buf_cstr:
  "0 \<notin> set xs \<Longrightarrow> length xs < 2 ^ 31 \<Longrightarrow> off = length L \<Longrightarrow> cstr (\<lambda>i. buf_get (L @ xs @ 0 # R) (off + unat i)) xs"
  by (auto simp: cstr_def buf_get_def nth_append unat_of_nat_small in_set_conv_nth)

lemma lit_cstr: "0 \<notin> set xs \<Longrightarrow> length xs < 2 ^ 31 \<Longrightarrow> cstr (lit (xs @ [0])) xs"
  by (auto simp: cstr_def lit_def nth_append unat_of_nat_small in_set_conv_nth)

lemma puts_buf_shows:
  assumes "0 \<notin> set xs" "length xs < 2 ^ 31" "can_show s xs"
  shows "\<exists>t. puts_buf (L @ xs @ 0 # R) (length L) s = Some t \<and> shows_out s xs t"
  using puts_shows [OF buf_cstr [OF assms(1,2) refl] assms(3), of L R] by (auto simp: puts_buf_def)

section \<open>Numbers\<close>

lemma decimal_nonzero: "unat r \<le> 36 \<Longrightarrow> 0 \<notin> set (decimal r v)"
  by (simp add: decimal_def digits_nonzero)

lemma decimal_length:
  assumes "2 \<le> unat r" "unat v < unat r ^ k" "0 < k"
  shows "length (decimal r v) \<le> k"
  using digits_length [OF assms(1,2)] assms(3) by (simp add: decimal_def)

lemma decimal_length_10: "length (decimal 10 v) \<le> 10"
  using decimal_length [of 10 v 10] unsigned_less [of v, where ?'a = nat] by simp

lemma decimal_length_16: "length (decimal 16 v) \<le> 8"
  using decimal_length [of 16 v 8] unsigned_less [of v, where ?'a = nat] by simp

lemma itoa_at:
  assumes "2 \<le> unat r" "unat r \<le> 36" "off + length (decimal r v) < n"
  shows "itoa v (replicate n 0) off r
    = Some (replicate off 0 @ decimal r v @ 0 # replicate (n - off - length (decimal r v) - 1) 0)"
proof -
  have "replicate n 0 = replicate off (0::u8) @ replicate (n - off) 0"
    using assms(3) by (simp flip: replicate_add)
  then show ?thesis
    using itoa_decimal [OF assms(1,2), of v "replicate (n - off) 0" "replicate off 0"] assms(3) by simp
qed

lemma print_number:
  assumes "2 \<le> unat r" "unat r \<le> 36" "length (decimal r v) < n" "n < 100" "can_show s (decimal r v)"
  shows "\<exists>t. itoa v (replicate n 0) 0 r \<bind> (\<lambda>b. puts_buf b 0 s) = Some t \<and> shows_out s (decimal r v) t"
  using itoa_at [of r 0 v n] assms
    puts_buf_shows [of "decimal r v" s "[]" "replicate (n - length (decimal r v) - 1) 0"] decimal_nonzero [OF assms(2)]
  by simp

lemma print_unsigned_shows: "can_show s (decimal 10 v) \<Longrightarrow> \<exists>t. print_unsigned v s = Some t \<and> shows_out s (decimal 10 v) t"
  unfolding print_unsigned_def using decimal_length_10 [of v] by (intro print_number) auto

lemma print_hex_shows: "can_show s (decimal 16 v) \<Longrightarrow> \<exists>t. print_hex v s = Some t \<and> shows_out s (decimal 16 v) t"
  unfolding print_hex_def using decimal_length_16 [of v] by (intro print_number) auto

definition signed_decimal :: "u32 \<Rightarrow> u8 list" where
  "signed_decimal v = (if slt v 0 then 45 # decimal 10 (- v) else decimal 10 v)"

lemma print_signed_shows:
  assumes "can_show s (signed_decimal v)"
  shows "\<exists>t. print_signed v s = Some t \<and> shows_out s (signed_decimal v) t"
proof (cases "slt v 0")
  case True
  let ?D = "decimal 10 (- v)"
  have l: "length ?D \<le> 10" by (rule decimal_length_10)
  have "(replicate 36 0)[0 := 45] = [45] @ replicate 35 (0::u8)" by (simp add: numeral_eq_Suc)
  moreover have "itoa (- v) ([45] @ replicate 35 0) (length [45 :: u8]) 10 = Some ([45] @ ?D @ 0 # drop (length ?D + 1) (replicate 35 0))"
    using l by (intro itoa_decimal) auto
  ultimately have i: "itoa (- v) ((replicate 36 0)[0 := 45]) 1 10 = Some ([] @ (45 # ?D) @ 0 # replicate (35 - (length ?D + 1)) 0)"
    by simp
  have "\<exists>t. puts_buf ([] @ (45 # ?D) @ 0 # replicate (35 - (length ?D + 1)) 0) (length ([] :: u8 list)) s = Some t
      \<and> shows_out s (45 # ?D) t"
    using l assms decimal_nonzero [of 10 "- v"] True by (intro puts_buf_shows) (auto simp: signed_decimal_def)
  then show ?thesis unfolding print_signed_def i using True by (simp add: signed_decimal_def)
next
  case False
  then show ?thesis
    using print_number [of 10 v 36 s] decimal_length_10 [of v] assms by (auto simp: print_signed_def signed_decimal_def)
qed

definition hex8 :: "u32 \<Rightarrow> u8 list" where
  "hex8 v = replicate (8 - length (decimal 16 v)) 48 @ decimal 16 v"

lemma hex8_length: "length (hex8 v) = 8"
  using decimal_length_16 [of v] by (simp add: hex8_def)

lemma pad_zeros_upto:
  "n \<le> m \<Longrightarrow> m \<le> length xs \<Longrightarrow> fold (\<lambda>i b. b[i := 48]) [n..<m] xs = take n xs @ replicate (m - n) (48::u8) @ drop m xs"
proof (induction m)
  case (Suc m)
  show ?case
  proof (cases "n = Suc m")
    case False
    then have "fold (\<lambda>i b. b[i := 48]) [n..<Suc m] xs = (take n xs @ replicate (m - n) 48 @ drop m xs)[m := 48]"
      using Suc by (simp add: upt_Suc)
    also have "drop m xs = xs ! m # drop (Suc m) xs" using Suc.prems by (simp add: Cons_nth_drop_Suc)
    also have "(take n xs @ replicate (m - n) 48 @ xs ! m # drop (Suc m) xs)[m := 48]
        = (take n xs @ replicate (m - n) 48) @ 48 # drop (Suc m) xs"
      using list_update_length [of "take n xs @ replicate (m - n) 48" "xs ! m" "drop (Suc m) xs" 48] Suc.prems False
      by (simp add: min_def)
    also have "\<dots> = take n xs @ replicate (Suc m - n) 48 @ drop (Suc m) xs"
      using Suc.prems False by (simp add: Suc_diff_le replicate_append_same [symmetric])
    finally show ?thesis .
  qed simp
qed simp

lemma print_hex_full_shows:
  assumes "can_show s (hex8 v)"
  shows "\<exists>t. print_hex_full v s = Some t \<and> shows_out s (hex8 v) t"
proof -
  let ?D = "decimal 16 v" and ?R = "replicate (55 - length (decimal 16 v)) (0::u8)"
  have l: "length ?D \<le> 8" by (rule decimal_length_16)
  have nz: "0 \<notin> set ?D" by (rule decimal_nonzero) simp
  have i: "itoa v (replicate 64 0) 8 16 = Some (replicate 8 0 @ ?D @ 0 # ?R)"
    using itoa_at [of 16 8 v 64] l by simp
  have s: "strlen (\<lambda>i. buf_get (replicate 8 0 @ ?D @ 0 # ?R) (8 + unat i)) = Some (of_nat (length ?D))"
    using l nz by (intro strlen_cstr buf_cstr) auto
  have u: "unat (of_nat (length ?D) :: u32) = length ?D" by (rule unat_of_nat_small) (use l in simp)
  have p: "pad_zeros (length ?D) (replicate 8 0 @ ?D @ 0 # ?R) = replicate (length ?D) 0 @ hex8 v @ 0 # ?R"
    unfolding pad_zeros_def using l by (subst pad_zeros_upto) (auto simp: hex8_def min_def)
  have "\<exists>t. puts_buf (replicate (length ?D) 0 @ hex8 v @ 0 # ?R) (length (replicate (length ?D) (0::u8))) s = Some t \<and> shows_out s (hex8 v) t"
    using nz assms hex8_length [of v] by (intro puts_buf_shows) (auto simp: hex8_def)
  then show ?thesis unfolding print_hex_full_def i Option.bind.bind_lunit s u p by simp
qed

section \<open>printf\<close>

text \<open>What a format without \<open>%s\<close> stands for. A format that ends inside a conversion, or asks for
  more arguments than there are, has no rendering.\<close>

definition number_out :: "bool \<Rightarrow> u8 \<Rightarrow> u32 \<Rightarrow> u8 list" where
  "number_out alternate c v =
     (if c = asc CHR ''x'' then if alternate then hex8 v else decimal 16 v
      else if c = asc CHR ''u'' then decimal 10 v
      else if c = asc CHR ''d'' then signed_decimal v
      else [ucast v])"

fun render_conversion :: "bool \<Rightarrow> u8 list \<Rightarrow> u32 list \<Rightarrow> (u8 list \<times> u8 list \<times> u32 list) option" where
  "render_conversion alternate [] as = None"
| "render_conversion alternate (c # cs) as =
     (if c = asc CHR ''%'' then Some ([37], cs, as)
      else if c = asc CHR ''#'' then render_conversion True cs as
      else if c = asc CHR ''s'' then None
      else if c \<in> {asc CHR ''x'', asc CHR ''u'', asc CHR ''d'', asc CHR ''c''} then
        (case as of [] \<Rightarrow> None | v # as \<Rightarrow> Some (number_out alternate c v, cs, as))
      else Some ([], cs, as))"

lemma render_conversion_suffix:
  "render_conversion alternate cs as = Some (out, rest, as') \<Longrightarrow> \<exists>used. cs = used @ rest \<and> used \<noteq> []"
proof (induction alternate cs as rule: render_conversion.induct)
  case (2 alternate c cs as)
  show ?case
  proof (cases "c = asc CHR ''#''")
    case True
    then have "render_conversion True cs as = Some (out, rest, as')" "c \<noteq> asc CHR ''%''"
      using "2.prems" by (simp_all add: asc_def)
    then obtain used where "cs = used @ rest" using "2.IH" True by blast
    then show ?thesis by (intro exI [of _ "c # used"]) simp
  next
    case False
    then have "rest = cs" using "2.prems" by (auto split: if_splits list.splits)
    then show ?thesis by (intro exI [of _ "[c]"]) simp
  qed
qed simp

function render :: "u8 list \<Rightarrow> u32 list \<Rightarrow> u8 list option" where
  "render [] as = Some []"
| "render (c # cs) as =
     (if c = asc CHR ''%'' then
        (case render_conversion False cs as of None \<Rightarrow> None
         | Some (out, rest, as) \<Rightarrow> map_option ((@) out) (render rest as))
      else map_option ((#) c) (render cs as))"
  by pat_completeness auto
termination
  by (relation "measure (length \<circ> fst)") (auto dest!: render_conversion_suffix)

lemma asc_codes:
  "asc CHR ''%'' = 37" "asc CHR ''#'' = 35" "asc CHR ''x'' = 120" "asc CHR ''u'' = 117" "asc CHR ''d'' = 100"
  "asc CHR ''c'' = 99" "asc CHR ''s'' = 115"
  by (simp_all add: asc_def)

lemma putc_shows_one: "can_show s [c] \<Longrightarrow> \<exists>t. putc c s = Some t \<and> shows_out s [c] t"
  using putc_shows by blast

lemma conversion_shows:
  assumes "\<And>i. i < length cs \<Longrightarrow> format (of_nat (k + i)) = Some (cs ! i)"
    and "render_conversion alternate cs as = Some (out, rest, as')" "can_show s out"
  shows "\<exists>t. conversion format alternate (of_nat k) as s = Some (of_nat (k + (length cs - length rest) - 1), as', t)
    \<and> shows_out s out t"
  using assms
proof (induction alternate cs as arbitrary: k rule: render_conversion.induct)
  case (2 alternate c cs as)
  have fc: "format (of_nat k) = Some c" using "2.prems"(1) [of 0] by simp
  consider (hash) "c = 35" | (percent) "c = 37" | (hex) "c = 120" | (uns) "c = 117" | (sgn) "c = 100" | (chr) "c = 99"
    | (other) "c \<notin> {35, 37, 120, 117, 100, 99, 115}" | (str) "c = 115" by blast
  then show ?case
  proof cases
    case hash
    have "render_conversion True cs as = Some (out, rest, as')" using "2.prems"(2) hash by (simp add: asc_codes)
    moreover have "format (of_nat (Suc k + i)) = Some (cs ! i)" if "i < length cs" for i
      using "2.prems"(1) [of "Suc i"] that by simp
    ultimately obtain t where t: "conversion format True (of_nat (Suc k)) as s
        = Some (of_nat (Suc k + (length cs - length rest) - 1), as', t)" "shows_out s out t"
      using "2.IH" [of "Suc k"] hash "2.prems"(3) by (auto simp: asc_codes)
    have "Suc k + (length cs - length rest) - 1 = k + (length (c # cs) - length rest) - 1"
      using render_conversion_suffix [OF \<open>render_conversion True cs as = _\<close>] by auto
    then show ?thesis using t fc hash by (subst conversion.simps) (simp add: asc_codes add.commute)
  next
    case percent
    then show ?thesis using "2.prems" fc putc_shows_one [of s 37]
      by (subst conversion.simps) (auto simp: asc_codes)
  next
    case hex
    then obtain v where v: "as = v # as'" "rest = cs" "out = (if alternate then hex8 v else decimal 16 v)"
      using "2.prems"(2) by (auto simp: asc_codes number_out_def split: list.splits)
    then show ?thesis using "2.prems"(3) fc hex print_hex_shows [of s v] print_hex_full_shows [of s v]
      by (subst conversion.simps) (auto simp: asc_codes next_arg_def)
  next
    case uns
    then obtain v where v: "as = v # as'" "rest = cs" "out = decimal 10 v"
      using "2.prems"(2) by (auto simp: asc_codes number_out_def split: list.splits)
    then show ?thesis using "2.prems"(3) fc uns print_unsigned_shows [of s v]
      by (subst conversion.simps) (auto simp: asc_codes next_arg_def)
  next
    case sgn
    then obtain v where v: "as = v # as'" "rest = cs" "out = signed_decimal v"
      using "2.prems"(2) by (auto simp: asc_codes number_out_def split: list.splits)
    then show ?thesis using "2.prems"(3) fc sgn print_signed_shows [of s v]
      by (subst conversion.simps) (auto simp: asc_codes next_arg_def)
  next
    case chr
    then obtain v where v: "as = v # as'" "rest = cs" "out = [ucast v]"
      using "2.prems"(2) by (auto simp: asc_codes number_out_def split: list.splits)
    then show ?thesis using "2.prems"(3) fc chr putc_shows_one [of s "ucast v"]
      by (subst conversion.simps) (auto simp: asc_codes next_arg_def)
  next
    case other
    then show ?thesis using "2.prems" fc
      by (subst conversion.simps) (auto simp: asc_codes shows_out_Nil)
  next
    case str
    then show ?thesis using "2.prems"(2) by (simp add: asc_codes)
  qed
qed simp

lemma printf_from_shows:
  assumes "cstr format fs" "k \<le> length fs" "render (drop k fs) as = Some out" "can_show s out"
  shows "\<exists>t. printf_from format (of_nat k) as s = Some (of_nat (length fs), t) \<and> shows_out s out t"
  using assms(2-4)
proof (induction "length fs - k" arbitrary: k as out s rule: less_induct)
  case less
  show ?case
  proof (cases "k = length fs")
    case True
    then have "format (of_nat k) = Some 0" "out = []" using assms(1) less.prems by (auto simp: cstr_def)
    with True show ?thesis by (subst printf_from.simps) (simp add: shows_out_Nil)
  next
    case False
    then have k: "k < length fs" using less.prems by simp
    have rd: "format (of_nat i) = Some (fs ! i)" if "i < length fs" for i using assms(1) that by (simp add: cstr_def)
    have fk: "format (of_nat k) = Some (fs ! k)" "fs ! k \<noteq> 0" using assms(1) k by (auto simp: cstr_def)
    have d: "drop k fs = fs ! k # drop (Suc k) fs" using k by (simp add: Cons_nth_drop_Suc)
    show ?thesis
    proof (cases "fs ! k = asc CHR ''%''")
      case True
      then obtain o1 rest as1 o2 where r: "render_conversion False (drop (Suc k) fs) as = Some (o1, rest, as1)"
        "render rest as1 = Some o2" "out = o1 @ o2"
        using less.prems(2) unfolding d by (auto split: option.splits)
      obtain used where used: "drop (Suc k) fs = used @ rest" "used \<noteq> []"
        using render_conversion_suffix [OF r(1)] by blast
      let ?j = "Suc k + length used"
      have len: "Suc k + length (used @ rest) = length fs" using used(1) k by (metis length_drop le_add_diff_inverse Suc_leI)
      have "rest = drop (length used) (drop (Suc k) fs)" by (simp add: used(1))
      then have rest: "rest = drop ?j fs" by (simp add: add.commute)
      have "format (of_nat (Suc k + i)) = Some (drop (Suc k) fs ! i)" if "i < length (drop (Suc k) fs)" for i
        using rd [of "Suc k + i"] that by simp
      from conversion_shows [OF this r(1), of s] can_show_first less.prems(3)
      obtain t where t: "conversion format False (of_nat (Suc k)) as s = Some (of_nat (?j - 1), as1, t)" "shows_out s o1 t"
        unfolding used(1) r(3) by fastforce
      have nx: "of_nat (?j - 1) + 1 = (of_nat ?j :: u32)" using used(2) by (cases used) simp_all
      obtain u where u: "printf_from format (of_nat ?j) as1 t = Some (of_nat (length fs), u)" "shows_out t o2 u"
      proof -
        have "length fs - ?j < length fs - k" "?j \<le> length fs" using k len by auto
        moreover have "render (drop ?j fs) as1 = Some o2" using r(2) rest by simp
        moreover have "can_show t o2" using can_show_rest [OF _ t(2)] less.prems(3) r(3) by blast
        ultimately show thesis using less.hyps [of ?j as1 o2 t] that by blast
      qed
      have "printf_from format (of_nat k) as s = Some (of_nat (length fs), u)"
        using fk True t(1) u(1) nx by (subst printf_from.simps) (simp add: add.commute del: of_nat_add)
      then show ?thesis using shows_out_append [OF t(2) u(2)] r(3) by blast
    next
      case False
      then obtain o2 where r: "render (drop (Suc k) fs) as = Some o2" "out = [fs ! k] @ o2"
        using less.prems(2) unfolding d by auto
      obtain t where t: "putc (fs ! k) s = Some t" "shows_out s [fs ! k] t" "can_show t o2"
        using putc_shows less.prems(3) r(2) by fastforce
      obtain u where u: "printf_from format (of_nat (Suc k)) as t = Some (of_nat (length fs), u)" "shows_out t o2 u"
        using less.hyps [of "Suc k" as o2 t] diff_less_mono2 [OF lessI k] k r(1) t(3) by (auto simp del: of_nat_Suc)
      have "printf_from format (of_nat k) as s = Some (of_nat (length fs), u)"
        using fk False t(1) u(1) by (subst printf_from.simps) (simp add: add.commute)
      then show ?thesis using shows_out_append [OF t(2) u(2)] r(2) by blast
    qed
  qed
qed

lemma printf_shows:
  assumes "0 \<notin> set (bytes format)" "length format < 2 ^ 31" "render (bytes format) args = Some out" "can_show s out"
  obtains t where "printf format args s = Some (of_nat (length format), t)" "shows_out s out t"
  using printf_from_shows [OF lit_cstr, of "bytes format" 0 args out s] assms
  by (auto simp: printf_def bytes_def)

lemma puts_const_shows:
  assumes "0 \<notin> set (bytes str)" "length str < 2 ^ 31" "can_show s (bytes str)"
  obtains t where "puts_const str s = Some t" "shows_out s (bytes str) t"
  using puts_shows [OF lit_cstr [of "bytes str"] assms(3)] assms by (auto simp: puts_const_def bytes_def)

end
