(* ===== verification/Terminal.thy ===== *)
theory Terminal
  imports Printf
begin

text \<open>
  The keyboard driver and the terminal driver of \<open>terminal.c\<close>: \<open>kbd_to_char\<close> with its flags and its
  fall-through cases, the line editing of the interrupt handler \<open>kbd\<close>, and the driver's \<open>open\<close>,
  \<open>read\<close>, \<open>write\<close>, \<open>close\<close>. \<open>terminal_read\<close> waits for the handler, so it is two operations with
  any number of interrupts between them; \<open>await\<close> puts them together.
\<close>

section \<open>State\<close>

text \<open>\<open>beyond_characters\<close> is what the linker places after the array \<open>characters\<close>: scan codes of 122
  and more, and of 62 and more with a shift key, index past its end.\<close>

record keyboard = console +
  caps_lock_on :: u32
  l_shift_on :: u32
  r_shift_on :: u32
  ctrl_ready :: u32
  alt_on :: u32
  loging_password :: u8
  beyond_characters :: "nat \<Rightarrow> u8"

definition characters :: "u8 list" where
  "characters =
     [0, 0] @ bytes ''1234567890-'' @
     bytes ''='' @ [8, 146] @ bytes ''qwertyuiop'' @
     bytes ''[]'' @ [10, 0] @ bytes ''asdfghjkl'' @
     bytes '';'' @ [39] @ bytes ''`'' @ [0, 92] @ bytes ''zxcvbnm,'' @
     bytes ''./'' @ [0] @ bytes ''*'' @ [0] @ bytes '' '' @ [0, 0x80, 0x81, 0x82] @ bytes ''!@#'' @
     bytes ''$%^&*()_+'' @ [8, 146] @ bytes ''QW'' @
     bytes ''ERTYUIOP{}|'' @ [0] @ bytes ''A'' @
     bytes ''SDFGHJKL:'' @ [34] @ bytes ''~'' @ [0, 124] @
     bytes ''ZXCVBNM<>?'' @ [0] @ bytes ''*'' @ [0] @
     bytes '' '' @ [0, 0, 0, 0]"

definition character :: "'a keyboard_scheme \<Rightarrow> u32 \<Rightarrow> u8" where
  "character s i = (if unat i < 122 then characters ! unat i else beyond_characters s (unat i - 122))"

section \<open>kbd_to_char\<close>

text \<open>Ctrl-C on a program calls \<open>halt\<close>, which does not come back; its result is the left summand.
  \<open>halt\<close> is defined with the other system calls, and is an argument here.\<close>

type_synonym ('h, 's) key_result = "('h + (u8 \<times> 's)) option"

text \<open>Cases 59, 60 and 61: each returns when alt is down, and falls into the next otherwise.\<close>

definition function_keys :: "u32 \<Rightarrow> 'a keyboard_scheme \<Rightarrow> 'a keyboard_scheme option" where
  "function_keys first s =
     (if first \<le> 59 \<and> alt_on s \<noteq> 0 then Some (switch_term 0 (send_eoi 1 s))
      else if first \<le> 60 \<and> alt_on s \<noteq> 0 then Some (switch_term 1 (send_eoi 1 s))
      else if first \<le> 61 \<and> alt_on s \<noteq> 0 then Some (switch_term 2 (send_eoi 1 s))
      else None)"

definition lookup_character :: "u32 \<Rightarrow> 'a keyboard_scheme \<Rightarrow> u8" where
  "lookup_character inpack s =
     (if caps_lock_on s \<noteq> 0 \<and> \<not> (l_shift_on s \<noteq> 0 \<or> r_shift_on s \<noteq> 0) then
        if inpack > 15 \<and> inpack < 26 \<or> inpack > 29 \<and> inpack < 39 \<or> inpack > 43 \<and> inpack < 51
        then character s (inpack + 60) else character s inpack
      else if (l_shift_on s \<noteq> 0 \<or> r_shift_on s \<noteq> 0) \<and> \<not> caps_lock_on s \<noteq> 0 then character s (inpack + 60)
      else character s inpack)"

text \<open>After the switch, or after falling out of it from case \<open>first\<close>.\<close>

definition after_switch :: "u32 \<Rightarrow> u32 \<Rightarrow> 'a keyboard_scheme \<Rightarrow> ('h, 'a keyboard_scheme) key_result" where
  "after_switch first inpack s =
     (case function_keys first s of Some s \<Rightarrow> Some (Inr (0, s))
      | None \<Rightarrow> Some (Inr (lookup_character inpack s, s)))"

definition clear_line :: "'a keyboard_scheme \<Rightarrow> 'a keyboard_scheme option" where
  "clear_line s =
     do { s \<leftarrow> clear_key s;
          Some (upd_shown (\<lambda>t. t\<lparr>terminal_buf := replicate 128 32, terminal_cnt := 0\<rparr>) s) }"

definition the_matrix :: string where
  "the_matrix = [CHR 0x27] @ ''You cannot leave the matrix'' @ [CHR 0x27] @ '' -The Architect\<newline>''"

text \<open>Case 46 with control down. The loop that waits for \<open>curr_term\<close> runs with interrupts
  disabled, so nothing can end it.\<close>

definition ctrl_c :: "(u8 \<Rightarrow> 'a keyboard_scheme \<Rightarrow> 'h option) \<Rightarrow> 'a keyboard_scheme \<Rightarrow> ('h, 'a keyboard_scheme) key_result" where
  "ctrl_c halt s =
     do { s \<leftarrow> Some (send_eoi 1 s);
          if curr_pid s > 2 then
            if term_on_screen s \<noteq> curr_term s then None
            else map_option Inl (halt 0 (disable_irq 0 s))
          else do { s \<leftarrow> puts_const the_matrix s; Some (Inr (255, s)) } }"

definition kbd_to_char ::
    "(u8 \<Rightarrow> 'a keyboard_scheme \<Rightarrow> 'h option) \<Rightarrow> u32 \<Rightarrow> 'a keyboard_scheme \<Rightarrow> ('h, 'a keyboard_scheme) key_result" where
  "kbd_to_char halt inpack s =
     (if inpack = 58 then Some (Inr (0, s\<lparr>caps_lock_on := if caps_lock_on s \<noteq> 0 then 0 else 1\<rparr>))
      else if inpack = 42 then Some (Inr (0, s\<lparr>l_shift_on := 1\<rparr>))
      else if inpack = 170 then Some (Inr (0, s\<lparr>l_shift_on := 0\<rparr>))
      else if inpack = 54 then Some (Inr (0, s\<lparr>r_shift_on := 1\<rparr>))
      else if inpack = 182 then Some (Inr (0, s\<lparr>r_shift_on := 0\<rparr>))
      else if inpack = 29 then Some (Inr (0, s\<lparr>ctrl_ready := 1\<rparr>))
      else if inpack = 157 then Some (Inr (0, s\<lparr>ctrl_ready := 0\<rparr>))
      else if inpack = 91 then Some (Inr (0, s))
      else if inpack = 56 then Some (Inr (0, s\<lparr>alt_on := 1\<rparr>))
      else if inpack = 184 then Some (Inr (0, s\<lparr>alt_on := 0\<rparr>))
      else if inpack = 92 then Some (Inr (0, s))
      else if inpack = 93 then Some (Inr (0, s))
      else if inpack = 38 then
        if ctrl_ready s \<noteq> 0 then do { s \<leftarrow> clear_line s; Some (Inr (255, s)) }
        else after_switch 59 inpack s
      else if inpack = 46 then
        if ctrl_ready s \<noteq> 0 then ctrl_c halt s else after_switch 59 inpack s
      else if inpack = 59 then after_switch 59 inpack s
      else if inpack = 60 then after_switch 60 inpack s
      else if inpack = 61 then after_switch 61 inpack s
      else Some (Inr (lookup_character inpack s, s)))"

section \<open>The interrupt handler\<close>

definition key_enter :: "'a keyboard_scheme \<Rightarrow> 'a keyboard_scheme option" where
  "key_enter s =
     do { s \<leftarrow> Some (upd_shown (\<lambda>t. t\<lparr>screen_y := screen_y t + 1, screen_x := 0\<rparr>) s);
          s \<leftarrow> (if screen_y (shown s) = 24
                then scroll_screen (upd_shown (\<lambda>t. t\<lparr>screen_y := screen_y t - 1\<rparr>) s) else Some s);
          Some (update_cursor (upd_shown (\<lambda>t. t\<lparr>terminal_read_on := 0\<rparr>) s)) }"

text \<open>A store into \<open>terminal_buf\<close> of the terminal on the screen.\<close>

definition store_key :: "u8 \<Rightarrow> 'a keyboard_scheme \<Rightarrow> 'a keyboard_scheme option" where
  "store_key c s =
     do { b \<leftarrow> buf_set (terminal_buf (shown s)) (unat (terminal_cnt (shown s))) c;
          Some (upd_shown (\<lambda>t. t\<lparr>terminal_buf := b\<rparr>) s) }"

definition key_backspace :: "'a keyboard_scheme \<Rightarrow> 'a keyboard_scheme option" where
  "key_backspace s =
     (if terminal_cnt (shown s) \<noteq> 0 then
        do { s \<leftarrow> store_key 0 s;
             s \<leftarrow> Some (upd_shown (\<lambda>t. t\<lparr>terminal_cnt := terminal_cnt t - 1\<rparr>) s);
             let offset = screen_x (shown s) - 1 + screen_y (shown s) * 80;
             s \<leftarrow> st (vga (shown_screen s) offset) 0 s;
             s \<leftarrow> st (vga (shown_screen s) offset + 1) 7 s;
             s \<leftarrow> Some (if screen_x (shown s) = 0 \<and> screen_y (shown s) \<noteq> 0
                   then upd_shown (\<lambda>t. t\<lparr>screen_x := 79, screen_y := screen_y t - 1\<rparr>) s
                   else upd_shown (\<lambda>t. t\<lparr>screen_x := screen_x t - 1\<rparr>) s);
             Some (update_cursor s) }
      else Some s)"

definition key_char :: "u8 \<Rightarrow> 'a keyboard_scheme \<Rightarrow> 'a keyboard_scheme option" where
  "key_char input s =
     do { s \<leftarrow> store_key input s;
          s \<leftarrow> Some (upd_shown (\<lambda>t. t\<lparr>terminal_cnt := terminal_cnt t + 1, screen_x := screen_x t + 1\<rparr>) s);
          s \<leftarrow> (if screen_x (shown s) = 80 then
                  do { s \<leftarrow> Some (upd_shown (\<lambda>t. t\<lparr>screen_x := 0, screen_y := screen_y t + 1\<rparr>) s);
                       if screen_y (shown s) = 24
                       then scroll_screen (upd_shown (\<lambda>t. t\<lparr>screen_y := screen_y t - 1\<rparr>) s) else Some s }
                else Some s);
          s \<leftarrow> Some (update_cursor s);
          let offset = screen_x (shown s) - 1 + screen_y (shown s) * 80;
          s \<leftarrow> st (vga (shown_screen s) offset) (if loging_password s = 0 then input else 32) s;
          st (vga (shown_screen s) offset + 1) 7 s }"

definition key_full :: "'a keyboard_scheme \<Rightarrow> 'a keyboard_scheme option" where
  "key_full s =
     do { s \<leftarrow> (if slt (screen_y (shown s)) 23
                then Some (upd_shown (\<lambda>t. t\<lparr>screen_y := screen_y t + 1\<rparr>) s) else scroll_screen s);
          s \<leftarrow> Some (update_cursor (upd_shown (\<lambda>t. t\<lparr>screen_x := 0\<rparr>) s));
          Some (upd_shown (\<lambda>t. t\<lparr>terminal_read_on := 0\<rparr>) s) }"

text \<open>The part of \<open>kbd\<close> that edits the line: \<open>input\<close> is not 0 and a read is waiting.\<close>

definition key_input :: "u8 \<Rightarrow> 'a keyboard_scheme \<Rightarrow> 'a keyboard_scheme option" where
  "key_input input s =
     do { s \<leftarrow> (if input = 0x0A then key_enter s
                else if input = 0x08 then key_backspace s
                else if \<not> slt 127 (terminal_cnt (shown s)) then key_char input s
                else Some s);
          if terminal_cnt (shown s) = 128 then key_full s else Some s }"

text \<open>The handler ends with \<open>iret\<close>; its result is the state the interrupted code goes on in, or
  what \<open>halt\<close> left.\<close>

definition kbd ::
    "(u8 \<Rightarrow> 'a keyboard_scheme \<Rightarrow> 'h option) \<Rightarrow> device \<Rightarrow> 'a keyboard_scheme \<Rightarrow> ('h + 'a keyboard_scheme) option" where
  "kbd halt dev s =
     (let (inpack, s) = inb dev 0x60 (cli s)
      in case kbd_to_char halt (ucast inpack) s of
           None \<Rightarrow> None
         | Some (Inl h) \<Rightarrow> Some (Inl h)
         | Some (Inr (input, s)) \<Rightarrow>
             if input = 255 then
               Some (Inr (sti (send_eoi 1 (upd_shown (\<lambda>t. t\<lparr>terminal_read_on := 0\<rparr>) s))))
             else
               do { s \<leftarrow> (if input \<noteq> 0 \<and> terminal_read_on (shown s) = 1 then key_input input s else Some s);
                    Some (Inr (sti (send_eoi 1 s))) })"

section \<open>The driver\<close>

definition terminal_open :: "u32 \<Rightarrow> 'a keyboard_scheme \<Rightarrow> u32 \<times> 'a keyboard_scheme" where
  "terminal_open filename s = (0, s)"

definition terminal_close :: "u32 \<Rightarrow> 'a keyboard_scheme \<Rightarrow> u32 \<times> 'a keyboard_scheme" where
  "terminal_close filename s = (0, s)"

text \<open>\<open>memcpy\<close> from an array of the kernel image to \<open>dest\<close>: \<open>None\<close> past the end of the array.\<close>

definition copy_out :: "u32 \<Rightarrow> u8 list \<Rightarrow> u32 \<Rightarrow> 'a machine_scheme \<Rightarrow> 'a machine_scheme option" where
  "copy_out dest src n s = (if unat n \<le> length src then put_bytes dest (take (unat n) src) s else None)"

definition terminal_read_begin :: "'a keyboard_scheme \<Rightarrow> 'a keyboard_scheme" where
  "terminal_read_begin s =
     sti (upd_cur (\<lambda>t. t\<lparr>terminal_read_on := 1, terminal_cnt := 0, terminal_buf := replicate 128 32\<rparr>) s)"

definition terminal_read_end :: "u32 \<Rightarrow> u32 \<Rightarrow> 'a keyboard_scheme \<Rightarrow> (u32 \<times> 'a keyboard_scheme) option" where
  "terminal_read_end buf cnt s =
     (let s = cli s; n = terminal_cnt (cur s)
      in if \<not> slt cnt n \<or> slt n 128 then
           do { s \<leftarrow> copy_out buf (terminal_buf (cur s)) n s;
                s \<leftarrow> memset (buf + n) 0 1 s;
                s \<leftarrow> Some (upd_cur (\<lambda>t. t\<lparr>terminal_buf := replicate 128 0\<rparr>) s);
                Some (terminal_cnt (cur s), s) }
         else
           do { s \<leftarrow> copy_out buf (terminal_buf (cur s)) cnt s;
                s \<leftarrow> memset (buf + cnt) 0 1 s;
                s \<leftarrow> Some (upd_cur (\<lambda>t. t\<lparr>terminal_buf := replicate 128 0\<rparr>) s);
                Some (cnt, s) })"

text \<open>Waiting for at most \<open>n\<close> keyboard interrupts.\<close>

fun await ::
    "(u8 \<Rightarrow> 'a keyboard_scheme \<Rightarrow> 'h option) \<Rightarrow> device \<Rightarrow> nat \<Rightarrow> 'a keyboard_scheme \<Rightarrow> ('h + 'a keyboard_scheme) option" where
  "await halt dev n s =
     (if terminal_read_on (cur s) \<noteq> 1 then Some (Inr s)
      else case n of 0 \<Rightarrow> None
           | Suc n \<Rightarrow> (case kbd halt dev s of None \<Rightarrow> None | Some (Inl h) \<Rightarrow> Some (Inl h)
                       | Some (Inr s) \<Rightarrow> await halt dev n s))"

declare await.simps [simp del]

definition terminal_read ::
    "(u8 \<Rightarrow> 'a keyboard_scheme \<Rightarrow> 'h option) \<Rightarrow> device \<Rightarrow> nat \<Rightarrow> u32 \<Rightarrow> u32 \<Rightarrow> u32 \<Rightarrow> 'a keyboard_scheme
      \<Rightarrow> ('h + (u32 \<times> 'a keyboard_scheme)) option" where
  "terminal_read halt dev n fd buf cnt s =
     (case await halt dev n (terminal_read_begin s) of
        None \<Rightarrow> None | Some (Inl h) \<Rightarrow> Some (Inl h)
      | Some (Inr s) \<Rightarrow> map_option Inr (terminal_read_end buf cnt s))"

text \<open>\<open>putc\<close> of \<open>buf[i]\<close> for \<open>i\<close> below a signed \<open>cnt\<close>.\<close>

definition write_chars :: "u32 \<Rightarrow> nat \<Rightarrow> 'a keyboard_scheme \<Rightarrow> 'a keyboard_scheme option" where
  "write_chars buf n s = foldM (\<lambda>i s. do { c \<leftarrow> ld s (buf + of_nat i); putc c s }) [0..<n] s"

definition terminal_write :: "u32 \<Rightarrow> u32 \<Rightarrow> u32 \<Rightarrow> 'a keyboard_scheme \<Rightarrow> (u32 \<times> 'a keyboard_scheme) option" where
  "terminal_write fd buf cnt s =
     do { s \<leftarrow> write_chars buf (nat (sint cnt)) (cli s); Some (0, sti s) }"

end
