(* ===== verification/Lineedit.thy ===== *)
theory Lineedit
  imports Terminal Usermem
begin

text \<open>
  The line the user types, abstractly (\<open>line_edit\<close>), as a contract between the keyboard handler and
  whoever reads from the terminal, and the proof that \<open>terminal.c\<close> keeps it: the locale
  \<open>line_discipline\<close> is interpreted on \<open>key_input\<close>. The invariant \<open>typing\<close> bounds the buffer, the
  counter and the cursor; with it no store of the handler leaves the buffer or the screen.
\<close>

section \<open>Field lemmas\<close>

lemma shown_upd [simp]:
  "shown (upd_shown f s) = f (shown s)" "term_on_screen (upd_shown f s) = term_on_screen s"
  "curr_term (upd_shown f s) = curr_term s" "phys (upd_shown f s) = phys s" "mmu (upd_shown f s) = mmu s"
  "shown (s\<lparr>phys := ph\<rparr>) = shown s" "shown (s\<lparr>io_log := l\<rparr>) = shown s" "shown (s\<lparr>iflag := b\<rparr>) = shown s"
  by (simp_all add: shown_def upd_shown_def upd_term_def)

lemma update_cursor_fields [simp]:
  "shown (update_cursor s) = shown s" "cur (update_cursor s) = cur s" "term_on_screen (update_cursor s) = term_on_screen s"
  "curr_term (update_cursor s) = curr_term s" "phys (update_cursor s) = phys s" "mmu (update_cursor s) = mmu s"
  "terms (update_cursor s) = terms s" "iflag (update_cursor s) = iflag s" "curr_pid (update_cursor s) = curr_pid s"
  by (simp_all add: update_cursor_def shown_def cur_def outb_def Let_def mmu_def)

lemma views_upd [simp]:
  "views (upd_shown f s) k = views s k" "views (update_cursor s) k = views s k" "views (s\<lparr>iflag := b\<rparr>) k = views s k"
  "views (s\<lparr>io_log := l\<rparr>) k = views s k"
  by (rule views_mmu, simp)+

lemma keyboard_fields [simp]:
  "loging_password (upd_shown f s) = loging_password s" "loging_password (update_cursor s) = loging_password s"
  by (simp_all add: upd_shown_def upd_term_def update_cursor_def outb_def Let_def)

lemma shown_screen_fields [simp]:
  "shown_screen (upd_shown f s) = shown_screen s" "shown_screen (update_cursor s) = shown_screen s"
  "shown_screen (s\<lparr>phys := ph\<rparr>) = shown_screen s"
  by (simp_all add: shown_screen_def)

lemma scroll_some:
  assumes "views s k"
  obtains ph where "scroll_screen s = Some (s\<lparr>phys := ph\<rparr>)" "scrolled k s 1920 (s\<lparr>phys := ph\<rparr>)"
  using scroll_screen_scrolled [OF assms] unfolding scrolled_def by metis

lemma shown_store:
  assumes "views s k" "unat (term_on_screen s) < 3" "unat off < 2048"
  shows "\<exists>ph. st (vga (shown_screen s) off) b s = Some (s\<lparr>phys := ph\<rparr>)"
    "\<exists>ph. st (vga (shown_screen s) off + 1) b s = Some (s\<lparr>phys := ph\<rparr>)"
proof -
  consider p where "mmu_ok s" "current_dir s = Some p" "p < 6" | "\<not> bit (cr0 s) 31" using assms(1) by (auto simp: views_def)
  then have "(\<exists>ph. st (vga (shown_screen s) off) b s = Some (s\<lparr>phys := ph\<rparr>))
    \<and> (\<exists>ph. st (vga (shown_screen s) off + 1) b s = Some (s\<lparr>phys := ph\<rparr>))"
  proof cases
    case 1
    show ?thesis using shown_access [OF 1 assms(2,3), of b] by blast
  qed (auto simp: st_def translate_def)
  then show "\<exists>ph. st (vga (shown_screen s) off) b s = Some (s\<lparr>phys := ph\<rparr>)"
    "\<exists>ph. st (vga (shown_screen s) off + 1) b s = Some (s\<lparr>phys := ph\<rparr>)" by blast+
qed

section \<open>The contract\<close>

text \<open>The line so far and whether it is still being typed.\<close>

type_synonym typed = "u8 list \<times> bool"

definition line_edit :: "u8 \<Rightarrow> typed \<Rightarrow> typed" where
  "line_edit c l =
     (if \<not> snd l \<or> c = 0 then l
      else if c = 0x0A then (fst l, False)
      else if c = 0x08 then (butlast (fst l), True)
      else (fst l @ [c], length (fst l) < 127))"

locale line_discipline =
  fixes key :: "u8 \<Rightarrow> 's \<Rightarrow> 's option" and line :: "'s \<Rightarrow> typed" and inv :: "'s \<Rightarrow> bool"
  assumes key_edits: "inv s \<Longrightarrow> \<exists>t. key c s = Some t \<and> inv t \<and> line t = line_edit c (line s)"
    and short: "inv s \<Longrightarrow> length (fst (line s)) \<le> 128"
begin

lemma keys_edit: "inv s \<Longrightarrow> \<exists>t. foldM key cs s = Some t \<and> inv t \<and> line t = fold line_edit cs (line s)"
proof (induction cs arbitrary: s)
  case (Cons c cs)
  then obtain t where "key c s = Some t" "inv t" "line t = line_edit c (line s)" using key_edits by blast
  then show ?case using Cons.IH [of t] by auto
qed simp

lemma keys_short: "inv s \<Longrightarrow> foldM key cs s = Some t \<Longrightarrow> length (fst (line t)) \<le> 128"
  using keys_edit [of s cs] short [of t] by auto

end

text \<open>What typing leaves behind: characters in order, erased ones gone.\<close>

lemma line_edit_plain:
  assumes "\<forall>c\<in>set cs. c \<noteq> 0 \<and> c \<noteq> 0x0A \<and> c \<noteq> 0x08" "length xs + length cs < 128"
  shows "fold line_edit cs (xs, True) = (xs @ cs, True)"
  using assms by (induction cs arbitrary: xs) (auto simp: line_edit_def)

section \<open>The handler keeps it\<close>

definition typing :: "'a keyboard_scheme \<Rightarrow> bool" where
  "typing s \<longleftrightarrow> (\<exists>k. views s k) \<and> unat (term_on_screen s) < 3 \<and> length (terminal_buf (shown s)) = 128
     \<and> unat (screen_x (shown s)) < 80 \<and> unat (screen_y (shown s)) < 24
     \<and> unat (terminal_cnt (shown s)) \<le> 80 * unat (screen_y (shown s)) + unat (screen_x (shown s))
     \<and> (if terminal_read_on (shown s) = 1 then unat (terminal_cnt (shown s)) < 128 else unat (terminal_cnt (shown s)) \<le> 128)"

definition typed_line :: "'a keyboard_scheme \<Rightarrow> typed" where
  "typed_line s = (take (unat (terminal_cnt (shown s))) (terminal_buf (shown s)), terminal_read_on (shown s) = 1)"

text \<open>The guard of \<open>kbd\<close>.\<close>

definition key_step :: "u8 \<Rightarrow> 'a keyboard_scheme \<Rightarrow> 'a keyboard_scheme option" where
  "key_step c s = (if c \<noteq> 0 \<and> terminal_read_on (shown s) = 1 then key_input c s else Some s)"

lemma sint_small: "unat (w :: u32) < 2 ^ 31 \<Longrightarrow> sint w = int (unat w)"
proof -
  assume "unat w < 2 ^ 31"
  then have "int (unat w) < int (2 ^ 31)" by (simp only: of_nat_less_iff)
  then have "uint w < 2 ^ 31" by simp
  then have "sint (of_int (uint w) :: u32) = uint w" by (intro sint_of_int_small) (auto intro: order_trans [of _ 0])
  then show ?thesis by simp
qed

lemma slt_irrefl: "\<not> slt a a"
  by (simp add: slt_def)

lemma slt_small: "unat a < 2 ^ 31 \<Longrightarrow> unat b < 2 ^ 31 \<Longrightarrow> slt a b \<longleftrightarrow> unat a < unat b"
  unfolding slt_def by (simp only: sint_small of_nat_less_iff)

text \<open>What no key changes.\<close>

definition same_terms :: "'a keyboard_scheme \<Rightarrow> 'a keyboard_scheme \<Rightarrow> bool" where
  "same_terms s t \<longleftrightarrow> mmu t = mmu s \<and> term_on_screen t = term_on_screen s \<and> curr_term t = curr_term s"

lemma same_terms_refl [simp]: "same_terms s s"
  by (simp add: same_terms_def)

lemma same_terms_trans: "same_terms s t \<Longrightarrow> same_terms t u \<Longrightarrow> same_terms s u"
  by (simp add: same_terms_def)

lemma same_terms_fields [simp]:
  "same_terms s (upd_shown f t) = same_terms s t" "same_terms s (update_cursor t) = same_terms s t"
  "same_terms s (t\<lparr>phys := ph\<rparr>) = same_terms s t"
  by (simp_all add: same_terms_def)

lemma key_enter_exact:
  assumes "views s k"
  shows "\<exists>t. key_enter s = Some t \<and> same_terms s t \<and> shown t = (shown s)\<lparr>screen_x := 0,
    screen_y := (if screen_y (shown s) = 23 then 23 else screen_y (shown s) + 1), terminal_read_on := 0\<rparr>"
proof (cases "screen_y (shown s) = 23")
  case True
  let ?s = "upd_shown (\<lambda>t. t\<lparr>screen_y := screen_y t - 1\<rparr>) (upd_shown (\<lambda>t. t\<lparr>screen_y := screen_y t + 1, screen_x := 0\<rparr>) s)"
  obtain ph where "scroll_screen ?s = Some (?s\<lparr>phys := ph\<rparr>)"
    using scroll_some [of ?s k] assms by auto
  then show ?thesis using True by (simp add: key_enter_def next_row)
next
  case False
  then show ?thesis by (simp add: key_enter_def next_row)
qed

lemma store_key_exact:
  "unat (terminal_cnt (shown s)) < length (terminal_buf (shown s)) \<Longrightarrow>
   store_key c s = Some (upd_shown (\<lambda>t. t\<lparr>terminal_buf := (terminal_buf (shown s))[unat (terminal_cnt (shown s)) := c]\<rparr>) s)"
  by (simp add: store_key_def buf_set_def)

text \<open>The position before the cursor, as \<open>kbd\<close> computes it.\<close>

lemma unat_before:
  fixes x y :: u32
  assumes "unat x < 80" "unat y < 24" "1 \<le> 80 * unat y + unat x"
  shows "unat (x - 1 + y * 80) = 80 * unat y + unat x - 1"
proof -
  have e: "x - 1 + y * 80 = (80 * y + x) - 1" by (simp add: algebra_simps)
  have u: "unat (80 * y + x) = 80 * unat y + unat x" using assms by (intro unat_cell) auto
  then have "80 * y + x \<noteq> 0" using assms(3) by (metis unat_0 not_one_le_zero)
  then have "Suc (unat (80 * y + x - 1)) = 80 * unat y + unat x" using unat_pred u by metis
  then show ?thesis unfolding e by simp
qed

lemma draw_before:
  assumes "views s k" "unat (term_on_screen s) < 3" "unat (screen_x (shown s)) < 80" "unat (screen_y (shown s)) < 24"
    "1 \<le> 80 * unat (screen_y (shown s)) + unat (screen_x (shown s))"
  obtains ph ph' where
    "st (vga (shown_screen s) (screen_x (shown s) - 1 + screen_y (shown s) * 80)) a s = Some (s\<lparr>phys := ph\<rparr>)"
    "st (vga (shown_screen s) (screen_x (shown s) - 1 + screen_y (shown s) * 80) + 1) b (s\<lparr>phys := ph\<rparr>) = Some (s\<lparr>phys := ph'\<rparr>)"
proof -
  let ?off = "screen_x (shown s) - 1 + screen_y (shown s) * 80"
  have off: "unat ?off < 2048" using unat_before [OF assms(3-5)] assms(3,4) by simp
  obtain ph where 1: "st (vga (shown_screen s) ?off) a s = Some (s\<lparr>phys := ph\<rparr>)"
    using shown_store(1) [OF assms(1,2) off] by blast
  obtain ph' where "st (vga (shown_screen s) ?off + 1) b (s\<lparr>phys := ph\<rparr>) = Some (s\<lparr>phys := ph'\<rparr>)"
    using shown_store(2) [of "s\<lparr>phys := ph\<rparr>" k ?off b] assms(1,2) off by auto
  with 1 show ?thesis by (rule that)
qed

lemma key_backspace_exact:
  assumes "views s k" "unat (term_on_screen s) < 3" "unat (screen_x (shown s)) < 80" "unat (screen_y (shown s)) < 24"
    and "terminal_cnt (shown s) \<noteq> 0" "unat (terminal_cnt (shown s)) < length (terminal_buf (shown s))"
    and pos: "1 \<le> 80 * unat (screen_y (shown s)) + unat (screen_x (shown s))"
  shows "\<exists>t. key_backspace s = Some t \<and> same_terms s t \<and> shown t = (shown s)\<lparr>
      terminal_buf := (terminal_buf (shown s))[unat (terminal_cnt (shown s)) := 0],
      terminal_cnt := terminal_cnt (shown s) - 1,
      screen_x := (if screen_x (shown s) = 0 then 79 else screen_x (shown s) - 1),
      screen_y := (if screen_x (shown s) = 0 then screen_y (shown s) - 1 else screen_y (shown s))\<rparr>"
proof -
  let ?s = "upd_shown (\<lambda>t. t\<lparr>terminal_cnt := terminal_cnt t - 1\<rparr>)
      (upd_shown (\<lambda>t. t\<lparr>terminal_buf := (terminal_buf (shown s))[unat (terminal_cnt (shown s)) := 0]\<rparr>) s)"
  obtain ph ph' where ph:
    "st (vga (shown_screen ?s) (screen_x (shown ?s) - 1 + screen_y (shown ?s) * 80)) 0 ?s = Some (?s\<lparr>phys := ph\<rparr>)"
    "st (vga (shown_screen ?s) (screen_x (shown ?s) - 1 + screen_y (shown ?s) * 80) + 1) 7 (?s\<lparr>phys := ph\<rparr>) = Some (?s\<lparr>phys := ph'\<rparr>)"
    using draw_before [of ?s k 0 7] assms by auto
  have y: "screen_x (shown s) = 0 \<Longrightarrow> screen_y (shown s) \<noteq> 0" using pos by auto
  have "key_backspace s = Some (update_cursor (if screen_x (shown s) = 0 \<and> screen_y (shown s) \<noteq> 0
      then upd_shown (\<lambda>t. t\<lparr>screen_x := 79, screen_y := screen_y t - 1\<rparr>) (?s\<lparr>phys := ph'\<rparr>)
      else upd_shown (\<lambda>t. t\<lparr>screen_x := screen_x t - 1\<rparr>) (?s\<lparr>phys := ph'\<rparr>)))"
    using assms(5) ph unfolding key_backspace_def store_key_exact [OF assms(6)]
    by (simp add: Let_def)
  then show ?thesis using y by auto
qed

text \<open>A character: the cursor goes on by one, over the edge of the last row by scrolling.\<close>

definition advanced :: "term_t \<Rightarrow> term_t" where
  "advanced t = (if screen_x t = 79
     then if screen_y t = 23 then t\<lparr>screen_x := 0\<rparr> else t\<lparr>screen_x := 0, screen_y := screen_y t + 1\<rparr>
     else t\<lparr>screen_x := screen_x t + 1\<rparr>)"

lemma advanced_pos:
  assumes "unat (screen_x t) < 80" "unat (screen_y t) < 24"
  shows "unat (screen_x (advanced t)) < 80" "unat (screen_y (advanced t)) < 24"
    "80 * unat (screen_y (advanced t)) + unat (screen_x (advanced t)) =
      (if screen_x t = 79 \<and> screen_y t = 23 then 1840 else 80 * unat (screen_y t) + unat (screen_x t) + 1)"
proof -
  have "screen_x t \<noteq> 79 \<Longrightarrow> unat (screen_x t) \<noteq> 79" "screen_y t \<noteq> 23 \<Longrightarrow> unat (screen_y t) \<noteq> 23"
    by (auto simp: word_unat_eq_iff)
  then show "unat (screen_x (advanced t)) < 80" "unat (screen_y (advanced t)) < 24"
    "80 * unat (screen_y (advanced t)) + unat (screen_x (advanced t)) =
      (if screen_x t = 79 \<and> screen_y t = 23 then 1840 else 80 * unat (screen_y t) + unat (screen_x t) + 1)"
    using assms by (auto simp: advanced_def unat_next)
qed

lemma advanced_keeps:
  "terminal_buf (advanced t) = terminal_buf t" "terminal_cnt (advanced t) = terminal_cnt t"
  "terminal_read_on (advanced t) = terminal_read_on t" "pid (advanced t) = pid t"
  by (simp_all add: advanced_def)

lemma key_char_exact:
  fixes c :: u8
  assumes "views s k" "unat (term_on_screen s) < 3" "unat (screen_x (shown s)) < 80" "unat (screen_y (shown s)) < 24"
    and "unat (terminal_cnt (shown s)) < length (terminal_buf (shown s))"
  defines "T \<equiv> (shown s)\<lparr>terminal_buf := (terminal_buf (shown s))[unat (terminal_cnt (shown s)) := c],
      terminal_cnt := terminal_cnt (shown s) + 1\<rparr>"
  shows "\<exists>t. key_char c s = Some t \<and> same_terms s t \<and> shown t = advanced T"
proof -
  let ?s1 = "upd_shown (\<lambda>t. t\<lparr>terminal_buf := (terminal_buf (shown s))[unat (terminal_cnt (shown s)) := c]\<rparr>) s"
  let ?s2 = "upd_shown (\<lambda>t. t\<lparr>terminal_cnt := terminal_cnt t + 1, screen_x := screen_x t + 1\<rparr>) ?s1"
  let ?s3 = "upd_shown (\<lambda>t. t\<lparr>screen_x := 0, screen_y := screen_y t + 1\<rparr>) ?s2"
  let ?moved = "if screen_x (shown ?s2) = 80 then
      do { s \<leftarrow> Some ?s3;
           if screen_y (shown s) = 24 then scroll_screen (upd_shown (\<lambda>t. t\<lparr>screen_y := screen_y t - 1\<rparr>) s) else Some s }
    else Some ?s2"
  have T: "screen_x T = screen_x (shown s)" "screen_y T = screen_y (shown s)" by (simp_all add: T_def)
  obtain ph where scr: "scroll_screen (upd_shown (\<lambda>t. t\<lparr>screen_y := screen_y t - 1\<rparr>) ?s3)
      = Some ((upd_shown (\<lambda>t. t\<lparr>screen_y := screen_y t - 1\<rparr>) ?s3)\<lparr>phys := ph\<rparr>)"
    using scroll_some [of "upd_shown (\<lambda>t. t\<lparr>screen_y := screen_y t - 1\<rparr>) ?s3" k] assms(1) by auto
  obtain m where m: "?moved = Some m" "same_terms s m" "shown m = advanced T" "loging_password m = loging_password s"
  proof
    define m where "m = (if screen_x (shown s) = 79 then
        if screen_y (shown s) = 23 then (upd_shown (\<lambda>t. t\<lparr>screen_y := screen_y t - 1\<rparr>) ?s3)\<lparr>phys := ph\<rparr> else ?s3
      else ?s2)"
    show "?moved = Some m" using scr by (simp add: m_def next_row)
    show "same_terms s m" "loging_password m = loging_password s" by (simp_all add: m_def)
    show "shown m = advanced T" by (simp add: m_def T_def advanced_def)
  qed
  let ?m = "update_cursor m"
  have v: "views ?m k" using assms(1) m(2) views_mmu [of m s] by (simp add: same_terms_def)
  have c: "unat (term_on_screen ?m) < 3" "unat (screen_x (shown ?m)) < 80" "unat (screen_y (shown ?m)) < 24"
    "1 \<le> 80 * unat (screen_y (shown ?m)) + unat (screen_x (shown ?m))"
    using advanced_pos [of T] assms(2-4) m(2,3) by (simp_all add: T same_terms_def)
  obtain ph1 ph2 where ph:
    "st (vga (shown_screen ?m) (screen_x (shown ?m) - 1 + screen_y (shown ?m) * 80)) (if loging_password ?m = 0 then c else 32) ?m = Some (?m\<lparr>phys := ph1\<rparr>)"
    "st (vga (shown_screen ?m) (screen_x (shown ?m) - 1 + screen_y (shown ?m) * 80) + 1) 7 (?m\<lparr>phys := ph1\<rparr>) = Some (?m\<lparr>phys := ph2\<rparr>)"
    by (rule draw_before [OF v c])
  have "key_char c s = Some (?m\<lparr>phys := ph2\<rparr>)"
    unfolding key_char_def store_key_exact [OF assms(5)] Option.bind.bind_lunit m(1) [unfolded Option.bind.bind_lunit] Let_def ph
    using ph by simp
  then show ?thesis using m(2,3) by simp
qed

lemma key_full_exact:
  assumes "views s k" "unat (screen_y (shown s)) < 24"
  shows "\<exists>t. key_full s = Some t \<and> same_terms s t \<and> shown t = (shown s)\<lparr>screen_x := 0,
    screen_y := (if screen_y (shown s) = 23 then 23 else screen_y (shown s) + 1), terminal_read_on := 0\<rparr>"
proof -
  obtain ph where ph: "scroll_screen s = Some (s\<lparr>phys := ph\<rparr>)" using scroll_some [OF assms(1)] by blast
  have "slt (screen_y (shown s)) 23 \<longleftrightarrow> unat (screen_y (shown s)) < 23"
    using slt_small [of "screen_y (shown s)" 23] assms(2) by simp
  also have "\<dots> \<longleftrightarrow> screen_y (shown s) \<noteq> 23" using assms(2) by (auto simp: word_unat_eq_iff)
  finally have lt: "slt (screen_y (shown s)) 23 \<longleftrightarrow> screen_y (shown s) \<noteq> 23" .
  show ?thesis using ph by (cases "screen_y (shown s) = 23") (auto simp: key_full_def lt slt_irrefl term_xy)
qed

lemma typing_views: "same_terms s t \<Longrightarrow> views t k = views s k"
  using views_mmu [of t s k] by (simp add: same_terms_def)

text \<open>One key, case by case; the abstract side of each case is one equation of \<open>line_edit\<close>.\<close>

definition good_term :: "term_t \<Rightarrow> bool" where
  "good_term t \<longleftrightarrow> length (terminal_buf t) = 128 \<and> unat (screen_x t) < 80 \<and> unat (screen_y t) < 24
     \<and> unat (terminal_cnt t) \<le> 80 * unat (screen_y t) + unat (screen_x t)
     \<and> (if terminal_read_on t = 1 then unat (terminal_cnt t) < 128 else unat (terminal_cnt t) \<le> 128)"

definition line_of :: "term_t \<Rightarrow> typed" where
  "line_of t = (take (unat (terminal_cnt t)) (terminal_buf t), terminal_read_on t = 1)"

lemma typing_good: "typing s \<longleftrightarrow> (\<exists>k. views s k) \<and> unat (term_on_screen s) < 3 \<and> good_term (shown s)"
  by (auto simp: typing_def good_term_def)

lemma typed_line_of: "typed_line s = line_of (shown s)"
  by (simp add: typed_line_def line_of_def)

text \<open>The effect of the keys on the term structure.\<close>

definition term_enter :: "term_t \<Rightarrow> term_t" where
  "term_enter t = t\<lparr>screen_x := 0, screen_y := (if screen_y t = 23 then 23 else screen_y t + 1), terminal_read_on := 0\<rparr>"

definition term_back :: "term_t \<Rightarrow> term_t" where
  "term_back t = t\<lparr>terminal_buf := (terminal_buf t)[unat (terminal_cnt t) := 0],
      terminal_cnt := terminal_cnt t - 1,
      screen_x := (if screen_x t = 0 then 79 else screen_x t - 1),
      screen_y := (if screen_x t = 0 then screen_y t - 1 else screen_y t)\<rparr>"

definition term_char :: "u8 \<Rightarrow> term_t \<Rightarrow> term_t" where
  "term_char c t = advanced (t\<lparr>terminal_buf := (terminal_buf t)[unat (terminal_cnt t) := c],
      terminal_cnt := terminal_cnt t + 1\<rparr>)"

lemma down_row: "unat (y :: u32) < 24 \<Longrightarrow> unat (if y = 23 then 23 else y + 1) < 24 \<and> unat y \<le> unat (if y = 23 then 23 else y + 1)
    \<and> (y \<noteq> 23 \<longrightarrow> unat (if y = 23 then 23 else y + 1) = unat y + 1)"
  using unat_next [of y] by (auto simp: word_unat_eq_iff)

lemma term_enter_good:
  assumes "good_term t" "terminal_read_on t = 1 \<or> unat (terminal_cnt t) = 128"
  shows "good_term (term_enter t) \<and> line_of (term_enter t) = (fst (line_of t), False)"
proof -
  have "unat (terminal_cnt t) \<le> 80 * unat (if screen_y t = 23 then 23 else screen_y t + 1)"
  proof (cases "screen_y t = 23")
    case True
    have "unat (terminal_cnt t) \<le> 128" using assms by (auto simp: good_term_def split: if_splits)
    with True show ?thesis by simp
  qed (use assms down_row [of "screen_y t"] in \<open>auto simp: good_term_def\<close>)
  then show ?thesis
    using assms down_row [of "screen_y t"] by (auto simp: good_term_def term_enter_def line_of_def split: if_splits)
qed

lemma term_back_good:
  assumes "good_term t" "terminal_read_on t = 1" "terminal_cnt t \<noteq> 0"
  shows "good_term (term_back t) \<and> line_of (term_back t) = (butlast (fst (line_of t)), True)"
proof -
  have n: "unat (terminal_cnt t) = Suc (unat (terminal_cnt t - 1))" using unat_pred assms(3) by blast
  have lt: "unat (terminal_cnt t) < 128" using assms by (auto simp: good_term_def)
  have "line_of (term_back t) = (butlast (fst (line_of t)), True)"
    using assms(1,2) n lt by (simp add: line_of_def term_back_def butlast_take good_term_def)
  moreover have "good_term (term_back t)"
  proof (cases "screen_x t = 0")
    case True
    then have "screen_y t \<noteq> 0" using assms(1) n by (auto simp: good_term_def)
    then have "unat (screen_y t) = Suc (unat (screen_y t - 1))" using unat_pred by blast
    with True show ?thesis using assms(1,2) n lt by (simp add: good_term_def term_back_def)
  next
    case False
    then have "unat (screen_x t) = Suc (unat (screen_x t - 1))" using unat_pred by blast
    with False show ?thesis using assms(1,2) n lt by (simp add: good_term_def term_back_def)
  qed
  ultimately show ?thesis by blast
qed

lemma term_char_line:
  assumes "good_term t" "terminal_read_on t = 1"
  shows "line_of (term_char c t) = (fst (line_of t) @ [c], True)" "unat (terminal_cnt (term_char c t)) = unat (terminal_cnt t) + 1"
    "length (terminal_buf (term_char c t)) = 128" "terminal_read_on (term_char c t) = 1"
    "unat (screen_x (term_char c t)) < 80" "unat (screen_y (term_char c t)) < 24"
    "unat (terminal_cnt (term_char c t)) \<le> 80 * unat (screen_y (term_char c t)) + unat (screen_x (term_char c t))"
proof -
  let ?T = "t\<lparr>terminal_buf := (terminal_buf t)[unat (terminal_cnt t) := c], terminal_cnt := terminal_cnt t + 1\<rparr>"
  have lt: "unat (terminal_cnt t) < 128" using assms by (auto simp: good_term_def)
  then have n: "unat (terminal_cnt t + 1) = unat (terminal_cnt t) + 1" by (subst unat_add_exact) auto
  note pos = advanced_pos [of ?T]
  show "line_of (term_char c t) = (fst (line_of t) @ [c], True)"
    using assms lt n by (simp add: line_of_def term_char_def advanced_keeps take_Suc_conv_app_nth good_term_def)
  show cnt: "unat (terminal_cnt (term_char c t)) = unat (terminal_cnt t) + 1" using n by (simp add: term_char_def advanced_keeps)
  show "length (terminal_buf (term_char c t)) = 128" "terminal_read_on (term_char c t) = 1"
    using assms by (simp_all add: term_char_def advanced_keeps good_term_def)
  show "unat (screen_x (term_char c t)) < 80" "unat (screen_y (term_char c t)) < 24"
    using assms pos by (simp_all add: term_char_def good_term_def)
  have "80 * unat (screen_y (term_char c t)) + unat (screen_x (term_char c t)) =
      (if screen_x t = 79 \<and> screen_y t = 23 then 1840 else 80 * unat (screen_y t) + unat (screen_x t) + 1)"
    using assms pos(3) by (simp add: term_char_def good_term_def)
  then show "unat (terminal_cnt (term_char c t)) \<le> 80 * unat (screen_y (term_char c t)) + unat (screen_x (term_char c t))"
    using assms lt unfolding cnt by (simp add: good_term_def)
qed

text \<open>With the 128th character the line is closed.\<close>

definition term_key :: "u8 \<Rightarrow> term_t \<Rightarrow> term_t" where
  "term_key c t =
     (if c = 0 \<or> terminal_read_on t \<noteq> 1 then t
      else if c = 0x0A then term_enter t
      else if c = 0x08 then if terminal_cnt t \<noteq> 0 then term_back t else t
      else if unat (terminal_cnt t) = 127 then term_enter (term_char c t) else term_char c t)"

lemma term_key_good:
  assumes "good_term t"
  shows "good_term (term_key c t)" "line_of (term_key c t) = line_edit c (line_of t)"
proof -
  have "good_term (term_key c t) \<and> line_of (term_key c t) = line_edit c (line_of t)"
  proof (cases "c = 0 \<or> terminal_read_on t \<noteq> 1 \<or> c = 0x0A \<or> c = 0x08")
    case True
    then show ?thesis
      using assms term_enter_good [OF assms] term_back_good [OF assms]
      by (auto simp: term_key_def line_edit_def line_of_def)
  next
    case False
    note ch = term_char_line [OF assms, of c]
    have len: "length (fst (line_of t)) = unat (terminal_cnt t)" "unat (terminal_cnt t) < 128"
      using assms False by (auto simp: line_of_def good_term_def)
    show ?thesis
    proof (cases "unat (terminal_cnt t) = 127")
      case True
      have enter: "term_enter (term_char c t) = (term_char c t)\<lparr>screen_x := 0,
          screen_y := (if screen_y (term_char c t) = 23 then 23 else screen_y (term_char c t) + 1), terminal_read_on := 0\<rparr>"
        by (simp add: term_enter_def)
      have "128 \<le> 80 * unat (screen_y (term_enter (term_char c t)))"
        using ch False True down_row [of "screen_y (term_char c t)"]
        by (cases "screen_y (term_char c t) = 23") (auto simp: enter)
      then have "good_term (term_enter (term_char c t))"
        using ch False True down_row [of "screen_y (term_char c t)"] by (simp add: good_term_def enter)
      moreover have "line_of (term_enter (term_char c t)) = (fst (line_of (term_char c t)), False)"
        by (simp add: line_of_def enter)
      ultimately show ?thesis using False True ch(1) len by (simp add: term_key_def line_edit_def line_of_def)
    next
      case n: False
      have "good_term (term_char c t)" using ch False n len by (simp add: good_term_def)
      then show ?thesis using False n ch(1) len by (simp add: term_key_def line_edit_def) (simp add: line_of_def)
    qed
  qed
  then show "good_term (term_key c t)" "line_of (term_key c t) = line_edit c (line_of t)" by blast+
qed

lemma cnt_127: "unat (n :: u32) \<le> 128 \<Longrightarrow> slt 127 n \<longleftrightarrow> unat n = 128"
  using slt_small [of 127 n] by auto

lemma cnt_128: "(n :: u32) = 128 \<longleftrightarrow> unat n = 128"
  by (simp add: word_unat_eq_iff)

lemma key_step_exact:
  assumes "typing s"
  shows "\<exists>t. key_step c s = Some t \<and> same_terms s t \<and> shown t = term_key c (shown s)"
proof (cases "c = 0 \<or> terminal_read_on (shown s) \<noteq> 1")
  case True
  then show ?thesis by (auto simp: key_step_def term_key_def)
next
  case False
  obtain k where v: "views s k" and tos: "unat (term_on_screen s) < 3" and g: "good_term (shown s)"
    using assms by (auto simp: typing_good)
  have n: "unat (terminal_cnt (shown s)) < 128" using g False by (simp add: good_term_def)
  then have n': "\<not> slt 127 (terminal_cnt (shown s))" "terminal_cnt (shown s) \<noteq> 128"
    using cnt_127 by (auto simp: cnt_128)
  have xy: "unat (screen_x (shown s)) < 80" "unat (screen_y (shown s)) < 24" "unat (terminal_cnt (shown s)) < length (terminal_buf (shown s))"
    using g n by (auto simp: good_term_def)
  consider "c = 0x0A" | "c = 0x08" "terminal_cnt (shown s) = 0" | "c = 0x08" "terminal_cnt (shown s) \<noteq> 0" | "c \<noteq> 0x0A" "c \<noteq> 0x08" by blast
  then show ?thesis
  proof cases
    case 1
    obtain t where t: "key_enter s = Some t" "same_terms s t" "shown t = term_enter (shown s)"
      using key_enter_exact [OF v] by (auto simp: term_enter_def)
    then show ?thesis using False 1 n'(2) by (simp add: key_step_def key_input_def term_key_def term_enter_def)
  next
    case 2
    then show ?thesis using False by (simp add: key_step_def key_input_def key_backspace_def term_key_def)
  next
    case 3
    have "1 \<le> 80 * unat (screen_y (shown s)) + unat (screen_x (shown s))"
      using g unat_pred [OF 3(2)] by (simp add: good_term_def)
    then obtain t where t: "key_backspace s = Some t" "same_terms s t" "shown t = term_back (shown s)"
      using key_backspace_exact [OF v tos xy(1,2) 3(2) xy(3)] by (auto simp: term_back_def)
    have "terminal_cnt (shown t) \<noteq> 128" using n unat_pred [OF 3(2)] by (auto simp: t(3) term_back_def cnt_128)
    then show ?thesis using t False 3 by (simp add: key_step_def key_input_def term_key_def)
  next
    case 4
    obtain t where t: "key_char c s = Some t" "same_terms s t" "shown t = term_char c (shown s)"
      using key_char_exact [OF v tos xy] by (auto simp: term_char_def)
    note ch = term_char_line [OF g, of c]
    have full: "terminal_cnt (shown t) = 128 \<longleftrightarrow> unat (terminal_cnt (shown s)) = 127"
      using ch(2) False by (auto simp: t(3) cnt_128)
    have "views t k" using v typing_views [OF t(2)] by simp
    then obtain u where u: "key_full t = Some u" "same_terms t u" "shown u = term_enter (shown t)"
      using key_full_exact [of t k] ch(6) False by (auto simp: t(3) term_enter_def)
    show ?thesis
    proof (cases "unat (terminal_cnt (shown s)) = 127")
      case True
      then have "terminal_cnt (shown t) = 128" using full by simp
      then have "key_step c s = Some u" using t(1) u(1) False 4 n' by (simp add: key_step_def key_input_def)
      moreover have "shown u = term_key c (shown s)" using u(3) t(3) False 4 True by (simp add: term_key_def)
      ultimately show ?thesis using same_terms_trans [OF t(2) u(2)] by blast
    next
      case no: False
      then have "terminal_cnt (shown t) \<noteq> 128" using full by simp
      then have "key_step c s = Some t" using t(1) False 4 n' by (simp add: key_step_def key_input_def)
      moreover have "shown t = term_key c (shown s)" using t(3) False 4 no by (simp add: term_key_def)
      ultimately show ?thesis using t(2) by blast
    qed
  qed
qed

text \<open>Typing since \<open>s0\<close>: on the terminal, and with the page tables, of \<open>s0\<close>.\<close>

definition typing_from :: "'a keyboard_scheme \<Rightarrow> 'a keyboard_scheme \<Rightarrow> bool" where
  "typing_from s0 s \<longleftrightarrow> typing s \<and> same_terms s0 s"

lemma key_step_edits:
  assumes "typing_from s0 s"
  shows "\<exists>t. key_step c s = Some t \<and> typing_from s0 t \<and> typed_line t = line_edit c (typed_line s)"
proof -
  have s: "typing s" "same_terms s0 s" using assms by (simp_all add: typing_from_def)
  obtain t where t: "key_step c s = Some t" "same_terms s t" "shown t = term_key c (shown s)"
    using key_step_exact [OF s(1)] by blast
  have g: "good_term (shown s)" using s(1) by (simp add: typing_good)
  have "typing t"
    using s(1) t typing_views [OF t(2)] term_key_good(1) [OF g] by (auto simp: typing_good same_terms_def)
  then show ?thesis
    using t(1,3) term_key_good(2) [OF g] same_terms_trans [OF s(2) t(2)] by (auto simp: typed_line_of typing_from_def)
qed

interpretation ld: line_discipline key_step typed_line "typing_from s0" for s0
proof
  show "typing_from s0 s \<Longrightarrow> \<exists>t. key_step c s = Some t \<and> typing_from s0 t \<and> typed_line t = line_edit c (typed_line s)"
    for s :: "'a keyboard_scheme" and c by (rule key_step_edits)
  show "typing_from s0 s \<Longrightarrow> length (fst (typed_line s)) \<le> 128" for s :: "'a keyboard_scheme"
    by (simp add: typing_from_def typing_def typed_line_def)
qed

text \<open>The handler around it: what the interrupt does once the character is known.\<close>

lemma kbd_key:
  assumes "kbd_to_char halt (ucast (fst (inb dev 0x60 (cli s)))) (snd (inb dev 0x60 (cli s))) = Some (Inr (c, t))" "c \<noteq> 255"
  shows "kbd halt dev s = map_option (\<lambda>u. Inr (sti (send_eoi 1 u))) (key_step c t)"
  using assms by (auto simp: kbd_def key_step_def split_beta Let_def bind_eq_None_conv map_option_case split: option.splits)

section \<open>Reading a line\<close>

text \<open>The foreground process may read: its terminal is the one on the screen, cursor in range.\<close>

definition may_read :: "'a keyboard_scheme \<Rightarrow> nat \<Rightarrow> bool" where
  "may_read s p \<longleftrightarrow> runs s p \<and> curr_term s = term_on_screen s \<and> unat (term_on_screen s) < 3
     \<and> unat (screen_x (shown s)) < 80 \<and> unat (screen_y (shown s)) < 24"

lemma read_begin_typing:
  assumes "may_read s p"
  shows "typing_from (terminal_read_begin s) (terminal_read_begin s)" "typed_line (terminal_read_begin s) = ([], True)"
    "runs (terminal_read_begin s) p" "curr_term (terminal_read_begin s) = term_on_screen (terminal_read_begin s)"
proof -
  have m: "mmu (terminal_read_begin s) = mmu s"
    by (simp add: terminal_read_begin_def upd_cur_def upd_term_def)
  have sh: "shown (terminal_read_begin s) = (shown s)\<lparr>terminal_read_on := 1, terminal_cnt := 0, terminal_buf := replicate 128 32\<rparr>"
    using assms by (simp add: terminal_read_begin_def upd_cur_def upd_term_def shown_def may_read_def sti_def)
  have tos: "term_on_screen (terminal_read_begin s) = term_on_screen s" "curr_term (terminal_read_begin s) = curr_term s"
    by (simp_all add: terminal_read_begin_def upd_cur_def upd_term_def sti_def)
  show "runs (terminal_read_begin s) p" using assms runs_mmu [OF m] by (simp add: may_read_def)
  have "\<exists>k. views s k" using assms by (auto simp: may_read_def runs_def views_def)
  then have "\<exists>k. views (terminal_read_begin s) k" using views_mmu [OF m] by auto
  then show "typing_from (terminal_read_begin s) (terminal_read_begin s)"
    using assms by (simp add: typing_from_def typing_def sh tos may_read_def)
  show "typed_line (terminal_read_begin s) = ([], True)" by (simp add: typed_line_def sh)
  show "curr_term (terminal_read_begin s) = term_on_screen (terminal_read_begin s)"
    using assms by (simp add: tos may_read_def)
qed

lemma memset_one: "memset a c 1 s = put_bytes a [ucast c] s"
  by (simp add: memset_put_bytes)

lemma only_program_console:
  assumes "only_program p s t"
  shows "terms t = terms s" "curr_term t = curr_term s" "term_on_screen t = term_on_screen s" "curr_pid t = curr_pid s"
proof -
  have e: "t = s\<lparr>phys := phys t\<rparr>" using assms by (simp add: only_program_def)
  show "terms t = terms s" "curr_term t = curr_term s" "term_on_screen t = term_on_screen s" "curr_pid t = curr_pid s"
    by (subst e, simp)+
qed

lemma ld_bytes_cong: "mmu s = mmu t \<Longrightarrow> phys s = phys t \<Longrightarrow> ld_bytes s a n = ld_bytes t a n"
  using mmu_cong(1) [of s t] by (induction n arbitrary: a) (simp_all add: ld_def)

lemma upd_cur_frame [simp]: "mmu (upd_cur f s) = mmu s" "phys (upd_cur f s) = phys s"
  by (simp_all add: upd_cur_def upd_term_def)

lemma ld_bytes_frame: "ld_bytes (upd_cur f s) a n = ld_bytes s a n"
  by (rule ld_bytes_cong) simp_all

lemma read_end_copies:
  assumes "runs t p" "length (terminal_buf (cur t)) = 128" "take (unat (terminal_cnt (cur t))) (terminal_buf (cur t)) = xs"
    and n: "unat (terminal_cnt (cur t)) = length xs" "length xs \<le> 128"
    and cnt: "length xs < 128 \<or> 128 \<le> sint cnt" and buf: "user_buffer buf (length xs + 1)"
  shows "\<exists>u. terminal_read_end buf cnt t = Some (of_nat (length xs), u) \<and> ld_bytes u buf (length xs + 1) = Some (xs @ [0])"
proof -
  let ?n = "terminal_cnt (cur t)"
  have word: "?n = of_nat (length xs)" using n(1) by (metis of_nat_unat ucast_id)
  have sn: "sint ?n = int (length xs)" using sint_small [of ?n] n by simp
  have cond: "\<not> slt cnt ?n \<or> slt ?n 128"
    using cnt sn n(2) by (auto simp: slt_def)
  have r: "runs (cli t) p" using assms(1) runs_mmu [of "cli t" t] by simp
  obtain u where u: "put_bytes buf (xs @ [0]) (cli t) = Some u" "only_program p (cli t) u" "ld_bytes u buf (length xs + 1) = Some (xs @ [0])"
    using user_copy [OF r, of buf "xs @ [0]"] buf by auto
  obtain v where v: "put_bytes buf xs (cli t) = Some v" "put_bytes (buf + of_nat (length xs)) [0] v = Some u"
    using u(1) by (auto simp: put_bytes_append bind_Some_iff)
  obtain w where "put_bytes buf xs (cli t) = Some w" "only_program p (cli t) w"
    using user_put_bytes [OF r, of buf xs] buf user_buffer_mono [of buf "length xs + 1" "length xs"] by auto
  then have "only_program p (cli t) v" using v(1) by simp
  then have c: "cur (cli t) = cur t" "cur v = cur t"
    using only_program_console [of p "cli t" v] by (simp_all add: cli_def cur_def)
  have "copy_out buf (terminal_buf (cur t)) ?n (cli t) = Some v"
    using v(1) n assms(2,3) by (simp add: copy_out_def)
  moreover have "memset (buf + ?n) 0 1 v = Some u" using v(2) by (simp add: memset_one word)
  ultimately have "terminal_read_end buf cnt t
      = Some (?n, upd_cur (\<lambda>t. t\<lparr>terminal_buf := replicate 128 0\<rparr>) u)"
    using cond only_program_console(1-2) [OF u(2)] unfolding terminal_read_end_def Let_def c(1)
    by (simp add: upd_cur_def upd_term_def cur_def cli_def)
  moreover have "ld_bytes (upd_cur (\<lambda>t. t\<lparr>terminal_buf := replicate 128 0\<rparr>) u) buf (length xs + 1) = Some (xs @ [0])"
    unfolding ld_bytes_frame by (rule u(3))
  ultimately show ?thesis using word by simp
qed

lemma read_line:
  assumes "may_read s p" "fold line_edit cs ([], True) = (xs, False)"
    and cnt: "length xs < 128 \<or> 128 \<le> sint cnt" and buf: "user_buffer buf (length xs + 1)"
  shows "\<exists>t u. foldM key_step cs (terminal_read_begin s) = Some t
    \<and> terminal_read_end buf cnt t = Some (of_nat (length xs), u) \<and> ld_bytes u buf (length xs + 1) = Some (xs @ [0])"
proof -
  note b = read_begin_typing [OF assms(1)]
  obtain t where t: "foldM key_step cs (terminal_read_begin s) = Some t" "typing_from (terminal_read_begin s) t"
    "typed_line t = (xs, False)"
    using ld.keys_edit [OF b(1), of cs] assms(2) b(2) by auto
  have st: "typing t" "same_terms (terminal_read_begin s) t" using t(2) by (simp_all add: typing_from_def)
  have cur: "cur t = shown t" using st(2) b(4) by (simp add: same_terms_def cur_def shown_def)
  have "runs t p" using b(3) st(2) runs_mmu [of t "terminal_read_begin s"] by (simp add: same_terms_def)
  moreover have x: "take (unat (terminal_cnt (shown t))) (terminal_buf (shown t)) = xs" "length (terminal_buf (shown t)) = 128"
    "unat (terminal_cnt (shown t)) \<le> 128"
    using t(3) st(1) by (auto simp: typed_line_def typing_def split: if_splits)
  moreover have "unat (terminal_cnt (shown t)) = length xs" using x by auto
  ultimately have "\<exists>u. terminal_read_end buf cnt t = Some (of_nat (length xs), u) \<and> ld_bytes u buf (length xs + 1) = Some (xs @ [0])"
    using cnt buf by (intro read_end_copies) (auto simp: cur)
  with t(1) show ?thesis by blast
qed

end
