(* ===== verification/Output.thy ===== *)
theory Output
  imports Lineedit
begin

text \<open>
  \<open>terminal_write\<close>: the caller's bytes, through \<open>putc\<close>, on the caller's screen.
\<close>

section \<open>Writing\<close>

lemma output_keeps_user:
  assumes "output_only s t" "console_ok s" "runs s p" "user_buffer a n" "i < n"
  shows "ld t (a + of_nat i) = ld s (a + of_nat i)"
proof -
  have m: "mmu t = mmu s" by (rule output_only_frame(1) [OF assms(1)])
  have k: "unat (curr_term s) < 3" using assms(2) views_less by (auto simp: console_ok_def)
  have u: "unat (a + of_nat i) = unat a + i" using assms(4,5) by (intro unat_add_of_nat) (simp add: user_buffer_def)
  have b: "0x8000000 \<le> unat (a + of_nat i)" "unat (a + of_nat i) < 0x8400000" using assms(4,5) by (simp_all add: user_buffer_def u)
  have p: "p < 6" using assms(3) by (simp add: runs_def)
  have "\<not> in_screen (unat (curr_term s)) (prog_addr p (a + of_nat i))"
    by (rule program_not_screen [OF prog_addr_in [OF p b] k])
  then show ?thesis
    using translate_user [OF assms(3) b] mmu_cong(1) [OF m] output_only_frame(9) [OF assms(1)] by (simp add: ld_def)
qed

lemma write_chars_from:
  assumes "runs s0 p" "console_ok s0" "user_buffer a (length bs)" "ld_bytes s0 a (length bs) = Some bs" "can_show s0 bs"
  shows "\<exists>s. write_chars a (length bs) s0 = Some s \<and> shows_out s0 bs s"
proof -
  have "\<exists>t. foldM (\<lambda>i s. do { c \<leftarrow> ld s (a + of_nat i); putc c s }) [0..<length bs] s0 = Some t
      \<and> (shows_out s0 (take (length bs) bs) t \<and> can_show t (drop (length bs) bs))"
  proof (rule foldM_upt)
    show "shows_out s0 (take 0 bs) s0 \<and> can_show s0 (drop 0 bs)" using assms(5) by (simp add: shows_out_Nil)
    fix i s
    assume i: "i < length bs" and s: "shows_out s0 (take i bs) s \<and> can_show s (drop i bs)"
    have d: "drop i bs = bs ! i # drop (Suc i) bs" using i by (simp add: Cons_nth_drop_Suc)
    have "ld s (a + of_nat i) = ld s0 (a + of_nat i)"
      using s by (intro output_keeps_user [OF _ assms(2,1,3) i]) (simp add: shows_out_def)
    then have l: "ld s (a + of_nat i) = Some (bs ! i)" using assms(4) i by (simp add: ld_bytes_nth)
    obtain t where t: "putc (bs ! i) s = Some t" "shows_out s [bs ! i] t" "can_show t (drop (Suc i) bs)"
      using putc_shows [of s "bs ! i" "drop (Suc i) bs"] s unfolding d by blast
    have "shows_out s0 (take (Suc i) bs) t"
      using shows_out_append [OF conjunct1 [OF s] t(2)] i by (simp add: take_Suc_conv_app_nth)
    then show "\<exists>t. do { c \<leftarrow> ld s (a + of_nat i); putc c s } = Some t \<and> (shows_out s0 (take (Suc i) bs) t \<and> can_show t (drop (Suc i) bs))"
      using l t by simp
  qed simp
  then show ?thesis unfolding write_chars_def by auto
qed

lemma shows_out_iflag: "tty_of k (s\<lparr>iflag := b\<rparr>) = tty_of k s" "console_ok (s\<lparr>iflag := b\<rparr>) = console_ok s"
  by (simp_all add: tty_of_def console_ok_def views_fields cong: if_cong)

text \<open>\<open>terminal_write\<close> shows the caller's bytes on the caller's terminal and nothing else.\<close>

lemma terminal_write_shows:
  fixes s :: "'a keyboard_scheme"
  assumes "runs s p" "console_ok s" "user_buffer a (length bs)" "ld_bytes s a (length bs) = Some bs" "can_show s bs" "length bs < 2 ^ 31"
  shows "\<exists>t. terminal_write fd a (of_nat (length bs)) s = Some (0, t) \<and> iflag t
    \<and> tty_of (unat (curr_term s)) t = fold tty_putc bs (tty_of (unat (curr_term s)) s) \<and> output_only (s\<lparr>iflag := True\<rparr>) t"
proof -
  let ?s = "s\<lparr>iflag := False\<rparr>"
  have m: "mmu ?s = mmu s" "phys ?s = phys s" by simp_all
  have "runs ?s p" using assms(1) runs_mmu [OF m(1)] by simp
  moreover have "console_ok ?s" "can_show ?s bs" using assms(2,5) by (simp_all add: can_show_def shows_out_iflag)
  moreover have "ld_bytes ?s a (length bs) = Some bs" using assms(4) ld_bytes_cong [OF m] by simp
  ultimately obtain t where t: "write_chars a (length bs) ?s = Some t" "shows_out ?s bs t"
    using write_chars_from [of ?s p a bs] assms(3) by blast
  have "unat (of_nat (length bs) :: u32) = length bs" by (rule unat_of_nat_small) (use assms(6) in simp)
  then have "sint (of_nat (length bs) :: u32) = int (length bs)" using sint_small [of "of_nat (length bs)"] assms(6) by simp
  then have "terminal_write fd a (of_nat (length bs)) s = Some (0, t\<lparr>iflag := True\<rparr>)"
    using t(1) by (simp add: terminal_write_def cli_def sti_def)
  moreover have "output_only (s\<lparr>iflag := True\<rparr>) (t\<lparr>iflag := True\<rparr>)"
  proof -
    have "output_only ?s t" using t(2) by (simp add: shows_out_def)
    then obtain ph l T where e: "t = ?s\<lparr>phys := ph, io_log := l, terms := (terms ?s)(unat (curr_term ?s) := T)\<rparr>"
      and r: "\<forall>a. \<not> in_screen (unat (curr_term s)) a \<longrightarrow> ph a = phys s a" "pid T = pid (cur s)" "terminal_buf T = terminal_buf (cur s)"
        "terminal_cnt T = terminal_cnt (cur s)" "terminal_read_on T = terminal_read_on (cur s)"
      unfolding output_only_def by (auto simp: cur_def)
    show ?thesis unfolding output_only_def using r by (intro exI [of _ ph] exI [of _ l] exI [of _ T]) (simp add: e cur_def)
  qed
  ultimately show ?thesis using t(2) by (simp add: shows_out_def shows_out_iflag)
qed

end
