(* ===== verification/Pcb.thy ===== *)
theory Pcb
  imports Lineedit
begin

text \<open>
  The process control blocks of \<open>syscall.h\<close> and the kernel's process globals. The six blocks are at
  fixed addresses at the bottom of the processes' kernel stacks; they are the records
  \<open>pcbs 0\<close> to \<open>pcbs 5\<close> here, and \<open>pcb_at\<close> finds the one at an address. The kernel finds its
  own block by masking the stack pointer, \<open>esp\<close>.
\<close>

section \<open>State\<close>

text \<open>The function-pointer tables a descriptor can point to; \<open>No_ops\<close> is a pointer to none of them,
  as an unused descriptor holds.\<close>

datatype file_ops_table = Terminal_ops | Rtc_ops | File_ops | No_ops

record filesys_desc =
  file_ops_table_ptr :: file_ops_table
  inode_ptr :: u32
  file_pos :: u32
  flags :: u32

text \<open>\<open>parent_pcb\<close> is the parent's index, \<open>None\<close> for NULL.\<close>

record pcb =
  filesys_desc_array :: "nat \<Rightarrow> filesys_desc"
  args :: "u8 list"
  the_esp :: u32
  the_ss :: u32
  parent_pcb :: "nat option"
  the_pid :: u32
  shell_flag :: u32
  great_esp :: u32
  cmd_eip :: u32
  pcb_filename :: "u8 list"

record process = keyboard +
  pcbs :: "nat \<Rightarrow> pcb"
  pcb_status_array :: "u8 list"
  active_proc_num :: u8
  active_root_shell :: u8
  tss_ss0 :: u32
  tss_esp0 :: u32
  esp :: u32
  ss :: u32

definition pcb_ptr_array :: "u32 list" where
  "pcb_ptr_array = [0x7FE000, 0x7FC000, 0x7FA000, 0x7F8000, 0x7F6000, 0x7F4000]"

text \<open>The block at an address. A pointer to anywhere else is not a block: \<open>None\<close>.\<close>

definition pcb_at :: "u32 \<Rightarrow> nat option" where
  "pcb_at a = find (\<lambda>i. pcb_ptr_array ! i = a) [0..<6]"

definition fetch_cur_pcb_ptr :: "'a process_scheme \<Rightarrow> nat option" where
  "fetch_cur_pcb_ptr s = pcb_at (esp s AND 0xFFFFE000)"

definition upd_pcb :: "nat \<Rightarrow> (pcb \<Rightarrow> pcb) \<Rightarrow> 'a process_scheme \<Rightarrow> 'a process_scheme" where
  "upd_pcb i f s = s\<lparr>pcbs := (pcbs s)(i := f (pcbs s i))\<rparr>"

definition upd_desc :: "nat \<Rightarrow> nat \<Rightarrow> (filesys_desc \<Rightarrow> filesys_desc) \<Rightarrow> 'a process_scheme \<Rightarrow> 'a process_scheme" where
  "upd_desc i fd f s =
     upd_pcb i (\<lambda>p. p\<lparr>filesys_desc_array := (filesys_desc_array p)(fd := f (filesys_desc_array p fd))\<rparr>) s"

text \<open>The descriptor \<open>filesys_desc_array[fd]\<close> of a block; \<open>fd\<close> outside 0..7 is outside the array.\<close>

definition desc :: "'a process_scheme \<Rightarrow> nat \<Rightarrow> u32 \<Rightarrow> filesys_desc option" where
  "desc s i fd = (if fd < 8 then Some (filesys_desc_array (pcbs s i) (unat fd)) else None)"

section \<open>Which block the kernel stack belongs to\<close>

lemma pcb_at_ptr: "i < 6 \<Longrightarrow> pcb_at (pcb_ptr_array ! i) = Some i"
  unfolding pcb_at_def
  by (rule find_upt_first) (auto simp: pcb_ptr_array_def dest!: less_6_cases)

text \<open>Process \<open>i\<close>'s kernel stack starts at \<open>0x800000 - 0x2000 * i - 4\<close> and grows down to its block.\<close>

definition on_stack_of :: "nat \<Rightarrow> u32 \<Rightarrow> bool" where
  "on_stack_of i e \<longleftrightarrow> 0x7FE000 - 0x2000 * i \<le> unat e \<and> unat e < 0x800000 - 0x2000 * i"

lemma stack_block: "i < 6 \<Longrightarrow> on_stack_of i e \<Longrightarrow> e AND 0xFFFFE000 = pcb_ptr_array ! i"
proof -
  assume i: "i < 6" and e: "on_stack_of i e"
  have "(0xFFFFE000 :: u32) = NOT (mask 13)" by (simp add: mask_eq_exp_minus_1)
  then have "e AND 0xFFFFE000 = e AND NOT (mask 13)" by (simp only:)
  moreover have "e AND NOT (mask 13) = push_bit 13 (drop_bit 13 e)"
    by (rule bit_word_eqI) (auto simp: bit_simps)
  moreover have "unat (drop_bit 13 e) = 1023 - i"
  proof -
    have "unat (drop_bit 13 e) = unat e div 8192" by (simp add: drop_bit_eq_div unat_div)
    also have "\<dots> = 1023 - i" using e i by (subst div_range_iff) (auto simp: on_stack_of_def)
    finally show ?thesis .
  qed
  then have "drop_bit 13 e = of_nat (1023 - i)" by (metis of_nat_unat ucast_id)
  ultimately have "e AND 0xFFFFE000 = push_bit 13 (of_nat (1023 - i))" by simp
  then show ?thesis using less_6_cases [OF i] by (auto simp: pcb_ptr_array_def push_bit_eq_mult)
qed

lemma fetch_on_stack: "i < 6 \<Longrightarrow> on_stack_of i (esp s) \<Longrightarrow> fetch_cur_pcb_ptr s = Some i"
  by (simp add: fetch_cur_pcb_ptr_def stack_block pcb_at_ptr)

end
