(* ===== verification/Filesys.thy ===== *)
theory Filesys
  imports Pcb Usermem
begin

text \<open>
  \<open>filesystem.c\<close>: the read-only file system in memory. The image is read through the kernel's own
  mapping; directory entries and inodes are read where the code reads them, so a field outside the
  mapped image is a page fault. \<open>read_data\<close> writes its bytes to a destination that the caller
  chooses: memory (a user buffer, the program image) or a local array of the kernel.
\<close>

section \<open>State\<close>

record filesys = process +
  filesystem_base :: u32
  num_of_entries :: u32
  num_of_inodes :: u32
  num_of_blocks :: u32
  inode_ptr_base :: u32
  entry_ptr_base :: u32
  data_block_ptr_base :: u32

record dentry_t =
  dentry_filename :: "u8 list"
  dentry_filetype :: u32
  dentry_inode_num :: u32

text \<open>A 32-bit load, least significant byte first.\<close>

definition word_of_bytes :: "u8 list \<Rightarrow> u32" where
  "word_of_bytes bs = foldr (\<lambda>b w. ucast b OR push_bit 8 w) bs 0"

definition ld_word :: "'a machine_scheme \<Rightarrow> u32 \<Rightarrow> u32 option" where
  "ld_word s a = map_option word_of_bytes (ld_bytes s a 4)"

section \<open>Initialisation and directory entries\<close>

definition file_system_init :: "'a filesys_scheme \<Rightarrow> (u32 \<times> 'a filesys_scheme) option" where
  "file_system_init s =
     do { s \<leftarrow> Some (s\<lparr>inode_ptr_base := filesystem_base s + 4096, entry_ptr_base := filesystem_base s + 64\<rparr>);
          n \<leftarrow> ld_word s (filesystem_base s);
          s \<leftarrow> Some (s\<lparr>num_of_entries := n\<rparr>);
          n \<leftarrow> ld_word s (filesystem_base s + 4);
          s \<leftarrow> Some (s\<lparr>num_of_inodes := n\<rparr>);
          s \<leftarrow> Some (s\<lparr>data_block_ptr_base := filesystem_base s + (num_of_inodes s + 1) * 4096\<rparr>);
          n \<leftarrow> ld_word s (filesystem_base s + 8);
          Some (0, s\<lparr>num_of_blocks := n\<rparr>) }"

definition entry :: "'a filesys_scheme \<Rightarrow> u32 \<Rightarrow> u32" where
  "entry s i = entry_ptr_base s + 64 * i"

text \<open>The search compares the name of entry \<open>i\<close> before it compares \<open>i\<close> with the number of entries.\<close>

function find_entry :: "reader \<Rightarrow> 'a filesys_scheme \<Rightarrow> u32 \<Rightarrow> u32 option" where
  "find_entry fname s i =
     do { r \<leftarrow> strncmp (at s (entry s i)) fname 32;
          if r \<noteq> 0 \<and> slt i (num_of_entries s) then find_entry fname s (i + 1) else Some i }"
  by pat_completeness auto
termination
proof (relation "measure (\<lambda>(_, s, i). nat (sint (num_of_entries s) - sint i))")
  fix s :: "'a filesys_scheme" and i :: u32 and r :: int and fname :: reader
  assume "r \<noteq> 0 \<and> slt i (num_of_entries s)"
  then have lt: "sint i < sint (num_of_entries s)" by (simp add: slt_def)
  moreover have "sint (num_of_entries s) < 2 ^ 31" using sint_lt [of "num_of_entries s"] by simp
  moreover have "- (2 ^ 31) \<le> sint i" using sint_ge [of i] by simp
  ultimately have "sint (of_int (sint i + 1) :: u32) = sint i + 1" by (intro sint_of_int_small) auto
  then have "sint (i + 1) = sint i + 1" by simp
  with lt show "((fname, s, i + 1), (fname, s, i)) \<in> measure (\<lambda>(_, s, i). nat (sint (num_of_entries s) - sint i))"
    by simp
qed simp

declare find_entry.simps [simp del]

definition read_entry :: "'a filesys_scheme \<Rightarrow> u32 \<Rightarrow> dentry_t option" where
  "read_entry s i =
     do { name \<leftarrow> ld_bytes s (entry s i) 32;
          type \<leftarrow> ld_word s (entry s i + 32);
          inode \<leftarrow> ld_word s (entry s i + 36);
          Some \<lparr> dentry_filename = name, dentry_filetype = type, dentry_inode_num = inode \<rparr> }"

text \<open>The result is the return value and what was stored in \<open>dentry\<close>, if anything was.\<close>

definition read_dentry_by_name :: "reader \<Rightarrow> 'a filesys_scheme \<Rightarrow> (u32 \<times> dentry_t option) option" where
  "read_dentry_by_name fname s =
     do { i \<leftarrow> find_entry fname s 0;
          if slt i (num_of_entries s) then do { d \<leftarrow> read_entry s i; Some (0, Some d) }
          else Some (-1, None) }"

definition read_dentry_by_index :: "u32 \<Rightarrow> 'a filesys_scheme \<Rightarrow> (u32 \<times> dentry_t option) option" where
  "read_dentry_by_index index s =
     (if num_of_entries s \<le> index then Some (-1, None)
      else do { d \<leftarrow> read_entry s index; Some (0, Some d) })"

section \<open>read_data\<close>

text \<open>The loop, over any destination: \<open>rd\<close> reads the image, \<open>put i b\<close> stores byte \<open>i\<close> of the buffer,
  \<open>block k\<close> is the address of the \<open>k\<close>th block from the first one on.\<close>

function read_loop ::
    "('s \<Rightarrow> u32 \<Rightarrow> u8 option) \<Rightarrow> (u32 \<Rightarrow> u8 \<Rightarrow> 's \<Rightarrow> 's option) \<Rightarrow> ('s \<Rightarrow> u32 \<Rightarrow> u32 option)
      \<Rightarrow> u32 \<Rightarrow> u32 \<Rightarrow> u32 \<Rightarrow> u32 \<Rightarrow> u32 \<Rightarrow> u32 \<Rightarrow> u32 \<Rightarrow> 's \<Rightarrow> (u32 \<times> 's) option" where
  "read_loop rd put block offset filelength len block_ptr offset_temp k i s =
     (if i < len \<and> offset + i < filelength then
        do { b \<leftarrow> rd s (block_ptr + offset_temp);
             s \<leftarrow> put i b s;
             if slt 4095 (offset_temp + 1) then
               do { block_ptr \<leftarrow> block s (k + 1);
                    read_loop rd put block offset filelength len block_ptr 0 (k + 1) (i + 1) s }
             else read_loop rd put block offset filelength len block_ptr (offset_temp + 1) k (i + 1) s }
      else Some (i, s))"
  by pat_completeness auto
termination
  by (relation "measure (\<lambda>(_, _, _, _, _, n, _, _, _, i, _). unat n - unat i)") (auto simp: unat_diff_less)

declare read_loop.simps [simp del]

text \<open>The address of the block in place \<open>n\<close> of an inode.\<close>

definition block_number :: "'a filesys_scheme \<Rightarrow> u32 \<Rightarrow> u32 \<Rightarrow> u32 option" where
  "block_number s inode n = ld_word s (inode_ptr_base s + inode * 4096 + n * 4)"

definition block_addr :: "'a filesys_scheme \<Rightarrow> u32 \<Rightarrow> u32" where
  "block_addr s b = data_block_ptr_base s + b * 4096"

definition read_data_to ::
    "('s \<Rightarrow> 'a filesys_scheme) \<Rightarrow> (u32 \<Rightarrow> u8 \<Rightarrow> 's \<Rightarrow> 's option) \<Rightarrow> u32 \<Rightarrow> u32 \<Rightarrow> u32 \<Rightarrow> 's \<Rightarrow> (u32 \<times> 's) option" where
  "read_data_to sys put inode offset len s =
     do { filelength \<leftarrow> ld_word (sys s) (inode_ptr_base (sys s) + inode * 4096);
          if offset > filelength then Some (0, s)
          else
            let len = (if len > filelength then filelength else len)
            in do { b \<leftarrow> block_number (sys s) inode (offset div 4096 + 1);
                    if slt (num_of_blocks (sys s)) b then Some (-1, s)
                    else if len = 0 then Some (0, s)
                    else read_loop (\<lambda>s. ld (sys s)) put
                           (\<lambda>s k. map_option (block_addr (sys s)) (block_number (sys s) inode (offset div 4096 + k)))
                           offset filelength len (block_addr (sys s) b) (offset mod 4096) 1 0 s } }"

text \<open>Into memory at \<open>buf\<close>, and into a local array.\<close>

definition read_data :: "u32 \<Rightarrow> u32 \<Rightarrow> u32 \<Rightarrow> u32 \<Rightarrow> 'a filesys_scheme \<Rightarrow> (u32 \<times> 'a filesys_scheme) option" where
  "read_data inode offset buf len s = read_data_to (\<lambda>s. s) (\<lambda>i b. st (buf + i) b) inode offset len s"

definition read_data_local ::
    "u32 \<Rightarrow> u32 \<Rightarrow> u32 \<Rightarrow> 'a filesys_scheme \<times> u8 list \<Rightarrow> (u32 \<times> 'a filesys_scheme \<times> u8 list) option" where
  "read_data_local inode offset len s =
     read_data_to fst (\<lambda>i b (s, buf). map_option (Pair s) (buf_set buf (unat i) b)) inode offset len s"

section \<open>The driver\<close>

definition directory_read :: "u32 \<Rightarrow> u32 \<Rightarrow> u32 \<Rightarrow> 'a filesys_scheme \<Rightarrow> (u32 \<times> 'a filesys_scheme) option" where
  "directory_read fd buf cnt s =
     do { s \<leftarrow> foldM (\<lambda>i s. do { s \<leftarrow> foldM (\<lambda>j s. do { c \<leftarrow> ld s (entry s (of_nat i) + of_nat j); putc c s }) [0..<32] s;
                              putc 10 s }) [0..<nat (sint (num_of_entries s))] s;
          Some (0, update_cursor s) }"

definition filesystem_read :: "u32 \<Rightarrow> u32 \<Rightarrow> u32 \<Rightarrow> 'a filesys_scheme \<Rightarrow> (u32 \<times> 'a filesys_scheme) option" where
  "filesystem_read fd buf cnt s =
     do { p \<leftarrow> fetch_cur_pcb_ptr s;
          d \<leftarrow> desc s p fd;
          if inode_ptr d \<noteq> -1 then
            do { (ret_val, s) \<leftarrow> read_data (inode_ptr d) (file_pos d) buf cnt s;
                 Some (ret_val, if ret_val \<noteq> -1 then upd_desc p (unat fd) (\<lambda>d. d\<lparr>file_pos := file_pos d + ret_val\<rparr>) s else s) }
          else if file_pos d < num_of_entries s then
            do { fn_len \<leftarrow> strlen (at s (entry s (file_pos d)));
                 s \<leftarrow> memcpy buf (entry s (file_pos d)) fn_len s;
                 Some (fn_len, upd_desc p (unat fd) (\<lambda>d. d\<lparr>file_pos := file_pos d + 1\<rparr>) s) }
          else Some (0, upd_desc p (unat fd) (\<lambda>d. d\<lparr>file_pos := 0\<rparr>) s) }"

definition filesystem_write :: "u32 \<Rightarrow> u32 \<Rightarrow> u32 \<Rightarrow> 'a filesys_scheme \<Rightarrow> u32 \<times> 'a filesys_scheme" where
  "filesystem_write fd buf cnt s = (-1, s)"

definition filesystem_open :: "u32 \<Rightarrow> 'a filesys_scheme \<Rightarrow> u32 \<times> 'a filesys_scheme" where
  "filesystem_open filename s = (-1, s)"

definition filesystem_close :: "u32 \<Rightarrow> 'a filesys_scheme \<Rightarrow> u32 \<times> 'a filesys_scheme" where
  "filesystem_close filename s = (0, s)"

end
