(* ===== verification/Fileread.thy ===== *)
theory Fileread
  imports Filesys
begin

text \<open>
  What \<open>read_data\<close> delivers. A file is a byte list (\<open>holds_file\<close> says where the image keeps it);
  the locale \<open>byte_sink\<close> is what the loop needs of a destination, and is interpreted on a buffer in
  user memory and on a local array. Reading returns the asked-for segment of the file, and
  consecutive reads return consecutive slices.
\<close>

section \<open>Destinations\<close>

locale byte_sink =
  fixes put :: "u32 \<Rightarrow> u8 \<Rightarrow> 's \<Rightarrow> 's option" and got :: "'s \<Rightarrow> nat \<Rightarrow> u8 list"
    and room :: nat and inv :: "'s \<Rightarrow> bool"
  assumes put_byte: "inv s \<Longrightarrow> unat i < room \<Longrightarrow>
      \<exists>t. put i b s = Some t \<and> inv t \<and> got t (unat i + 1) = got s (unat i) @ [b]"
    and got_none: "inv s \<Longrightarrow> got s 0 = []"
begin

text \<open>The loop at position \<open>offset + i\<close> of a file of \<open>flen\<close> bytes whose block \<open>m\<close> is at \<open>baddr m\<close>.\<close>

lemma read_loop_from:
  fixes rd :: "'s \<Rightarrow> u32 \<Rightarrow> u8 option" and block :: "'s \<Rightarrow> u32 \<Rightarrow> u32 option" and baddr :: "nat \<Rightarrow> u32"
  assumes flen: "flen < 2 ^ 31" "len \<le> flen" and room: "min len (flen - off) \<le> room"
    and rd: "\<And>s n. inv s \<Longrightarrow> off \<le> n \<Longrightarrow> n < flen \<Longrightarrow> rd s (baddr (n div 4096) + of_nat (n mod 4096)) = Some (content n)"
    and block: "\<And>s m. inv s \<Longrightarrow> off div 4096 \<le> m \<Longrightarrow> m * 4096 \<le> flen \<Longrightarrow>
        \<exists>a. block s (of_nat (m - off div 4096) + 1) = Some a \<and> (m * 4096 < flen \<longrightarrow> a = baddr m)"
  shows "inv s \<Longrightarrow> off \<le> flen \<Longrightarrow> i \<le> min len (flen - off) \<Longrightarrow> got s i = map content [off..<off + i] \<Longrightarrow>
      (i < min len (flen - off) \<Longrightarrow> bp = baddr ((off + i) div 4096)) \<Longrightarrow>
    \<exists>t. read_loop rd put block (of_nat off) (of_nat flen) (of_nat len) bp (of_nat ((off + i) mod 4096))
          (of_nat ((off + i) div 4096 - off div 4096) + 1) (of_nat i) s = Some (of_nat (min len (flen - off)), t)
      \<and> inv t \<and> got t (min len (flen - off)) = map content [off..<off + min len (flen - off)]"
proof (induction "min len (flen - off) - i" arbitrary: i s bp)
  case 0
  then have i: "i = min len (flen - off)" by simp
  have un: "unat (of_nat (off + i) :: u32) = off + i" "unat (of_nat i :: u32) = i" "unat (of_nat flen :: u32) = flen" "unat (of_nat len :: u32) = len"
    by (rule unat_of_nat_small; use flen "0.prems" in simp)+
  have "\<not> ((of_nat i :: u32) < of_nat len \<and> of_nat off + of_nat i < (of_nat flen :: u32))"
    unfolding word_less_nat_alt of_nat_add [symmetric] un using i "0.prems"(2) by (auto simp: min_def)
  then have "read_loop rd put block (of_nat off) (of_nat flen) (of_nat len) bp (of_nat ((off + i) mod 4096))
      (of_nat ((off + i) div 4096 - off div 4096) + 1) (of_nat i) s = Some (of_nat i, s)"
    by (subst read_loop.simps) (simp only: if_False)
  then show ?case using "0.prems"(1,4) i by blast
next
  case (Suc d)
  let ?n = "off + i"
  have i: "i < min len (flen - off)" using Suc.hyps(2) by linarith
  have n: "?n < flen" using i Suc.prems(2) by linarith
  have un: "unat (of_nat ?n :: u32) = ?n" "unat (of_nat i :: u32) = i" "unat (of_nat flen :: u32) = flen" "unat (of_nat len :: u32) = len"
    by (rule unat_of_nat_small; use flen n i in simp)+
  have guard: "(of_nat i :: u32) < of_nat len \<and> of_nat off + of_nat i < (of_nat flen :: u32)"
    unfolding word_less_nat_alt of_nat_add [symmetric] un using i n by simp
  have bp: "bp = baddr (?n div 4096)" using Suc.prems(5) i by simp
  have get: "rd s (bp + of_nat (?n mod 4096)) = Some (content ?n)" unfolding bp using rd Suc.prems(1) n by simp
  obtain t where t: "put (of_nat i) (content ?n) s = Some t" "inv t" "got t (i + 1) = got s i @ [content ?n]"
    using put_byte [of s "of_nat i" "content ?n"] Suc.prems(1) room i un(2) by auto
  have got: "got t (Suc i) = map content [off..<off + Suc i]" using t(3) Suc.prems(4) by simp
  have d: "d = min len (flen - off) - Suc i" "Suc i \<le> min len (flen - off)" using Suc.hyps(2) i by auto
  have w: "of_nat (?n mod 4096) + 1 = (of_nat (Suc (?n mod 4096)) :: u32)" "of_nat i + 1 = (of_nat (Suc i) :: u32)"
    by (simp_all add: add.commute)
  have m4: "?n mod 4096 < 4096" by simp
  then have "unat (of_nat (Suc (?n mod 4096)) :: u32) = Suc (?n mod 4096)" by (intro unat_of_nat_small) simp
  then have full: "slt 4095 (of_nat (?n mod 4096) + 1) \<longleftrightarrow> ?n mod 4096 = 4095"
    unfolding w using slt_small [of 4095 "of_nat (Suc (?n mod 4096))"] m4 by auto
  have step: "read_loop rd put block (of_nat off) (of_nat flen) (of_nat len) bp (of_nat (?n mod 4096))
      (of_nat (?n div 4096 - off div 4096) + 1) (of_nat i) s =
    (if ?n mod 4096 = 4095 then
       do { bp \<leftarrow> block t (of_nat (?n div 4096 - off div 4096) + 1 + 1);
            read_loop rd put block (of_nat off) (of_nat flen) (of_nat len) bp 0
              (of_nat (?n div 4096 - off div 4096) + 1 + 1) (of_nat (Suc i)) t }
     else read_loop rd put block (of_nat off) (of_nat flen) (of_nat len) bp (of_nat (Suc (?n mod 4096)))
            (of_nat (?n div 4096 - off div 4096) + 1) (of_nat (Suc i)) t)"
    by (subst read_loop.simps) (simp only: guard simp_thms if_True get t(1) Option.bind.bind_lunit full [unfolded w] w)
  show ?case
  proof (cases "?n mod 4096 = 4095")
    case True
    have e: "Suc ?n = Suc (?n div 4096) * 4096" using True div_mult_mod_eq [of ?n 4096] by simp
    then have m: "Suc ?n mod 4096 = 0" "Suc ?n div 4096 = Suc (?n div 4096)" by (simp_all only: mod_mult_self2_is_0, simp)
    have od: "off div 4096 \<le> ?n div 4096" by (simp add: div_le_mono)
    have k: "of_nat (?n div 4096 - off div 4096) + 1 = (of_nat (Suc ?n div 4096 - off div 4096) :: u32)"
      using od m(2) by (simp add: Suc_diff_le add.commute)
    obtain a where a: "block t (of_nat (Suc ?n div 4096 - off div 4096) + 1) = Some a" "Suc ?n < flen \<Longrightarrow> a = baddr (Suc ?n div 4096)"
      using block [OF t(2), of "Suc ?n div 4096"] od e m(2) n by auto
    have stepT: "read_loop rd put block (of_nat off) (of_nat flen) (of_nat len) bp (of_nat (?n mod 4096))
        (of_nat (?n div 4096 - off div 4096) + 1) (of_nat i) s =
      read_loop rd put block (of_nat off) (of_nat flen) (of_nat len) a (of_nat (Suc ?n mod 4096))
        (of_nat (Suc ?n div 4096 - off div 4096) + 1) (of_nat (Suc i)) t"
      unfolding m(1) by (subst step) (simp only: True simp_thms if_True k a(1) Option.bind.bind_lunit, simp only: semiring_1_class.of_nat_0)
    have "Suc i < min len (flen - off) \<Longrightarrow> a = baddr ((off + Suc i) div 4096)"
      using a(2) by auto
    from Suc.hyps(1) [OF d(1) t(2) Suc.prems(2) d(2) got this] show ?thesis
      unfolding stepT add_Suc_right by blast
  next
    case False
    then have m: "Suc ?n mod 4096 = Suc (?n mod 4096)" "Suc ?n div 4096 = ?n div 4096"
      using m4 by (simp_all add: mod_Suc div_Suc)
    show ?thesis
      unfolding step using Suc.hyps(1) [OF d(1) t(2) Suc.prems(2) d(2) got, of bp] False bp m by simp
  qed
qed

end

section \<open>The two destinations of the kernel\<close>

text \<open>\<open>s0\<close> is the state before the copy.\<close>

definition memory_sink :: "'a machine_scheme \<Rightarrow> nat \<Rightarrow> u32 \<Rightarrow> nat \<Rightarrow> 'a machine_scheme \<Rightarrow> bool" where
  "memory_sink s0 p buf n s \<longleftrightarrow> runs s0 p \<and> user_buffer buf n \<and> only_program p s0 s"

lemma memory_sink_put:
  assumes "memory_sink s0 p buf room s" "unat i < room"
  shows "\<exists>t. st (buf + i) b s = Some t \<and> memory_sink s0 p buf room t
    \<and> the (ld_bytes t buf (unat i + 1)) = the (ld_bytes s buf (unat i)) @ [b]"
proof -
  have r: "runs s p" "p < 6" and ub: "user_buffer buf room"
    using assms(1) only_program_runs by (auto simp: memory_sink_def runs_def)
  have at: "buf + of_nat j = buf + of_nat j \<and> unat (buf + of_nat j) = unat buf + j \<and> 0x8000000 \<le> unat (buf + of_nat j) \<and> unat (buf + of_nat j) < 0x8400000"
    if "j < room" for j using user_buffer_at [OF ub that] by auto
  have bi: "buf + of_nat (unat i) = buf + i" by simp
  obtain t where t: "st (buf + i) b s = Some t" "only_program p s t"
    using user_st [OF r(1), of "buf + i" b] at [OF assms(2)] unfolding bi by blast
  have "ld_bytes s buf (unat i) \<noteq> None"
  proof -
    have "ld s (buf + of_nat j) = Some (phys s (prog_addr p (buf + of_nat j)))" if "j < unat i" for j
      using translate_user [OF r(1), of "buf + of_nat j"] at [of j] that assms(2) by (simp add: ld_def)
    then have "ld_bytes s buf (unat i) = Some (map (\<lambda>j. phys s (prog_addr p (buf + of_nat j))) [0..<unat i])"
      by (simp add: ld_bytes_nth)
    then show ?thesis by simp
  qed
  then obtain bs where bs: "ld_bytes s buf (unat i) = Some bs" by blast
  have "translate s (buf + of_nat j) \<noteq> translate s (buf + i)" if "j < unat i" for j
    using prog_addr_inj [OF r(2), of "buf + of_nat j" "buf + i"] at [of j] at [OF assms(2)] that assms(2)
      translate_user [OF r(1), of "buf + of_nat j"] translate_user [OF r(1), of "buf + i"] unfolding bi by auto
  then have "ld_bytes t buf (unat i) = Some bs" by (rule ld_bytes_st [OF bs t(1)])
  then have "ld_bytes t buf (unat i + 1) = Some (bs @ [b])"
    unfolding ld_bytes_append using ld_st_same [OF t(1)] by simp
  moreover have "memory_sink s0 p buf room t"
    using assms(1) t(2) only_program_trans by (auto simp: memory_sink_def)
  ultimately show ?thesis using t(1) bs by auto
qed

interpretation mem: byte_sink "\<lambda>i b. st (buf + i) b" "\<lambda>s n. the (ld_bytes s buf n)" room "memory_sink s0 p buf room"
  for buf room s0 p
proof
  show "memory_sink s0 p buf room s \<Longrightarrow> unat i < room \<Longrightarrow>
      \<exists>t. st (buf + i) b s = Some t \<and> memory_sink s0 p buf room t
        \<and> the (ld_bytes t buf (unat i + 1)) = the (ld_bytes s buf (unat i)) @ [b]" for s i b
    by (rule memory_sink_put)
qed simp

definition local_sink :: "'s \<Rightarrow> nat \<Rightarrow> 's \<times> u8 list \<Rightarrow> bool" where
  "local_sink s0 n s \<longleftrightarrow> fst s = s0 \<and> length (snd s) = n"

interpretation loc: byte_sink "\<lambda>i b (s, buf). map_option (Pair s) (buf_set buf (unat i) b)" "\<lambda>s n. take n (snd s)"
  room "local_sink s0 room" for room s0
  by unfold_locales (auto simp: local_sink_def buf_set_def take_Suc_conv_app_nth)

section \<open>Files\<close>

definition in_kernel :: "u32 \<Rightarrow> nat \<Rightarrow> bool" where
  "in_kernel a n \<longleftrightarrow> 0x400000 \<le> unat a \<and> unat a + n \<le> 0x800000"

text \<open>\<open>holds_file s inode bs\<close>: the inode gives the length of \<open>bs\<close> and, for each 4096 bytes of it, a
  block of the image that holds them; the entry after the last block is not above \<open>num_of_blocks\<close>
  either (\<open>read_data\<close> checks it when asked to read at the end of a file of whole blocks).\<close>

definition inode_addr :: "'a filesys_scheme \<Rightarrow> u32 \<Rightarrow> u32" where
  "inode_addr s inode = inode_ptr_base s + inode * 4096"

definition file_block :: "'a filesys_scheme \<Rightarrow> u32 \<Rightarrow> nat \<Rightarrow> u32" where
  "file_block s inode m = block_addr s (the (block_number s inode (of_nat m + 1)))"

definition holds_file :: "'a filesys_scheme \<Rightarrow> u32 \<Rightarrow> u8 list \<Rightarrow> bool" where
  "holds_file s inode bs \<longleftrightarrow>
     in_kernel (inode_addr s inode) 4096 \<and> length bs \<le> 1022 * 4096
   \<and> ld_word s (inode_addr s inode) = Some (of_nat (length bs))
   \<and> (\<forall>m. m * 4096 \<le> length bs \<longrightarrow>
        (\<exists>b. block_number s inode (of_nat m + 1) = Some b \<and> \<not> slt (num_of_blocks s) b))
   \<and> (\<forall>m. m * 4096 < length bs \<longrightarrow> in_kernel (file_block s inode m) 4096)
   \<and> (\<forall>n<length bs. ld s (file_block s inode (n div 4096) + of_nat (n mod 4096)) = Some (bs ! n))"

text \<open>\<open>kernel_same s t\<close>: the kernel page holds the same bytes, and the file system's globals are the
  same. Copying into a program and switching to another process's tables are such changes.\<close>

definition kernel_same :: "'a filesys_scheme \<Rightarrow> 'b filesys_scheme \<Rightarrow> bool" where
  "kernel_same s t \<longleftrightarrow> (\<exists>p. runs s p) \<and> (\<exists>q. runs t q)
     \<and> (\<forall>a. 0x400000 \<le> unat a \<longrightarrow> unat a < 0x800000 \<longrightarrow> phys t a = phys s a)
     \<and> inode_ptr_base t = inode_ptr_base s \<and> data_block_ptr_base t = data_block_ptr_base s
     \<and> num_of_blocks t = num_of_blocks s \<and> num_of_entries t = num_of_entries s \<and> entry_ptr_base t = entry_ptr_base s"

lemma same_ld:
  assumes "kernel_same s t" "in_kernel a n" "i < n"
  shows "ld t (a + of_nat i) = ld s (a + of_nat i)" "ld s (a + of_nat i) \<noteq> None"
proof -
  have u: "unat (a + of_nat i) = unat a + i" using assms(2,3) by (intro unat_add_of_nat) (auto simp: in_kernel_def)
  then have k: "0x400000 \<le> unat (a + of_nat i)" "unat (a + of_nat i) < 0x800000"
    using assms(2,3) by (auto simp: in_kernel_def)
  obtain p q where r: "runs s p" "runs t q" using assms(1) by (auto simp: kernel_same_def)
  have tr: "translate s (a + of_nat i) = Some (a + of_nat i)" "translate t (a + of_nat i) = Some (a + of_nat i)"
    using translate_kernel [of s p "a + of_nat i"] translate_kernel [of t q "a + of_nat i"] r k
    unfolding runs_def by blast+
  then show "ld t (a + of_nat i) = ld s (a + of_nat i)" "ld s (a + of_nat i) \<noteq> None"
    using assms(1) k by (simp_all add: ld_def kernel_same_def)
qed

lemma same_ld_bytes:
  assumes "kernel_same s t" "in_kernel a n"
  shows "i + m \<le> n \<Longrightarrow> ld_bytes t (a + of_nat i) m = ld_bytes s (a + of_nat i) m \<and> ld_bytes s (a + of_nat i) m \<noteq> None"
proof (induction m arbitrary: i)
  case (Suc m)
  have e: "a + of_nat i + 1 = a + of_nat (Suc i)" by (simp add: algebra_simps)
  show ?case using Suc.IH [of "Suc i"] Suc.prems same_ld [OF assms, of i] unfolding ld_bytes.simps e by fastforce
qed simp

lemma same_ld_word:
  assumes "kernel_same s t" "in_kernel a n" "i + 4 \<le> n"
  shows "ld_word t (a + of_nat i) = ld_word s (a + of_nat i)" "ld_word s (a + of_nat i) \<noteq> None"
  using same_ld_bytes [OF assms] by (simp_all add: ld_word_def)

lemma same_block_number:
  assumes "kernel_same s t" "in_kernel (inode_addr s inode) 4096" "m < 1023"
  shows "block_number t inode (of_nat m + 1) = block_number s inode (of_nat m + 1)"
proof -
  have a: "inode_ptr_base s + inode * 4096 + (of_nat m + 1) * 4 = inode_addr s inode + of_nat ((m + 1) * 4)"
    by (simp add: inode_addr_def algebra_simps)
  have b: "inode_ptr_base t = inode_ptr_base s" using assms(1) by (simp add: kernel_same_def)
  show ?thesis
    unfolding block_number_def b a using assms(3) by (intro same_ld_word [OF assms(1,2)]) simp
qed

text \<open>A file is not changed.\<close>

lemma same_file:
  assumes "kernel_same s t" "holds_file s inode bs"
  shows "holds_file t inode bs"
proof -
  note h = assms(2) [unfolded holds_file_def]
  note f = assms(1) [unfolded kernel_same_def]
  have ia: "inode_addr t inode = inode_addr s inode" using f by (simp add: inode_addr_def)
  have bn: "block_number t inode (of_nat m + 1) = block_number s inode (of_nat m + 1)" if "m * 4096 \<le> length bs" for m
    using same_block_number [OF assms(1), of inode m] h that by auto
  have fb: "file_block t inode m = file_block s inode m" if "m * 4096 \<le> length bs" for m
    using f by (simp add: file_block_def block_addr_def bn [OF that])
  have le: "n div 4096 * 4096 \<le> length bs" if "n < length bs" for n using that by (meson div_times_less_eq_dividend le_trans less_imp_le)
  have "ld_word t (inode_addr s inode) = ld_word s (inode_addr s inode)"
    using same_ld_word(1) [OF assms(1), of "inode_addr s inode" 4096 0] h by simp
  moreover have "ld t (file_block s inode (n div 4096) + of_nat (n mod 4096)) = ld s (file_block s inode (n div 4096) + of_nat (n mod 4096))"
    if "n < length bs" for n
  proof (rule same_ld(1) [OF assms(1)])
    have "n div 4096 * 4096 < length bs" using that by (meson div_times_less_eq_dividend le_less_trans)
    then show "in_kernel (file_block s inode (n div 4096)) 4096" using h by blast
  qed simp
  ultimately show ?thesis using h bn fb le f by (simp add: holds_file_def ia)
qed

text \<open>Copying into a program.\<close>

lemma only_program_filesys:
  assumes "only_program p s t"
  shows "inode_ptr_base t = inode_ptr_base s" "data_block_ptr_base t = data_block_ptr_base s" "num_of_blocks t = num_of_blocks s"
    "num_of_entries t = num_of_entries s" "entry_ptr_base t = entry_ptr_base s" "pcbs t = pcbs s" "esp t = esp s"
proof -
  have e: "t = s\<lparr>phys := phys t\<rparr>" using assms by (simp add: only_program_def)
  show "inode_ptr_base t = inode_ptr_base s" "data_block_ptr_base t = data_block_ptr_base s" "num_of_blocks t = num_of_blocks s"
    "num_of_entries t = num_of_entries s" "entry_ptr_base t = entry_ptr_base s" "pcbs t = pcbs s" "esp t = esp s"
    by (subst e, simp)+
qed

lemma only_program_same: "runs s p \<Longrightarrow> only_program p s t \<Longrightarrow> kernel_same s t"
proof -
  assume h: "runs s p" "only_program p s t"
  then have "runs t p" by (simp add: only_program_runs)
  moreover have "phys t a = phys s a" if "unat a < 0x800000" for a
    using h(2) that by (simp add: only_program_def in_program_def)
  ultimately show ?thesis using h(1) by (auto simp: kernel_same_def only_program_filesys [OF h(2)])
qed

lemma kernel_ld:
  fixes s t :: "'a filesys_scheme"
  assumes "runs s p" "only_program p s t" "in_kernel a n" "i < n"
  shows "ld t (a + of_nat i) = ld s (a + of_nat i)" "ld s (a + of_nat i) \<noteq> None"
  using same_ld [OF only_program_same [OF assms(1,2)] assms(3,4)] by simp_all

lemma kernel_ld_word:
  fixes s t :: "'a filesys_scheme"
  assumes "runs s p" "only_program p s t" "in_kernel a n" "i + 4 \<le> n"
  shows "ld_word t (a + of_nat i) = ld_word s (a + of_nat i)" "ld_word s (a + of_nat i) \<noteq> None"
  using same_ld_word [OF only_program_same [OF assms(1,2)] assms(3,4)] by simp_all

lemma block_number_keep:
  assumes "runs s p" "only_program p s t" "in_kernel (inode_addr s inode) 4096" "m < 1023"
  shows "block_number t inode (of_nat m + 1) = block_number s inode (of_nat m + 1)"
  by (rule same_block_number [OF only_program_same [OF assms(1,2)] assms(3,4)])

lemma holds_file_keep:
  assumes "runs s p" "only_program p s t" "holds_file s inode bs"
  shows "holds_file t inode bs"
  by (rule same_file [OF only_program_same [OF assms(1,2)] assms(3)])

text \<open>The segment \<open>read_data\<close> is asked for.\<close>

definition segment :: "nat \<Rightarrow> nat \<Rightarrow> u8 list \<Rightarrow> u8 list" where
  "segment off n bs = take n (drop off bs)"

lemma segment_map: "off + n \<le> length bs \<Longrightarrow> map ((!) bs) [off..<off + n] = segment off n bs"
  by (rule nth_equalityI) (auto simp: segment_def)

context byte_sink
begin

lemma read_data_segment:
  fixes sys :: "'s \<Rightarrow> 'a filesys_scheme"
  assumes s: "inv s" and keep: "\<And>t. inv t \<Longrightarrow> only_program p (sys s) (sys t)" and r: "runs (sys s) p"
    and hf: "holds_file (sys s) inode bs" and off: "off \<le> length bs" "n < 2 ^ 32"
    and rm: "min n (length bs - off) \<le> room"
  shows "\<exists>t. read_data_to sys put inode (of_nat off) (of_nat n) s = Some (of_nat (min n (length bs - off)), t)
    \<and> inv t \<and> got t (min n (length bs - off)) = segment off (min n (length bs - off)) bs"
proof -
  let ?F = "length bs" and ?L = "min n (length bs)" and ?N = "min n (length bs - off)"
  note h = hf [unfolded holds_file_def]
  have F: "?F \<le> 1022 * 4096" "?F < 2 ^ 31" using h by auto
  have un: "unat (of_nat off :: u32) = off" "unat (of_nat n :: u32) = n" "unat (of_nat ?F :: u32) = ?F"
    by (rule unat_of_nat_small; use off F in simp)+
  have len: "(if (of_nat n :: u32) > of_nat ?F then of_nat ?F else of_nat n) = (of_nat ?L :: u32)"
    unfolding word_less_nat_alt un by (simp add: min_def)
  have dv: "(of_nat off :: u32) div 4096 = of_nat (off div 4096)" "(of_nat off :: u32) mod 4096 = of_nat (off mod 4096)"
    using un(1) by (simp_all add: word_unat_eq_iff unat_div unat_mod)
      (simp_all add: unat_of_nat_small unat_of_nat off(1) F le_less_trans [OF _ F(2)])
  have m0: "off div 4096 * 4096 \<le> ?F" using off(1) by (meson div_times_less_eq_dividend le_trans)
  obtain b0 where b0: "block_number (sys s) inode (of_nat (off div 4096) + 1) = Some b0" "\<not> slt (num_of_blocks (sys s)) b0"
    using h m0 by blast
  have rd: "ld (sys t) (file_block (sys s) inode (k div 4096) + of_nat (k mod 4096)) = Some (bs ! k)" if "inv t" "k < ?F" for t k
  proof -
    have "k div 4096 * 4096 < ?F" using that(2) by (meson div_times_less_eq_dividend le_less_trans)
    then have "in_kernel (file_block (sys s) inode (k div 4096)) 4096" using h by blast
    then show ?thesis using kernel_ld(1) [OF r keep [OF that(1)], of _ 4096 "k mod 4096"] h that(2) by simp
  qed
  have block: "\<exists>a. map_option (block_addr (sys t)) (block_number (sys t) inode (of_nat off div 4096 + (of_nat (m - off div 4096) + 1))) = Some a
      \<and> (m * 4096 < ?F \<longrightarrow> a = file_block (sys s) inode m)" if "inv t" "off div 4096 \<le> m" "m * 4096 \<le> ?F" for t m
  proof -
    have i: "of_nat off div 4096 + (of_nat (m - off div 4096) + 1) = (of_nat m + 1 :: u32)"
      using that(2) by (simp add: dv)
    have bn: "block_number (sys t) inode (of_nat m + 1) = block_number (sys s) inode (of_nat m + 1)"
      using that(3) F h by (intro block_number_keep [OF r keep [OF that(1)]]) auto
    have "\<exists>b. block_number (sys s) inode (of_nat m + 1) = Some b" using h that(3) by blast
    then obtain b where "block_number (sys s) inode (of_nat m + 1) = Some b" by blast
    then show ?thesis
      unfolding i bn by (simp add: file_block_def block_addr_def only_program_filesys [OF keep [OF that(1)]])
  qed
  have N: "min ?L (?F - off) = ?N" by auto
  have bp: "block_addr (sys s) b0 = file_block (sys s) inode (off div 4096)" using b0(1) by (simp add: file_block_def)
  have loop: "\<exists>t. read_loop (\<lambda>s. ld (sys s)) put (\<lambda>s k. map_option (block_addr (sys s)) (block_number (sys s) inode (of_nat off div 4096 + k)))
      (of_nat off) (of_nat ?F) (of_nat ?L) (block_addr (sys s) b0) (of_nat (off mod 4096)) 1 0 s = Some (of_nat ?N, t)
    \<and> inv t \<and> got t ?N = segment off ?N bs"
    using read_loop_from [of ?F ?L off "\<lambda>s. ld (sys s)" "file_block (sys s) inode" "(!) bs"
        "\<lambda>s k. map_option (block_addr (sys s)) (block_number (sys s) inode (of_nat off div 4096 + k))" s 0 "block_addr (sys s) b0",
        unfolded N, OF F(2) _ rm rd block s off(1)] got_none [OF s] bp off segment_map [of off ?N bs]
    by simp
  have ne: "\<not> (of_nat off :: u32) > of_nat ?F" unfolding word_less_nat_alt un using off(1) by simp
  have fl: "ld_word (sys s) (inode_ptr_base (sys s) + inode * 4096) = Some (of_nat ?F)" using h by (simp add: inode_addr_def)
  show ?thesis
  proof (cases "(of_nat ?L :: u32) = 0")
    case True
    then have "?L = 0" using un F by (metis min_def un(2,3) unat_0)
    then have z: "?N = 0" by auto
    have "read_data_to sys put inode (of_nat off) (of_nat n) s = Some (0, s)"
      unfolding read_data_to_def fl Option.bind.bind_lunit if_not_P [OF ne] Let_def len dv b0(1)
      using b0(2) True by simp
    then show ?thesis using s got_none [OF s] by (simp add: z segment_def)
  next
    case False
    have "read_data_to sys put inode (of_nat off) (of_nat n) s
        = read_loop (\<lambda>s. ld (sys s)) put (\<lambda>s k. map_option (block_addr (sys s)) (block_number (sys s) inode (of_nat off div 4096 + k)))
            (of_nat off) (of_nat ?F) (of_nat ?L) (block_addr (sys s) b0) (of_nat (off mod 4096)) 1 0 s"
      unfolding read_data_to_def fl Option.bind.bind_lunit if_not_P [OF ne] Let_def len dv b0(1)
      using b0(2) False by simp
    then show ?thesis using loop by simp
  qed
qed

end

end
