(* ===== verification/Files.thy ===== *)
theory Files
  imports Fileread
begin

text \<open>
  The file system as its callers see it: lookup by name finds the first entry of that name, reads
  through a descriptor deliver consecutive slices of the file, reads of the directory deliver
  the names one by one.
\<close>

section \<open>Reading a file into a program\<close>

lemma user_ld_bytes: "runs s p \<Longrightarrow> user_buffer a n \<Longrightarrow> ld_bytes s a n \<noteq> None"
proof (induction n arbitrary: a)
  case (Suc n)
  have "ld s a \<noteq> None"
    using translate_user [OF Suc.prems(1), of a] Suc.prems(2) by (auto simp: ld_def user_buffer_def)
  then show ?case using Suc.IH [OF Suc.prems(1) user_buffer_step [OF Suc.prems(2)]] by auto
qed simp

lemma read_data_user:
  assumes "runs s p" "holds_file s inode bs" "off \<le> length bs" "n < 2 ^ 32" "user_buffer buf (min n (length bs - off))"
  obtains t where "read_data inode (of_nat off) buf (of_nat n) s = Some (of_nat (min n (length bs - off)), t)"
    "only_program p s t" "ld_bytes t buf (min n (length bs - off)) = Some (segment off (min n (length bs - off)) bs)"
proof -
  let ?N = "min n (length bs - off)"
  have inv: "memory_sink s p buf ?N s" using assms(1,5) by (simp add: memory_sink_def)
  have keep: "only_program p s t" if "memory_sink s p buf ?N t" for t using that by (simp add: memory_sink_def)
  obtain t where t: "read_data inode (of_nat off) buf (of_nat n) s = Some (of_nat ?N, t)" "memory_sink s p buf ?N t"
    "the (ld_bytes t buf ?N) = segment off ?N bs"
    using mem.read_data_segment [where sys = "\<lambda>s. s", OF inv keep assms(1,2,3,4) le_refl] unfolding read_data_def by blast
  have "runs t p" using assms(1) only_program_runs [OF keep [OF t(2)]] by simp
  then have "ld_bytes t buf ?N = Some (segment off ?N bs)" using user_ld_bytes [of t p] assms(5) t(3) by fastforce
  with t(1) keep [OF t(2)] show ?thesis by (rule that)
qed

lemma read_data_header:
  assumes "runs s p" "holds_file s inode bs" "off \<le> length bs" "n < 2 ^ 32" "min n (length bs - off) \<le> length b"
  obtains b' where "read_data_local inode (of_nat off) (of_nat n) (s, b) = Some (of_nat (min n (length bs - off)), s, b')"
    "length b' = length b" "take (min n (length bs - off)) b' = segment off (min n (length bs - off)) bs"
proof -
  have inv: "local_sink s (length b) (s, b)" by (simp add: local_sink_def)
  have keep: "only_program p (fst (s, b)) (fst t)" if "local_sink s (length b) t" for t using that by (simp add: local_sink_def)
  have r: "runs (fst (s, b)) p" "holds_file (fst (s, b)) inode bs" using assms(1,2) by simp_all
  obtain t where "read_data_local inode (of_nat off) (of_nat n) (s, b) = Some (of_nat (min n (length bs - off)), t)"
    "local_sink s (length b) t" "take (min n (length bs - off)) (snd t) = segment off (min n (length bs - off)) bs"
    using loc.read_data_segment [where sys = fst, OF inv keep r assms(3,4,5)] unfolding read_data_local_def by blast
  then show ?thesis by (intro that [of "snd t"]) (auto simp: local_sink_def)
qed

section \<open>Through a descriptor\<close>

lemma upd_desc_fields [simp]:
  "mmu (upd_desc i fd f s) = mmu s" "phys (upd_desc i fd f s) = phys s" "esp (upd_desc i fd f s) = esp s"
  "inode_ptr_base (upd_desc i fd f t) = inode_ptr_base t" "data_block_ptr_base (upd_desc i fd f t) = data_block_ptr_base t"
  "num_of_blocks (upd_desc i fd f t) = num_of_blocks t" "num_of_entries (upd_desc i fd f t) = num_of_entries t"
  "entry_ptr_base (upd_desc i fd f t) = entry_ptr_base t"
  "filesys_desc_array (pcbs (upd_desc i fd f s) i) fd = f (filesys_desc_array (pcbs s i) fd)"
  by (simp_all add: upd_desc_def upd_pcb_def mmu_def)

lemma upd_desc_ld [simp]: "ld_bytes (upd_desc i fd f s) a n = ld_bytes s a n" "ld (upd_desc i fd f s) a = ld s a"
  "runs (upd_desc i fd f s) p = runs s p"
  using mmu_cong(1) [of "upd_desc i fd f s" s] runs_mmu [of "upd_desc i fd f s" s]
  by (auto intro: ld_bytes_cong simp: ld_def)

lemma upd_desc_file [simp]: "holds_file (upd_desc i fd f s) inode bs = holds_file s inode bs"
  by (simp add: holds_file_def inode_addr_def file_block_def block_number_def block_addr_def ld_word_def)

lemma fetch_upd_desc [simp]: "fetch_cur_pcb_ptr (upd_desc i fd f s) = fetch_cur_pcb_ptr s"
  by (simp add: fetch_cur_pcb_ptr_def)

text \<open>\<open>at_file s p i fd inode pos bs\<close>: process \<open>i\<close> is in the kernel, its descriptor \<open>fd\<close> stands at \<open>pos\<close> in
  a regular file that holds \<open>bs\<close>.\<close>

definition at_file :: "'a filesys_scheme \<Rightarrow> nat \<Rightarrow> nat \<Rightarrow> u32 \<Rightarrow> u32 \<Rightarrow> nat \<Rightarrow> u8 list \<Rightarrow> bool" where
  "at_file s p i fd inode pos bs \<longleftrightarrow> runs s p \<and> fetch_cur_pcb_ptr s = Some i \<and> fd < 8 \<and> inode \<noteq> -1
     \<and> holds_file s inode bs \<and> pos \<le> length bs
     \<and> inode_ptr (filesys_desc_array (pcbs s i) (unat fd)) = inode
     \<and> file_pos (filesys_desc_array (pcbs s i) (unat fd)) = of_nat pos"

text \<open>Both kinds of read change the program's memory and the descriptor they are given.\<close>

lemma filesystem_read_change:
  assumes "at_file s p i fd inode pos bs" "n < 2 ^ 32" "user_buffer buf (min n (length bs - pos))"
  defines "N \<equiv> min n (length bs - pos)"
  obtains t where "filesystem_read fd buf (of_nat n) s = Some (of_nat N, t)" "at_file t p i fd inode (pos + N) bs"
    "ld_bytes t buf N = Some (segment pos N bs)"
    "filesys_desc_array (pcbs t i) (unat fd) = (filesys_desc_array (pcbs s i) (unat fd))\<lparr>file_pos := of_nat (pos + N)\<rparr>"
    "\<exists>u x. only_program p s u \<and> t = upd_desc i (unat fd) (\<lambda>d. d\<lparr>file_pos := file_pos d + x\<rparr>) u"
proof -
  note h = assms(1) [unfolded at_file_def]
  obtain t where t: "read_data inode (of_nat pos) buf (of_nat n) s = Some (of_nat N, t)" "only_program p s t"
    "ld_bytes t buf N = Some (segment pos N bs)"
    using read_data_user [of s p inode bs pos n buf] h assms(2,3) unfolding N_def by blast
  have N: "N \<le> 1022 * 4096" "pos + N \<le> length bs" using h by (auto simp: N_def holds_file_def)
  then have "unat (of_nat N :: u32) = N" by (intro unat_of_nat_small) simp
  then have "(of_nat N :: u32) \<noteq> -1" using N by (auto simp: word_unat_eq_iff unsigned_minus_1_eq_mask mask_eq_exp_minus_1)
  then have "filesystem_read fd buf (of_nat n) s = Some (of_nat N, upd_desc i (unat fd) (\<lambda>d. d\<lparr>file_pos := file_pos d + of_nat N\<rparr>) t)"
    using h t(1) by (simp add: filesystem_read_def desc_def)
  moreover have "at_file (upd_desc i (unat fd) (\<lambda>d. d\<lparr>file_pos := file_pos d + of_nat N\<rparr>) t) p i fd inode (pos + N) bs"
    using h holds_file_keep [OF _ t(2), of inode bs] only_program_runs [OF t(2)] only_program_filesys [OF t(2)]
    using N(2) by (simp add: at_file_def fetch_cur_pcb_ptr_def)
  moreover have "ld_bytes (upd_desc i (unat fd) (\<lambda>d. d\<lparr>file_pos := file_pos d + of_nat N\<rparr>) t) buf N = Some (segment pos N bs)"
    using t(3) by simp
  moreover have "filesys_desc_array (pcbs (upd_desc i (unat fd) (\<lambda>d. d\<lparr>file_pos := file_pos d + of_nat N\<rparr>) t) i) (unat fd)
      = (filesys_desc_array (pcbs s i) (unat fd))\<lparr>file_pos := of_nat (pos + N)\<rparr>"
    using h by (simp add: only_program_filesys [OF t(2)])
  ultimately show ?thesis by (rule that) (use t(2) in blast)
qed

lemma filesystem_read_file:
  assumes "at_file s p i fd inode pos bs" "n < 2 ^ 32" "user_buffer buf (min n (length bs - pos))"
  defines "N \<equiv> min n (length bs - pos)"
  obtains t where "filesystem_read fd buf (of_nat n) s = Some (of_nat N, t)" "at_file t p i fd inode (pos + N) bs"
    "ld_bytes t buf N = Some (segment pos N bs)"
    "filesys_desc_array (pcbs t i) (unat fd) = (filesys_desc_array (pcbs s i) (unat fd))\<lparr>file_pos := of_nat (pos + N)\<rparr>"
  unfolding N_def by (rule filesystem_read_change [OF assms(1-3)])

text \<open>A program that reads on and on, and what it has seen.\<close>

fun read_on :: "u32 \<Rightarrow> u32 \<Rightarrow> nat list \<Rightarrow> 'a filesys_scheme \<Rightarrow> (u8 list \<times> 'a filesys_scheme) option" where
  "read_on fd buf [] s = Some ([], s)"
| "read_on fd buf (n # ns) s =
     do { (r, s) \<leftarrow> filesystem_read fd buf (of_nat n) s;
          bs \<leftarrow> ld_bytes s buf (unat r);
          (rest, s) \<leftarrow> read_on fd buf ns s;
          Some (bs @ rest, s) }"

lemma segment_append: "segment a m bs @ segment (a + m) n bs = segment a (m + n) bs"
  by (simp add: segment_def take_add add.commute)

lemma segment_min: "segment a (min n (length bs - a)) bs = segment a n bs"
  by (simp add: segment_def min_def)

lemma segment_clip: "segment pos (min n (length bs - pos)) bs @ segment (pos + min n (length bs - pos)) m bs = segment pos (n + m) bs"
  by (auto simp: segment_append) (auto simp: segment_def min_def)

lemma read_on_file:
  assumes "at_file s p i fd inode pos bs" "\<forall>n\<in>set ns. n < 2 ^ 32 \<and> user_buffer buf n"
  shows "\<exists>t. read_on fd buf ns s = Some (segment pos (sum_list ns) bs, t)"
  using assms
proof (induction ns arbitrary: s pos)
  case Nil
  then show ?case by (simp add: segment_def)
next
  case (Cons n ns)
  let ?N = "min n (length bs - pos)"
  have ub: "user_buffer buf ?N" using Cons.prems(2) user_buffer_mono [of buf n ?N] by simp
  obtain t where t: "filesystem_read fd buf (of_nat n) s = Some (of_nat ?N, t)" "at_file t p i fd inode (pos + ?N) bs"
    "ld_bytes t buf ?N = Some (segment pos ?N bs)"
    using filesystem_read_file [OF Cons.prems(1) _ ub] Cons.prems(2) by auto
  obtain u where u: "read_on fd buf ns t = Some (segment (pos + ?N) (sum_list ns) bs, u)"
    using Cons.IH [OF t(2)] Cons.prems(2) by auto
  have "?N \<le> 1022 * 4096" using Cons.prems(1) by (auto simp: at_file_def holds_file_def)
  then have w: "unat (of_nat ?N :: u32) = ?N" by (intro unat_of_nat_small) simp
  have "segment pos ?N bs @ segment (pos + ?N) (sum_list ns) bs = segment pos (n + sum_list ns) bs"
    by (rule segment_clip)
  then show ?case using t(1,3) u w by simp
qed

section \<open>Names\<close>

definition entry_name :: "'a filesys_scheme \<Rightarrow> nat \<Rightarrow> u8 list" where
  "entry_name s i = takeWhile (\<lambda>b. b \<noteq> 0) (the (ld_bytes s (entry s (of_nat i)) 32))"

text \<open>The directory lies in the image, one entry beyond the last included: the search reads it.\<close>

definition directory_ok :: "'a filesys_scheme \<Rightarrow> nat \<Rightarrow> bool" where
  "directory_ok s n \<longleftrightarrow> num_of_entries s = of_nat n \<and> n < 64 \<and> (\<forall>i\<le>n. in_kernel (entry s (of_nat i)) 64)"

lemma kernel_ld_bytes:
  fixes s :: "'a filesys_scheme"
  assumes "runs s p" "in_kernel a n"
  shows "ld_bytes s a n \<noteq> None"
proof -
  have "\<forall>i<n. ld s (a + of_nat i) = Some (the (ld s (a + of_nat i)))"
    using kernel_ld(2) [OF assms(1) only_program_refl assms(2)] by auto
  then have "ld_bytes s a n = Some (map (\<lambda>i. the (ld s (a + of_nat i))) [0..<n])" by (simp add: ld_bytes_nth)
  then show ?thesis by simp
qed

lemma in_kernel_less: "in_kernel a n \<Longrightarrow> m \<le> n \<Longrightarrow> in_kernel a m"
  by (simp add: in_kernel_def)

lemma entry_name_cstr:
  assumes "runs s p" "directory_ok s n" "i \<le> n"
  shows "cstr_n (at s (entry s (of_nat i))) 32 (entry_name s i)"
proof -
  have "in_kernel (entry s (of_nat i)) 32"
    using assms(2,3) in_kernel_less [of "entry s (of_nat i)" 64 32] by (simp add: directory_ok_def)
  then obtain bs where bs: "ld_bytes s (entry s (of_nat i)) 32 = Some bs" using kernel_ld_bytes [OF assms(1)] by blast
  then have l: "length bs = 32" "\<And>j. j < 32 \<Longrightarrow> ld s (entry s (of_nat i) + of_nat j) = Some (bs ! j)"
    by (auto simp: ld_bytes_nth)
  let ?x = "takeWhile (\<lambda>b. b \<noteq> 0) bs"
  have "length ?x \<le> 32" using length_takeWhile_le [of _ bs] l(1) by metis
  moreover have "j < length ?x \<Longrightarrow> bs ! j = ?x ! j \<and> ?x ! j \<noteq> 0" for j
    using takeWhile_nth [of j "\<lambda>b. b \<noteq> 0" bs] nth_mem [of j ?x] by (auto dest: set_takeWhileD)
  moreover have "length ?x < 32 \<Longrightarrow> bs ! length ?x = 0"
    using nth_length_takeWhile [of "\<lambda>b. b \<noteq> 0" bs] l(1) by auto
  ultimately show ?thesis using l(2) bs by (auto simp: cstr_n_def at_def entry_name_def)
qed

lemma find_entry_from:
  assumes "runs s p" "directory_ok s n" "cstr_n fname 32 f"
  shows "i \<le> n \<Longrightarrow> (\<forall>j<i. entry_name s j \<noteq> f) \<Longrightarrow>
    \<exists>k\<le>n. find_entry fname s (of_nat i) = Some (of_nat k) \<and> (\<forall>j<k. entry_name s j \<noteq> f) \<and> (k < n \<longrightarrow> entry_name s k = f)"
proof (induction "n - i" arbitrary: i rule: less_induct)
  case less
  have "cstr_n (at s (entry s (of_nat i))) (unat (32::u32)) (entry_name s i)" "cstr_n fname (unat (32::u32)) f"
    using entry_name_cstr [OF assms(1,2) less.prems(1)] assms(3) by simp_all
  then obtain r where r: "strncmp (at s (entry s (of_nat i))) fname 32 = Some r" "r = 0 \<longleftrightarrow> entry_name s i = f"
    by (rule strncmp_cstr)
  have n: "n < 64" "num_of_entries s = of_nat n" using assms(2) by (simp_all add: directory_ok_def)
  have u: "unat (of_nat i :: u32) = i" "unat (of_nat n :: u32) = n"
    by (rule unat_of_nat_small; use n less.prems(1) in simp)+
  have lt: "slt (of_nat i) (num_of_entries s) \<longleftrightarrow> i < n"
    unfolding n(2) using slt_small [of "of_nat i" "of_nat n"] u n less.prems(1) by simp
  show ?case
  proof (cases "r \<noteq> 0 \<and> i < n")
    case True
    then have "\<forall>j<Suc i. entry_name s j \<noteq> f" using less.prems(2) r(2) less_Suc_eq by auto
    then have "\<exists>k\<le>n. find_entry fname s (of_nat (Suc i)) = Some (of_nat k) \<and> (\<forall>j<k. entry_name s j \<noteq> f) \<and> (k < n \<longrightarrow> entry_name s k = f)"
      using less.hyps [of "Suc i"] True by (simp add: Suc_leI diff_less_mono2 del: of_nat_Suc)
    moreover have "find_entry fname s (of_nat i) = find_entry fname s (of_nat (Suc i))"
      using r(1) True lt by (subst find_entry.simps) (simp add: add.commute)
    ultimately show ?thesis by simp
  next
    case False
    then have "find_entry fname s (of_nat i) = Some (of_nat i)" using r(1) lt by (subst find_entry.simps) auto
    moreover have "i < n \<longrightarrow> entry_name s i = f" using False r(2) by auto
    ultimately show ?thesis using less.prems by blast
  qed
qed

text \<open>The first entry with the name, or none.\<close>

lemma read_dentry_by_name_first:
  assumes "runs s p" "directory_ok s n" "cstr_n fname 32 f"
  shows "(\<forall>j<n. entry_name s j \<noteq> f) \<Longrightarrow> read_dentry_by_name fname s = Some (-1, None)"
    and "k < n \<Longrightarrow> entry_name s k = f \<Longrightarrow> \<forall>j<k. entry_name s j \<noteq> f \<Longrightarrow>
      \<exists>d. read_dentry_by_name fname s = Some (0, Some d) \<and> read_entry s (of_nat k) = Some d"
proof -
  have n: "n < 64" "num_of_entries s = of_nat n" using assms(2) by (simp_all add: directory_ok_def)
  have lt: "slt (of_nat j) (num_of_entries s) \<longleftrightarrow> j < n" if "j \<le> n" for j
  proof -
    have "unat (of_nat j :: u32) = j" "unat (of_nat n :: u32) = n" by (rule unat_of_nat_small; use n that in simp)+
    then show ?thesis unfolding n(2) using slt_small [of "of_nat j" "of_nat n"] n that by simp
  qed
  obtain m where m: "m \<le> n" "find_entry fname s 0 = Some (of_nat m)" "\<forall>j<m. entry_name s j \<noteq> f" "m < n \<longrightarrow> entry_name s m = f"
    using find_entry_from [OF assms, of 0] by auto
  show "(\<forall>j<n. entry_name s j \<noteq> f) \<Longrightarrow> read_dentry_by_name fname s = Some (-1, None)"
    using m lt [OF m(1)] by (auto simp: read_dentry_by_name_def)
  assume k: "k < n" "entry_name s k = f" "\<forall>j<k. entry_name s j \<noteq> f"
  then have mk: "m = k" using m by (metis linorder_neqE_nat order_le_less less_trans not_less)
  have ik: "in_kernel (entry s (of_nat k)) 64" using assms(2) k(1) by (simp add: directory_ok_def)
  obtain nm where "ld_bytes s (entry s (of_nat k)) 32 = Some nm"
    using kernel_ld_bytes [OF assms(1) in_kernel_less [OF ik, of 32]] by auto
  moreover obtain t i where "ld_word s (entry s (of_nat k) + 32) = Some t" "ld_word s (entry s (of_nat k) + 36) = Some i"
    using kernel_ld_word(2) [OF assms(1) only_program_refl ik, of 32] kernel_ld_word(2) [OF assms(1) only_program_refl ik, of 36] by auto
  ultimately obtain d where "read_entry s (of_nat k) = Some d" by (simp add: read_entry_def)
  then show "\<exists>d. read_dentry_by_name fname s = Some (0, Some d) \<and> read_entry s (of_nat k) = Some d"
    using m(2) lt [OF m(1)] k(1) mk by (simp add: read_dentry_by_name_def)
qed

section \<open>Reading the directory\<close>

definition at_directory :: "'a filesys_scheme \<Rightarrow> nat \<Rightarrow> nat \<Rightarrow> u32 \<Rightarrow> nat \<Rightarrow> nat \<Rightarrow> bool" where
  "at_directory s p i fd n pos \<longleftrightarrow> runs s p \<and> fetch_cur_pcb_ptr s = Some i \<and> fd < 8 \<and> directory_ok s n \<and> pos \<le> n
     \<and> inode_ptr (filesys_desc_array (pcbs s i) (unat fd)) = -1
     \<and> file_pos (filesys_desc_array (pcbs s i) (unat fd)) = of_nat pos"

lemma kernel_user_noalias:
  assumes "runs s p" "in_kernel src n" "user_buffer dst n"
  shows "noalias s dst src n"
  unfolding noalias_def
proof (intro allI impI)
  fix i j assume ij: "i < n" "j < n"
  have "unat (src + of_nat j) = unat src + j" using assms(2) ij by (intro unat_add_of_nat) (auto simp: in_kernel_def)
  then have k: "0x400000 \<le> unat (src + of_nat j)" "unat (src + of_nat j) < 0x800000" using assms(2) ij by (auto simp: in_kernel_def)
  have a: "0x8000000 \<le> unat (dst + of_nat i)" "unat (dst + of_nat i) < 0x8400000" using user_buffer_at [OF assms(3) ij(1)] by auto
  have "translate s (src + of_nat j) = Some (src + of_nat j)" using translate_kernel [of s p] assms(1) k by (auto simp: runs_def)
  moreover have "in_program p (prog_addr p (dst + of_nat i))" using prog_addr_in a assms(1) by (auto simp: runs_def)
  ultimately show "translate s (src + of_nat j) \<noteq> translate s (dst + of_nat i)"
    using translate_user [OF assms(1) a] k by (auto simp: in_program_def)
qed

lemma name_read_change:
  assumes "at_directory s p i fd n pos" "pos < n" "length (entry_name s pos) < 32" "user_buffer buf 32"
  defines "nm \<equiv> entry_name s pos"
  obtains t where "filesystem_read fd buf cnt s = Some (of_nat (length nm), t)" "at_directory t p i fd n (pos + 1)"
    "ld_bytes t buf (length nm) = Some nm" "\<forall>j\<le>n. entry_name t j = entry_name s j"
    "\<exists>u x. only_program p s u \<and> t = upd_desc i (unat fd) (\<lambda>d. d\<lparr>file_pos := file_pos d + x\<rparr>) u"
proof -
  note h = assms(1) [unfolded at_directory_def]
  have dir: "num_of_entries s = of_nat n" "n < 64" using h by (simp_all add: directory_ok_def)
  let ?e = "entry s (of_nat pos)"
  have k: "in_kernel ?e 32" using h assms(2) in_kernel_less [of ?e 64 32] by (simp add: directory_ok_def)
  have c: "cstr_n (at s ?e) 32 nm" using entry_name_cstr [of s p n pos] h assms(2) by (simp add: nm_def)
  then have cs: "cstr (at s ?e) nm" using assms(3) by (auto simp: cstr_n_def cstr_def nm_def)
  have len: "length nm < 32" using assms(3) by (simp add: nm_def)
  have ul: "unat (of_nat (length nm) :: u32) = length nm" by (rule unat_of_nat_small) (use len in simp)
  have ldn: "ld_bytes s ?e (length nm) = Some nm" using cs by (auto simp: ld_bytes_nth cstr_def at_def)
  have ub: "user_buffer buf (length nm)" using user_buffer_mono [OF assms(4)] len by simp
  have "noalias s buf ?e (length nm)"
    using kernel_user_noalias [OF _ in_kernel_less [OF k] ub] h len by auto
  then have mc: "memcpy buf ?e (of_nat (length nm)) s = put_bytes buf nm s"
    using memcpy_put_bytes [of s ?e "of_nat (length nm)" nm buf] ldn ul by simp
  obtain t where t: "put_bytes buf nm s = Some t" "only_program p s t" "ld_bytes t buf (length nm) = Some nm"
    using user_copy [of s p buf nm] h ub by blast
  let ?t = "upd_desc i (unat fd) (\<lambda>d. d\<lparr>file_pos := file_pos d + 1\<rparr>) t"
  have up: "unat (of_nat pos :: u32) = pos" "unat (of_nat n :: u32) = n" by (rule unat_of_nat_small; use dir assms(2) in simp)+
  have "filesystem_read fd buf cnt s = Some (of_nat (length nm), ?t)"
    using h strlen_cstr [OF cs] mc t(1) dir assms(2) up by (simp add: filesystem_read_def desc_def word_less_nat_alt)
  moreover have "entry t x = entry s x" for x by (simp add: entry_def only_program_filesys [OF t(2)])
  moreover from this have nm: "entry_name ?t j = entry_name s j" if "j \<le> n" for j
  proof -
    have kj: "in_kernel (entry s (of_nat j)) 32"
      using h that in_kernel_less [of "entry s (of_nat j)" 64 32] by (simp add: directory_ok_def)
    obtain bs where bs: "ld_bytes s (entry s (of_nat j)) 32 = Some bs" using kernel_ld_bytes [OF _ kj] h by blast
    then have "ld_bytes t (entry s (of_nat j)) 32 = Some bs"
      unfolding ld_bytes_nth using kernel_ld(1) [OF _ t(2) kj] h by simp
    with bs have "ld_bytes t (entry s (of_nat j)) 32 = ld_bytes s (entry s (of_nat j)) 32" by simp
    then show ?thesis by (simp add: entry_name_def entry_def only_program_filesys [OF t(2)])
  qed
  moreover have "at_directory ?t p i fd n (pos + 1)"
    using h assms(2) only_program_runs [OF t(2)] only_program_filesys [OF t(2)]
    by (simp add: at_directory_def directory_ok_def entry_def fetch_cur_pcb_ptr_def add.commute)
  ultimately show ?thesis using t(3) by (intro that [of ?t]) (use t(2) in \<open>auto simp: nm_def\<close>)
qed

lemma name_read:
  assumes "at_directory s p i fd n pos" "pos < n" "length (entry_name s pos) < 32" "user_buffer buf 32"
  defines "nm \<equiv> entry_name s pos"
  obtains t where "filesystem_read fd buf cnt s = Some (of_nat (length nm), t)" "at_directory t p i fd n (pos + 1)"
    "ld_bytes t buf (length nm) = Some nm" "\<forall>j\<le>n. entry_name t j = entry_name s j"
  unfolding nm_def by (rule name_read_change [OF assms(1-4)])

end
