(* ===== verification/Rtc.thy ===== *)
theory Rtc
  imports Files "HOL-Library.Signed_Division"
begin

text \<open>
  \<open>rtc.c\<close>: the real-time clock. The device answers through \<open>inb\<close>; the driver sets the periodic
  rate, waits for interrupts, and the interrupt handler reads the clock registers, turns GMT into
  local time and shows it on the row below the 24 text rows. C \<open>int\<close> values are \<open>int\<close>, narrowed
  by \<open>s8\<close> and \<open>s16\<close> where the C code assigns to the fields of \<open>time_t\<close>.
\<close>

section \<open>State\<close>

record time_t =
  second :: int
  minute :: int
  hour :: int
  week :: int
  day :: int
  month :: int
  year :: int

text \<open>\<open>freq_slot\<close> is what the stack slot of \<open>write_rtc\<close>'s local \<open>freq\<close> holds before it is written.\<close>

record rtc = filesys +
  rtc_interrupt_occured :: u32
  freq_slot :: "nat \<Rightarrow> u8"

section \<open>The driver\<close>

definition open_rtc :: "device \<Rightarrow> u32 \<Rightarrow> 'a machine_scheme \<Rightarrow> u32 \<times> 'a machine_scheme" where
  "open_rtc dev filename s =
     (let s = outb 0x8A 0x70 (cli s);
          (prev, s) = inb dev 0x71 s;
          prev = prev OR 0x0F;
          s = outb prev 0x71 (outb 0x8A 0x70 s);
          s = outb 0x8B 0x70 s;
          (prev, s) = inb dev 0x71 s;
          prev = prev OR 0x40;
          s = outb prev 0x71 (outb 0x8B 0x70 s)
      in (0, sti s))"

text \<open>The \<open>switch\<close> of \<open>write_rtc\<close>.\<close>

definition rtc_rate :: "u32 \<Rightarrow> u8 option" where
  "rtc_rate freq =
     (if freq = 2 then Some 0x0F else if freq = 4 then Some 0x0E else if freq = 8 then Some 0x0D
      else if freq = 16 then Some 0x0C else if freq = 32 then Some 0x0B else if freq = 64 then Some 0x0A
      else if freq = 128 then Some 0x09 else if freq = 256 then Some 0x08 else if freq = 512 then Some 0x07
      else if freq = 1024 then Some 0x06 else None)"

text \<open>\<open>memcpy(&freq, buf, nbytes)\<close> into a local of four bytes; more bytes overwrite the stack.\<close>

definition fetch_freq :: "u32 \<Rightarrow> u32 \<Rightarrow> 'a rtc_scheme \<Rightarrow> u32 option" where
  "fetch_freq buf nbytes s =
     (if unat nbytes \<le> 4 then
        do { bs \<leftarrow> ld_bytes s buf (unat nbytes); Some (word_of_bytes (bs @ map (freq_slot s) [unat nbytes..<4])) }
      else None)"

definition write_rtc :: "device \<Rightarrow> u32 \<Rightarrow> u32 \<Rightarrow> u32 \<Rightarrow> 'a rtc_scheme \<Rightarrow> (u32 \<times> 'a rtc_scheme) option" where
  "write_rtc dev fd buf nbytes s =
     do { freq \<leftarrow> fetch_freq buf nbytes s;
          let s = outb 0x8A 0x70 (cli s);
          let (prev, s) = inb dev 0x71 s;
          let prev = prev AND 0xF0;
          Some (case rtc_rate freq of
                  None \<Rightarrow> (-1, sti s)
                | Some r \<Rightarrow> (0, sti (outb (prev OR r) 0x71 (outb 0x8A 0x70 s)))) }"

definition close_rtc :: "u32 \<Rightarrow> 'a machine_scheme \<Rightarrow> u32 \<times> 'a machine_scheme" where
  "close_rtc fd s = (0, s)"

section \<open>The clock\<close>

definition get_reg_value :: "device \<Rightarrow> u8 \<Rightarrow> 'a machine_scheme \<Rightarrow> u8 \<times> 'a machine_scheme" where
  "get_reg_value dev reg s = inb dev 0x71 (outb reg 0x70 s)"

text \<open>\<open>(x & 0x0F) + 10 * ((x & mask) >> 4)\<close>.\<close>

definition bcd :: "u8 \<Rightarrow> u8 \<Rightarrow> int" where
  "bcd x m = uint (x AND 0x0F) + 10 * uint (drop_bit 4 (x AND m))"

text \<open>Before January's first comes December: the \<open>switch\<close> on the month.\<close>

definition month_before :: "time_t \<Rightarrow> time_t" where
  "month_before t =
     (let m = month t in
      if m = 1 then t\<lparr>day := 31, month := 12, year := s16 (year t - 1)\<rparr>
      else if m = 2 then t\<lparr>day := 31, month := 1\<rparr>
      else if m = 3 then t\<lparr>day := (if year t smod 4 = 0 then 29 else 28), month := 2\<rparr>
      else if m = 4 then t\<lparr>day := 31, month := 3\<rparr>
      else if m = 5 then t\<lparr>day := 30, month := 4\<rparr>
      else if m = 6 then t\<lparr>day := 31, month := 5\<rparr>
      else if m = 7 then t\<lparr>day := 30, month := 6\<rparr>
      else if m = 8 then t\<lparr>day := 31, month := 7\<rparr>
      else if m = 9 then t\<lparr>day := 31, month := 8\<rparr>
      else if m = 10 then t\<lparr>day := 30, month := 9\<rparr>
      else if m = 11 then t\<lparr>day := 31, month := 10\<rparr>
      else if m = 12 then t\<lparr>day := 30, month := 11\<rparr>
      else t)"

definition local_time :: "time_t \<Rightarrow> time_t" where
  "local_time t =
     (if hour t - 5 < 0 then
        let t = t\<lparr>hour := s8 (hour t - 5 + 24)\<rparr>;
            t = t\<lparr>week := s8 (week t - 1), day := s8 (day t - 1)\<rparr>;
            t = (if week t < 1 then t\<lparr>week := 7\<rparr> else t)
        in if day t < 0 then month_before t else t
      else t\<lparr>hour := s8 (hour t - 5)\<rparr>)"

definition gettime :: "device \<Rightarrow> 'a machine_scheme \<Rightarrow> time_t \<times> 'a machine_scheme" where
  "gettime dev s =
     (let (reg_b, s) = inb dev 0x71 (outb 0x0B 0x70 (cli s));
          reg_b = reg_b OR 0x80;
          s = outb reg_b 0x71 s;
          (sec, s) = get_reg_value dev 0x00 s;
          (min, s) = get_reg_value dev 0x02 s;
          (hr, s) = get_reg_value dev 0x04 s;
          (wk, s) = get_reg_value dev 0x06 s;
          (dy, s) = get_reg_value dev 0x07 s;
          (mon, s) = get_reg_value dev 0x08 s;
          (yr, s) = get_reg_value dev 0x09 s;
          reg_b = reg_b AND 0x7F;
          s = outb reg_b 0x71 (outb 0x0B 0x70 s);
          t = \<lparr> second = s8 (bcd sec 0x70), minute = s8 (bcd min 0x70), hour = s8 (bcd hr 0x30),
                week = s8 (uint (wk AND 0x07)), day = s8 (bcd dy 0x70), month = s8 (bcd mon 0x70),
                year = s16 (2000 + bcd yr 0xF0) \<rparr>
      in (local_time t, sti s))"

section \<open>Showing it\<close>

definition day_name :: "int \<Rightarrow> string option" where
  "day_name d = (if d = 0 then Some ''SUN'' else if d = 1 then Some ''MON'' else if d = 2 then Some ''TUE''
     else if d = 3 then Some ''WED'' else if d = 4 then Some ''THU'' else if d = 5 then Some ''FRI''
     else if d = 6 then Some ''SAT'' else None)"

text \<open>A character of the buffer: an \<open>int\<close> assigned to an \<open>int8_t\<close>.\<close>

definition digit :: "int \<Rightarrow> u8" where
  "digit x = word_of_int (x + 0x30)"

definition time_text :: "string \<Rightarrow> time_t \<Rightarrow> u8 list" where
  "time_text name t =
     (let buf = bytes ''UIUC 0000-00-00 DDD 00:00:00'';
          buf = buf[16 := bytes name ! 0, 17 := bytes name ! 1, 18 := bytes name ! 2];
          y = year t;
          buf = buf[5 := digit (y sdiv 1000)]; y = y smod 1000;
          buf = buf[6 := digit (y sdiv 100)]; y = y smod 100;
          buf = buf[7 := digit (y sdiv 10)]; y = y smod 10;
          buf = buf[8 := digit y];
          buf = buf[10 := digit (month t sdiv 10), 11 := digit (month t smod 10)];
          buf = buf[13 := digit (day t sdiv 10), 14 := digit (day t smod 10)];
          buf = (if hour t = 0 then buf[20 := 0x32, 21 := 0x33]
                 else buf[20 := digit (hour t sdiv 10), 21 := digit (hour t smod 10 - 1)]);
          buf = buf[23 := digit (minute t sdiv 10), 24 := digit (minute t smod 10)]
      in buf[26 := digit (second t sdiv 10), 27 := digit (second t smod 10)])"

definition show_cell :: "u8 list \<Rightarrow> nat \<Rightarrow> 'a machine_scheme \<Rightarrow> 'a machine_scheme option" where
  "show_cell buf i s =
     (let a = 0xB8000 + (80 * 24 + 52) * 2 + 2 * of_nat i
      in do { s \<leftarrow> st a (buf ! i) s; st (a + 1) 7 s })"

definition display_time :: "time_t \<Rightarrow> 'a console_scheme \<Rightarrow> 'a console_scheme option" where
  "display_time t s =
     (case day_name (week t - 1) of
        None \<Rightarrow> map_option snd (printf ''Invalid week of the week.\<newline>'' [] s)
      | Some name \<Rightarrow> foldM (show_cell (time_text name t)) [0..<28] s)"

section \<open>The interrupt and who waits for it\<close>

definition rtc_handler :: "device \<Rightarrow> 'a rtc_scheme \<Rightarrow> 'a rtc_scheme option" where
  "rtc_handler dev s =
     (let (cur_time, s) = gettime dev s
      in do { s \<leftarrow> display_time cur_time s;
              let s = outb 0x0C 0x70 s;
              let (c, s) = inb dev 0x71 s;
              let s = s\<lparr>rtc_interrupt_occured := if rtc_interrupt_occured s \<noteq> 0 then 0 else 1\<rparr>;
              Some (send_eoi 8 s) })"

text \<open>\<open>read_rtc\<close> waits until the flag changes; \<open>n\<close> bounds the interrupts that come.\<close>

fun rtc_wait :: "device \<Rightarrow> bool \<Rightarrow> nat \<Rightarrow> 'a rtc_scheme \<Rightarrow> 'a rtc_scheme option" where
  "rtc_wait dev was n s =
     (if (rtc_interrupt_occured s \<noteq> 0) \<noteq> was then Some s
      else case n of 0 \<Rightarrow> None | Suc n \<Rightarrow> do { s \<leftarrow> rtc_handler dev s; rtc_wait dev was n s })"

declare rtc_wait.simps [simp del]

definition read_rtc :: "device \<Rightarrow> nat \<Rightarrow> u32 \<Rightarrow> u32 \<Rightarrow> u32 \<Rightarrow> 'a rtc_scheme \<Rightarrow> (u32 \<times> 'a rtc_scheme) option" where
  "read_rtc dev n fd buf nbytes s =
     (let s = sti s
      in map_option (Pair 0) (rtc_wait dev (rtc_interrupt_occured s \<noteq> 0) n s))"

section \<open>The rate\<close>

text \<open>The crystal runs at 32768 Hz; rate \<open>r\<close> in register A gives \<open>32768 div 2 ^ (r - 1)\<close> interrupts
  per second.\<close>

definition rate_hz :: "u8 \<Rightarrow> nat" where
  "rate_hz r = 32768 div 2 ^ (unat r - 1)"

lemma rtc_rate_hz: "rtc_rate f = Some r \<Longrightarrow> rate_hz r = unat f \<and> r AND 0xF0 = 0"
  by (auto simp: rtc_rate_def rate_hz_def split: if_splits)

lemma rtc_rate_powers: "rtc_rate f \<noteq> None \<longleftrightarrow> unat f \<in> (\<lambda>k. 2 ^ k) ` {1..10}"
proof -
  have "{1..10} = set [1..<11::nat]" by auto
  also have "\<dots> = {1, 2, 3, 4, 5, 6, 7, 8, 9, 10}" by (simp add: upt_rec eval_nat_numeral)
  finally have "(\<lambda>k. 2 ^ k) ` {1..10} = {2, 4, 8, 16, 32, 64, 128, 256, 512, 1024::nat}" by (simp only: image_insert image_empty) simp
  moreover have "rtc_rate f \<noteq> None \<longleftrightarrow> f \<in> {2, 4, 8, 16, 32, 64, 128, 256, 512, 1024}" by (simp add: rtc_rate_def)
  ultimately show ?thesis by (simp add: word_unat_eq_iff)
qed

lemma nibbles: "r AND 0xF0 = 0 \<Longrightarrow> (p AND 0xF0 OR r) AND 0xF0 = p AND (0xF0 :: u8) \<and> (p AND 0xF0 OR r) AND 0x0F = r"
proof -
  assume r: "r AND 0xF0 = (0 :: u8)"
  have z: "(p AND 0xF0) AND 0x0F = 0" by (simp add: and.assoc)
  have "(0xF0 OR 0x0F :: u8) = - 1" by simp
  then have "r = r AND (0xF0 OR 0x0F)" by (simp only: bit.conj_one_right)
  then have "r = r AND 0xF0 OR r AND 0x0F" by (simp only: bit.conj_disj_distrib)
  then have "r = r AND 0x0F" using r by simp
  then show ?thesis using r z by (simp add: bit.conj_disj_distrib2 and.assoc)
qed

lemma write_rtc_rate:
  fixes dev :: device
  assumes "ld_bytes s buf 4 = Some bs"
  defines "p \<equiv> dev (io_log s @ [Outb 0x8A 0x70]) 0x71"
  shows "unat (word_of_bytes bs) \<in> (\<lambda>k. 2 ^ k) ` {1..10} \<Longrightarrow>
      \<exists>v. write_rtc dev fd buf 4 s = Some (0, s\<lparr>iflag := True,
            io_log := io_log s @ [Outb 0x8A 0x70, Inb 0x71 p, Outb 0x8A 0x70, Outb v 0x71]\<rparr>)
        \<and> v AND 0xF0 = p AND 0xF0 \<and> rate_hz (v AND 0x0F) = unat (word_of_bytes bs)"
    and "unat (word_of_bytes bs) \<notin> (\<lambda>k. 2 ^ k) ` {1..10} \<Longrightarrow>
      write_rtc dev fd buf 4 s = Some (-1, s\<lparr>iflag := True, io_log := io_log s @ [Outb 0x8A 0x70, Inb 0x71 p]\<rparr>)"
proof -
  have f: "fetch_freq buf 4 s = Some (word_of_bytes bs)" using assms(1) by (simp add: fetch_freq_def)
  note port = write_rtc_def inb_def outb_def cli_def sti_def Let_def p_def
  {
    assume "unat (word_of_bytes bs) \<in> (\<lambda>k. 2 ^ k) ` {1..10}"
    then obtain r where r: "rtc_rate (word_of_bytes bs) = Some r" using rtc_rate_powers by blast
    show "\<exists>v. write_rtc dev fd buf 4 s = Some (0, s\<lparr>iflag := True,
            io_log := io_log s @ [Outb 0x8A 0x70, Inb 0x71 p, Outb 0x8A 0x70, Outb v 0x71]\<rparr>)
        \<and> v AND 0xF0 = p AND 0xF0 \<and> rate_hz (v AND 0x0F) = unat (word_of_bytes bs)"
      using rtc_rate_hz [OF r] nibbles [of r p] by (intro exI [of _ "p AND 0xF0 OR r"]) (simp add: port f r)
  next
    assume "unat (word_of_bytes bs) \<notin> (\<lambda>k. 2 ^ k) ` {1..10}"
    then have "rtc_rate (word_of_bytes bs) = None" using rtc_rate_powers by blast
    then show "write_rtc dev fd buf 4 s = Some (-1, s\<lparr>iflag := True, io_log := io_log s @ [Outb 0x8A 0x70, Inb 0x71 p]\<rparr>)"
      by (simp add: port f)
  }
qed

section \<open>The clock\<close>

text \<open>The documented behaviour of the clock chip: a read of the data port answers the register that
  the index port selected. \<open>bcd_byte\<close> is the code of a two-digit number.\<close>

definition answers :: "device \<Rightarrow> (u8 \<Rightarrow> u8) \<Rightarrow> bool" where
  "answers dev regs \<longleftrightarrow> (\<forall>log r. dev (log @ [Outb r 0x70]) 0x71 = regs r)"

definition bcd_byte :: "nat \<Rightarrow> u8" where
  "bcd_byte n = of_nat (16 * (n div 10) + n mod 10)"

lemma unat_bcd_byte: "n < 100 \<Longrightarrow> unat (bcd_byte n) = 16 * (n div 10) + n mod 10"
proof -
  assume "n < 100"
  then have "n div 10 \<le> 9" "n mod 10 \<le> 9" by linarith+
  then show ?thesis unfolding bcd_byte_def by (subst unat_of_nat, intro mod_less) simp
qed

lemma bcd_decimal:
  assumes "n < 100" "m \<in> {0x70, 0x30, 0xF0}" "n < 10 * (unat m div 16 + 1)"
  shows "bcd (bcd_byte n) m = int n"
proof -
  have "\<forall>n\<in>{..<100}. \<forall>m\<in>{0x70, 0x30, 0xF0}. n < 10 * (unat m div 16 + 1) \<longrightarrow> bcd (bcd_byte n) m = int n"
    by (simp add: lessThan_nat_numeral lessThan_Suc) (simp add: bcd_def bcd_byte_def)
  then show ?thesis using assms by blast
qed

text \<open>GMT to local time, five hours behind; \<open>clock_ok\<close> is a well-formed time.\<close>

definition clock_ok :: "time_t \<Rightarrow> bool" where
  "clock_ok t \<longleftrightarrow> 0 \<le> second t \<and> second t < 60 \<and> 0 \<le> minute t \<and> minute t < 60 \<and> 0 \<le> hour t \<and> hour t < 24
     \<and> 1 \<le> week t \<and> week t \<le> 7 \<and> 1 \<le> day t \<and> day t \<le> 31 \<and> 1 \<le> month t \<and> month t \<le> 12
     \<and> 2000 \<le> year t \<and> year t \<le> 2099"

lemma narrow_small: "- 128 \<le> i \<Longrightarrow> i < 128 \<Longrightarrow> s8 i = i" "- 32768 \<le> i \<Longrightarrow> i < 32768 \<Longrightarrow> s16 i = i"
  by (simp_all add: s8_def s16_def sint_sbintrunc' signed_take_bit_int_eq_self)

lemma local_time_shift:
  assumes "clock_ok t" "5 \<le> hour t \<or> 2 \<le> day t"
  shows "24 * day (local_time t) + hour (local_time t) = 24 * day t + hour t - 5"
    "clock_ok (local_time t)" "second (local_time t) = second t" "minute (local_time t) = minute t"
    "month (local_time t) = month t" "year (local_time t) = year t"
    "week (local_time t) = (if 5 \<le> hour t then week t else if week t = 1 then 7 else week t - 1)"
  using assms by (auto simp: local_time_def clock_ok_def narrow_small Let_def)

lemma local_time_day_zero:
  assumes "clock_ok t" "hour t < 5" "day t = 1"
  shows "day (local_time t) = 0" "month (local_time t) = month t" "year (local_time t) = year t"
  using assms by (auto simp: local_time_def clock_ok_def narrow_small Let_def)

section \<open>Reading the clock\<close>

text \<open>The clock registers of a GMT time, with the chip in BCD mode.\<close>

definition shows_clock :: "(u8 \<Rightarrow> u8) \<Rightarrow> time_t \<Rightarrow> bool" where
  "shows_clock regs t \<longleftrightarrow> regs 0 = bcd_byte (nat (second t)) \<and> regs 2 = bcd_byte (nat (minute t))
     \<and> regs 4 = bcd_byte (nat (hour t)) \<and> regs 6 = of_nat (nat (week t)) \<and> regs 7 = bcd_byte (nat (day t))
     \<and> regs 8 = bcd_byte (nat (month t)) \<and> regs 9 = bcd_byte (nat (year t - 2000))"

lemma weekday_byte: "1 \<le> i \<Longrightarrow> i \<le> 7 \<Longrightarrow> uint ((of_nat (nat i) :: u8) AND 7) = i"
proof -
  assume "1 \<le> i" "i \<le> 7"
  then have "i \<in> {1, 2, 3, 4, 5, 6, 7}" by auto
  then show ?thesis by auto
qed

lemma gettime_fields: "snd (gettime dev s) = s\<lparr>iflag := True, io_log := io_log (snd (gettime dev s))\<rparr>"
  by (simp add: gettime_def get_reg_value_def inb_def outb_def cli_def sti_def Let_def)

fun selected :: "io_event \<Rightarrow> u8" where
  "selected (Outb r p) = r"
| "selected (Inb p v) = 0"

lemma answers_last:
  "answers dev regs \<Longrightarrow> log \<noteq> [] \<Longrightarrow> last log = Outb (selected (last log)) 0x70 \<Longrightarrow>
   dev log 0x71 = regs (selected (last log))"
  unfolding answers_def by (metis append_butlast_last_id)

lemma gettime_local:
  assumes "answers dev regs" "shows_clock regs t" "clock_ok t"
  shows "fst (gettime dev s) = local_time t"
proof -
  have two: "bcd (bcd_byte (nat i)) m = i" if "0 \<le> i" "i < 100" "m \<in> {0x70, 0x30, 0xF0}" "i < 10 * (int (unat m) div 16 + 1)" for i m
  proof -
    have "nat i < 10 * (unat m div 16 + 1)" using that(1,4) by (simp add: nat_less_iff zdiv_int)
    then show ?thesis using bcd_decimal [of "nat i" m] that by simp
  qed
  have b: "bcd (regs 0) 0x70 = second t" "bcd (regs 2) 0x70 = minute t" "bcd (regs 4) 0x30 = hour t"
    "bcd (regs 7) 0x70 = day t" "bcd (regs 8) 0x70 = month t" "2000 + bcd (regs 9) 0xF0 = year t"
    "uint (regs 6 AND 7) = week t"
    using assms(2,3) weekday_byte unfolding shows_clock_def clock_ok_def by (auto simp: two)
  have n: "s8 (second t) = second t" "s8 (minute t) = minute t" "s8 (hour t) = hour t" "s8 (week t) = week t"
    "s8 (day t) = day t" "s8 (month t) = month t" "s16 (year t) = year t"
    using assms(3) by (auto simp: clock_ok_def narrow_small)
  show ?thesis
    by (simp add: gettime_def get_reg_value_def inb_def outb_def cli_def sti_def Let_def
      answers_last [OF assms(1)] b n) (cases t; simp)
qed

section \<open>The clock on the screen\<close>

text \<open>Two and four decimal digits.\<close>

definition two :: "int \<Rightarrow> u8 list" where
  "two n = [digit (n div 10), digit (n mod 10)]"

definition four :: "int \<Rightarrow> u8 list" where
  "four n = [digit (n div 1000), digit (n div 100 mod 10), digit (n div 10 mod 10), digit (n mod 10)]"

definition clock_line :: "string \<Rightarrow> time_t \<Rightarrow> u8 list \<Rightarrow> u8 list" where
  "clock_line name t hours = bytes ''UIUC '' @ four (year t) @ bytes ''-'' @ two (month t) @ bytes ''-'' @ two (day t)
     @ bytes '' '' @ bytes name @ bytes '' '' @ hours @ bytes '':'' @ two (minute t) @ bytes '':'' @ two (second t)"

lemma smod_small: "0 \<le> x \<Longrightarrow> 0 < y \<Longrightarrow> x smod y = (x mod y :: int) \<and> x sdiv y = (x div y :: int)"
  by (cases "x = 0") (simp_all add: signed_modulo_int_def signed_divide_int_def)

lemma mod_div_digit: "0 < a \<Longrightarrow> 0 < b \<Longrightarrow> (x::int) mod (a * b) div a = x div a mod b"
  by (simp add: zmod_zmult2_eq)

lemma digit_div:
  "(x::int) mod 1000 div 100 = x div 100 mod 10" "x mod 1000 mod 100 div 10 = x div 10 mod 10"
  "x mod 1000 mod 100 mod 10 = x mod 10"
proof -
  have e: "(1000::int) = 100 * 10" "(100::int) = 10 * 10" by simp_all
  have "(10::int) dvd 100" "(100::int) dvd 1000" by simp_all
  then have m: "x mod 1000 mod 100 = x mod 100" "x mod 100 mod 10 = x mod 10" by (simp_all only: mod_mod_cancel)
  show "x mod 1000 div 100 = x div 100 mod 10"
    by (simp only: e(1) mod_div_digit zero_less_numeral)
  show "x mod 1000 mod 100 div 10 = x div 10 mod 10"
    by (simp only: m, simp only: e(2) mod_div_digit zero_less_numeral)
  show "x mod 1000 mod 100 mod 10 = x mod 10" by (simp only: m)
qed

lemma list_update_numeral: "(x # xs)[numeral k := v] = x # xs[pred_numeral k := v]"
  by (simp add: numeral_eq_Suc)

lemma buffer_filled:
  "(bytes ''UIUC 0000-00-00 DDD 00:00:00'')[16 := a, 17 := b, 18 := c, 5 := y1, 6 := y2, 7 := y3, 8 := y4,
     10 := m1, 11 := m2, 13 := d1, 14 := d2, 20 := h1, 21 := h2, 23 := i1, 24 := i2, 26 := s1, 27 := s2]
   = bytes ''UIUC '' @ [y1, y2, y3, y4] @ bytes ''-'' @ [m1, m2] @ bytes ''-'' @ [d1, d2] @ bytes '' ''
     @ [a, b, c] @ bytes '' '' @ [h1, h2] @ bytes '':'' @ [i1, i2] @ bytes '':'' @ [s1, s2]"
  unfolding bytes_def list.map append.simps
  by (simp only: list_update_numeral pred_numeral_simps BitM.simps list_update_code)

lemma time_text_line:
  assumes "clock_ok t" "length name = 3"
  shows "time_text name t = clock_line name t
    (if hour t = 0 then bytes ''23'' else [digit (hour t div 10), digit (hour t mod 10 - 1)])"
proof -
  obtain a b c where n: "name = [a, b, c]" using assms(2) by (auto simp: length_Suc_conv numeral_3_eq_3)
  have y: "year t mod 1000 div 100 = year t div 100 mod 10" "year t mod 1000 mod 100 div 10 = year t div 10 mod 10"
    "year t mod 1000 mod 100 mod 10 = year t mod 10"
    by (simp_all add: digit_div)
  have ok: "0 \<le> second t" "0 \<le> minute t" "0 \<le> hour t" "0 \<le> day t" "0 \<le> month t" "0 \<le> year t"
    "0 \<le> year t mod 1000" "0 \<le> year t mod 1000 mod 100"
    using assms(1) by (simp_all add: clock_ok_def)
  have nm: "bytes name = [bytes name ! 0, bytes name ! 1, bytes name ! 2]" by (simp add: n bytes_def)
  have h: "bytes ''23'' = [0x32, 0x33]" by (simp add: bytes_def asc_def)
  have q: "x sdiv z = x div z" "x smod z = x mod z" if "0 \<le> x" "0 < z" for x z :: int
    using smod_small [OF that] by simp_all
  show ?thesis
    unfolding clock_line_def two_def four_def
    by (subst nm, cases "hour t = 0")
      (simp_all only: time_text_def Let_def if_True if_False simp_thms buffer_filled h q ok y zero_less_numeral)
qed

lemma day_name_length: "day_name d = Some name \<Longrightarrow> length name = 3"
  by (auto simp: day_name_def split: if_splits)

lemma day_name_week: "1 \<le> w \<Longrightarrow> w \<le> 7 \<Longrightarrow> \<exists>name. day_name (w - 1) = Some name"
  by (auto simp: day_name_def)

text \<open>Row 24 is below the terminals' 24 rows.\<close>

definition clock_cells :: "nat \<Rightarrow> u32 set" where
  "clock_cells k = (\<Union>i<28. {cell k (1972 + i), attr k (1972 + i)})"

definition below_screen :: "nat \<Rightarrow> 'a machine_scheme \<Rightarrow> 'a machine_scheme \<Rightarrow> bool" where
  "below_screen k s t \<longleftrightarrow> t = s\<lparr>phys := phys t\<rparr> \<and> (\<forall>a. a \<notin> clock_cells k \<longrightarrow> phys t a = phys s a)"

lemma below_screen_write:
  "below_screen k s t \<Longrightarrow> {a, b} \<subseteq> clock_cells k \<Longrightarrow> below_screen k s (t\<lparr>phys := (phys t)(a := x, b := y)\<rparr>)"
proof -
  assume h: "below_screen k s t" "{a, b} \<subseteq> clock_cells k"
  then have "t = s\<lparr>phys := phys t\<rparr>" by (simp add: below_screen_def)
  then have "t\<lparr>phys := f\<rparr> = s\<lparr>phys := f\<rparr>" for f by (metis machine.update_convs(1) machine.surjective)
  with h show ?thesis by (auto simp: below_screen_def)
qed

definition clock_shown :: "nat \<Rightarrow> u8 list \<Rightarrow> nat \<Rightarrow> 'a machine_scheme \<Rightarrow> bool" where
  "clock_shown k buf n s \<longleftrightarrow> (\<forall>i<n. phys s (cell k (1972 + i)) = buf ! i \<and> phys s (attr k (1972 + i)) = 7)"

lemma attr_inj: "k < 3 \<Longrightarrow> m < 2048 \<Longrightarrow> n < 2048 \<Longrightarrow> attr k m = attr k n \<longleftrightarrow> m = n"
  by (simp add: attr_def screen_addr_inj)

lemma show_cell_step:
  assumes "views s k" "below_screen k s t" "clock_shown k buf i t" "i < 28"
  shows "\<exists>u. show_cell buf i t = Some u \<and> below_screen k s u \<and> clock_shown k buf (Suc i) u"
proof -
  let ?n = "1972 + i"
  have k: "k < 3" and v: "views t k"
    using assms(1,2) views_less views_phys unfolding below_screen_def by metis+
  have u: "unat (of_nat ?n :: u32) = ?n" by (rule unat_of_nat_small) (use assms(4) in simp)
  have a: "0xB8000 + (80 * 24 + 52) * 2 + 2 * of_nat i = vga video_mem (of_nat ?n)"
    using assms(4) by (subst vga_nat) (simp_all only: u, simp_all add: video_mem_def)
  define w where "w = (phys t)(cell k ?n := buf ! i, attr k ?n := 7)"
  have "show_cell buf i t = Some (t\<lparr>phys := w\<rparr>)"
    using vga_access(2) [OF v, of "of_nat ?n" "buf ! i"] vga_access(3) [of "t\<lparr>phys := (phys t)(cell k ?n := buf ! i)\<rparr>" k "of_nat ?n"] v assms(4)
    unfolding show_cell_def Let_def a u w_def by simp
  moreover have "below_screen k s (t\<lparr>phys := w\<rparr>)"
    unfolding w_def using assms(2,4) by (intro below_screen_write) (auto simp: clock_cells_def)
  moreover have "clock_shown k buf (Suc i) (t\<lparr>phys := w\<rparr>)"
    using assms(3,4) k cell_attr [OF k] unfolding clock_shown_def w_def by (auto simp: less_Suc_eq attr_inj dest: sym)
  ultimately show ?thesis by blast
qed

lemma display_time_shows:
  assumes "views s k" "day_name (week t - 1) = Some name"
  shows "\<exists>u. display_time t s = Some u \<and> below_screen k s u \<and> clock_shown k (time_text name t) 28 u"
proof -
  have "\<exists>u. foldM (show_cell (time_text name t)) [0..<28] s = Some u \<and> below_screen k s u \<and> clock_shown k (time_text name t) 28 u"
    by (rule foldM_upt [where P = "\<lambda>i u. below_screen k s u \<and> clock_shown k (time_text name t) i u"])
      (use show_cell_step [OF assms(1)] in \<open>auto simp: below_screen_def clock_shown_def\<close>)
  then show ?thesis by (simp add: display_time_def assms(2))
qed

lemma clock_below_rows: "l < 3 \<Longrightarrow> k < 3 \<Longrightarrow> n < 1920 \<Longrightarrow> cell l n \<notin> clock_cells k"
  by (auto simp: clock_cells_def cell_def attr_def screen_addr_inj)

lemma below_screen_tty: "below_screen k s t \<Longrightarrow> k < 3 \<Longrightarrow> l < 3 \<Longrightarrow> tty_of l t = tty_of l (s :: 'a console_scheme)"
proof -
  assume b: "below_screen k s t" "k < 3" "l < 3"
  then have "t = s\<lparr>phys := phys t\<rparr>" by (simp add: below_screen_def)
  then have "terms t = terms s" by (metis console.select_convs(1) console.surjective machine.update_convs(1))
  moreover have "phys t (cell l n) = phys s (cell l n)" if "n < 1920" for n
    using b clock_below_rows [OF b(3,2) that] by (simp add: below_screen_def)
  ultimately show ?thesis by (auto simp: tty_of_def)
qed

section \<open>The interrupt\<close>

lemma gettime_frame:
  "views (snd (gettime dev s)) k = views s k" "phys (snd (gettime dev s)) = phys s"
  by (subst gettime_fields, simp add: views_fields)+

lemma gettime_rtc:
  "rtc_interrupt_occured (snd (gettime dev (s :: 'a rtc_scheme))) = rtc_interrupt_occured s"
  "terms (snd (gettime dev s)) = terms s"
  by (subst gettime_fields, simp)+

lemma gettime_iflag: "iflag (snd (gettime dev s))"
  by (subst gettime_fields) simp

lemma below_screen_rtc:
  "below_screen k s (t :: 'a rtc_scheme) \<Longrightarrow>
   rtc_interrupt_occured t = rtc_interrupt_occured s \<and> terms t = terms s \<and> iflag t = iflag s"
proof -
  assume "below_screen k s t"
  then obtain ph where "t = s\<lparr>phys := ph\<rparr>" unfolding below_screen_def by blast
  then show ?thesis by simp
qed

text \<open>What one interrupt does: the clock is redrawn, the flag flips, the terminals keep their text.\<close>

definition tick :: "device \<Rightarrow> nat \<Rightarrow> 'a rtc_scheme \<Rightarrow> 'a rtc_scheme \<Rightarrow> bool" where
  "tick dev k s t \<longleftrightarrow> views t k
     \<and> (\<forall>name. day_name (week (fst (gettime dev s)) - 1) = Some name \<longrightarrow>
          clock_shown k (time_text name (fst (gettime dev s))) 28 t)
     \<and> (\<forall>a. a \<notin> clock_cells k \<longrightarrow> phys t a = phys s a) \<and> terms t = terms s
     \<and> (rtc_interrupt_occured t \<noteq> 0 \<longleftrightarrow> rtc_interrupt_occured s = 0) \<and> iflag t"

lemma rtc_handler_tick:
  assumes "views s k" "day_name (week (fst (gettime dev s)) - 1) = Some name"
  shows "\<exists>t. rtc_handler dev s = Some t \<and> tick dev k s t"
proof -
  obtain cur_time g where g: "gettime dev s = (cur_time, g)" by (cases "gettime dev s")
  have f: "g = s\<lparr>iflag := True, io_log := io_log g\<rparr>" using gettime_fields [of dev s] g by simp
  have v: "views g k" "phys g = phys s" using gettime_frame [of dev s] assms(1) g by simp_all
  obtain u where u: "display_time cur_time g = Some u" "below_screen k g u" "clock_shown k (time_text name cur_time) 28 u"
    using display_time_shows [OF v(1), of cur_time name] assms(2) g by auto
  have uf: "rtc_interrupt_occured u = rtc_interrupt_occured s" "terms u = terms s" "iflag u"
    using below_screen_rtc [OF u(2)] gettime_rtc [of dev s] g gettime_iflag [of dev s] by simp_all
  let ?flag = "if rtc_interrupt_occured s \<noteq> 0 then 0 else 1"
  define l where "l = io_log (the (rtc_handler dev s))"
  have l: "rtc_handler dev s = Some (u\<lparr>io_log := l, rtc_interrupt_occured := ?flag\<rparr>)"
    unfolding l_def by (simp add: rtc_handler_def g u(1) inb_def outb_def send_eoi_def Let_def uf(1))
  have "views u k" using u(2) v(1) views_phys unfolding below_screen_def by metis
  then have "views (u\<lparr>io_log := l, rtc_interrupt_occured := ?flag\<rparr>) k"
    using views_mmu [of "u\<lparr>io_log := l, rtc_interrupt_occured := ?flag\<rparr>" u] by (simp add: mmu_def)
  then have "tick dev k s (u\<lparr>io_log := l, rtc_interrupt_occured := ?flag\<rparr>)"
    using u(2,3) uf v(2) assms(2) g by (simp add: tick_def below_screen_def clock_shown_def)
  with l show ?thesis by blast
qed

lemma tick_tty: "tick dev k s t \<Longrightarrow> views s k \<Longrightarrow> l < 3 \<Longrightarrow> tty_of l t = tty_of l s"
  using clock_below_rows [of l k] views_less [of s k] by (auto simp: tick_def tty_of_def fun_eq_iff)

text \<open>\<open>read_rtc\<close> returns with the first interrupt, and not before.\<close>

lemma read_rtc_one_interrupt:
  assumes "views s k" "day_name (week (fst (gettime dev (sti s))) - 1) = Some name"
  shows "read_rtc dev 0 fd buf nbytes s = None"
    and "\<exists>t. read_rtc dev (Suc n) fd buf nbytes s = Some (0, t) \<and> rtc_handler dev (sti s) = Some t \<and> tick dev k (sti s) t"
proof -
  show "read_rtc dev 0 fd buf nbytes s = None"
    by (simp add: read_rtc_def Let_def rtc_wait.simps [of dev _ 0])
  have "views (sti s) k" using assms(1) by (simp add: sti_def views_fields)
  from rtc_handler_tick [OF this assms(2)]
  obtain t where t: "rtc_handler dev (sti s) = Some t" "tick dev k (sti s) t" by blast
  then have "rtc_wait dev (rtc_interrupt_occured (sti s) \<noteq> 0) n t = Some t"
    by (subst rtc_wait.simps) (auto simp: tick_def)
  then show "\<exists>t. read_rtc dev (Suc n) fd buf nbytes s = Some (0, t) \<and> rtc_handler dev (sti s) = Some t \<and> tick dev k (sti s) t"
    using t by (simp add: read_rtc_def Let_def rtc_wait.simps [of dev _ "Suc n"])
qed

end
