(* ===== verification/Sched.thy ===== *)
theory Sched
  imports Rtc
begin

text \<open>
  \<open>schedule.c\<close>, the timer interrupt, and the assembly it ends in (\<open>timer_hand\<close> in \<open>handlers.S\<close>,
  \<open>jump_to_program\<close> in \<open>sys_call.S\<close>): three terminals in a ring, each with the process that runs on
  it. A switch does not return to its caller: it leaves for another stack or for a fresh program,
  which \<open>leaving\<close> records.
\<close>

section \<open>State\<close>

text \<open>\<open>task_list_head\<close> and \<open>task_list_tail\<close> are indices into \<open>terminal\<close>.\<close>

record sched = rtc +
  task_list_head :: nat
  task_list_tail :: nat
  sched_esp :: u32
  shell_esp_array :: "nat \<Rightarrow> u32"

text \<open>\<open>Resume e\<close>: pop the saved registers at \<open>e\<close> and return from the interrupt that pushed them.
  \<open>Start eip e\<close>: enter user code at \<open>eip\<close> with stack pointer \<open>e\<close>.
  \<open>Unwind e v\<close>: return from the frame at \<open>e\<close>, left there by \<open>jump_to_program\<close>, with the value \<open>v\<close>.\<close>

datatype leaving = Resume u32 | Start u32 u32 | Unwind u32 u32

section \<open>Operations\<close>

definition init_timer :: "'a machine_scheme \<Rightarrow> 'a machine_scheme" where
  "init_timer s =
     (let divisor = 1193180 div 100 :: u32;
          s = outb 0x36 0x43 s;
          l = ucast (divisor AND 0xFF);
          h = ucast (drop_bit 8 divisor AND 0xFF);
          s = outb l 0x40 s
      in outb h 0x40 s)"

definition init_task :: "nat \<Rightarrow> 'a console_scheme \<Rightarrow> 'a console_scheme" where
  "init_task i s = s\<lparr>terminal := (terminal s)(i :=
     \<lparr>task_pid = of_nat i, task_term = of_nat i, task_next = (i + 1) mod 3, task_active = 0\<rparr>)\<rparr>"

definition init_schedule :: "'a sched_scheme \<Rightarrow> 'a sched_scheme" where
  "init_schedule s =
     (let s = fold init_task [0..<3] s;
          s = s\<lparr>terminal := (terminal s)(0 := (terminal s 0)\<lparr>task_active := 1\<rparr>)\<rparr>
      in s\<lparr>curr_term := 0, term_on_screen := 0, task_list_head := 0, task_list_tail := 2\<rparr>)"

definition KERNEL_DS :: u32 where
  "KERNEL_DS = 0x18"

text \<open>\<open>esp0\<close> of a process's kernel stack.\<close>

definition stack_top :: "u32 \<Rightarrow> u32" where
  "stack_top p = 0x00800000 - 0x00002000 * p - 4"

text \<open>\<open>jump_to_program\<close>, in assembly: with a save index it stores its stack pointer there.\<close>

definition jump_to_program :: "u32 \<Rightarrow> u32 \<Rightarrow> u32 \<Rightarrow> 'a sched_scheme \<Rightarrow> (leaving \<times> 'a sched_scheme) option" where
  "jump_to_program new_ebp eip save_pid s =
     (if slt save_pid 0 then Some (Start eip new_ebp, sti s)
      else if save_pid < 6 then
        Some (Start eip new_ebp, sti (s\<lparr>shell_esp_array := (shell_esp_array s)(unat save_pid := esp s)\<rparr>))
      else None)"

definition switch_to_prog :: "nat \<Rightarrow> 'a sched_scheme \<Rightarrow> leaving \<times> 'a sched_scheme" where
  "switch_to_prog the_pcb s =
     (let s = send_eoi 0 s;
          curr_esp = great_esp (pcbs s the_pcb)
      in (Resume curr_esp, sti (s\<lparr>esp := curr_esp + 36\<rparr>)))"

definition execute_root_shell :: "nat \<Rightarrow> 'a sched_scheme \<Rightarrow> (leaving \<times> 'a sched_scheme) option" where
  "execute_root_shell the_pcb s =
     (let s = send_eoi 0 s in jump_to_program (0x08400000 - 4) (cmd_eip (pcbs s the_pcb)) (-1) s)"

text \<open>The result is \<open>None\<close> in the first component when \<open>context_switch\<close> returns.\<close>

definition context_switch :: "'a sched_scheme \<Rightarrow> (leaving option \<times> 'a sched_scheme) option" where
  "context_switch s =
     (if 6 \<le> curr_pid s then None
      else
        let s = upd_pcb (unat (curr_pid s)) (\<lambda>p. p\<lparr>great_esp := sched_esp s\<rparr>) s;
            future = terminal s (task_list_head s);
            s = s\<lparr>task_list_head := task_next (terminal s (task_list_head s))\<rparr>;
            s = s\<lparr>task_list_tail := task_next (terminal s (task_list_tail s))\<rparr>;
            future_pid = task_pid future
        in if future_pid = ucast (curr_pid s) \<or> task_active future = 0 then Some (None, s)
           else if 6 \<le> future_pid then None
           else
             let s = s\<lparr>tss_ss0 := KERNEL_DS, tss_esp0 := stack_top future_pid\<rparr>;
                 s = s\<lparr>curr_term := ucast (task_term future), curr_pid := ucast future_pid\<rparr>;
                 s = flush_tlb (unat future_pid) s;
                 future_pcb = unat future_pid
             in if shell_flag (pcbs s future_pcb) \<noteq> 0 then
                  map_option (\<lambda>(l, s). (Some l, s))
                    (execute_root_shell future_pcb (upd_pcb future_pcb (\<lambda>p. p\<lparr>shell_flag := 0\<rparr>) s))
                else let (l, s) = switch_to_prog future_pcb s in Some (Some l, s))"

definition timer :: "'a sched_scheme \<Rightarrow> (leaving option \<times> 'a sched_scheme) option" where
  "timer s =
     map_option (\<lambda>(l, s). case l of None \<Rightarrow> (None, send_eoi 0 s) | Some l \<Rightarrow> (Some l, s)) (context_switch s)"

text \<open>The assembly around it: registers are pushed, the stack pointer after that is \<open>e\<close>.\<close>

definition timer_hand :: "u32 \<Rightarrow> 'a sched_scheme \<Rightarrow> (leaving option \<times> 'a sched_scheme) option" where
  "timer_hand e s =
     map_option (\<lambda>(l, s). case l of None \<Rightarrow> (None, sti s) | Some l \<Rightarrow> (Some l, s))
       (timer ((cli s)\<lparr>esp := e, sched_esp := e\<rparr>))"

section \<open>The ring\<close>

text \<open>Round robin over \<open>n\<close> slots: what a queue promises that moves its head one place at each step.\<close>

locale round_robin =
  fixes head :: "'s \<Rightarrow> nat" and step :: "'e \<Rightarrow> 's \<Rightarrow> 's option" and n :: nat and inv :: "'s \<Rightarrow> bool"
    and served :: "nat \<Rightarrow> 's \<Rightarrow> bool" and ready :: "nat \<Rightarrow> 's \<Rightarrow> bool"
  assumes step_some: "inv s \<Longrightarrow> \<exists>t. step e s = Some t \<and> inv t \<and> head t = (head s + 1) mod n"
    and step_served: "inv s \<Longrightarrow> ready (head s) s \<Longrightarrow> step e s = Some t \<Longrightarrow> served (head s) t"
    and step_ready: "inv s \<Longrightarrow> step e s = Some t \<Longrightarrow> ready i t = ready i s"
    and head_less: "inv s \<Longrightarrow> head s < n"
begin

lemma steps_inv: "inv s \<Longrightarrow> \<exists>t. foldM step es s = Some t \<and> inv t \<and> head t = (head s + length es) mod n \<and> (\<forall>i. ready i t = ready i s)"
proof (induction es arbitrary: s)
  case (Cons e es)
  obtain u where u: "step e s = Some u" "inv u" "head u = (head s + 1) mod n" using step_some [OF Cons.prems] by blast
  obtain t where "foldM step es u = Some t" "inv t" "head t = (head u + length es) mod n" "\<forall>i. ready i t = ready i u"
    using Cons.IH [OF u(2)] by blast
  with u step_ready [OF Cons.prems u(1)] show ?case by (simp add: mod_add_left_eq)
qed (simp add: head_less)

text \<open>Every ready slot is served within \<open>n\<close> steps.\<close>

lemma served_soon:
  assumes "inv s" "i < n" "ready i s" "length es = n"
  shows "\<exists>k<n. \<exists>t. foldM step (take (Suc k) es) s = Some t \<and> served i t"
proof -
  define k where "k = (i + n - head s) mod n"
  have h: "head s < n" using head_less [OF assms(1)] .
  have k: "k < n" "(head s + k) mod n = i"
    using h assms(2) unfolding k_def by (simp_all add: mod_add_right_eq)
  obtain u where u: "foldM step (take k es) s = Some u" "inv u" "head u = i" "ready i u"
    using steps_inv [OF assms(1), of "take k es"] k assms(3,4) by auto
  obtain t where t: "step (es ! k) u = Some t" using step_some [OF u(2)] by blast
  have "take (Suc k) es = take k es @ [es ! k]" using k(1) assms(4) by (simp add: take_Suc_conv_app_nth)
  then have "foldM step (take (Suc k) es) s = Some t" using u(1) t by (simp add: foldM_append)
  moreover have "served i t" using step_served [OF u(2) _ t] u(3,4) by simp
  ultimately show ?thesis using k(1) by blast
qed

end

section \<open>The invariant\<close>

text \<open>Terminal \<open>i\<close>'s slot holds a process whose \<open>video_mem\<close> is screen \<open>i\<close>, and the running process
  is the one of \<open>curr_term\<close>, on its own tables.\<close>

definition ring_ok :: "'a sched_scheme \<Rightarrow> bool" where
  "ring_ok s \<longleftrightarrow> task_list_head s < 3 \<and> task_list_tail s = (task_list_head s + 2) mod 3
     \<and> (\<forall>i<3. task_next (terminal s i) = (i + 1) mod 3 \<and> task_term (terminal s i) = of_nat i)"

definition slots_ok :: "'a sched_scheme \<Rightarrow> bool" where
  "slots_ok s \<longleftrightarrow> (\<forall>i<3. task_pid (terminal s i) < 6 \<and> screen_of s (unat (task_pid (terminal s i))) = i)"

definition running_ok :: "'a sched_scheme \<Rightarrow> bool" where
  "running_ok s \<longleftrightarrow> mmu_ok s \<and> unat (curr_term s) < 3 \<and> unat (term_on_screen s) < 3
     \<and> task_pid (terminal s (unat (curr_term s))) = ucast (curr_pid s) \<and> current_dir s = Some (unat (curr_pid s))"

definition sched_ok :: "'a sched_scheme \<Rightarrow> bool" where
  "sched_ok s \<longleftrightarrow> ring_ok s \<and> slots_ok s \<and> running_ok s"

lemma unat_ucast8 [simp]: "unat (ucast (w :: u8) :: u32) = unat w"
proof -
  have "unat w < 2 ^ LENGTH(8)" by (rule unsigned_less)
  then show ?thesis by (simp add: unsigned_ucast_eq take_bit_nat_eq_self)
qed

lemma unat_ucast32: "unat (w :: u32) < 256 \<Longrightarrow> unat (ucast w :: u8) = unat w"
  by (simp add: unsigned_ucast_eq take_bit_nat_eq_self)

lemma ucast_ucast8: "unat (w :: u32) < 256 \<Longrightarrow> ucast (ucast w :: u8) = w"
  by (simp add: word_unat_eq_iff unat_ucast32)

lemma slot_pid: "slots_ok s \<Longrightarrow> i < 3 \<Longrightarrow> unat (task_pid (terminal s i)) < 6"
  by (simp add: slots_ok_def word_less_nat_alt)

lemma slots_distinct: "slots_ok s \<Longrightarrow> i < 3 \<Longrightarrow> j < 3 \<Longrightarrow> task_pid (terminal s i) = task_pid (terminal s j) \<Longrightarrow> i = j"
  unfolding slots_ok_def by metis

lemma running_pid: "sched_ok s \<Longrightarrow> unat (curr_pid s) < 6"
  using slot_pid [of s "unat (curr_term s)"] by (auto simp: sched_ok_def running_ok_def)

lemma sched_console: "sched_ok s \<Longrightarrow> console_ok s"
proof -
  assume s: "sched_ok s"
  then have "screen_of s (unat (ucast (curr_pid s) :: u32)) = unat (curr_term s)"
    unfolding sched_ok_def slots_ok_def running_ok_def by metis
  moreover have "unat (ucast (curr_pid s) :: u32) = unat (curr_pid s)" by simp
  ultimately show ?thesis
    using s running_pid [OF s] unfolding console_ok_def views_def sched_ok_def running_ok_def by metis
qed

section \<open>What a switch does\<close>

text \<open>\<open>handed s l t\<close>: from \<open>s\<close>, one tick served the slot at the head, and left \<open>t\<close>.\<close>

definition handed :: "'a sched_scheme \<Rightarrow> leaving option \<Rightarrow> 'a sched_scheme \<Rightarrow> bool" where
  "handed s l t \<longleftrightarrow> (let i = task_list_head s; p = unat (task_pid (terminal s i)) in
     terminal t = terminal s \<and> task_list_head t = (i + 1) mod 3
     \<and> great_esp (pcbs t (unat (curr_pid s))) = sched_esp s
     \<and> (\<forall>q. q \<noteq> unat (curr_pid s) \<longrightarrow> great_esp (pcbs t q) = great_esp (pcbs s q))
     \<and> (\<forall>q. q \<noteq> p \<longrightarrow> shell_flag (pcbs t q) = shell_flag (pcbs s q))
     \<and> (case l of
          None \<Rightarrow> (p = unat (curr_pid s) \<or> task_active (terminal s i) = 0)
            \<and> curr_pid t = curr_pid s \<and> curr_term t = curr_term s \<and> shell_flag (pcbs t p) = shell_flag (pcbs s p)
        | Some l \<Rightarrow> p \<noteq> unat (curr_pid s) \<and> task_active (terminal s i) \<noteq> 0
            \<and> unat (curr_pid t) = p \<and> unat (curr_term t) = i
            \<and> tss_ss0 t = KERNEL_DS \<and> tss_esp0 t = stack_top (of_nat p) \<and> iflag t
            \<and> (if shell_flag (pcbs s p) \<noteq> 0
               then l = Start (cmd_eip (pcbs s p)) 0x083FFFFC \<and> shell_flag (pcbs t p) = 0
               else l = Resume (great_esp (pcbs s p)) \<and> esp t = great_esp (pcbs s p) + 36 \<and> shell_flag (pcbs t p) = 0)))"

lemma flush_tlb_rest: "flush_tlb p s = s\<lparr>cr3 := cr3 (flush_tlb p s)\<rparr>"
  by (simp add: flush_tlb_def Let_def)

lemma stack_top_on: "p < 6 \<Longrightarrow> on_stack_of p (stack_top (of_nat p))"
  by (auto simp: on_stack_of_def stack_top_def dest!: less_6_cases)


lemma switch_none:
  assumes "sched_ok s" "task_pid (terminal s (task_list_head s)) = ucast (curr_pid s) \<or> task_active (terminal s (task_list_head s)) = 0"
  shows "\<exists>t. context_switch s = Some (None, t) \<and> handed s None t \<and> sched_ok t"
proof -
  have p: "curr_pid s < 6" using running_pid [OF assms(1)] by (simp add: word_less_nat_alt)
  define t where "t = s\<lparr>pcbs := (pcbs s)(unat (curr_pid s) := (pcbs s (unat (curr_pid s)))\<lparr>great_esp := sched_esp s\<rparr>),
    task_list_head := (task_list_head s + 1) mod 3, task_list_tail := task_list_head s\<rparr>"
  have r: "task_next (terminal s (task_list_head s)) = (task_list_head s + 1) mod 3"
    "task_next (terminal s (task_list_tail s)) = task_list_head s" "task_list_head s < 3"
    using assms(1) by (auto simp: sched_ok_def ring_ok_def dest!: less_3_cases)
  have "context_switch s = Some (None, t)"
    using assms(2) p r by (auto simp: context_switch_def Let_def upd_pcb_def t_def)
  moreover have "handed s None t"
    using assms(2) by (auto simp: handed_def Let_def t_def)
  moreover have "mmu t = mmu s" by (simp add: t_def mmu_def)
  then have "sched_ok t"
    using assms(1) mmu_cong [of t s] unfolding sched_ok_def ring_ok_def slots_ok_def running_ok_def
    by (auto simp: t_def dest!: less_3_cases)
  ultimately show ?thesis by blast
qed


lemma switch_some:
  assumes "sched_ok s" "task_pid (terminal s (task_list_head s)) \<noteq> ucast (curr_pid s)" "task_active (terminal s (task_list_head s)) \<noteq> 0"
  shows "\<exists>l t. context_switch s = Some (Some l, t) \<and> handed s (Some l) t \<and> sched_ok t"
proof -
  let ?i = "task_list_head s"
  let ?f = "task_pid (terminal s ?i)"
  let ?p = "unat ?f"
  have c: "curr_pid s < 6" using running_pid [OF assms(1)] by (simp add: word_less_nat_alt)
  have i: "?i < 3" using assms(1) by (simp add: sched_ok_def ring_ok_def)
  have p: "?p < 6" using slot_pid [of s, OF _ i] assms(1) by (simp add: sched_ok_def)
  have f: "\<not> 6 \<le> ?f" using p by (simp add: word_le_nat_alt)
  have pn: "?p \<noteq> unat (curr_pid s)" using assms(2) by (auto simp: word_unat_eq_iff)
  have r: "task_next (terminal s ?i) = (?i + 1) mod 3" "task_next (terminal s (task_list_tail s)) = ?i"
    "task_term (terminal s ?i) = of_nat ?i"
    using assms(1) i by (auto simp: sched_ok_def ring_ok_def dest!: less_3_cases)
  have al: "aligned (pd_base s)" using assms(1) by (simp add: sched_ok_def running_ok_def mmu_ok_def link_ok_def)
  define s1 where "s1 = s\<lparr>pcbs := (pcbs s)(unat (curr_pid s) := (pcbs s (unat (curr_pid s)))\<lparr>great_esp := sched_esp s\<rparr>),
    task_list_head := (?i + 1) mod 3, task_list_tail := ?i, tss_ss0 := KERNEL_DS, tss_esp0 := stack_top ?f,
    curr_term := of_nat ?i, curr_pid := ucast ?f\<rparr>"
  define s2 where "s2 = flush_tlb ?p s1"
  have s2: "s2 = s1\<lparr>cr3 := cr3 s2\<rparr>" unfolding s2_def by (rule flush_tlb_rest)
  have cs: "context_switch s = (if shell_flag (pcbs s2 ?p) \<noteq> 0 then
       map_option (\<lambda>(l, s). (Some l, s)) (execute_root_shell ?p (upd_pcb ?p (\<lambda>p. p\<lparr>shell_flag := 0\<rparr>) s2))
     else let (l, s) = switch_to_prog ?p s2 in Some (Some l, s))"
    using assms(2,3) c f r i unfolding s2_def s1_def
    by (auto simp: context_switch_def Let_def upd_pcb_def dest!: less_3_cases)
  have m1: "mmu s1 = mmu s" by (simp add: s1_def mmu_def)
  have "mmu_ok s1" using assms(1) mmu_cong(3) [OF m1] by (simp add: sched_ok_def running_ok_def)
  moreover have "pd_base s1 = pd_base s" by (simp add: s1_def)
  ultimately have m2: "mmu_ok s2" "current_dir s2 = Some ?p" "screen_of s2 = screen_of s"
    using al p current_dir_flush_tlb [of s1 ?p] mmu_cong(5) [OF m1] by (auto simp: s2_def)
  define log where "log = io_log s2 @ [Outb 0x60 0x20]"
  have log: "send_eoi 0 s2 = s2\<lparr>io_log := log\<rparr>" by (simp add: send_eoi_def outb_def log_def)
  have it: "unat (of_nat ?i :: u8) = ?i" "unat (ucast ?f :: u8) = ?p"
    using i p by (auto simp: unat_ucast32 dest!: less_3_cases)
  have sf: "shell_flag (pcbs s2 ?p) = shell_flag (pcbs s ?p)" "great_esp (pcbs s2 ?p) = great_esp (pcbs s ?p)"
    "cmd_eip (pcbs s2 ?p) = cmd_eip (pcbs s ?p)"
    using pn by (subst s2, simp add: s1_def)+
  have fr: "terminal s2 = terminal s" "term_on_screen s2 = term_on_screen s" "task_list_tail s2 = ?i"
    by (subst s2, simp add: s1_def)+
  have out: "\<exists>l t. context_switch s = Some (Some l, t) \<and> handed s (Some l) t \<and> mmu t = mmu s2
     \<and> terminal t = terminal s \<and> term_on_screen t = term_on_screen s \<and> task_list_tail t = ?i"
  proof (cases "shell_flag (pcbs s ?p) = 0")
    case True
    let ?t = "s2\<lparr>io_log := log, esp := great_esp (pcbs s ?p) + 36, iflag := True\<rparr>"
    have "context_switch s = Some (Some (Resume (great_esp (pcbs s ?p))), ?t)"
      unfolding cs using True by (simp add: sf switch_to_prog_def log Let_def sti_def)
    moreover have "handed s (Some (Resume (great_esp (pcbs s ?p)))) ?t"
      using True pn assms(3) it by (subst s2) (simp add: handed_def Let_def s1_def)
    moreover have "mmu ?t = mmu s2" by (simp add: mmu_def)
    moreover have "terminal ?t = terminal s \<and> term_on_screen ?t = term_on_screen s \<and> task_list_tail ?t = ?i"
      by (simp add: fr)
    ultimately show ?thesis by blast
  next
    case False
    let ?t = "(upd_pcb ?p (\<lambda>p. p\<lparr>shell_flag := 0\<rparr>) s2)\<lparr>io_log := log, iflag := True\<rparr>"
    have lg: "send_eoi 0 (upd_pcb ?p (\<lambda>p. p\<lparr>shell_flag := 0\<rparr>) s2) = (upd_pcb ?p (\<lambda>p. p\<lparr>shell_flag := 0\<rparr>) s2)\<lparr>io_log := log\<rparr>"
      by (simp add: send_eoi_def outb_def upd_pcb_def log_def)
    have "context_switch s = Some (Some (Start (cmd_eip (pcbs s ?p)) 0x083FFFFC), ?t)"
      unfolding cs using False
      by (simp add: sf execute_root_shell_def jump_to_program_def lg Let_def sti_def slt_def) (simp add: upd_pcb_def sf)
    moreover have "handed s (Some (Start (cmd_eip (pcbs s ?p)) 0x083FFFFC)) ?t"
      using False pn assms(3) it by (subst s2) (simp add: handed_def Let_def s1_def upd_pcb_def)
    moreover have "mmu ?t = mmu s2" by (simp add: mmu_def upd_pcb_def)
    moreover have "terminal ?t = terminal s \<and> term_on_screen ?t = term_on_screen s \<and> task_list_tail ?t = ?i"
      by (simp add: fr upd_pcb_def)
    ultimately show ?thesis by blast
  qed
  then obtain l t where t: "context_switch s = Some (Some l, t)" "handed s (Some l) t" "mmu t = mmu s2"
    "terminal t = terminal s" "term_on_screen t = term_on_screen s" "task_list_tail t = ?i" by blast
  have h: "task_list_head t = (?i + 1) mod 3" "unat (curr_pid t) = ?p" "unat (curr_term t) = ?i"
    using t(2) by (simp_all add: handed_def Let_def)
  have "ring_ok t" using assms(1) i by (auto simp: ring_ok_def sched_ok_def t(4,6) h dest!: less_3_cases)
  moreover have "slots_ok t"
    using assms(1) m2(3) mmu_cong(5) [OF t(3)] by (simp add: slots_ok_def sched_ok_def t(4))
  moreover have "running_ok t"
    using assms(1) m2 i mmu_cong(3,4) [OF t(3)] h
    by (simp add: running_ok_def sched_ok_def t(4,5) word_unat_eq_iff)
  ultimately show ?thesis using t(1,2) by (auto simp: sched_ok_def)
qed


lemma context_switch_hands:
  assumes "sched_ok s"
  obtains l t where "context_switch s = Some (l, t)" "handed s l t" "sched_ok t"
  using switch_none [OF assms] switch_some [OF assms] by blast

section \<open>The timer interrupt\<close>

lemma iflag_sti [simp]: "iflag (sti s)"
  by (simp add: sti_def)

lemma sched_ok_fields:
  "sched_ok (s\<lparr>io_log := l\<rparr>) = sched_ok s" "sched_ok (s\<lparr>iflag := b\<rparr>) = sched_ok s"
  "sched_ok (s\<lparr>esp := e, sched_esp := e\<rparr>) = sched_ok s"
proof -
  have m: "mmu (s\<lparr>io_log := l\<rparr>) = mmu s" "mmu (s\<lparr>iflag := b\<rparr>) = mmu s" "mmu (s\<lparr>esp := e, sched_esp := e\<rparr>) = mmu s"
    by (simp_all add: mmu_def)
  show "sched_ok (s\<lparr>io_log := l\<rparr>) = sched_ok s" "sched_ok (s\<lparr>iflag := b\<rparr>) = sched_ok s"
    "sched_ok (s\<lparr>esp := e, sched_esp := e\<rparr>) = sched_ok s"
    using mmu_cong(3-5) [OF m(1)] mmu_cong(3-5) [OF m(2)] mmu_cong(3-5) [OF m(3)]
    by (simp_all add: sched_ok_def ring_ok_def slots_ok_def running_ok_def)
qed

text \<open>A timer interrupt with the registers saved at \<open>e\<close>.\<close>

lemma timer_hand_hands:
  assumes "sched_ok s"
  obtains l t where "timer_hand e s = Some (l, t)" "handed (s\<lparr>sched_esp := e\<rparr>) l t" "sched_ok t" "iflag t"
proof -
  let ?s = "(cli s)\<lparr>esp := e, sched_esp := e\<rparr>"
  have "sched_ok ?s" using assms by (simp add: cli_def sched_ok_fields)
  then obtain l t where t: "context_switch ?s = Some (l, t)" "handed ?s l t" "sched_ok t"
    by (rule context_switch_hands)
  have h: "handed (s\<lparr>sched_esp := e\<rparr>) l t" using t(2) by (cases l) (simp_all add: handed_def cli_def Let_def)
  show ?thesis
  proof (cases l)
    case None
    have "timer_hand e s = Some (None, sti (send_eoi 0 t))" using t(1) None by (simp add: timer_hand_def timer_def)
    moreover have "handed (s\<lparr>sched_esp := e\<rparr>) None (sti (send_eoi 0 t))"
      using h None by (simp add: handed_def sti_def send_eoi_def outb_def Let_def)
    moreover have "sched_ok (sti (send_eoi 0 t))"
      using t(3) by (simp add: sti_def send_eoi_def outb_def sched_ok_fields)
    ultimately show ?thesis by (rule that) (rule iflag_sti)
  next
    case (Some k)
    have "timer_hand e s = Some (Some k, t)" using t(1) Some by (simp add: timer_hand_def timer_def)
    moreover have "iflag t" using h Some by (simp add: handed_def Let_def)
    ultimately show ?thesis using h t(3) Some by (intro that) simp_all
  qed
qed

definition tick_step :: "u32 \<Rightarrow> 'a sched_scheme \<Rightarrow> 'a sched_scheme option" where
  "tick_step e s = map_option snd (timer_hand e s)"

definition slot_running :: "nat \<Rightarrow> 'a sched_scheme \<Rightarrow> bool" where
  "slot_running i s \<longleftrightarrow> task_pid (terminal s i) = ucast (curr_pid s) \<and> unat (curr_term s) = i"

definition slot_ready :: "nat \<Rightarrow> 'a sched_scheme \<Rightarrow> bool" where
  "slot_ready i s \<longleftrightarrow> task_active (terminal s i) \<noteq> 0"

lemma tick_step_hands:
  assumes "sched_ok s" "tick_step e s = Some t"
  obtains l where "handed (s\<lparr>sched_esp := e\<rparr>) l t" "sched_ok t"
  proof -
  obtain l u where "timer_hand e s = Some (l, u)" "handed (s\<lparr>sched_esp := e\<rparr>) l u" "sched_ok u"
    using timer_hand_hands [OF assms(1)] by metis
  with assms(2) show ?thesis by (intro that [of l]) (simp_all add: tick_step_def)
qed

lemma hands_running:
  assumes "sched_ok s" "handed (s\<lparr>sched_esp := e\<rparr>) l t" "slot_ready (task_list_head s) s"
  shows "slot_running (task_list_head s) t"
proof (cases l)
  case None
  then have p: "task_pid (terminal s (task_list_head s)) = ucast (curr_pid s)" "terminal t = terminal s"
    "curr_pid t = curr_pid s" "curr_term t = curr_term s"
    using assms(2,3) by (auto simp: handed_def Let_def slot_ready_def word_unat_eq_iff)
  moreover have "unat (curr_term s) = task_list_head s"
    using assms(1) p(1) slots_distinct [of s "unat (curr_term s)" "task_list_head s"]
    by (simp add: sched_ok_def running_ok_def ring_ok_def)
  ultimately show ?thesis by (simp add: slot_running_def)
next
  case (Some k)
  then show ?thesis using assms(2) by (simp add: handed_def Let_def slot_running_def word_unat_eq_iff)
qed

interpretation terminals: round_robin task_list_head tick_step 3 sched_ok slot_running slot_ready
proof
  fix s :: "'a sched_scheme" and e
  assume s: "sched_ok s"
  show "task_list_head s < 3" using s by (simp add: sched_ok_def ring_ok_def)
  obtain l t where "timer_hand e s = Some (l, t)" "handed (s\<lparr>sched_esp := e\<rparr>) l t" "sched_ok t"
    using timer_hand_hands [OF s] by metis
  then show "\<exists>t. tick_step e s = Some t \<and> sched_ok t \<and> task_list_head t = (task_list_head s + 1) mod 3"
    by (auto simp: tick_step_def handed_def Let_def)
next
  fix s t :: "'a sched_scheme" and e i
  assume s: "sched_ok s" and t: "tick_step e s = Some t"
  obtain l where h: "handed (s\<lparr>sched_esp := e\<rparr>) l t" "sched_ok t" using tick_step_hands [OF s t] by metis
  show "slot_ready i t = slot_ready i s" using h(1) by (simp add: handed_def Let_def slot_ready_def)
  assume "slot_ready (task_list_head s) s"
  then show "slot_running (task_list_head s) t" by (rule hands_running [OF s h(1)])
qed


text \<open>Every terminal whose task is active runs within three ticks.\<close>

lemmas terminal_soon = terminals.served_soon

section \<open>Preemption and resumption\<close>

text \<open>\<open>away p e s\<close>: process \<open>p\<close> was preempted with its registers saved at \<open>e\<close>, and has not run since.
  Between ticks anything may happen that leaves its saved stack pointer alone and does not make it
  the running process.\<close>

inductive away :: "nat \<Rightarrow> 'a sched_scheme \<Rightarrow> 'a sched_scheme \<Rightarrow> bool" for p where
  away_start: "unat (curr_pid s) \<noteq> p \<Longrightarrow> away p s s"
| away_tick: "away p s t \<Longrightarrow> sched_ok t \<Longrightarrow> timer_hand e t = Some (l, u) \<Longrightarrow> unat (curr_pid u) \<noteq> p \<Longrightarrow> away p s u"
| away_other: "away p s t \<Longrightarrow> pcbs u p = pcbs t p \<Longrightarrow> unat (curr_pid u) \<noteq> p \<Longrightarrow> away p s u"

lemma handed_other:
  assumes "handed s l t" "unat (curr_pid s) \<noteq> p" "unat (curr_pid t) \<noteq> p"
  shows "great_esp (pcbs t p) = great_esp (pcbs s p) \<and> shell_flag (pcbs t p) = shell_flag (pcbs s p)"
proof (cases l)
  case None
  then show ?thesis
    using assms by (cases "unat (task_pid (terminal s (task_list_head s))) = p") (simp_all add: handed_def Let_def)
next
  case (Some k)
  then show ?thesis using assms by (simp add: handed_def Let_def)
qed

lemma away_keeps:
  assumes "away p s t" "shell_flag (pcbs s p) = 0"
  shows "unat (curr_pid t) \<noteq> p \<and> great_esp (pcbs t p) = great_esp (pcbs s p) \<and> shell_flag (pcbs t p) = 0"
  using assms
proof (induction rule: away.induct)
  case (away_tick s t e l u)
  obtain l' u' where h: "timer_hand e t = Some (l', u')" "handed (t\<lparr>sched_esp := e\<rparr>) l' u'"
    using timer_hand_hands [OF away_tick.hyps(2)] by metis
  then have "handed (t\<lparr>sched_esp := e\<rparr>) l u" using away_tick.hyps(3) by simp
  then show ?case
    using away_tick.IH [OF away_tick.prems] away_tick.hyps(4) handed_other [of "t\<lparr>sched_esp := e\<rparr>" l u p] by simp
qed auto

lemma preempt_resume:
  assumes "sched_ok s" "shell_flag (pcbs s p) = 0" "unat (curr_pid s) = p"
    and "timer_hand e s = Some (Some l, t)" "away p t u" "sched_ok u"
    and "timer_hand e' u = Some (Some l', v)" "unat (curr_pid v) = p"
  shows "l' = Resume e"
proof -
  have t: "handed (s\<lparr>sched_esp := e\<rparr>) (Some l) t" using timer_hand_hands [OF assms(1), of e] assms(4) by auto
  then have "great_esp (pcbs t p) = e" "shell_flag (pcbs t p) = 0"
    using assms(2,3) by (auto simp: handed_def Let_def)
  then have u: "great_esp (pcbs u p) = e" "shell_flag (pcbs u p) = 0" using away_keeps [OF assms(5)] by auto
  have "handed (u\<lparr>sched_esp := e'\<rparr>) (Some l') v" using timer_hand_hands [OF assms(6), of e'] assms(7) by auto
  then show ?thesis using u assms(8) by (auto simp: handed_def Let_def)
qed

section \<open>Initialisation\<close>

lemma init_schedule_ok:
  assumes "mmu_ok s" "current_dir s = Some 0" "\<forall>p<3. screen_of s p = p" "curr_pid s = 0"
  shows "sched_ok (init_schedule s) \<and> slot_ready 0 (init_schedule s)"
proof -
  have f: "fold init_task [0..<3] s = s\<lparr>terminal := (terminal s)
      (0 := \<lparr>task_pid = 0, task_term = 0, task_next = 1, task_active = 0\<rparr>,
       1 := \<lparr>task_pid = 1, task_term = 1, task_next = 2, task_active = 0\<rparr>,
       2 := \<lparr>task_pid = 2, task_term = 2, task_next = 0, task_active = 0\<rparr>)\<rparr>"
    by (simp add: upt_rec init_task_def numeral_2_eq_2)
  have m: "mmu (init_schedule s) = mmu s" by (simp add: init_schedule_def f Let_def mmu_def)
  have t: "terminal (init_schedule s) i = \<lparr>task_pid = of_nat i, task_term = of_nat i, task_next = (i + 1) mod 3,
      task_active = if i = 0 then 1 else 0\<rparr>" if "i < 3" for i
    using less_3_cases [OF that] by (auto simp: init_schedule_def f Let_def)
  have g: "task_list_head (init_schedule s) = 0" "task_list_tail (init_schedule s) = 2" "curr_term (init_schedule s) = 0"
    "term_on_screen (init_schedule s) = 0" "curr_pid (init_schedule s) = 0"
    using assms(4) by (simp_all add: init_schedule_def f Let_def)
  show ?thesis
    using assms(1-3) mmu_cong(3-5) [OF m]
    by (auto simp: sched_ok_def ring_ok_def slots_ok_def running_ok_def slot_ready_def t g dest!: less_3_cases)
qed

end
