(* ===== verification/Proc.thy ===== *)
theory Proc
  imports Sched
begin

text \<open>
  The system calls of \<open>syscall.c\<close>. A call returns a value (\<open>Done\<close>) or leaves for another stack
  (\<open>Left\<close>); \<open>None\<close> is an access outside the kernel's arrays or a page fault.
\<close>

section \<open>State\<close>

text \<open>What C leaves open: the contents of \<open>execute\<close>'s uninitialised local \<open>ELFheader\<close>, the byte
  after \<open>pcb_status_array\<close>, the bytes after the literal \<open>"shell"\<close>, and those after \<open>args\<close> in the 8 KB of a
  control block and its kernel stack.\<close>

record kernel = sched +
  elf_slot :: "nat \<Rightarrow> u8"
  beyond_status :: u8
  after_shell :: "nat \<Rightarrow> u8"
  after_args :: "nat \<Rightarrow> u8"

datatype sysret = Done u32 | Left leaving

type_synonym 's syscall = "(sysret \<times> 's) option"

definition say :: "string \<Rightarrow> 'a console_scheme \<Rightarrow> 'a console_scheme option" where
  "say str s = map_option snd (printf str [] s)"

section \<open>execute\<close>

text \<open>The two loops that split the command. \<open>filename\<close> has 32 bytes and \<open>arg\<close> 128; a store past
  either is \<open>None\<close>.\<close>

function scan_name :: "reader \<Rightarrow> nat \<Rightarrow> u8 list \<Rightarrow> (nat \<times> u8 list) option" where
  "scan_name command cmd_leng filename =
     (case command (of_nat cmd_leng) of
        None \<Rightarrow> None
      | Some c \<Rightarrow>
          if c = 0 \<or> c = 32 then Some (cmd_leng, filename)
          else if cmd_leng < length filename then scan_name command (cmd_leng + 1) (filename[cmd_leng := c])
          else None)"
  by pat_completeness auto
termination by (relation "measure (\<lambda>(_, n, xs). length xs - n)") auto

function scan_arg :: "reader \<Rightarrow> nat \<Rightarrow> nat \<Rightarrow> u8 list \<Rightarrow> (nat \<times> u8 list) option" where
  "scan_arg command cmd_leng arg_leng arg =
     (case command (of_nat (arg_leng + cmd_leng + 1)) of
        None \<Rightarrow> None
      | Some c \<Rightarrow>
          if c = 0 then Some (arg_leng, arg)
          else if arg_leng < length arg then scan_arg command cmd_leng (arg_leng + 1) (arg[arg_leng := c])
          else None)"
  by pat_completeness auto
termination by (relation "measure (\<lambda>(_, _, n, xs). length xs - n)") auto

declare scan_name.simps [simp del] scan_arg.simps [simp del]

text \<open>The command \<open>clear\<close>, on the running process's screen.\<close>

definition blank_cell :: "nat \<Rightarrow> 'a machine_scheme \<Rightarrow> 'a machine_scheme option" where
  "blank_cell i s =
     do { s \<leftarrow> st (vga video_mem (of_nat i)) 32 s; st (vga video_mem (of_nat i) + 1) 7 s }"

definition exec_clear :: "'a kernel_scheme \<Rightarrow> 'a kernel_scheme option" where
  "exec_clear s =
     do { s \<leftarrow> foldM blank_cell [0..<1920] s; Some (enable_irq 0 (reset_cursor s)) }"

text \<open>Finding the program: a value to return, or its inode and entry point.\<close>

definition exec_find :: "u8 list \<Rightarrow> 'a kernel_scheme \<Rightarrow> ((u32 + u32 \<times> u32) \<times> 'a kernel_scheme) option" where
  "exec_find filename s =
     do { (ret, d) \<leftarrow> read_dentry_by_name (lit filename) s;
          case d of
            None \<Rightarrow> do { s \<leftarrow> say ''execute:no such file\<newline>'' s; Some (Inl (-1), s) }
          | Some d \<Rightarrow>
              do { (ret, s, ELFheader) \<leftarrow> read_data_local (dentry_inode_num d) 0 50 (s, map (elf_slot s) [0..<50]);
                   if ret = -1 then do { s \<leftarrow> say ''execute:read data fail\<newline>'' s; Some (Inl (-1), s) }
                   else if take 4 ELFheader \<noteq> [0x7F, 0x45, 0x4C, 0x46]
                     then do { s \<leftarrow> say ''execute:not ELF\<newline>'' s; Some (Inl (-1), s) }
                   else Some (Inr (dentry_inode_num d, word_of_bytes (take 4 (drop 24 ELFheader))), s) } }"

text \<open>The first free slot; the scan has no bound of its own.\<close>

definition free_slot :: "'a kernel_scheme \<Rightarrow> nat option" where
  "free_slot s =
     (case find (\<lambda>i. pcb_status_array s ! i = 0) [0..<6] of
        Some i \<Rightarrow> Some i
      | None \<Rightarrow> if beyond_status s = 0 then Some 6 else None)"

definition stdio :: "filesys_desc \<Rightarrow> filesys_desc" where
  "stdio d = d\<lparr>file_ops_table_ptr := Terminal_ops, inode_ptr := 0, file_pos := 0, flags := 1\<rparr>"

text \<open>The new process's block, \<open>curr_pid\<close> and the terminal's \<open>pid\<close>.\<close>

definition exec_block :: "nat \<Rightarrow> u8 list \<Rightarrow> u8 list \<Rightarrow> nat \<Rightarrow> 'a kernel_scheme \<Rightarrow> 'a kernel_scheme" where
  "exec_block i filename arg arg_leng s =
     (let s = upd_pcb i (\<lambda>p. p\<lparr>the_pid := of_nat i\<rparr>) s;
          s = s\<lparr>active_proc_num := active_proc_num s + 1\<rparr>;
          s = (if active_proc_num s > 3 then upd_pcb i (\<lambda>p. p\<lparr>parent_pcb := Some (unat (curr_pid s))\<rparr>) s
               else upd_pcb i (\<lambda>p. p\<lparr>parent_pcb := None\<rparr>) s);
          s = s\<lparr>curr_pid := of_nat i\<rparr>;
          s = upd_cur (\<lambda>t. t\<lparr>pid := of_nat i\<rparr>) s;
          s = upd_pcb i (\<lambda>p. p\<lparr>pcb_filename := filename, args := take arg_leng arg @ replicate (129 - arg_leng) 0\<rparr>) s;
          s = upd_desc i 0 stdio s;
          s = upd_desc i 1 stdio s;
          (r, s) = terminal_open 0 s
      in fold (\<lambda>j. upd_desc i j (\<lambda>d. d\<lparr>flags := 0\<rparr>)) [2..<8] s)"

text \<open>Saving the parent's stack, the screen, the task state segment, and the jump.\<close>

definition exec_enter :: "nat \<Rightarrow> u32 \<Rightarrow> 'a kernel_scheme \<Rightarrow> 'a kernel_scheme syscall" where
  "exec_enter i prog_eip s =
     (let s = s\<lparr>tss_ss0 := KERNEL_DS, tss_esp0 := stack_top (ucast (curr_pid s))\<rparr>;
          parent = parent_pcb (pcbs s i)
      in do { s \<leftarrow> (if curr_pid s > 2 then
                     (case parent of None \<Rightarrow> None
                      | Some q \<Rightarrow> Some (upd_pcb q (\<lambda>p. p\<lparr>the_esp := esp s, the_ss := ss s\<rparr>) s))
                   else Some s);
              let s = set_pte (unat (curr_pid s)) 0xB8
                        (\<lambda>e. e\<lparr>pt_phys_page_addr := 0xB8 + 2 * ucast (curr_term s)\<rparr>) s;
              let s = flush_tlb (unat (curr_pid s)) s;
              if curr_pid s < 3 then
                map_option (\<lambda>(l, s). (Left l, s)) (jump_to_program (0x08400000 - 4) prog_eip (-1) (enable_irq 0 s))
              else
                let t = unat (curr_term s);
                    s = s\<lparr>terminal := (terminal s)(t := (terminal s t)\<lparr>task_pid := ucast (curr_pid s)\<rparr>)\<rparr>;
                    s = enable_irq 8 (enable_irq 0 s)
                in case parent of None \<Rightarrow> None
                   | Some q \<Rightarrow> map_option (\<lambda>(l, s). (Left l, s))
                                 (jump_to_program (0x08400000 - 4) prog_eip (the_pid (pcbs s q)) s) })"

definition exec_load :: "u8 list \<Rightarrow> u8 list \<Rightarrow> nat \<Rightarrow> u32 \<Rightarrow> u32 \<Rightarrow> 'a kernel_scheme \<Rightarrow> 'a kernel_scheme syscall" where
  "exec_load filename arg arg_leng inode prog_eip s =
     do { i \<leftarrow> free_slot s;
          if i = 6 then do { s \<leftarrow> say ''MAXIMUM PROCESSES!!!\<newline>'' s; Some (Done 0, enable_irq 0 s) }
          else
            do { s \<leftarrow> Some (flush_tlb i s);
                 s \<leftarrow> Some (s\<lparr>pcb_status_array := (pcb_status_array s)[i := 1]\<rparr>);
                 (ret, s) \<leftarrow> read_data inode 0 0x08048000 3899392 s;
                 s \<leftarrow> Some (if i < 3 then s\<lparr>active_root_shell := active_root_shell s + 1\<rparr> else s);
                 if ret = -1 \<or> ret = 0 then Some (Done (-1), enable_irq 0 (flush_tlb (unat (curr_pid s)) s))
                 else
                   let s = exec_block i filename arg arg_leng s
                   in if active_root_shell s < 3 then
                        Some (Done 0, upd_pcb i (\<lambda>p. p\<lparr>shell_flag := 1, cmd_eip := prog_eip\<rparr>) s)
                      else exec_enter i prog_eip s } }"

definition execute :: "reader \<Rightarrow> 'a kernel_scheme \<Rightarrow> 'a kernel_scheme syscall" where
  "execute command s =
     (let s = disable_irq 0 s
      in do { (cmd_leng, filename) \<leftarrow> scan_name command 0 (replicate 32 0);
              (arg_leng, arg) \<leftarrow> scan_arg command cmd_leng 0 (replicate 128 0);
              if cmd_leng > 32 \<or> cmd_leng = 0 then
                do { s \<leftarrow> say ''execute:command length illegal\<newline>'' s; Some (Done (-1), s) }
              else
                do { differs \<leftarrow> strncmp (lit (bytes ''clear'' @ [0])) (lit filename) 5;
                     if differs = 0 then do { s \<leftarrow> exec_clear s; Some (Done 0, s) }
                     else
                       do { (found, s) \<leftarrow> exec_find filename s;
                            case found of
                              Inl ret \<Rightarrow> Some (Done ret, s)
                            | Inr (inode, prog_eip) \<Rightarrow> exec_load filename arg arg_leng inode prog_eip s } } })"

section \<open>halt\<close>

definition shell_command :: "'a kernel_scheme \<Rightarrow> reader" where
  "shell_command s i = (if unat i < 6 then Some ((bytes ''shell'' @ [0]) ! unat i) else Some (after_shell s (unat i - 6)))"

text \<open>The program that ends: back to its parent. \<open>exit_to_shell\<close>, in assembly, returns the status
  from the \<open>jump_to_program\<close> whose stack pointer was saved.\<close>

definition halt_program :: "u8 \<Rightarrow> 'a kernel_scheme \<Rightarrow> 'a kernel_scheme syscall" where
  "halt_program status s =
     (if 6 \<le> curr_pid s then None
      else case parent_pcb (pcbs s (unat (curr_pid s))) of
        None \<Rightarrow> None
      | Some q \<Rightarrow>
          let s = s\<lparr>pcb_status_array := (pcb_status_array s)[unat (curr_pid s) := 0]\<rparr>;
              shell_esp = the_esp (pcbs s q);
              shell_ss = the_ss (pcbs s q);
              s = s\<lparr>tss_ss0 := shell_ss, tss_esp0 := shell_esp\<rparr>;
              s = s\<lparr>curr_pid := ucast (the_pid (pcbs s q))\<rparr>;
              s = upd_cur (\<lambda>t. t\<lparr>pid := curr_pid s\<rparr>) s;
              t = unat (curr_term s);
              s = s\<lparr>terminal := (terminal s)(t := (terminal s t)\<lparr>task_pid := ucast (curr_pid s)\<rparr>)\<rparr>;
              s = flush_tlb (unat (the_pid (pcbs s q))) s;
              s = enable_irq 0 s;
              e = shell_esp_array s (unat (curr_pid s))
          in Some (Left (Unwind e (ucast status)), sti (s\<lparr>esp := e\<rparr>)))"

definition halt :: "u8 \<Rightarrow> 'a kernel_scheme \<Rightarrow> 'a kernel_scheme syscall" where
  "halt status s =
     (let s = s\<lparr>active_proc_num := active_proc_num s - 1\<rparr>
      in if curr_pid s < 3 then
           do { s \<leftarrow> say the_matrix s;
                s \<leftarrow> Some (s\<lparr>pcb_status_array := (pcb_status_array s)[unat (curr_pid s) := 0],
                           active_root_shell := active_root_shell s - 1\<rparr>);
                s \<leftarrow> Some (sti s);
                (r, s) \<leftarrow> execute (shell_command s) s;
                case r of Left l \<Rightarrow> Some (Left l, s) | Done v \<Rightarrow> halt_program status s }
         else halt_program status s)"

section \<open>Descriptors\<close>

text \<open>The drivers, behind their tables. \<open>n\<close> bounds the interrupts a read waits for.\<close>

definition driver_read :: "device \<Rightarrow> nat \<Rightarrow> file_ops_table \<Rightarrow> u32 \<Rightarrow> u32 \<Rightarrow> u32 \<Rightarrow> 'a kernel_scheme \<Rightarrow> 'a kernel_scheme syscall" where
  "driver_read dev n ops fd buf nbytes s =
     (case ops of
        Terminal_ops \<Rightarrow>
          (case terminal_read halt dev n fd buf nbytes s of
             None \<Rightarrow> None | Some (Inl h) \<Rightarrow> Some h | Some (Inr (v, s)) \<Rightarrow> Some (Done v, s))
      | Rtc_ops \<Rightarrow> map_option (\<lambda>(v, s). (Done v, s)) (read_rtc dev n fd buf nbytes s)
      | File_ops \<Rightarrow> map_option (\<lambda>(v, s). (Done v, s)) (filesystem_read fd buf nbytes s)
      | No_ops \<Rightarrow> None)"

definition driver_write :: "device \<Rightarrow> file_ops_table \<Rightarrow> u32 \<Rightarrow> u32 \<Rightarrow> u32 \<Rightarrow> 'a kernel_scheme \<Rightarrow> (u32 \<times> 'a kernel_scheme) option" where
  "driver_write dev ops fd buf nbytes s =
     (case ops of
        Terminal_ops \<Rightarrow> terminal_write fd buf nbytes s
      | Rtc_ops \<Rightarrow> write_rtc dev fd buf nbytes s
      | File_ops \<Rightarrow> Some (filesystem_write fd buf nbytes s)
      | No_ops \<Rightarrow> None)"

definition driver_open :: "device \<Rightarrow> file_ops_table \<Rightarrow> u32 \<Rightarrow> 'a kernel_scheme \<Rightarrow> (u32 \<times> 'a kernel_scheme) option" where
  "driver_open dev ops filename s =
     (case ops of
        Terminal_ops \<Rightarrow> Some (terminal_open filename s)
      | Rtc_ops \<Rightarrow> Some (open_rtc dev filename s)
      | File_ops \<Rightarrow> Some (filesystem_open filename s)
      | No_ops \<Rightarrow> None)"

definition sys_read :: "device \<Rightarrow> nat \<Rightarrow> u32 \<Rightarrow> u32 \<Rightarrow> u32 \<Rightarrow> 'a kernel_scheme \<Rightarrow> 'a kernel_scheme syscall" where
  "sys_read dev n fd buf nbytes s =
     (if slt 7 fd \<or> slt fd 0 \<or> fd = 1 then Some (Done (-1), s)
      else do { p \<leftarrow> fetch_cur_pcb_ptr s;
                d \<leftarrow> desc s p fd;
                if flags d = 0 then Some (Done (-1), s)
                else driver_read dev n (file_ops_table_ptr d) fd buf nbytes s })"

definition sys_write :: "device \<Rightarrow> u32 \<Rightarrow> u32 \<Rightarrow> u32 \<Rightarrow> 'a kernel_scheme \<Rightarrow> (u32 \<times> 'a kernel_scheme) option" where
  "sys_write dev fd buf nbytes s =
     (if slt 7 fd \<or> slt fd 1 then Some (-1, s)
      else do { p \<leftarrow> fetch_cur_pcb_ptr s;
                d \<leftarrow> desc s p fd;
                if flags d = 0 then Some (-1, s)
                else driver_write dev (file_ops_table_ptr d) fd buf nbytes s })"

text \<open>The \<open>switch\<close> on the file type; any other type leaves the descriptor as it is.\<close>

definition set_desc :: "u32 \<Rightarrow> u32 \<Rightarrow> filesys_desc \<Rightarrow> filesys_desc" where
  "set_desc filetype inode_num d =
     (if filetype = 0 then d\<lparr>file_ops_table_ptr := Rtc_ops, inode_ptr := 0, file_pos := 0, flags := 1\<rparr>
      else if filetype = 1 then d\<lparr>file_ops_table_ptr := File_ops, inode_ptr := -1, file_pos := 0, flags := 1\<rparr>
      else if filetype = 2 then d\<lparr>file_ops_table_ptr := File_ops, inode_ptr := inode_num, file_pos := 0, flags := 1\<rparr>
      else d)"

definition free_desc :: "'a process_scheme \<Rightarrow> nat \<Rightarrow> nat option" where
  "free_desc s p = find (\<lambda>i. flags (filesys_desc_array (pcbs s p) i) = 0) [2..<8]"

definition sys_open :: "device \<Rightarrow> u32 \<Rightarrow> 'a kernel_scheme \<Rightarrow> (u32 \<times> 'a kernel_scheme) option" where
  "sys_open dev filename s =
     do { p \<leftarrow> fetch_cur_pcb_ptr s;
          (result, d) \<leftarrow> read_dentry_by_name (at s filename) s;
          case d of
            None \<Rightarrow> Some (-1, s)
          | Some the_dentry \<Rightarrow>
              (case free_desc s p of
                 None \<Rightarrow> Some (-1, s)
               | Some i \<Rightarrow>
                   do { s \<leftarrow> Some (upd_desc p i (set_desc (dentry_filetype the_dentry) (dentry_inode_num the_dentry)) s);
                        (r, s) \<leftarrow> driver_open dev (file_ops_table_ptr (filesys_desc_array (pcbs s p) i)) filename s;
                        Some (of_nat i, s) }) }"

definition sys_close :: "u32 \<Rightarrow> 'a kernel_scheme \<Rightarrow> (u32 \<times> 'a kernel_scheme) option" where
  "sys_close fd s =
     do { p \<leftarrow> fetch_cur_pcb_ptr s;
          if slt fd 2 \<or> slt 7 fd then Some (-1, s)
          else do { d \<leftarrow> desc s p fd;
                    if flags d = 0 then Some (-1, s)
                    else Some (0, upd_desc p (unat fd) (\<lambda>d. d\<lparr>flags := 0\<rparr>) s) } }"

section \<open>The other calls\<close>

text \<open>\<open>args\<close> is 128 bytes into the block.\<close>

definition from_args :: "'a kernel_scheme \<Rightarrow> u8 list \<Rightarrow> nat \<Rightarrow> u8 list option" where
  "from_args s a n =
     (if n \<le> 8192 - 128 then Some (map (\<lambda>i. if i < length a then a ! i else after_args s (i - length a)) [0..<n]) else None)"

definition getargs :: "u32 \<Rightarrow> u32 \<Rightarrow> 'a kernel_scheme \<Rightarrow> (u32 \<times> 'a kernel_scheme) option" where
  "getargs buf nbytes s =
     (if 6 \<le> curr_pid s then None
      else let a = args (pcbs s (unat (curr_pid s)))
           in do { len \<leftarrow> strlen (lit a);
                   if nbytes < len + 1 then Some (-1, s)
                   else do { bs \<leftarrow> from_args s a (unat nbytes); s \<leftarrow> put_bytes buf bs s; Some (0, s) } })"

definition vidmap :: "u32 \<Rightarrow> 'a kernel_scheme \<Rightarrow> (u32 \<times> 'a kernel_scheme) option" where
  "vidmap screen_start s =
     (if screen_start < 0x08000000 \<or> 0x08400000 \<le> screen_start then Some (-1, s)
      else do { s \<leftarrow> st_dword screen_start (0x084B8000 + 0x2000 * ucast (curr_term s)) s; Some (0, s) })"

definition set_handler :: "u32 \<Rightarrow> u32 \<Rightarrow> 'a machine_scheme \<Rightarrow> u32 \<times> 'a machine_scheme" where
  "set_handler signum handler_address s = (-1, s)"

definition sigreturn :: "'a machine_scheme \<Rightarrow> u32 \<times> 'a machine_scheme" where
  "sigreturn s = (-1, s)"

section \<open>The entry point\<close>

text \<open>\<open>sys_call_handler\<close>, in assembly: the call number is in EAX, the arguments in EBX, ECX, EDX.\<close>

definition plain :: "(u32 \<times> 's) option \<Rightarrow> 's syscall" where
  "plain = map_option (\<lambda>(v, s). (Done v, s))"

definition sys_call_handler ::
    "device \<Rightarrow> nat \<Rightarrow> u32 \<Rightarrow> u32 \<Rightarrow> u32 \<Rightarrow> u32 \<Rightarrow> 'a kernel_scheme \<Rightarrow> 'a kernel_scheme syscall" where
  "sys_call_handler dev n eax ebx ecx edx s =
     (if slt eax 1 \<or> slt 10 eax then Some (Done (-1), s)
      else if eax = 1 then halt (ucast ebx) s
      else if eax = 2 then execute (at s ebx) s
      else if eax = 3 then sys_read dev n ebx ecx edx s
      else if eax = 4 then plain (sys_write dev ebx ecx edx s)
      else if eax = 5 then plain (sys_open dev ebx s)
      else if eax = 6 then plain (sys_close ebx s)
      else if eax = 7 then plain (getargs ebx ecx s)
      else if eax = 8 then plain (vidmap ebx s)
      else if eax = 9 then plain (Some (set_handler ebx ecx s))
      else plain (Some (sigreturn s)))"

end
