(* ===== verification/Descriptors.thy ===== *)
theory Descriptors
  imports Proc
begin

text \<open>
  The descriptor table of a process: \<open>open\<close> takes the lowest free descriptor from 2 on, \<open>close\<close>
  frees it, and what is opened is read through it.
\<close>

section \<open>A table of descriptors\<close>

text \<open>What a program may rely on: an allocation gives a free descriptor and makes it busy, a
  release frees that one only.\<close>

locale descriptor_table =
  fixes busy :: "'s \<Rightarrow> nat \<Rightarrow> bool" and alloc :: "'e \<Rightarrow> 's \<Rightarrow> (nat \<times> 's) option" and release :: "nat \<Rightarrow> 's \<Rightarrow> 's option"
    and inv :: "'s \<Rightarrow> bool" and ok :: "'e \<Rightarrow> 's \<Rightarrow> bool" and first :: nat and limit :: nat
  assumes alloc_some: "inv s \<Longrightarrow> ok e s \<Longrightarrow> first \<le> i \<Longrightarrow> i < limit \<Longrightarrow> \<not> busy s i \<Longrightarrow> alloc e s \<noteq> None"
    and alloc_fresh: "inv s \<Longrightarrow> ok e s \<Longrightarrow> alloc e s = Some (i, t) \<Longrightarrow>
      first \<le> i \<and> i < limit \<and> \<not> busy s i \<and> inv t \<and> (\<forall>e'. ok e' t = ok e' s) \<and> (\<forall>j. busy t j \<longleftrightarrow> busy s j \<or> j = i)"
    and release_frees: "inv s \<Longrightarrow> first \<le> i \<Longrightarrow> i < limit \<Longrightarrow> busy s i \<Longrightarrow>
      \<exists>t. release i s = Some t \<and> inv t \<and> (\<forall>e'. ok e' t = ok e' s) \<and> (\<forall>j. busy t j \<longleftrightarrow> busy s j \<and> j \<noteq> i)"
begin

fun allocs :: "'e list \<Rightarrow> 's \<Rightarrow> (nat list \<times> 's) option" where
  "allocs [] s = Some ([], s)"
| "allocs (e # es) s = do { (i, s) \<leftarrow> alloc e s; (is, s) \<leftarrow> allocs es s; Some (i # is, s) }"

text \<open>Descriptors that are open at the same time are different.\<close>

lemma allocs_distinct:
  assumes "inv s" "\<forall>e\<in>set es. ok e s" "allocs es s = Some (is, t)"
  shows "distinct is \<and> (\<forall>i\<in>set is. first \<le> i \<and> i < limit \<and> \<not> busy s i \<and> busy t i) \<and> (\<forall>j. busy s j \<longrightarrow> busy t j)"
  using assms
proof (induction es arbitrary: s "is")
  case (Cons e es)
  then obtain i u js where u: "alloc e s = Some (i, u)" "allocs es u = Some (js, t)" "is = i # js"
    by (auto simp: bind_Some_iff)
  have f: "first \<le> i \<and> i < limit \<and> \<not> busy s i \<and> inv u \<and> (\<forall>e'. ok e' u = ok e' s) \<and> (\<forall>j. busy u j \<longleftrightarrow> busy s j \<or> j = i)"
    using alloc_fresh [OF Cons.prems(1) _ u(1)] Cons.prems(2) by simp
  then show ?case using Cons.IH [OF _ _ u(2)] Cons.prems(2) u(3) by auto
qed simp

text \<open>As many as there are free ones can be opened.\<close>

lemma allocs_all:
  assumes "inv s" "\<forall>e\<in>set es. ok e s" "length es \<le> card {i. first \<le> i \<and> i < limit \<and> \<not> busy s i}"
  shows "allocs es s \<noteq> None"
  using assms
proof (induction es arbitrary: s)
  case (Cons e es)
  let ?free = "\<lambda>s. {i. first \<le> i \<and> i < limit \<and> \<not> busy s i}"
  have fin: "finite (?free s)" by simp
  have "?free s \<noteq> {}" using Cons.prems(3) by (metis card.empty list.size(4) add_is_0 le_zero_eq One_nat_def nat.distinct(1))
  then obtain j where j: "first \<le> j" "j < limit" "\<not> busy s j" by auto
  have "alloc e s \<noteq> None" using alloc_some [OF Cons.prems(1) _ j] Cons.prems(2) by simp
  then obtain i u where u: "alloc e s = Some (i, u)" by auto
  have f: "first \<le> i \<and> i < limit \<and> \<not> busy s i \<and> inv u \<and> (\<forall>e'. ok e' u = ok e' s) \<and> (\<forall>j. busy u j \<longleftrightarrow> busy s j \<or> j = i)"
    using alloc_fresh [OF Cons.prems(1) _ u] Cons.prems(2) by simp
  then have "?free u = ?free s - {i}" "i \<in> ?free s" by auto
  then have "length es \<le> card (?free u)" using Cons.prems(3) fin by (simp add: card_Diff_singleton)
  then have "allocs es u \<noteq> None" using Cons.IH [of u] f Cons.prems(2) by simp
  then show ?case using u by auto
qed simp

text \<open>What is closed can be opened again.\<close>

lemma release_alloc:
  assumes "inv s" "ok e s" "first \<le> i" "i < limit" "busy s i"
  shows "\<exists>t. release i s = Some t \<and> alloc e t \<noteq> None"
proof -
  obtain t where t: "release i s = Some t" "inv t" "ok e t" "\<not> busy t i"
    using release_frees [OF assms(1,3-5)] assms(2) by auto
  then show ?thesis using alloc_some [OF t(2,3) assms(3,4)] by blast
qed

end

section \<open>open and close\<close>

definition desc_of :: "'a process_scheme \<Rightarrow> nat \<Rightarrow> nat \<Rightarrow> filesys_desc" where
  "desc_of s p i = filesys_desc_array (pcbs s p) i"

definition desc_busy :: "nat \<Rightarrow> 'a process_scheme \<Rightarrow> nat \<Rightarrow> bool" where
  "desc_busy p s i \<longleftrightarrow> flags (desc_of s p i) \<noteq> 0"

text \<open>\<open>names s filename d\<close>: the name at that address is found, and is of a type \<open>open\<close> knows.\<close>

definition names :: "'a kernel_scheme \<Rightarrow> u32 \<Rightarrow> dentry_t \<Rightarrow> bool" where
  "names s filename d \<longleftrightarrow> read_dentry_by_name (at s filename) s = Some (0, Some d) \<and> dentry_filetype d \<in> {0, 1, 2}"

definition openable :: "u32 \<Rightarrow> 'a kernel_scheme \<Rightarrow> bool" where
  "openable filename s \<longleftrightarrow> (\<exists>d. names s filename d)"

text \<open>What \<open>open\<close> and \<open>close\<close> leave alone: everything but one descriptor, the ports and the
  interrupt flag.\<close>

definition desc_only :: "nat \<Rightarrow> nat \<Rightarrow> 'a kernel_scheme \<Rightarrow> 'a kernel_scheme \<Rightarrow> bool" where
  "desc_only p i s t \<longleftrightarrow> (\<exists>d l b. t = (upd_desc p i (\<lambda>_. d) s)\<lparr>io_log := l, iflag := b\<rparr>)"

lemma desc_only_fields:
  assumes "desc_only p i s t"
  shows "mmu t = mmu s" "phys t = phys s" "entry_ptr_base t = entry_ptr_base s" "num_of_entries t = num_of_entries s"
    "esp t = esp s" "(q, j) \<noteq> (p, i) \<Longrightarrow> desc_of t q j = desc_of s q j"
  using assms by (auto simp: desc_only_def desc_of_def upd_desc_def upd_pcb_def mmu_def)

lemma ld_word_cong: "mmu s = mmu t \<Longrightarrow> phys s = phys t \<Longrightarrow> ld_word s a = ld_word t a"
  using ld_bytes_cong [of s t] by (simp add: ld_word_def)

lemma at_cong: "mmu s = mmu t \<Longrightarrow> phys s = phys t \<Longrightarrow> at s a = at t a"
  using mmu_cong(1) [of s t] by (simp add: at_def [abs_def] ld_def)

lemma find_entry_cong:
  assumes "mmu s = mmu t" "phys s = phys t" "entry_ptr_base s = entry_ptr_base t" "num_of_entries s = num_of_entries t"
  shows "find_entry f s i = find_entry f t i"
  using assms
proof (induction f s i rule: find_entry.induct)
  case (1 f s i)
  have e: "entry s i = entry t i" "at s = at t"
    using 1(2-5) at_cong [of s t] by (simp_all add: entry_def fun_eq_iff)
  have "find_entry f s i = (strncmp (at t (entry t i)) f 32 \<bind>
      (\<lambda>r. if r \<noteq> 0 \<and> slt i (num_of_entries t) then find_entry f s (i + 1) else Some i))"
    by (subst find_entry.simps) (simp add: e 1(5))
  also have "\<dots> = (strncmp (at t (entry t i)) f 32 \<bind>
      (\<lambda>r. if r \<noteq> 0 \<and> slt i (num_of_entries t) then find_entry f t (i + 1) else Some i))"
    using 1(1) [OF _ _ 1(2-5)] e 1(5) by (cases "strncmp (at t (entry t i)) f 32") auto
  also have "\<dots> = find_entry f t i" by (subst (2) find_entry.simps) simp
  finally show ?case .
qed

lemma read_dentry_cong:
  assumes "mmu s = mmu t" "phys s = phys t" "entry_ptr_base s = entry_ptr_base t" "num_of_entries s = num_of_entries t"
  shows "read_dentry_by_name f s = read_dentry_by_name f t"
proof -
  have e: "read_entry s = read_entry t"
    using ld_word_cong [OF assms(1,2)] ld_bytes_cong [OF assms(1,2)] assms(3) by (simp add: read_entry_def entry_def fun_eq_iff)
  show ?thesis unfolding read_dentry_by_name_def e find_entry_cong [OF assms] assms(4) ..
qed

lemma desc_only_names: "desc_only p i s t \<Longrightarrow> names t f d = names s f d"
proof -
  assume d: "desc_only p i s t"
  have "at t f = at s f" using at_cong [OF desc_only_fields(1,2) [OF d]] by simp
  then show ?thesis using read_dentry_cong [OF desc_only_fields(1-4) [OF d]] by (simp add: names_def)
qed

lemma desc_only_openable: "desc_only p i s t \<Longrightarrow> openable f t = openable f s"
  by (simp add: openable_def desc_only_names)

lemma desc_only_fetch: "desc_only p i s t \<Longrightarrow> fetch_cur_pcb_ptr t = fetch_cur_pcb_ptr s"
  by (simp add: fetch_cur_pcb_ptr_def desc_only_fields)

text \<open>\<open>open\<close> on a name that is found.\<close>

lemma driver_open_desc:
  fixes s :: "'a kernel_scheme" and p i inode
  assumes "filetype \<in> {0, 1, 2}"
  defines "u \<equiv> upd_desc p i (set_desc filetype inode) s"
  shows "\<exists>r t. driver_open dev (file_ops_table_ptr (filesys_desc_array (pcbs u p) i)) e u = Some (r, t)
    \<and> desc_only p i s t \<and> desc_of t p i = set_desc filetype inode (desc_of s p i)"
proof -
  have u: "u = upd_desc p i (\<lambda>_. set_desc filetype inode (desc_of s p i)) s"
    by (simp add: u_def upd_desc_def upd_pcb_def desc_of_def)
  have d: "filesys_desc_array (pcbs u p) i = set_desc filetype inode (desc_of s p i)" by (simp add: u)
  show ?thesis
  proof (cases "filetype = 0")
    case True
    then have "driver_open dev (file_ops_table_ptr (filesys_desc_array (pcbs u p) i)) e u = Some (open_rtc dev e u)"
      by (simp add: d driver_open_def set_desc_def)
    moreover obtain l where "open_rtc dev e u = (0, u\<lparr>io_log := l, iflag := True\<rparr>)"
      by (simp add: open_rtc_def inb_def outb_def cli_def sti_def Let_def)
    moreover have "desc_only p i s (u\<lparr>io_log := l, iflag := True\<rparr>)" unfolding desc_only_def u by blast
    moreover have "desc_of (u\<lparr>io_log := l, iflag := True\<rparr>) p i = set_desc filetype inode (desc_of s p i)"
      using d by (simp add: desc_of_def)
    ultimately show ?thesis by simp
  next
    case False
    then have "driver_open dev (file_ops_table_ptr (filesys_desc_array (pcbs u p) i)) e u = Some (-1, u)"
      using assms(1) by (auto simp: d driver_open_def set_desc_def filesystem_open_def)
    moreover have "u = (upd_desc p i (\<lambda>_. set_desc filetype inode (desc_of s p i)) s)\<lparr>io_log := io_log s, iflag := iflag s\<rparr>"
      by (simp add: u upd_desc_def upd_pcb_def)
    then have "desc_only p i s u" unfolding desc_only_def by blast
    ultimately show ?thesis using d by (simp add: desc_of_def)
  qed
qed

lemma find_upt_least: "m \<le> k \<Longrightarrow> k < n \<Longrightarrow> P k \<Longrightarrow> \<forall>j. m \<le> j \<longrightarrow> j < k \<longrightarrow> \<not> P j \<Longrightarrow> find P [m..<n] = Some k"
proof (induction "k - m" arbitrary: m)
  case 0
  then show ?case by (simp add: upt_conv_Cons)
next
  case (Suc x)
  then have "find P [Suc m..<n] = Some k" by (intro Suc.hyps(1)) auto
  then show ?case using Suc.hyps(2) Suc.prems by (simp add: upt_conv_Cons)
qed

lemma sys_open_found:
  assumes "fetch_cur_pcb_ptr s = Some p" "names s e d" "2 \<le> i" "i < 8" "\<not> desc_busy p s i" "\<forall>j. 2 \<le> j \<longrightarrow> j < i \<longrightarrow> desc_busy p s j"
  obtains t where "sys_open dev e s = Some (of_nat i, t)" "desc_only p i s t"
    "desc_of t p i = set_desc (dentry_filetype d) (dentry_inode_num d) (desc_of s p i)"
proof -
  have f: "free_desc s p = Some i"
    unfolding free_desc_def using assms(3-6) by (intro find_upt_least) (auto simp: desc_busy_def desc_of_def)
  have ty: "dentry_filetype d \<in> {0, 1, 2}" using assms(2) by (simp add: names_def)
  obtain r t where t: "driver_open dev (file_ops_table_ptr (filesys_desc_array
        (pcbs (upd_desc p i (set_desc (dentry_filetype d) (dentry_inode_num d)) s) p) i)) e
        (upd_desc p i (set_desc (dentry_filetype d) (dentry_inode_num d)) s) = Some (r, t)"
    "desc_only p i s t" "desc_of t p i = set_desc (dentry_filetype d) (dentry_inode_num d) (desc_of s p i)"
    using driver_open_desc [OF ty] by metis
  have "sys_open dev e s = Some (of_nat i, t)"
    using assms(1,2) f t(1) by (simp add: sys_open_def names_def)
  then show ?thesis using t(2,3) by (rule that)
qed

lemma sys_open_full:
  "fetch_cur_pcb_ptr s = Some p \<Longrightarrow> names s e d \<Longrightarrow> \<forall>j. 2 \<le> j \<longrightarrow> j < 8 \<longrightarrow> desc_busy p s j \<Longrightarrow> sys_open dev e s = Some (-1, s)"
proof -
  assume h: "fetch_cur_pcb_ptr s = Some p" "names s e d" "\<forall>j. 2 \<le> j \<longrightarrow> j < 8 \<longrightarrow> desc_busy p s j"
  then have "free_desc s p = None" by (auto simp: free_desc_def find_None_iff desc_busy_def desc_of_def)
  then show ?thesis using h by (simp add: sys_open_def names_def)
qed

lemma sys_open_missing:
  "fetch_cur_pcb_ptr s = Some p \<Longrightarrow> read_dentry_by_name (at s e) s = Some (-1, None) \<Longrightarrow> sys_open dev e s = Some (-1, s)"
  by (simp add: sys_open_def)


lemma sys_close_open:
  assumes "fetch_cur_pcb_ptr s = Some p" "2 \<le> i" "i < 8" "desc_busy p s i"
  shows "sys_close (of_nat i) s = Some (0, upd_desc p i (\<lambda>d. d\<lparr>flags := 0\<rparr>) s)"
proof -
  have u: "unat (of_nat i :: u32) = i" by (rule unat_of_nat_small) (use assms(3) in simp)
  have "\<not> slt (of_nat i) 2" "\<not> slt 7 (of_nat i)"
    using slt_small [of "of_nat i" 2] slt_small [of 7 "of_nat i"] u assms(2,3) by simp_all
  moreover have "(of_nat i :: u32) < 8" using u assms(3) by (simp add: word_less_nat_alt)
  ultimately show ?thesis
    using assms(1,4) u by (simp add: sys_close_def desc_def desc_busy_def desc_of_def)
qed

text \<open>Numbers that are no descriptor, and descriptors that are not open.\<close>

lemma bad_descriptor:
  assumes "fetch_cur_pcb_ptr s = Some p"
  shows "sint fd < 0 \<or> 7 < sint fd \<Longrightarrow> sys_read dev n fd buf m s = Some (Done (-1), s)
      \<and> sys_write dev fd buf m s = Some (-1, s) \<and> sys_close fd s = Some (-1, s)"
    and "fd < 8 \<Longrightarrow> \<not> desc_busy p s (unat fd) \<Longrightarrow> sys_read dev n fd buf m s = Some (Done (-1), s)
      \<and> sys_write dev fd buf m s = Some (-1, s) \<and> sys_close fd s = Some (-1, s)"
    and "sys_read dev n 1 buf m s = Some (Done (-1), s)" "sys_write dev 0 buf m s = Some (-1, s)"
    "fd < 2 \<Longrightarrow> sys_close fd s = Some (-1, s)"
proof -
  show "sint fd < 0 \<or> 7 < sint fd \<Longrightarrow> sys_read dev n fd buf m s = Some (Done (-1), s)
      \<and> sys_write dev fd buf m s = Some (-1, s) \<and> sys_close fd s = Some (-1, s)"
    using assms by (auto simp: sys_read_def sys_write_def sys_close_def slt_def)
  show "fd < 8 \<Longrightarrow> \<not> desc_busy p s (unat fd) \<Longrightarrow> sys_read dev n fd buf m s = Some (Done (-1), s)
      \<and> sys_write dev fd buf m s = Some (-1, s) \<and> sys_close fd s = Some (-1, s)"
    using assms by (auto simp: sys_read_def sys_write_def sys_close_def desc_def desc_busy_def desc_of_def)
  show "sys_read dev n 1 buf m s = Some (Done (-1), s)" "sys_write dev 0 buf m s = Some (-1, s)"
    by (simp_all add: sys_read_def sys_write_def slt_def)
  assume "fd < 2"
  then have "unat fd < 2" by (simp add: word_less_nat_alt)
  then have "slt fd 2" using slt_small [of fd 2] by simp
  then show "sys_close fd s = Some (-1, s)" using assms by (simp add: sys_close_def)
qed

section \<open>The table of the running process\<close>

definition open_desc :: "device \<Rightarrow> u32 \<Rightarrow> 'a kernel_scheme \<Rightarrow> (nat \<times> 'a kernel_scheme) option" where
  "open_desc dev e s =
     (case sys_open dev e s of None \<Rightarrow> None | Some (v, t) \<Rightarrow> if v = -1 then None else Some (unat v, t))"

definition close_desc :: "nat \<Rightarrow> 'a kernel_scheme \<Rightarrow> 'a kernel_scheme option" where
  "close_desc i s = (case sys_close (of_nat i) s of None \<Rightarrow> None | Some (v, t) \<Rightarrow> if v = 0 then Some t else None)"

lemma open_desc_least:
  assumes "fetch_cur_pcb_ptr s = Some p" "openable e s"
  shows "(\<forall>j. 2 \<le> j \<longrightarrow> j < 8 \<longrightarrow> desc_busy p s j) \<and> open_desc dev e s = None
    \<or> (\<exists>i t. 2 \<le> i \<and> i < 8 \<and> \<not> desc_busy p s i \<and> open_desc dev e s = Some (i, t) \<and> desc_only p i s t \<and> desc_busy p t i)"
proof (cases "\<forall>j. 2 \<le> j \<longrightarrow> j < 8 \<longrightarrow> desc_busy p s j")
  case True
  then show ?thesis using assms sys_open_full [OF assms(1) _ True] by (auto simp: openable_def open_desc_def)
next
  case False
  let ?P = "\<lambda>j. 2 \<le> j \<and> j < 8 \<and> \<not> desc_busy p s j"
  define i where "i = (LEAST j. ?P j)"
  from False obtain k where "?P k" by blast
  then have i: "?P i" "\<forall>j<i. \<not> ?P j" unfolding i_def by (rule LeastI, auto dest: not_less_Least)
  obtain d where d: "names s e d" using assms(2) by (auto simp: openable_def)
  obtain t where t: "sys_open dev e s = Some (of_nat i, t)" "desc_only p i s t"
    "desc_of t p i = set_desc (dentry_filetype d) (dentry_inode_num d) (desc_of s p i)"
    using sys_open_found [OF assms(1) d, of i] i by auto
  have "unat (of_nat i :: u32) = i" by (rule unat_of_nat_small) (use i in simp)
  moreover from this have "(of_nat i :: u32) \<noteq> -1" using i by (auto simp: word_unat_eq_iff unsigned_minus_1_eq_mask mask_eq_exp_minus_1)
  ultimately have "open_desc dev e s = Some (i, t)" using t(1) by (simp add: open_desc_def)
  moreover have "desc_busy p t i" using d t(3) by (auto simp: desc_busy_def set_desc_def names_def)
  ultimately show ?thesis using t(2) i by blast
qed

lemma desc_only_busy: "desc_only p i s t \<Longrightarrow> desc_busy p t i \<Longrightarrow> desc_busy p t j \<longleftrightarrow> desc_busy p s j \<or> j = i"
  using desc_only_fields(6) [of p i s t p j] by (cases "j = i") (simp_all add: desc_busy_def)

interpretation fds: descriptor_table "desc_busy p" "open_desc dev" close_desc "\<lambda>s. fetch_cur_pcb_ptr s = Some p" openable 2 8
  for p dev
proof
  fix s t :: "'a kernel_scheme" and e i
  assume s: "fetch_cur_pcb_ptr s = Some p"
  show "openable e s \<Longrightarrow> 2 \<le> i \<Longrightarrow> i < 8 \<Longrightarrow> \<not> desc_busy p s i \<Longrightarrow> open_desc dev e s \<noteq> None"
    using open_desc_least [OF s, of e dev] by auto
  show "2 \<le> i \<and> i < 8 \<and> \<not> desc_busy p s i \<and> fetch_cur_pcb_ptr t = Some p
      \<and> (\<forall>e'. openable e' t = openable e' s) \<and> (\<forall>j. desc_busy p t j = (desc_busy p s j \<or> j = i))"
    if "openable e s" "open_desc dev e s = Some (i, t)"
    using open_desc_least [OF s that(1), of dev] that(2) s desc_only_fetch desc_only_openable desc_only_busy by fastforce
  assume i: "2 \<le> i" "i < 8" "desc_busy p s i"
  let ?t = "upd_desc p i (\<lambda>d. d\<lparr>flags := 0\<rparr>) s"
  have "?t = (upd_desc p i (\<lambda>_. (desc_of s p i)\<lparr>flags := 0\<rparr>) s)\<lparr>io_log := io_log s, iflag := iflag s\<rparr>"
    by (simp add: upd_desc_def upd_pcb_def desc_of_def)
  then have d: "desc_only p i s ?t" unfolding desc_only_def by blast
  have "desc_busy p ?t j \<longleftrightarrow> desc_busy p s j \<and> j \<noteq> i" for j
    by (simp add: desc_busy_def desc_of_def upd_desc_def upd_pcb_def)
  moreover have "close_desc i s = Some ?t" using sys_close_open [OF s i] by (simp add: close_desc_def)
  ultimately show "\<exists>t. close_desc i s = Some t \<and> fetch_cur_pcb_ptr t = Some p
      \<and> (\<forall>e'. openable e' t = openable e' s) \<and> (\<forall>j. desc_busy p t j = (desc_busy p s j \<and> j \<noteq> i))"
    using s desc_only_fetch [OF d] desc_only_openable [OF d] by auto
qed

section \<open>Opening and reading a file\<close>

lemma desc_only_files:
  assumes "desc_only p i s t"
  shows "holds_file t inode bs = holds_file s inode bs" "directory_ok t n = directory_ok s n" "entry_name t k = entry_name s k"
    "read_entry t x = read_entry s x"
proof -
  have m: "mmu t = mmu s" "phys t = phys s" using desc_only_fields [OF assms] by simp_all
  have f: "inode_ptr_base t = inode_ptr_base s" "data_block_ptr_base t = data_block_ptr_base s" "num_of_blocks t = num_of_blocks s"
    "entry_ptr_base t = entry_ptr_base s" "num_of_entries t = num_of_entries s"
    using assms by (auto simp: desc_only_def upd_desc_def upd_pcb_def)
  have l: "ld t = ld s" by (rule ext) (simp add: ld_def mmu_cong(1) [OF m(1)] m(2))
  have l: "ld t = ld s" "ld_word t = ld_word s" "ld_bytes t = ld_bytes s"
    using l ld_word_cong [OF m] ld_bytes_cong [OF m] by (simp_all add: fun_eq_iff)
  have b: "block_number t = block_number s" "block_addr t = block_addr s" "inode_addr t = inode_addr s" "entry t = entry s"
    by (auto simp: block_number_def block_addr_def inode_addr_def entry_def l f fun_eq_iff)
  have fb: "file_block t = file_block s" by (simp add: file_block_def b fun_eq_iff)
  show "holds_file t inode bs = holds_file s inode bs" unfolding holds_file_def b fb l f ..
  show "directory_ok t n = directory_ok s n" unfolding directory_ok_def b f ..
  show "entry_name t k = entry_name s k" unfolding entry_name_def b l ..
  show "read_entry t x = read_entry s x" unfolding read_entry_def b l ..
qed

lemma sys_read_file:
  assumes "fetch_cur_pcb_ptr s = Some p" "2 \<le> i" "i < 8" "desc_busy p s i" "file_ops_table_ptr (desc_of s p i) = File_ops"
  shows "sys_read dev n (of_nat i) buf m s = map_option (\<lambda>(v, s). (Done v, s)) (filesystem_read (of_nat i) buf m s)"
proof -
  have u: "unat (of_nat i :: u32) = i" by (rule unat_of_nat_small) (use assms(3) in simp)
  have "\<not> slt (of_nat i) 0" "\<not> slt 7 (of_nat i)"
    using slt_small [of "of_nat i" 0] slt_small [of 7 "of_nat i"] u assms(2,3) by simp_all
  moreover have "(of_nat i :: u32) < 8" "(of_nat i :: u32) \<noteq> 1" using u assms(2,3) by (auto simp: word_less_nat_alt word_unat_eq_iff)
  ultimately show ?thesis
    using assms(1,4,5) u by (simp add: sys_read_def desc_def desc_busy_def desc_of_def driver_read_def)
qed

text \<open>A program that calls \<open>read\<close> again and again, and all it has seen.\<close>

fun sys_read_on :: "device \<Rightarrow> u32 \<Rightarrow> u32 \<Rightarrow> nat list \<Rightarrow> 'a kernel_scheme \<Rightarrow> (u8 list \<times> 'a kernel_scheme) option" where
  "sys_read_on dev fd buf [] s = Some ([], s)"
| "sys_read_on dev fd buf (n # ns) s =
     (case sys_read dev 0 fd buf (of_nat n) s of
        Some (Done r, s) \<Rightarrow>
          do { bs \<leftarrow> ld_bytes s buf (unat r); (rest, s) \<leftarrow> sys_read_on dev fd buf ns s; Some (bs @ rest, s) }
      | _ \<Rightarrow> None)"

definition open_file :: "'a kernel_scheme \<Rightarrow> nat \<Rightarrow> nat \<Rightarrow> nat \<Rightarrow> u32 \<Rightarrow> nat \<Rightarrow> u8 list \<Rightarrow> bool" where
  "open_file s q p i inode pos bs \<longleftrightarrow> at_file s q p (of_nat i) inode pos bs \<and> 2 \<le> i \<and> i < 8 \<and> desc_busy p s i
     \<and> file_ops_table_ptr (desc_of s p i) = File_ops"

lemma sys_read_step:
  assumes "open_file s q p i inode pos bs" "n < 2 ^ 32" "user_buffer buf (min n (length bs - pos))"
  defines "N \<equiv> min n (length bs - pos)"
  obtains t where "sys_read dev k (of_nat i) buf (of_nat n) s = Some (Done (of_nat N), t)" "open_file t q p i inode (pos + N) bs"
    "ld_bytes t buf N = Some (segment pos N bs)"
proof -
  note h = assms(1) [unfolded open_file_def]
  have u: "unat (of_nat i :: u32) = i" by (rule unat_of_nat_small) (use h in simp)
  obtain t where t: "filesystem_read (of_nat i) buf (of_nat n) s = Some (of_nat N, t)" "at_file t q p (of_nat i) inode (pos + N) bs"
    "ld_bytes t buf N = Some (segment pos N bs)"
    "filesys_desc_array (pcbs t p) (unat (of_nat i :: u32)) = (filesys_desc_array (pcbs s p) (unat (of_nat i :: u32)))\<lparr>file_pos := of_nat (pos + N)\<rparr>"
    unfolding N_def by (rule filesystem_read_file [of s q p "of_nat i" inode pos bs n buf]) (use h assms(2,3) in auto)
  have "fetch_cur_pcb_ptr s = Some p" using h by (simp add: at_file_def)
  then have "sys_read dev k (of_nat i) buf (of_nat n) s = Some (Done (of_nat N), t)"
    using h t(1) by (subst sys_read_file) auto
  moreover have "open_file t q p i inode (pos + N) bs"
    using h t(2,4) by (simp add: open_file_def desc_busy_def desc_of_def u)
  ultimately show ?thesis using t(3) by (rule that)
qed

lemma sys_read_on_file:
  assumes "open_file s q p i inode pos bs" "\<forall>n\<in>set ns. n < 2 ^ 32 \<and> user_buffer buf n"
  shows "\<exists>t. sys_read_on dev (of_nat i) buf ns s = Some (segment pos (sum_list ns) bs, t)"
  using assms
proof (induction ns arbitrary: s pos)
  case (Cons n ns)
  let ?N = "min n (length bs - pos)"
  have ub: "user_buffer buf ?N" using Cons.prems(2) user_buffer_mono [of buf n ?N] by simp
  obtain t where t: "sys_read dev 0 (of_nat i) buf (of_nat n) s = Some (Done (of_nat ?N), t)" "open_file t q p i inode (pos + ?N) bs"
    "ld_bytes t buf ?N = Some (segment pos ?N bs)"
    using sys_read_step [OF Cons.prems(1) _ ub] Cons.prems(2) by (metis list.set_intros(1))
  obtain u where u: "sys_read_on dev (of_nat i) buf ns t = Some (segment (pos + ?N) (sum_list ns) bs, u)"
    using Cons.IH [OF t(2)] Cons.prems(2) by auto
  have "?N \<le> 1022 * 4096" using Cons.prems(1) by (auto simp: open_file_def at_file_def holds_file_def)
  then have w: "unat (of_nat ?N :: u32) = ?N" by (intro unat_of_nat_small) simp
  have "segment pos ?N bs @ segment (pos + ?N) (sum_list ns) bs = segment pos (n + sum_list ns) bs"
    by (rule segment_clip)
  then show ?case using t(1,3) u w by simp
qed (simp add: segment_def)

text \<open>\<open>open\<close> by name and then \<open>read\<close>: the contents of the file of that name.\<close>

lemma open_then_read:
  assumes "runs s q" "fetch_cur_pcb_ptr s = Some p" "directory_ok s n" "cstr_n (at s filename) 32 f"
    and "k < n" "entry_name s k = f" "\<forall>j<k. entry_name s j \<noteq> f" "read_entry s (of_nat k) = Some d" "dentry_filetype d = 2"
    and "dentry_inode_num d \<noteq> -1" "holds_file s (dentry_inode_num d) bs"
    and "2 \<le> i" "i < 8" "\<not> desc_busy p s i" "\<forall>j. 2 \<le> j \<longrightarrow> j < i \<longrightarrow> desc_busy p s j"
    and "\<forall>m\<in>set ns. m < 2 ^ 32 \<and> user_buffer buf m"
  shows "\<exists>t u. sys_open dev filename s = Some (of_nat i, t) \<and> sys_read_on dev (of_nat i) buf ns t = Some (take (sum_list ns) bs, u)"
proof -
  have nm: "names s filename d"
    using read_dentry_by_name_first(2) [OF assms(1,3,4,5,6,7)] assms(8,9) by (auto simp: names_def)
  obtain t where t: "sys_open dev filename s = Some (of_nat i, t)" "desc_only p i s t"
    "desc_of t p i = set_desc (dentry_filetype d) (dentry_inode_num d) (desc_of s p i)"
    using sys_open_found [OF assms(2) nm assms(12-15)] by metis
  have u: "unat (of_nat i :: u32) = i" by (rule unat_of_nat_small) (use assms(13) in simp)
  have "runs t q" using assms(1) runs_mmu [OF desc_only_fields(1) [OF t(2)]] by simp
  moreover have "(of_nat i :: u32) < 8" using u assms(13) by (simp add: word_less_nat_alt)
  ultimately have "open_file t q p i (dentry_inode_num d) 0 bs"
    using assms(2,9-13) t(3) desc_only_fetch [OF t(2)] desc_only_files(1) [OF t(2)]
    by (simp add: open_file_def at_file_def desc_busy_def desc_of_def u set_desc_def)
  then show ?thesis using sys_read_on_file [OF _ assms(16)] t(1) by (fastforce simp: segment_def)
qed

end
