(* ===== verification/Exec.thy ===== *)
theory Exec
  imports Descriptors
begin

text \<open>
  Running programs: how \<open>execute\<close> splits its command, loads the program and enters it, and how \<open>halt\<close>
  goes back to the caller.
\<close>

section \<open>The command\<close>

text \<open>\<open>word_at rd n xs\<close>: \<open>rd\<close> has \<open>xs\<close> from place \<open>n\<close> on, and no character of it is NUL.\<close>

definition word_at :: "reader \<Rightarrow> nat \<Rightarrow> u8 list \<Rightarrow> bool" where
  "word_at rd n xs \<longleftrightarrow> 0 \<notin> set xs \<and> (\<forall>i<length xs. rd (of_nat (n + i)) = Some (xs ! i))"

lemma word_at_nth: "word_at rd n xs \<Longrightarrow> i < length xs \<Longrightarrow> rd (of_nat (n + i)) = Some (xs ! i) \<and> xs ! i \<noteq> 0"
  unfolding word_at_def by (metis nth_mem)

lemma take_fill: "i < length xs \<Longrightarrow> length xs \<le> n \<Longrightarrow>
  (take i xs @ replicate (n - i) z)[i := xs ! i] = take (Suc i) xs @ replicate (n - Suc i) z"
  by (simp add: list_update_append take_Suc_conv_app_nth Suc_diff_Suc [symmetric])

lemma scan_name_from:
  assumes "word_at rd 0 xs" "32 \<notin> set xs" "length xs \<le> n" "rd (of_nat (length xs)) = Some c" "c = 0 \<or> c = 32"
  shows "i \<le> length xs \<Longrightarrow> scan_name rd i (take i xs @ replicate (n - i) 0) = Some (length xs, xs @ replicate (n - length xs) 0)"
proof (induction "length xs - i" arbitrary: i)
  case 0
  then show ?case using assms(4,5) by (subst scan_name.simps) auto
next
  case (Suc k)
  then have i: "i < length xs" by simp
  then have "xs ! i \<noteq> 32" using assms(2) nth_mem by metis
  then have "scan_name rd i (take i xs @ replicate (n - i) 0)
      = scan_name rd (i + 1) ((take i xs @ replicate (n - i) 0)[i := xs ! i])"
    using word_at_nth [OF assms(1) i] i assms(3) by (subst scan_name.simps) simp
  then show ?case using Suc.hyps(1) [of "Suc i"] Suc.hyps(2) i take_fill [OF i assms(3)] by simp
qed

lemma scan_name_word:
  assumes "word_at rd 0 xs" "32 \<notin> set xs" "length xs \<le> 32" "rd (of_nat (length xs)) = Some c" "c = 0 \<or> c = 32"
  shows "scan_name rd 0 (replicate 32 0) = Some (length xs, xs @ replicate (32 - length xs) 0)"
  using scan_name_from [OF assms, of 0] by simp

text \<open>A first word of more than 32 characters is stored past the end of \<open>filename\<close>.\<close>

lemma scan_name_overflow:
  assumes "word_at rd 0 xs" "32 \<notin> set xs" "32 < length xs"
  shows "i \<le> 32 \<Longrightarrow> length b = 32 \<Longrightarrow> scan_name rd i b = None"
proof (induction "32 - i" arbitrary: i b)
  case 0
  then have i: "i = 32" "i < length xs" using assms(3) by simp_all
  then have "xs ! i \<noteq> 32" using assms(2) nth_mem by metis
  then show ?case using word_at_nth [OF assms(1), of i] i 0 by (subst scan_name.simps) auto
next
  case (Suc k)
  then have i: "i < length xs" "i < 32" using assms(3) by simp_all
  then have "xs ! i \<noteq> 32" using assms(2) nth_mem by metis
  then show ?case using word_at_nth [OF assms(1) i(1)] Suc.hyps(1) [of "Suc i" "b[i := xs ! i]"] Suc.hyps(2) Suc.prems i
    by (subst scan_name.simps) simp
qed

lemma scan_arg_from:
  assumes "word_at rd (m + 1) ys" "length ys \<le> n" "rd (of_nat (m + 1 + length ys)) = Some 0"
  shows "i \<le> length ys \<Longrightarrow> scan_arg rd m i (take i ys @ replicate (n - i) 0) = Some (length ys, ys @ replicate (n - length ys) 0)"
proof (induction "length ys - i" arbitrary: i)
  case 0
  then show ?case using assms(3) by (subst scan_arg.simps) (simp add: ac_simps)
next
  case (Suc k)
  then have i: "i < length ys" by simp
  have e: "i + m + 1 = m + 1 + i" by simp
  have "scan_arg rd m i (take i ys @ replicate (n - i) 0)
      = scan_arg rd m (i + 1) ((take i ys @ replicate (n - i) 0)[i := ys ! i])"
    using word_at_nth [OF assms(1) i] i assms(2) by (subst scan_arg.simps) (simp only: e, simp)
  then show ?case using Suc.hyps(1) [of "Suc i"] Suc.hyps(2) i take_fill [OF i assms(2)] by simp
qed

lemma scan_arg_word:
  assumes "word_at rd (m + 1) ys" "length ys \<le> 128" "rd (of_nat (m + 1 + length ys)) = Some 0"
  shows "scan_arg rd m 0 (replicate 128 0) = Some (length ys, ys @ replicate (128 - length ys) 0)"
  using scan_arg_from [OF assms, of 0] by simp

lemma lit_cstr_n:
  assumes "0 \<notin> set xs" "length xs \<le> n" "n < 2 ^ 32"
  shows "cstr_n (lit (xs @ replicate (n - length xs) 0)) n xs"
proof -
  have "unat (of_nat i :: u32) = i" if "i \<le> n" for i using that assms(3) by (intro unat_of_nat_small) simp
  moreover have "xs ! i \<noteq> 0" if "i < length xs" for i using that assms(1) nth_mem by metis
  ultimately show ?thesis using assms by (auto simp: cstr_n_def lit_def nth_append)
qed

section \<open>Finding the program\<close>

text \<open>\<open>program_in s n k name inode bs eip\<close>: the first entry called \<open>name\<close> is number \<open>k\<close>, a file that holds
  the ELF image \<open>bs\<close> with that entry point.\<close>

definition program_in :: "'a filesys_scheme \<Rightarrow> nat \<Rightarrow> nat \<Rightarrow> u8 list \<Rightarrow> u32 \<Rightarrow> u8 list \<Rightarrow> u32 \<Rightarrow> bool" where
  "program_in s n k name inode bs eip \<longleftrightarrow> directory_ok s n \<and> k < n \<and> entry_name s k = name \<and> (\<forall>j<k. entry_name s j \<noteq> name)
     \<and> (\<exists>d. read_entry s (of_nat k) = Some d \<and> dentry_inode_num d = inode)
     \<and> holds_file s inode bs \<and> 50 \<le> length bs \<and> length bs \<le> 3899392
     \<and> take 4 bs = [0x7F, 0x45, 0x4C, 0x46] \<and> word_of_bytes (take 4 (drop 24 bs)) = eip"

lemma exec_find_program:
  assumes "runs s q" "program_in s n k name inode bs eip" "0 \<notin> set name" "length name \<le> 32"
  shows "exec_find (name @ replicate (32 - length name) 0) s = Some (Inr (inode, eip), s)"
proof -
  note h = assms(2) [unfolded program_in_def]
  have c: "cstr_n (lit (name @ replicate (32 - length name) 0)) 32 name" using assms(3,4) by (intro lit_cstr_n) simp_all
  obtain d where d: "read_dentry_by_name (lit (name @ replicate (32 - length name) 0)) s = Some (0, Some d)" "dentry_inode_num d = inode"
    using read_dentry_by_name_first(2) [OF assms(1) _ c, of n k] h by auto
  obtain b where b: "read_data_local inode (of_nat 0) (of_nat 50) (s, map (elf_slot s) [0..<50]) = Some (of_nat 50, s, b)"
    "length b = 50" "take 50 b = segment 0 50 bs"
    using read_data_header [OF assms(1), of inode bs 0 50 "map (elf_slot s) [0..<50]"] h by (auto simp: min_def)
  have t: "take 4 b = take 4 bs" "take 4 (drop 24 b) = take 4 (drop 24 bs)"
  proof -
    have "b = take 50 bs" using b(2,3) by (simp add: segment_def)
    then show "take 4 b = take 4 bs" "take 4 (drop 24 b) = take 4 (drop 24 bs)" by (simp_all add: drop_take)
  qed
  show ?thesis using d b(1) t h by (simp add: exec_find_def)
qed


section \<open>The new process\<close>

definition new_descs :: "(nat \<Rightarrow> filesys_desc) \<Rightarrow> nat \<Rightarrow> filesys_desc" where
  "new_descs d j = (if j < 2 then stdio (d j) else if j < 8 then (d j)\<lparr>flags := 0\<rparr> else d j)"

definition new_block :: "nat \<Rightarrow> nat option \<Rightarrow> u8 list \<Rightarrow> u8 list \<Rightarrow> nat \<Rightarrow> pcb \<Rightarrow> pcb" where
  "new_block i parent filename arg arg_leng p =
     p\<lparr>the_pid := of_nat i, parent_pcb := parent, pcb_filename := filename,
       args := take arg_leng arg @ replicate (129 - arg_leng) 0, filesys_desc_array := new_descs (filesys_desc_array p)\<rparr>"

lemma upd_pcb_pcb: "upd_pcb i g (upd_pcb i h s) = upd_pcb i (\<lambda>p. g (h p)) s"
  by (simp add: upd_pcb_def)

lemma fold_upd_desc:
  "distinct js \<Longrightarrow> fold (\<lambda>j. upd_desc i j f) js s =
    upd_pcb i (\<lambda>p. p\<lparr>filesys_desc_array := (\<lambda>j. if j \<in> set js then f (filesys_desc_array p j) else filesys_desc_array p j)\<rparr>) s"
proof (induction js arbitrary: s)
  case (Cons j js)
  have e: "(\<lambda>k. if k \<in> set js then f ((d(j := f (d j))) k) else (d(j := f (d j))) k) = (\<lambda>k. if k \<in> set (j # js) then f (d k) else d k)"
    for d :: "nat \<Rightarrow> filesys_desc" using Cons.prems by (auto simp: fun_eq_iff)
  have "fold (\<lambda>j. upd_desc i j f) (j # js) s = upd_pcb i (\<lambda>p. p\<lparr>filesys_desc_array :=
      (\<lambda>k. if k \<in> set js then f (filesys_desc_array p k) else filesys_desc_array p k)\<rparr>) (upd_desc i j f s)"
    using Cons by simp
  also have "\<dots> = upd_pcb i (\<lambda>p. p\<lparr>filesys_desc_array := (\<lambda>k. if k \<in> set js then f (((filesys_desc_array p)(j := f (filesys_desc_array p j))) k)
      else ((filesys_desc_array p)(j := f (filesys_desc_array p j))) k)\<rparr>) s"
    unfolding upd_desc_def upd_pcb_pcb by (simp cong: if_cong)
  finally show ?case unfolding e .
qed (simp add: upd_pcb_def)

lemma new_descs_steps:
  "js = [2..<8] \<Longrightarrow> new_descs d = (\<lambda>j. if j \<in> set js then ((d(0 := stdio (d 0), 1 := stdio (d 1))) j)\<lparr>flags := 0\<rparr>
     else (d(0 := stdio (d 0), 1 := stdio (d 1))) j)"
  by (auto simp: new_descs_def fun_eq_iff)

lemma new_block_steps:
  "js = [2..<8] \<Longrightarrow> upd_pcb i (new_block i parent filename arg arg_leng) s =
    fold (\<lambda>j. upd_desc i j (\<lambda>d. d\<lparr>flags := 0\<rparr>)) js (upd_desc i 1 stdio (upd_desc i 0 stdio
      (upd_pcb i (\<lambda>p. p\<lparr>pcb_filename := filename, args := take arg_leng arg @ replicate (129 - arg_leng) 0\<rparr>)
        (upd_pcb i (\<lambda>p. p\<lparr>parent_pcb := parent\<rparr>) (upd_pcb i (\<lambda>p. p\<lparr>the_pid := of_nat i\<rparr>) s)))))"
proof -
  assume js: "js = [2..<8]"
  then have d: "distinct js" by simp
  show ?thesis
    unfolding fold_upd_desc [OF d] unfolding upd_desc_def upd_pcb_pcb new_block_def new_descs_steps [OF js]
    by (simp cong: if_cong)
qed

lemma upd_pcb_comm:
  "upd_pcb i f (s\<lparr>active_proc_num := n\<rparr>) = (upd_pcb i f s)\<lparr>active_proc_num := n\<rparr>"
  "upd_pcb i f (s\<lparr>curr_pid := c\<rparr>) = (upd_pcb i f s)\<lparr>curr_pid := c\<rparr>"
  "upd_pcb i f (s\<lparr>terms := ts\<rparr>) = (upd_pcb i f s)\<lparr>terms := ts\<rparr>"
  "active_proc_num (upd_pcb i f s) = active_proc_num s" "curr_pid (upd_pcb i f s) = curr_pid s"
  "curr_term (upd_pcb i f s) = curr_term s" "terms (upd_pcb i f s) = terms s"
  by (simp_all add: upd_pcb_def)

lemma exec_block_eq:
  "exec_block i filename arg arg_leng s = (upd_pcb i (new_block i
       (if active_proc_num s + 1 > 3 then Some (unat (curr_pid s)) else None) filename arg arg_leng) s)
     \<lparr>active_proc_num := active_proc_num s + 1, curr_pid := of_nat i,
     terms := (terms s)(unat (curr_term s) := (terms s (unat (curr_term s)))\<lparr>pid := of_nat i\<rparr>)\<rparr>"
proof -
  obtain js where js: "js = [2..<8::nat]" by simp
  show ?thesis
    unfolding new_block_steps [OF js] exec_block_def Let_def terminal_open_def prod.case js [symmetric] upd_cur_def upd_term_def
    by (cases "active_proc_num s + 1 > 3") (simp_all add: fold_upd_desc js upd_desc_def upd_pcb_comm del: set_upt)
qed

lemma screen_moved:
  assumes "mmu_ok s" "p < 6" "unat (c :: u8) < 3"
  defines "t \<equiv> set_pte p 0xB8 (\<lambda>e. e\<lparr>pt_phys_page_addr := 0xB8 + 2 * ucast c\<rparr>) s"
  shows "mmu_ok t \<and> screen_of t = (screen_of s)(p := unat c) \<and> pd_base t = pd_base s \<and> current_dir t = current_dir s"
proof -
  obtain k0 where k0: "page_table s p 0xB8 = screen_pte k0"
    using assms(1,2) by (auto simp: mmu_ok_def tables_ok_def)
  have pt: "page_table t p 0xB8 = screen_pte (unat c)" by (simp add: t_def set_pte_def k0 screen_pte_def)
  have other: "\<forall>q i. q \<noteq> p \<or> i \<noteq> 0xB8 \<longrightarrow> page_table t q i = page_table s q i"
    by (auto simp: t_def set_pte_def)
  have rest: "page_directory t = page_directory s" "video_table t = video_table s" "pd_base t = pd_base s" "pt_base t = pt_base s"
    "vt_base t = vt_base s" "cr0 t = cr0 s" "cr4 t = cr4 s" "cr3 t = cr3 s"
    by (simp_all add: t_def set_pte_def)
  have "tables_ok t"
    unfolding tables_ok_def rest
  proof (intro conjI allI impI)
    fix q i :: nat
    assume q: "q < 6"
    show "\<exists>k<3. page_table t q 0xB8 = screen_pte k"
      using pt other assms(1,3) q by (cases "q = p") (auto simp: mmu_ok_def tables_ok_def)
    show "i < 1024 \<Longrightarrow> i \<noteq> 0xB8 \<Longrightarrow> page_table t q i = blank_pte"
      using other assms(1) q by (simp add: mmu_ok_def tables_ok_def)
  qed (use assms(1) in \<open>auto simp: mmu_ok_def tables_ok_def\<close>)
  then have "mmu_ok t" using assms(1) by (simp add: mmu_ok_def link_ok_def paging_on_def rest)
  moreover have "screen_of t q = ((screen_of s)(p := unat c)) q" for q
    using screen_of_pte [OF pt assms(3)] other by (auto simp: screen_of_def)
  ultimately show ?thesis by (auto simp: rest current_dir_def fun_eq_iff)
qed


section \<open>Entering it\<close>

lemma pic_rest:
  "enable_irq n s = s\<lparr>master_mask := master_mask (enable_irq n s), slave_mask := slave_mask (enable_irq n s), io_log := io_log (enable_irq n s)\<rparr>"
  "disable_irq n s = s\<lparr>master_mask := master_mask (disable_irq n s), slave_mask := slave_mask (disable_irq n s), io_log := io_log (disable_irq n s)\<rparr>"
  by (simp_all add: enable_irq_def disable_irq_def outb_def Let_def)

text \<open>\<open>entered s i q t\<close>: from \<open>s\<close>, whose block \<open>i\<close> is set up with parent \<open>q\<close>, process \<open>i\<close> has been entered.\<close>

definition entered :: "'a kernel_scheme \<Rightarrow> nat \<Rightarrow> nat \<Rightarrow> 'a kernel_scheme \<Rightarrow> bool" where
  "entered s i q t \<longleftrightarrow>
     (\<exists>pt c m sm l. t = s\<lparr>tss_ss0 := KERNEL_DS, tss_esp0 := stack_top (of_nat i),
        pcbs := (pcbs s)(q := (pcbs s q)\<lparr>the_esp := esp s, the_ss := ss s\<rparr>), page_table := pt, cr3 := c,
        terminal := (terminal s)(unat (curr_term s) := (terminal s (unat (curr_term s)))\<lparr>task_pid := of_nat i\<rparr>),
        master_mask := m, slave_mask := sm, io_log := l, shell_esp_array := (shell_esp_array s)(q := esp s), iflag := True\<rparr>)
   \<and> mmu_ok t \<and> current_dir t = Some i \<and> screen_of t = (screen_of s)(i := unat (curr_term s))
   \<and> irq_enabled t 0 \<and> irq_enabled t 8"

lemma exec_enter_program:
  assumes "3 \<le> i" "i < 6" "curr_pid s = of_nat i" "parent_pcb (pcbs s i) = Some q" "q \<noteq> i" "q < 6" "the_pid (pcbs s q) = of_nat q"
    and "mmu_ok s" "unat (curr_term s) < 3"
  shows "\<exists>t. exec_enter i eip s = Some (Left (Start eip 0x083FFFFC), t) \<and> entered s i q t"
proof -
  have c: "unat (curr_pid s) = i" "ucast (curr_pid s) = (of_nat i :: u32)" "curr_pid s > 2" "\<not> curr_pid s < 3"
    using assms(1,2) less_6_cases [OF assms(2)] by (auto simp: assms(3))
  have q: "\<not> slt (of_nat q) 0" "(of_nat q :: u32) < 6" "unat (of_nat q :: u32) = q"
    using less_6_cases [OF assms(6)] by (auto simp: slt_def)
  define s1 where "s1 = s\<lparr>tss_ss0 := KERNEL_DS, tss_esp0 := stack_top (of_nat i),
        pcbs := (pcbs s)(q := (pcbs s q)\<lparr>the_esp := esp s, the_ss := ss s\<rparr>)\<rparr>"
  define s2 where "s2 = set_pte i 0xB8 (\<lambda>e. e\<lparr>pt_phys_page_addr := 0xB8 + 2 * ucast (curr_term s)\<rparr>) s1"
  define s3 where "s3 = flush_tlb i s2"
  have m1: "mmu s1 = mmu s" by (simp add: s1_def mmu_def)
  have m2: "mmu_ok s2 \<and> screen_of s2 = (screen_of s)(i := unat (curr_term s)) \<and> pd_base s2 = pd_base s1 \<and> current_dir s2 = current_dir s1"
    using screen_moved [of s1 i "curr_term s"] assms(2,8,9) mmu_cong(3,5) [OF m1] unfolding s2_def by simp
  have s2: "s2 = s1\<lparr>page_table := page_table s2\<rparr>" by (simp add: s2_def set_pte_def)
  have s3: "s3 = s1\<lparr>page_table := page_table s2, cr3 := cr3 s3\<rparr>"
    using flush_tlb_rest [of i s2] by (subst (asm) s2) (simp add: s3_def)
  have sc: "screen_of s3 = screen_of s2" by (rule ext) (simp add: s3_def)
  have m3: "mmu_ok s3" "screen_of s3 = (screen_of s)(i := unat (curr_term s))" "current_dir s3 = Some i"
    using m2 sc runs_flush [of s2 i] assms(2) by (simp_all add: s3_def runs_def)
  have f: "curr_term s3 = curr_term s" "terminal s3 = terminal s" "curr_pid s3 = curr_pid s" "pcbs s3 q = (pcbs s q)\<lparr>the_esp := esp s, the_ss := ss s\<rparr>"
    by (subst s3, simp add: s1_def)+
  define s4 where "s4 = s3\<lparr>terminal := (terminal s)(unat (curr_term s) := (terminal s (unat (curr_term s)))\<lparr>task_pid := of_nat i\<rparr>)\<rparr>"
  define s5 where "s5 = enable_irq 8 (enable_irq 0 s4)"
  have s5: "s5 = s4\<lparr>master_mask := master_mask s5, slave_mask := slave_mask s5, io_log := io_log s5\<rparr>"
    by (simp add: s5_def enable_irq_def outb_def Let_def)
  define t where "t = sti (s5\<lparr>shell_esp_array := (shell_esp_array s5)(q := esp s5)\<rparr>)"
  have par: "parent_pcb (pcbs s3 i) = Some q"
    using assms(4,5) by (subst s3) (simp add: s1_def)
  have pid: "the_pid (pcbs s5 q) = of_nat q" unfolding s5_def enable_irq_def using assms(7)
    by (simp add: s4_def f(4) outb_def Let_def)
  have g: "curr_pid s1 = curr_pid s" "curr_term s1 = curr_term s" "curr_pid s2 = curr_pid s" "curr_term s2 = curr_term s"
    by (simp_all add: s1_def s2_def set_pte_def)
  have ex: "exec_enter i eip s = Some (Left (Start eip 0x083FFFFC), t)"
  proof -
    have "exec_enter i eip s = (let s = s4; s = enable_irq 8 (enable_irq 0 s) in
        map_option (\<lambda>(l, s). (Left l, s)) (jump_to_program (0x08400000 - 4) eip (the_pid (pcbs s q)) s))"
      using c assms(4) g unfolding exec_enter_def Let_def
      by (simp add: upd_pcb_def s1_def [symmetric] s2_def [symmetric] s3_def [symmetric] s4_def f par)
    then show ?thesis
      using q unfolding Let_def s5_def [symmetric] by (simp add: pid jump_to_program_def t_def)
  qed
  have tm: "mmu t = mmu s3"
    unfolding t_def by (subst s5, simp add: sti_def s4_def mmu_def)
  have t: "t = s\<lparr>tss_ss0 := KERNEL_DS, tss_esp0 := stack_top (of_nat i),
        pcbs := (pcbs s)(q := (pcbs s q)\<lparr>the_esp := esp s, the_ss := ss s\<rparr>), page_table := page_table s2, cr3 := cr3 s3,
        terminal := (terminal s)(unat (curr_term s) := (terminal s (unat (curr_term s)))\<lparr>task_pid := of_nat i\<rparr>),
        master_mask := master_mask s5, slave_mask := slave_mask s5, io_log := io_log s5, shell_esp_array := (shell_esp_array s)(q := esp s), iflag := True\<rparr>"
    unfolding t_def sti_def by (subst (1 2 3) s5, unfold s4_def, subst (1 2 3) s3) (simp add: s1_def)
  have "irq_enabled s5 0" "irq_enabled s5 8"
    using enable_irq_enabled [of 0 0 s4] enable_irq_enabled [of 0 8 "enable_irq 0 s4"] enable_irq_enabled [of 8 8 "enable_irq 0 s4"]
    by (simp_all add: s5_def)
  then have "irq_enabled t 0" "irq_enabled t 8" by (simp_all add: t_def sti_def irq_enabled_def)
  then have "entered s i q t"
    using t mmu_cong(3-5) [OF tm] m3 unfolding entered_def by (intro conjI exI) simp_all
  with ex show ?thesis by blast
qed


section \<open>Loading it\<close>

text \<open>The invariant of the process table: every terminal's process is marked busy, and every busy
  block carries its own number.\<close>

definition proc_ok :: "'a kernel_scheme \<Rightarrow> bool" where
  "proc_ok s \<longleftrightarrow> sched_ok s \<and> length (pcb_status_array s) = 6
     \<and> (\<forall>j<3. pcb_status_array s ! unat (task_pid (terminal s j)) \<noteq> 0)
     \<and> (\<forall>p<6. pcb_status_array s ! p \<noteq> 0 \<longrightarrow> the_pid (pcbs s p) = of_nat p)"

text \<open>The state in which \<open>execute\<close> sets up the block: on the new process's tables, its slot taken,
  its image copied.\<close>

definition copied :: "'a kernel_scheme \<Rightarrow> nat \<Rightarrow> u8 list \<Rightarrow> 'a kernel_scheme \<Rightarrow> bool" where
  "copied s i bs w \<longleftrightarrow> w = s\<lparr>cr3 := cr3 w, pcb_status_array := (pcb_status_array s)[i := 1], phys := phys w\<rparr>
     \<and> (\<forall>a. \<not> in_program i a \<longrightarrow> phys w a = phys s a) \<and> runs w i \<and> screen_of w = screen_of s
     \<and> ld_bytes w 0x08048000 (length bs) = Some bs"

lemma busy_slot: "proc_ok s \<Longrightarrow> j < 3 \<Longrightarrow> pcb_status_array s ! unat (task_pid (terminal s j)) \<noteq> 0"
  by (simp add: proc_ok_def)

lemma busy_running: "proc_ok s \<Longrightarrow> pcb_status_array s ! unat (curr_pid s) \<noteq> 0"
  using busy_slot [of s "unat (curr_term s)"] by (simp add: proc_ok_def sched_ok_def running_ok_def)

lemma load_copies:
  assumes "runs s q" "i < 6" "holds_file s inode bs" "bs \<noteq> []" "length bs \<le> 3899392"
  defines "u \<equiv> (flush_tlb i s)\<lparr>pcb_status_array := (pcb_status_array s)[i := 1]\<rparr>"
  obtains w where "read_data inode 0 0x08048000 3899392 u = Some (of_nat (length bs), w)" "copied s i bs w"
proof -
  have ok: "mmu_ok s" using assms(1) by (simp add: runs_def)
  have fl: "flush_tlb i s = s\<lparr>cr3 := cr3 (flush_tlb i s)\<rparr>" by (rule flush_tlb_rest)
  have mu: "mmu u = mmu (flush_tlb i s)" by (simp add: u_def mmu_def)
  have ru: "runs u i" using runs_flush [OF ok assms(2)] runs_mmu [OF mu] by simp
  have "phys u = phys s \<and> inode_ptr_base u = inode_ptr_base s \<and> data_block_ptr_base u = data_block_ptr_base s
      \<and> num_of_blocks u = num_of_blocks s \<and> num_of_entries u = num_of_entries s \<and> entry_ptr_base u = entry_ptr_base s"
    by (simp add: u_def flush_tlb_def Let_def)
  then have "kernel_same s u" using assms(1) ru by (auto simp: kernel_same_def)
  then have hf: "holds_file u inode bs" using same_file assms(3) by blast
  have n: "min 3899392 (length bs) = length bs" using assms(5) by simp
  have pre: "0 \<le> length bs" "(3899392 :: nat) < 2 ^ 32" "user_buffer 0x08048000 (min 3899392 (length bs - 0))"
    using assms(5) by (simp_all add: user_buffer_def)
  obtain w where w: "read_data inode (of_nat 0) 0x08048000 (of_nat 3899392) u = Some (of_nat (min 3899392 (length bs - 0)), w)"
    "only_program i u w"
    "ld_bytes w 0x08048000 (min 3899392 (length bs - 0)) = Some (segment 0 (min 3899392 (length bs - 0)) bs)"
    by (rule read_data_user [OF ru hf pre])
  note w = w [unfolded diff_zero n]
  have e: "w = u\<lparr>phys := phys w\<rparr>" using w(2) by (simp add: only_program_def)
  have pu: "phys u = phys s" unfolding u_def by (subst fl) simp
  have c: "cr3 w = cr3 u" by (subst e) simp
  have "w = s\<lparr>cr3 := cr3 w, pcb_status_array := (pcb_status_array s)[i := 1], phys := phys w\<rparr>"
    unfolding c by (subst e, unfold u_def, subst (1 2) fl) simp
  moreover have "mmu w = mmu u" by (subst e) simp
  then have "screen_of w = screen_of s" using mmu_cong(5) [of w u] mmu_cong(5) [OF mu] by (simp add: fun_eq_iff)
  moreover have "runs w i" using ru only_program_runs [OF w(2)] by simp
  ultimately have "copied s i bs w" using w(2,3) pu by (auto simp: copied_def only_program_def segment_def)
  then show ?thesis using w(1) by (intro that [of w]) simp_all
qed

lemma exec_load_program:
  assumes "proc_ok s" "free_slot s = Some i" "3 \<le> i" "i < 6" "3 \<le> active_root_shell s" "3 \<le> active_proc_num s" "active_proc_num s < 255"
    and "holds_file s inode bs" "bs \<noteq> []" "length bs \<le> 3899392"
  obtains w t where "exec_load fname arg n inode eip s = Some (Left (Start eip 0x083FFFFC), t)" "copied s i bs w"
    "entered (exec_block i fname arg n w) i (unat (curr_pid s)) t"
proof -
  let ?q = "unat (curr_pid s)"
  have sok: "sched_ok s" using assms(1) by (simp add: proc_ok_def)
  have q: "?q < 6" using running_pid [OF sok] .
  have r: "runs s ?q" using sok q by (simp add: sched_ok_def running_ok_def runs_def)
  have busy: "pcb_status_array s ! ?q \<noteq> 0" by (rule busy_running [OF assms(1)])
  have free: "pcb_status_array s ! i = 0"
    using assms(2,4) by (auto simp: free_slot_def find_Some_iff split: option.splits if_splits)
  have qi: "?q \<noteq> i" using busy free by auto
  obtain w where w: "read_data inode 0 0x08048000 3899392 ((flush_tlb i s)\<lparr>pcb_status_array := (pcb_status_array s)[i := 1]\<rparr>) = Some (of_nat (length bs), w)"
    "copied s i bs w"
    using load_copies [OF r assms(4,8-10)] by blast
  have wf: "w = s\<lparr>cr3 := cr3 w, pcb_status_array := (pcb_status_array s)[i := 1], phys := phys w\<rparr>" using w(2) by (simp add: copied_def)
  let ?r = "exec_block i fname arg n w"
  have f: "curr_pid w = curr_pid s" "curr_term w = curr_term s" "active_proc_num w = active_proc_num s" "pcbs w = pcbs s"
    "active_root_shell w = active_root_shell s" "pcb_status_array (flush_tlb i s) = pcb_status_array s"
    by (subst wf, simp)+ (simp add: flush_tlb_def Let_def)
  have more: "active_proc_num s + 1 > 3"
  proof -
    have "unat (active_proc_num s + 1) = unat (active_proc_num s) + 1"
      using assms(7) by (simp add: word_less_nat_alt unat_word_ariths)
    then show ?thesis using assms(6) by (simp add: word_less_nat_alt word_le_nat_alt)
  qed
  have "\<exists>t. exec_enter i eip ?r = Some (Left (Start eip 0x083FFFFC), t) \<and> entered ?r i ?q t"
  proof (rule exec_enter_program [OF assms(3,4)])
    show "curr_pid ?r = of_nat i" "?q \<noteq> i" "?q < 6" by (simp_all add: exec_block_eq qi q)
    show "parent_pcb (pcbs ?r i) = Some ?q" using more by (simp add: exec_block_eq upd_pcb_def new_block_def f)
    show "the_pid (pcbs ?r ?q) = of_nat ?q"
      using assms(1) q busy qi by (simp add: exec_block_eq upd_pcb_def f proc_ok_def)
    have "mmu ?r = mmu w" by (simp add: exec_block_eq upd_pcb_def mmu_def)
    then show "mmu_ok ?r" using w(2) mmu_cong(3) [of ?r w] by (simp add: copied_def runs_def)
    show "unat (curr_term ?r) < 3" using sok by (simp add: exec_block_eq upd_pcb_def f sched_ok_def running_ok_def)
  qed
  then obtain t where t: "exec_enter i eip ?r = Some (Left (Start eip 0x083FFFFC), t)" "entered ?r i ?q t" by blast
  have len: "unat (of_nat (length bs) :: u32) = length bs" by (rule unat_of_nat_small) (use assms(10) in simp)
  then have ret: "(of_nat (length bs) :: u32) \<noteq> -1" "(of_nat (length bs) :: u32) \<noteq> 0"
    using assms(9,10) by (auto simp: word_unat_eq_iff unsigned_minus_1_eq_mask mask_eq_exp_minus_1)
  have ar: "active_root_shell ?r = active_root_shell s" by (simp add: exec_block_eq upd_pcb_def f)
  have "exec_load fname arg n inode eip s = Some (Left (Start eip 0x083FFFFC), t)"
    using assms(2-4) w(1) ret t(1) ar f(6) leD [OF assms(5)] by (simp add: exec_load_def Let_def)
  then show ?thesis using w(2) t(2) by (rule that)
qed


section \<open>execute\<close>

lemma same_directory:
  assumes "kernel_same s t" "directory_ok s n"
  shows "directory_ok t n" "k \<le> n \<Longrightarrow> entry_name t k = entry_name s k" "k \<le> n \<Longrightarrow> read_entry t (of_nat k) = read_entry s (of_nat k)"
proof -
  have e: "entry t = entry s" using assms(1) by (simp add: entry_def kernel_same_def fun_eq_iff)
  show "directory_ok t n" using assms by (simp add: directory_ok_def e kernel_same_def)
  assume k: "k \<le> n"
  have ik: "in_kernel (entry s (of_nat k)) 64" using assms(2) k by (simp add: directory_ok_def)
  show "entry_name t k = entry_name s k"
    using same_ld_bytes [OF assms(1) ik, of 0 32] by (simp add: entry_name_def e)
  show "read_entry t (of_nat k) = read_entry s (of_nat k)"
    using same_ld_bytes [OF assms(1) ik, of 0 32] same_ld_word [OF assms(1) ik, of 32] same_ld_word [OF assms(1) ik, of 36]
    by (simp add: read_entry_def e)
qed

lemma same_program: "kernel_same s t \<Longrightarrow> program_in s n k name inode bs eip \<Longrightarrow> program_in t n k name inode bs eip"
  unfolding program_in_def using same_directory [of s t n] same_file [of s t] by (metis less_imp_le less_trans)

lemma sched_ok_pic: "sched_ok (s\<lparr>master_mask := m, slave_mask := n, io_log := l\<rparr>) = sched_ok s"
proof -
  have m: "mmu (s\<lparr>master_mask := m, slave_mask := n, io_log := l\<rparr>) = mmu s" by (simp add: mmu_def)
  show ?thesis using mmu_cong(3-5) [OF m] by (simp add: sched_ok_def ring_ok_def slots_ok_def running_ok_def)
qed

lemma proc_ok_disable [simp]: "proc_ok (disable_irq n s) = proc_ok s"
  by (subst pic_rest(2)) (simp add: proc_ok_def sched_ok_pic)

lemma disable_fields [simp]:
  "curr_pid (disable_irq n s) = curr_pid s" "curr_term (disable_irq n s) = curr_term s" "active_proc_num (disable_irq n t) = active_proc_num t"
  "active_root_shell (disable_irq n t) = active_root_shell t" "free_slot (disable_irq n u) = free_slot u"
  "pcb_status_array (disable_irq n t) = pcb_status_array t" "esp (disable_irq n t) = esp t" "pcbs (disable_irq n t) = pcbs t"
  by (simp_all add: disable_irq_def outb_def free_slot_def Let_def)

lemma proc_runs: "proc_ok s \<Longrightarrow> runs s (unat (curr_pid s))"
  using running_pid [of s] by (simp add: proc_ok_def sched_ok_def running_ok_def runs_def)

lemma disable_same: "runs s p \<Longrightarrow> kernel_same s (disable_irq n s)"
proof -
  assume r: "runs s p"
  then have "runs (disable_irq n s) p" using runs_mmu [of "disable_irq n s" s] by simp
  with r show ?thesis by (auto simp: kernel_same_def disable_irq_def outb_def Let_def)
qed

text \<open>\<open>command_is cmd name ys\<close>: the string \<open>cmd\<close> is \<open>name\<close>, then a blank or NUL, then \<open>ys\<close> and a NUL. With
  a NUL after the name, \<open>ys\<close> is whatever follows that NUL.\<close>

definition command_is :: "reader \<Rightarrow> u8 list \<Rightarrow> u8 list \<Rightarrow> bool" where
  "command_is cmd name ys \<longleftrightarrow> word_at cmd 0 name \<and> 32 \<notin> set name \<and> name \<noteq> [] \<and> length name \<le> 32
     \<and> (cmd (of_nat (length name)) = Some 0 \<or> cmd (of_nat (length name)) = Some 32)
     \<and> word_at cmd (length name + 1) ys \<and> length ys \<le> 128 \<and> cmd (of_nat (length name + 1 + length ys)) = Some 0"

lemma command_scans:
  assumes "command_is cmd name ys"
  shows "scan_name cmd 0 (replicate 32 0) = Some (length name, name @ replicate (32 - length name) 0)"
    "scan_arg cmd (length name) 0 (replicate 128 0) = Some (length ys, ys @ replicate (128 - length ys) 0)"
    "0 \<notin> set name"
  using assms scan_name_word [of cmd name] scan_arg_word [of cmd "length name" ys]
  by (auto simp: command_is_def word_at_def)

lemma cstr_n_take: "cstr_n rd n xs \<Longrightarrow> m \<le> n \<Longrightarrow> cstr_n rd m (take m xs)"
  by (auto simp: cstr_n_def min_def)

lemma not_clear:
  assumes "0 \<notin> set name" "length name \<le> 32" "take 5 name \<noteq> bytes ''clear''"
  shows "\<exists>r. strncmp (lit (bytes ''clear'' @ [0])) (lit (name @ replicate (32 - length name) 0)) 5 = Some r \<and> r \<noteq> 0"
proof -
  have z: "0 \<notin> set (bytes ''clear'')" "length (bytes ''clear'') = 5" by (simp_all add: bytes_def asc_def)
  have "cstr_n (lit (bytes ''clear'' @ [0])) 6 (bytes ''clear'')" using lit_cstr_n [of "bytes ''clear''" 6] z by simp
  then have "cstr_n (lit (bytes ''clear'' @ [0])) (unat (5 :: u32)) (bytes ''clear'')" using cstr_n_take [of _ 6 _ 5] z by fastforce
  moreover have "cstr_n (lit (name @ replicate (32 - length name) 0)) (unat (5 :: u32)) (take 5 name)"
    using cstr_n_take [OF lit_cstr_n [OF assms(1,2)], of 5] by simp
  ultimately show ?thesis using assms(3) strncmp_cstr by metis
qed

lemma execute_program:
  assumes "proc_ok s" "command_is cmd name ys" "take 5 name \<noteq> bytes ''clear''" "program_in s n k name inode bs eip"
    and "free_slot s = Some i" "3 \<le> i" "i < 6" "3 \<le> active_root_shell s" "3 \<le> active_proc_num s" "active_proc_num s < 255"
  obtains w t where "execute cmd s = Some (Left (Start eip 0x083FFFFC), t)" "copied (disable_irq 0 s) i bs w"
    "entered (exec_block i (name @ replicate (32 - length name) 0) (ys @ replicate (128 - length ys) 0) (length ys) w) i (unat (curr_pid s)) t"
proof -
  let ?s = "disable_irq 0 s"
  note sc = command_scans [OF assms(2)]
  have len: "length name \<le> 32" "length name \<noteq> 0" using assms(2) by (simp_all add: command_is_def)
  have r: "runs s (unat (curr_pid s))" by (rule proc_runs [OF assms(1)])
  have pi: "program_in ?s n k name inode bs eip" by (rule same_program [OF disable_same [OF r] assms(4)])
  have rs: "runs ?s (unat (curr_pid s))" using proc_runs [of ?s] assms(1) by simp
  obtain c where c: "strncmp (lit (bytes ''clear'' @ [0])) (lit (name @ replicate (32 - length name) 0)) 5 = Some c" "c \<noteq> 0"
    using not_clear [OF sc(3) len(1) assms(3)] by blast
  have fi: "exec_find (name @ replicate (32 - length name) 0) ?s = Some (Inr (inode, eip), ?s)"
    by (rule exec_find_program [OF rs pi sc(3) len(1)])
  obtain w t where wt: "exec_load (name @ replicate (32 - length name) 0) (ys @ replicate (128 - length ys) 0) (length ys) inode eip ?s
      = Some (Left (Start eip 0x083FFFFC), t)" "copied ?s i bs w"
    "entered (exec_block i (name @ replicate (32 - length name) 0) (ys @ replicate (128 - length ys) 0) (length ys) w) i (unat (curr_pid ?s)) t"
    by (rule exec_load_program [of ?s i inode bs]) (use assms pi in \<open>auto simp: program_in_def\<close>)
  have "execute cmd s = Some (Left (Start eip 0x083FFFFC), t)"
    using sc(1,2) len c fi wt(1) by (simp add: execute_def Let_def)
  then show ?thesis using wt(2,3) by (intro that) simp_all
qed

section \<open>The invariant, and the way back\<close>

lemma user_ld_same: "runs t p \<Longrightarrow> runs w p \<Longrightarrow> phys t = phys w \<Longrightarrow> user_buffer a n \<Longrightarrow> ld_bytes t a n = ld_bytes w a n"
proof (induction n arbitrary: a)
  case (Suc n)
  have a: "0x8000000 \<le> unat a" "unat a < 0x8400000" using Suc.prems(4) by (auto simp: user_buffer_def)
  then have "ld t a = ld w a" using translate_user [OF Suc.prems(1) a] translate_user [OF Suc.prems(2) a] Suc.prems(3) by (simp add: ld_def)
  then show ?case using Suc.IH [OF Suc.prems(1-3) user_buffer_step [OF Suc.prems(4)]] by simp
qed simp

text \<open>What the parent must still be when the child ends: its block, where it left its stack, its
  screen.\<close>

definition waiting :: "'a kernel_scheme \<Rightarrow> nat \<Rightarrow> u32 \<Rightarrow> u32 \<Rightarrow> bool" where
  "waiting u q e stk \<longleftrightarrow> q < 6 \<and> q \<noteq> unat (curr_pid u) \<and> 3 \<le> unat (curr_pid u)
     \<and> parent_pcb (pcbs u (unat (curr_pid u))) = Some q \<and> pcb_status_array u ! q \<noteq> 0
     \<and> screen_of u q = unat (curr_term u) \<and> shell_esp_array u q = e \<and> the_esp (pcbs u q) = e \<and> the_ss (pcbs u q) = stk"

lemma entered_ok:
  assumes "proc_ok s" "pcb_status_array s ! i = 0" "3 \<le> i" "i < 6" "copied s i bs w" "active_proc_num s + 1 > 3"
    and "entered (exec_block i fname arg n w) i (unat (curr_pid s)) t"
  shows "proc_ok t" "waiting t (unat (curr_pid s)) (esp s) (ss s)" "curr_pid t = of_nat i" "curr_term t = curr_term s"
    "args (pcbs t i) = take n arg @ replicate (129 - n) 0"
    "\<forall>j<8. desc_busy i t j \<longleftrightarrow> j < 2" "\<forall>j<2. file_ops_table_ptr (desc_of t i j) = Terminal_ops"
    "pcb_status_array t = (pcb_status_array s)[i := 1]" "\<forall>a. phys t a = phys w a"
    "current_dir t = Some i" "mmu_ok t" "irq_enabled t 0" "iflag t"
proof -
  let ?q = "unat (curr_pid s)" and ?c = "unat (curr_term s)"
  have sok: "sched_ok s" using assms(1) by (simp add: proc_ok_def)
  have q: "?q < 6" "?q \<noteq> i" using running_pid [OF sok] busy_running [OF assms(1)] assms(2) by auto
  have c: "?c < 3" using sok by (simp add: sched_ok_def running_ok_def)
  have wf: "w = s\<lparr>cr3 := cr3 w, pcb_status_array := (pcb_status_array s)[i := 1], phys := phys w\<rparr>"
    and ws: "screen_of w = screen_of s" using assms(5) by (simp_all add: copied_def)
  let ?r = "exec_block i fname arg n w"
  have "mmu ?r = mmu w" by (simp add: exec_block_eq upd_pcb_def mmu_def)
  then have rs: "screen_of ?r = screen_of s" using mmu_cong(5) [of ?r w] ws by simp
  obtain pt x m sm l where t: "t = ?r\<lparr>tss_ss0 := KERNEL_DS, tss_esp0 := stack_top (of_nat i),
        pcbs := (pcbs ?r)(?q := (pcbs ?r ?q)\<lparr>the_esp := esp ?r, the_ss := ss ?r\<rparr>), page_table := pt, cr3 := x,
        terminal := (terminal ?r)(unat (curr_term ?r) := (terminal ?r (unat (curr_term ?r)))\<lparr>task_pid := of_nat i\<rparr>),
        master_mask := m, slave_mask := sm, io_log := l, shell_esp_array := (shell_esp_array ?r)(?q := esp ?r), iflag := True\<rparr>"
    using assms(7) unfolding entered_def by blast
  have e: "mmu_ok t" "current_dir t = Some i" "screen_of t = (screen_of ?r)(i := unat (curr_term ?r))" "irq_enabled t 0"
    using assms(7) unfolding entered_def by blast+
  have wff: "curr_pid w = curr_pid s" "curr_term w = curr_term s" "term_on_screen w = term_on_screen s" "terminal w = terminal s"
    "esp w = esp s" "ss w = ss s" "pcbs w = pcbs s" "active_proc_num w = active_proc_num s" "shell_esp_array w = shell_esp_array s"
    "pcb_status_array w = (pcb_status_array s)[i := 1]" "task_list_head w = task_list_head s" "task_list_tail w = task_list_tail s"
    by (subst wf, simp)+
  note f = exec_block_eq upd_pcb_def wff
  let ?b = "new_block i (Some ?q) fname arg n (pcbs s i)"
  have tf: "curr_pid t = of_nat i" "curr_term t = curr_term s" "term_on_screen t = term_on_screen s"
    "terminal t = (terminal s)(?c := (terminal s ?c)\<lparr>task_pid := of_nat i\<rparr>)" "task_list_head t = task_list_head s"
    "task_list_tail t = task_list_tail s" "pcb_status_array t = (pcb_status_array s)[i := 1]"
    "pcbs t = (pcbs s)(i := ?b, ?q := (pcbs s ?q)\<lparr>the_esp := esp s, the_ss := ss s\<rparr>)"
    "shell_esp_array t = (shell_esp_array s)(?q := esp s)" "\<forall>a. phys t a = phys w a" "iflag t"
    unfolding t using q(2) assms(6) by (simp_all add: f fun_upd_twist)
  have sc: "screen_of t = (screen_of s)(i := ?c)" using e(3) rs by (simp add: f)
  have u: "unat (of_nat i :: u32) = i" "unat (of_nat i :: u8) = i" "(of_nat i :: u32) < 6" "(of_nat i :: u32) = ucast (of_nat i :: u8)"
    using less_6_cases [OF assms(4)] by auto
  have other: "unat (task_pid (terminal s j)) \<noteq> i" if "j < 3" for j using busy_slot [OF assms(1) that] assms(2) by auto
  have "ring_ok t" using sok by (auto simp: sched_ok_def ring_ok_def tf)
  moreover have "slots_ok t" using sok u c other by (auto simp: sched_ok_def slots_ok_def tf sc)
  moreover have "running_ok t" using sok u e by (simp add: sched_ok_def running_ok_def tf)
  ultimately have "sched_ok t" by (simp add: sched_ok_def)
  moreover have "length (pcb_status_array s) = 6" using assms(1) by (simp add: proc_ok_def)
  ultimately show "proc_ok t"
    using assms(1,4) u other q by (auto simp: proc_ok_def tf new_block_def nth_list_update)
  have "screen_of s ?q = ?c"
    using sok c unfolding sched_ok_def slots_ok_def running_ok_def by (metis unat_ucast8)
  then show "waiting t ?q (esp s) (ss s)"
    using q u assms(3) busy_running [OF assms(1)] by (simp add: waiting_def tf sc new_block_def)
  show "args (pcbs t i) = take n arg @ replicate (129 - n) 0" using q(2) by (simp add: tf new_block_def)
  show "\<forall>j<8. desc_busy i t j \<longleftrightarrow> j < 2" "\<forall>j<2. file_ops_table_ptr (desc_of t i j) = Terminal_ops"
    using q(2) by (auto simp: desc_busy_def desc_of_def tf new_block_def new_descs_def stdio_def)
  show "curr_pid t = of_nat i" "curr_term t = curr_term s" "pcb_status_array t = (pcb_status_array s)[i := 1]"
    "\<forall>a. phys t a = phys w a" "current_dir t = Some i" "mmu_ok t" "irq_enabled t 0" "iflag t"
    using tf e by blast+
qed


text \<open>\<open>halt\<close> in a child goes back to the parent's \<open>execute\<close>, on the parent's tables and stack.\<close>

definition returned :: "'a kernel_scheme \<Rightarrow> nat \<Rightarrow> u32 \<Rightarrow> u32 \<Rightarrow> 'a kernel_scheme \<Rightarrow> bool" where
  "returned u q e stk v \<longleftrightarrow> curr_pid v = of_nat q \<and> curr_term v = curr_term u \<and> current_dir v = Some q \<and> mmu_ok v
     \<and> screen_of v = screen_of u \<and> esp v = e \<and> tss_esp0 v = e \<and> tss_ss0 v = stk
     \<and> pcb_status_array v = (pcb_status_array u)[unat (curr_pid u) := 0]
     \<and> task_pid (terminal v (unat (curr_term u))) = of_nat q \<and> active_proc_num v = active_proc_num u - 1
     \<and> irq_enabled v 0 \<and> iflag v"

lemma halt_returns:
  assumes "proc_ok u" "waiting u q e stk"
  shows "\<exists>v. halt status u = Some (Left (Unwind e (ucast status)), v) \<and> proc_ok v \<and> returned u q e stk v"
proof -
  note w = assms(2) [unfolded waiting_def]
  let ?i = "unat (curr_pid u)" and ?c = "unat (curr_term u)"
  have sok: "sched_ok u" using assms(1) by (simp add: proc_ok_def)
  have i: "?i < 6" by (rule running_pid [OF sok])
  then have nge: "\<not> 6 \<le> curr_pid u" "\<not> curr_pid u < 3" using w by (simp_all add: word_le_nat_alt word_less_nat_alt)
  have c: "?c < 3" using sok by (simp add: sched_ok_def running_ok_def)
  have pid: "the_pid (pcbs u q) = of_nat q" using assms(1) w by (simp add: proc_ok_def)
  have q: "unat (of_nat q :: u32) = q" "unat (of_nat q :: u8) = q" "(of_nat q :: u32) < 6" "ucast (of_nat q :: u32) = (of_nat q :: u8)"
    "ucast (of_nat q :: u8) = (of_nat q :: u32)"
    using w less_6_cases [of q] by auto
  define v1 where "v1 = u\<lparr>active_proc_num := active_proc_num u - 1, pcb_status_array := (pcb_status_array u)[?i := 0],
     tss_ss0 := stk, tss_esp0 := e, curr_pid := of_nat q,
     terms := (terms u)(?c := (terms u ?c)\<lparr>pid := of_nat q\<rparr>),
     terminal := (terminal u)(?c := (terminal u ?c)\<lparr>task_pid := of_nat q\<rparr>)\<rparr>"
  define v2 where "v2 = flush_tlb q v1"
  define v3 where "v3 = enable_irq 0 v2"
  define v where "v = sti (v3\<lparr>esp := e\<rparr>)"
  have v2: "v2 = v1\<lparr>cr3 := cr3 v2\<rparr>" unfolding v2_def by (rule flush_tlb_rest)
  have v3: "v3 = v2\<lparr>master_mask := master_mask v3, slave_mask := slave_mask v3, io_log := io_log v3\<rparr>"
    unfolding v3_def by (rule pic_rest(1))
  have shell: "shell_esp_array v3 q = e" "curr_pid v3 = of_nat q"
    by (subst v3, subst v2, simp add: v1_def w)+
  have h: "halt status u = Some (Left (Unwind e (ucast status)), v)"
    using nge w pid q shell [unfolded v3_def v2_def v1_def]
    by (simp add: halt_def halt_program_def Let_def upd_cur_def upd_term_def v_def v3_def v2_def v1_def)
  have m1: "mmu v1 = mmu u" by (simp add: v1_def mmu_def)
  have "mmu_ok v1" using sok mmu_cong(3) [OF m1] by (simp add: sched_ok_def running_ok_def)
  then have r2: "runs v2 q" using w unfolding v2_def by (intro runs_flush) simp_all
  have s2: "screen_of v2 = screen_of u" using mmu_cong(5) [OF m1] by (simp add: v2_def fun_eq_iff)
  have mv: "mmu v = mmu v2" unfolding v_def sti_def by (subst v3, simp add: mmu_def)
  have vm: "mmu_ok v" "current_dir v = Some q" "screen_of v = screen_of u"
    using r2 s2 mmu_cong(3-5) [OF mv] by (simp_all add: runs_def)
  have vf: "curr_pid v = of_nat q" "curr_term v = curr_term u" "term_on_screen v = term_on_screen u" "esp v = e" "tss_esp0 v = e" "tss_ss0 v = stk"
    "pcb_status_array v = (pcb_status_array u)[?i := 0]" "terminal v = (terminal u)(?c := (terminal u ?c)\<lparr>task_pid := of_nat q\<rparr>)"
    "active_proc_num v = active_proc_num u - 1" "pcbs v = pcbs u" "task_list_head v = task_list_head u" "task_list_tail v = task_list_tail u" "iflag v"
    unfolding v_def sti_def by (subst v3, subst v2, simp add: v1_def)+
  have "irq_enabled v3 0" using enable_irq_enabled [of 0 0 v2] by (simp add: v3_def)
  then have irq: "irq_enabled v 0" by (simp add: v_def sti_def irq_enabled_def)
  have me: "task_pid (terminal u ?c) = ucast (curr_pid u)" using sok by (simp add: sched_ok_def running_ok_def)
  have other: "unat (task_pid (terminal u j)) \<noteq> ?i" if "j < 3" "j \<noteq> ?c" for j
    using slots_distinct [of u j ?c] sok that c me by (auto simp: sched_ok_def word_unat_eq_iff)
  have "ring_ok v" using sok by (auto simp: sched_ok_def ring_ok_def vf)
  moreover have "slots_ok v" using sok q w by (auto simp: sched_ok_def slots_ok_def vf vm)
  moreover have "running_ok v" using sok q vm by (simp add: sched_ok_def running_ok_def vf)
  ultimately have "sched_ok v" by (simp add: sched_ok_def)
  moreover have "pcb_status_array v ! unat (task_pid (terminal v j)) \<noteq> 0" if "j < 3" for j
    using other [OF that] busy_slot [OF assms(1) that] q w by (cases "j = ?c") (simp_all add: vf)
  moreover have "length (pcb_status_array u) = 6" using assms(1) by (simp add: proc_ok_def)
  ultimately have "proc_ok v"
    using assms(1) i by (auto simp: proc_ok_def vf nth_list_update)
  moreover have "returned u q e stk v" using vf vm irq by (simp add: returned_def)
  ultimately show ?thesis using h by blast
qed

text \<open>While the child runs, only this much must be left alone.\<close>

definition child_runs :: "'a kernel_scheme \<Rightarrow> nat \<Rightarrow> 'a kernel_scheme \<Rightarrow> bool" where
  "child_runs t q u \<longleftrightarrow> proc_ok u \<and> curr_pid u = curr_pid t \<and> curr_term u = curr_term t
     \<and> parent_pcb (pcbs u (unat (curr_pid t))) = parent_pcb (pcbs t (unat (curr_pid t))) \<and> pcbs u q = pcbs t q
     \<and> shell_esp_array u q = shell_esp_array t q \<and> pcb_status_array u = pcb_status_array t \<and> screen_of u = screen_of t"

lemma child_waiting: "child_runs t q u \<Longrightarrow> waiting t q e stk \<Longrightarrow> waiting u q e stk"
  by (simp add: child_runs_def waiting_def)

text \<open>\<open>execute\<close>, the program, \<open>halt\<close>: the caller goes on where it was, with the status, and the
  program's slot is free again.\<close>

lemma execute_then_halt:
  assumes "proc_ok s" "command_is cmd name ys" "take 5 name \<noteq> bytes ''clear''" "program_in s n k name inode bs eip"
    and "free_slot s = Some i" "3 \<le> i" "i < 6" "3 \<le> active_root_shell s" "3 \<le> active_proc_num s" "active_proc_num s < 255"
  obtains t where "execute cmd s = Some (Left (Start eip 0x083FFFFC), t)" "proc_ok t"
    "curr_pid t = of_nat i" "current_dir t = Some i" "ld_bytes t 0x08048000 (length bs) = Some bs"
    "args (pcbs t i) = ys @ replicate (129 - length ys) 0"
    "\<forall>j<8. desc_busy i t j \<longleftrightarrow> j < 2" "\<forall>j<2. file_ops_table_ptr (desc_of t i j) = Terminal_ops"
    "\<And>u status. child_runs t (unat (curr_pid s)) u \<Longrightarrow>
       \<exists>v. halt status u = Some (Left (Unwind (esp s) (ucast status)), v) \<and> proc_ok v
         \<and> returned u (unat (curr_pid s)) (esp s) (ss s) v \<and> pcb_status_array v = (pcb_status_array s)[i := 0]"
proof -
  let ?s = "disable_irq 0 s"
  obtain w t where wt: "execute cmd s = Some (Left (Start eip 0x083FFFFC), t)" "copied ?s i bs w"
    "entered (exec_block i (name @ replicate (32 - length name) 0) (ys @ replicate (128 - length ys) 0) (length ys) w) i (unat (curr_pid s)) t"
    by (rule execute_program [OF assms])
  have free: "pcb_status_array s ! i = 0"
    using assms(5,7) by (auto simp: free_slot_def find_Some_iff split: option.splits if_splits)
  have more: "active_proc_num ?s + 1 > 3"
  proof -
    have "unat (active_proc_num s + 1) = unat (active_proc_num s) + 1"
      using assms(10) by (simp add: word_less_nat_alt unat_word_ariths)
    then show ?thesis using assms(9) by (simp add: word_less_nat_alt word_le_nat_alt)
  qed
  have ess: "ss ?s = ss s" by (simp add: disable_irq_def outb_def Let_def)
  note en = entered_ok [of ?s i bs w, simplified disable_fields proc_ok_disable ess, OF assms(1) free assms(6,7) wt(2) more [simplified] wt(3)]
  have iu: "unat (of_nat i :: u8) = i" using less_6_cases [OF assms(7)] by auto
  have wr: "ld_bytes w 0x08048000 (length bs) = Some bs" "runs w i" using wt(2) by (simp_all add: copied_def)
  have "runs t i" using en(10,11) assms(7) by (simp add: runs_def)
  moreover have "length bs \<le> 3899392" using assms(4) by (simp add: program_in_def)
  ultimately have "ld_bytes t 0x08048000 (length bs) = Some bs"
    using user_ld_same [of t i w "0x08048000" "length bs"] wr en(9) by (simp add: user_buffer_def fun_eq_iff)
  moreover have "\<exists>v. halt status u = Some (Left (Unwind (esp s) (ucast status)), v) \<and> proc_ok v
         \<and> returned u (unat (curr_pid s)) (esp s) (ss s) v \<and> pcb_status_array v = (pcb_status_array s)[i := 0]"
    if u: "child_runs t (unat (curr_pid s)) u" for u status
  proof -
    have "proc_ok u" using u by (simp add: child_runs_def)
    then obtain v where v: "halt status u = Some (Left (Unwind (esp s) (ucast status)), v)" "proc_ok v"
      "returned u (unat (curr_pid s)) (esp s) (ss s) v"
      using halt_returns child_waiting [OF u en(2)] by blast
    moreover have "pcb_status_array v = (pcb_status_array s)[i := 0]"
      using v(3) u en(3,8) iu by (simp add: returned_def child_runs_def)
    ultimately show ?thesis by blast
  qed
  ultimately show ?thesis using en wt(1) by (intro that) simp_all
qed

end
