(* ===== verification/Calls.thy ===== *)
theory Calls
  imports Exec
begin

text \<open>
  What the other system calls give a program, and the commands \<open>execute\<close> does not run: the arguments
  \<open>getargs\<close> copies out, the screen \<open>vidmap\<close> points at, unknown programs and overlong names.
\<close>

section \<open>Arguments and the screen\<close>

text \<open>\<open>getargs\<close> gives a program the arguments \<open>execute\<close> put into its block.\<close>

lemma block_args:
  assumes "args (pcbs s (unat (curr_pid s))) = ys @ replicate (129 - length ys) 0" "0 \<notin> set ys" "length ys \<le> 128"
  shows "strlen (lit (args (pcbs s (unat (curr_pid s))))) = Some (of_nat (length ys))"
proof -
  have "unat (of_nat (length ys) :: u32) = length ys" by (rule unat_of_nat_small) (use assms(3) in simp)
  moreover have "ys ! i \<noteq> 0" if "i < length ys" for i using that assms(2) nth_mem by metis
  moreover have "unat (of_nat i :: u32) = i" if "i < length ys" for i using that assms(3) by (intro unat_of_nat_small) simp
  ultimately have "cstr (lit (ys @ replicate (129 - length ys) 0)) ys"
    using assms(3) by (auto simp: cstr_def lit_def nth_append)
  then show ?thesis using strlen_cstr assms(1) by simp
qed

lemma from_args:
  "length a = n \<Longrightarrow> m \<le> n \<Longrightarrow> m \<le> 8064 \<Longrightarrow> from_args s a m = Some (take m a)"
  "length a = n \<Longrightarrow> n \<le> m \<Longrightarrow> m \<le> 8064 \<Longrightarrow> from_args s a m = Some (a @ map (after_args s) [0..<m - n])"
  by (auto simp: from_args_def nth_append intro!: nth_equalityI)

lemma getargs_copies:
  assumes "runs s p" "curr_pid s < 6" "args (pcbs s (unat (curr_pid s))) = ys @ replicate (129 - length ys) 0" "0 \<notin> set ys"
    and "length ys < m" "length ys \<le> 128" "m \<le> 8064" "user_buffer buf m"
  shows "\<exists>bs t. getargs buf (of_nat m) s = Some (0, t) \<and> ld_bytes t buf m = Some bs
    \<and> take 129 bs = ys @ replicate (min m 129 - length ys) 0 \<and> only_program p s t"
proof -
  let ?a = "args (pcbs s (unat (curr_pid s)))"
  have um: "unat (of_nat m :: u32) = m" by (rule unat_of_nat_small) (use assms(7) in simp)
  have ul: "unat (of_nat (length ys) + 1 :: u32) = length ys + 1"
    using unat_of_nat_small [of "length ys + 1"] assms(5,7) by (simp add: ac_simps)
  have ok: "\<not> (of_nat m :: u32) < of_nat (length ys) + 1" unfolding word_less_nat_alt um ul using assms(5) by simp
  have la: "length ?a = 129" using assms(3,6) by simp
  obtain bs where bs: "from_args s ?a m = Some bs" "length bs = m" "take 129 bs = take (min m 129) ?a"
  proof (cases "m \<le> 129")
    case True
    then show ?thesis using from_args(1) [OF la True assms(7)] la by (intro that [of "take m ?a"]) (simp_all add: min_def)
  next
    case False
    then show ?thesis using from_args(2) [OF la _ assms(7)] la
      by (intro that [of "?a @ map (after_args s) [0..<m - 129]"]) (simp_all add: min_def)
  qed
  have tk: "take 129 bs = ys @ replicate (min m 129 - length ys) 0" 
    using bs(3) assms(3,5,6) by (cases "m \<le> 129") (simp_all add: min_absorb1 min_absorb2 diff_le_mono)
  have ub: "user_buffer buf (length bs)" using assms(8) bs(2) by simp
  obtain t where t: "put_bytes buf bs s = Some t" "only_program p s t" "ld_bytes t buf (length bs) = Some bs"
    by (rule user_copy [OF assms(1) ub])
  have "getargs buf (of_nat m) s = Some (0, t)"
    using assms(2) t(1) ok um block_args [OF assms(3,4,6)] bs(1) by (simp add: getargs_def leD)
  then show ?thesis using t(2,3) bs(2) tk by blast
qed

lemma getargs_short:
  assumes "curr_pid s < 6" "args (pcbs s (unat (curr_pid s))) = ys @ replicate (129 - length ys) 0" "0 \<notin> set ys" "length ys \<le> 128"
    and "m \<le> length ys"
  shows "getargs buf (of_nat m) s = Some (-1, s)"
proof -
  have um: "unat (of_nat m :: u32) = m" by (rule unat_of_nat_small) (use assms(4,5) in simp)
  have ul: "unat (of_nat (length ys) + 1 :: u32) = length ys + 1"
    using unat_of_nat_small [of "length ys + 1"] assms(4) by (simp add: ac_simps)
  have "(of_nat m :: u32) < of_nat (length ys) + 1" unfolding word_less_nat_alt um ul using assms(5) by simp
  then show ?thesis using assms(1) block_args [OF assms(2-4)] by (simp add: getargs_def leD)
qed

text \<open>Through the pointer \<open>vidmap\<close> stores, user code reaches the text screen of the process's terminal.\<close>

definition screen_pointer :: "u8 \<Rightarrow> u32" where
  "screen_pointer c = 0x84B8000 + 0x2000 * ucast c"

lemma screen_pointer_nat:
  assumes "k < 3" "n < 4096"
  shows "unat (0x84B8000 + of_nat (0x2000 * k) + of_nat n :: u32) = 0x84B8000 + 0x2000 * k + n"
proof -
  have "unat (of_nat (0x84B8000 + 0x2000 * k + n) :: u32) = 0x84B8000 + 0x2000 * k + n"
    by (rule unat_of_nat_small) (use assms in simp)
  then show ?thesis by simp
qed

lemma screen_pointer_of: "unat c < 3 \<Longrightarrow> screen_pointer c = 0x84B8000 + of_nat (0x2000 * unat c)"
  by (simp add: screen_pointer_def)

lemma screen_pointer_user:
  assumes "runs s p" "unat c < 3" "n < 4096"
  shows "user_translate s (screen_pointer c + of_nat n) = Some (screen_addr (unat c) n)"
proof -
  let ?k = "unat c" and ?va = "screen_pointer c + of_nat n"
  note r = assms(1) [unfolded runs_def]
  have u: "unat ?va = 0x84B8000 + 0x2000 * ?k + n"
    unfolding screen_pointer_of [OF assms(2)] by (rule screen_pointer_nat [OF assms(2,3)])
  have d: "unat ?va div 4096 = 0x84B8 + 2 * ?k" unfolding u by (rule div_range) (use assms(3) in simp_all)
  have i: "unat ?va div 4194304 = 33" "unat ?va div 4096 mod 1024 = 0xB8 + 2 * ?k"
    unfolding d using u assms(2,3) by (auto simp: div_range_iff dest!: less_3_cases)
  have n: "unat (of_nat n :: u32) = n" by (rule unat_of_nat_small) (use assms(3) in simp)
  have t: "translate s ?va = Some (screen_addr ?k n)"
    unfolding screen_pointer_of [OF assms(2)] screen_addr_def
    using translate_read_screen [of s p "of_nat n" ?k] r assms(2,3) n by simp
  have "page_directory s p 33 = dir_entry (pt_base s) (vt_base s) p 33"
    using r by (simp add: mmu_ok_def tables_ok_def)
  then have d: "pd_user_supervisor (page_directory s p 33)" "pd_present (page_directory s p 33)" "\<not> pd_page_size (page_directory s p 33)"
    "pd_page_table_addr (page_directory s p 33) = ucast (drop_bit 12 (table_addr (vt_base s) p))"
    by (simp_all add: dir_entry_def)
  have "video_table s p (0xB8 + 2 * ?k) = screen_pte ?k"
    using r assms(2) by (auto simp: mmu_ok_def tables_ok_def dest!: less_3_cases)
  moreover have "walk_table s (pd_page_table_addr (page_directory s p 33)) j = Some (video_table s p j)" for j
    unfolding d(4) using r by (intro walk_video_table) (simp_all add: mmu_ok_def)
  moreover have "bit (cr0 s) 31" "current_dir s = Some p" using r by (simp_all add: mmu_ok_def paging_on_def)
  ultimately show ?thesis using t d(1-3) by (simp add: user_translate_def translate_def i Let_def)
qed

lemma word_of_dword: "word_of_bytes [ucast v, ucast (drop_bit 8 v), ucast (drop_bit 16 v), ucast (drop_bit 24 v)] = v"
proof (rule bit_word_eqI)
  fix n :: nat
  assume "n < LENGTH(32)"
  then consider "n < 8" | "8 \<le> n" "n < 16" | "16 \<le> n" "n < 24" | "24 \<le> n" "n < 32" by force
  then show "bit (word_of_bytes [ucast v, ucast (drop_bit 8 v), ucast (drop_bit 16 v), ucast (drop_bit 24 v)]) n = bit v n"
    by cases (auto simp: word_of_bytes_def bit_simps)
qed

lemma vidmap_maps:
  assumes "runs s p" "user_buffer a 4" "unat (curr_term s) < 3"
  shows "\<exists>t. vidmap a s = Some (0, t) \<and> only_program p s t \<and> ld_word t a = Some (screen_pointer (curr_term s))"
proof -
  let ?v = "screen_pointer (curr_term s)"
  let ?bs = "[ucast ?v, ucast (drop_bit 8 ?v), ucast (drop_bit 16 ?v), ucast (drop_bit 24 ?v)] :: u8 list"
  have l: "length ?bs = 4" by simp
  have ub: "user_buffer a (length ?bs)" unfolding l by (rule assms(2))
  obtain t where t: "put_bytes a ?bs s = Some t" "only_program p s t" "ld_bytes t a (length ?bs) = Some ?bs"
    by (rule user_copy [OF assms(1) ub])
  have "word_of_bytes ?bs = ?v" by (rule word_of_dword)
  then have "ld_word t a = Some ?v" using t(3) [unfolded l] by (simp add: ld_word_def del: ld_bytes.simps)
  moreover have "\<not> (a < 0x08000000 \<or> 0x08400000 \<le> a)"
    using assms(2) by (auto simp: user_buffer_def word_less_nat_alt word_le_nat_alt)
  ultimately show ?thesis using t(1,2) by (simp add: vidmap_def st_dword_def screen_pointer_def)
qed

lemma vidmap_refuses: "unat a < 0x8000000 \<or> 0x8400000 \<le> unat a \<Longrightarrow> vidmap a s = Some (-1, s)"
  by (auto simp: vidmap_def word_less_nat_alt word_le_nat_alt)

section \<open>Commands that fail\<close>

lemma tty_of_pic: "tty_of k (disable_irq n s) = tty_of k s" "console_ok (disable_irq n s) = console_ok s"
proof -
  have e: "disable_irq n s = s\<lparr>master_mask := master_mask (disable_irq n s), slave_mask := slave_mask (disable_irq n s), io_log := io_log (disable_irq n s)\<rparr>"
    by (rule pic_rest(2))
  show "tty_of k (disable_irq n s) = tty_of k s" by (subst e) (simp add: tty_of_def cong: if_cong)
  have "views (disable_irq n s) j = views s j" for j using views_mmu [of "disable_irq n s" s] by simp
  moreover have "curr_term (disable_irq n s) = curr_term s" "term_on_screen (disable_irq n s) = term_on_screen s"
    by (subst e, simp)+
  ultimately show "console_ok (disable_irq n s) = console_ok s" by (simp add: console_ok_def)
qed

text \<open>A command whose program is not in the directory: a message, \<open>-1\<close>, and the timer line left
  disabled.\<close>

lemma execute_missing:
  assumes "runs s q" "command_is cmd name ys" "take 5 name \<noteq> bytes ''clear''" "directory_ok s n" "\<forall>k<n. entry_name s k \<noteq> name"
    and "can_show s (bytes ''execute:no such file\<newline>'')"
  shows "\<exists>t. execute cmd s = Some (Done (-1), t) \<and> output_only (disable_irq 0 s) t \<and> \<not> irq_enabled t 0
    \<and> tty_of (unat (curr_term s)) t = fold tty_putc (bytes ''execute:no such file\<newline>'') (tty_of (unat (curr_term s)) s)"
proof -
  let ?s = "disable_irq 0 s" and ?out = "bytes ''execute:no such file\<newline>''"
  note sc = command_scans [OF assms(2)]
  have len: "length name \<le> 32" "length name \<noteq> 0" using assms(2) by (simp_all add: command_is_def)
  obtain c where c: "strncmp (lit (bytes ''clear'' @ [0])) (lit (name @ replicate (32 - length name) 0)) 5 = Some c" "c \<noteq> 0"
    using not_clear [OF sc(3) len(1) assms(3)] by blast
  have k: "kernel_same s ?s" by (rule disable_same [OF assms(1)])
  have r: "runs ?s q" using assms(1) runs_mmu [of ?s s] by simp
  have d: "directory_ok ?s n" "\<forall>k<n. entry_name ?s k \<noteq> name"
    using same_directory(1,2) [OF k assms(4)] assms(5) by simp_all
  have "cstr_n (lit (name @ replicate (32 - length name) 0)) 32 name" using sc(3) len(1) by (intro lit_cstr_n) simp_all
  then have m: "read_dentry_by_name (lit (name @ replicate (32 - length name) 0)) ?s = Some (-1, None)"
    using read_dentry_by_name_first(1) [OF r d(1) _ d(2)] by blast
  have ct: "curr_term ?s = curr_term s" by simp
  have z: "0 \<notin> set ?out" "render ?out [] = Some ?out" by (simp_all add: bytes_def asc_def)
  have cs: "can_show ?s ?out" using assms(6) by (simp add: can_show_def tty_of_pic)
  obtain t where t: "printf ''execute:no such file\<newline>'' [] ?s = Some (of_nat (length ''execute:no such file\<newline>''), t)" "shows_out ?s ?out t"
    by (rule printf_shows [OF z(1) _ z(2) cs]) simp_all
  have "execute cmd s = Some (Done (-1), t)"
    using sc(1,2) len c m t(1) by (simp add: execute_def exec_find_def say_def Let_def)
  moreover have "output_only ?s t" using t(2) by (simp add: shows_out_def)
  moreover have "\<not> irq_enabled t 0"
    using output_only_frame(6,7) [OF \<open>output_only ?s t\<close>] disable_irq_enabled [of 0 0 s] by (simp add: irq_enabled_def)
  ultimately show ?thesis using t(2) by (simp add: shows_out_def tty_of_pic)
qed

text \<open>A command whose first word is longer than \<open>filename\<close> is not rejected before it is copied.\<close>

lemma execute_overlong: "word_at cmd 0 name \<Longrightarrow> 32 \<notin> set name \<Longrightarrow> 32 < length name \<Longrightarrow> execute cmd s = None"
  using scan_name_overflow [of cmd name 0 "replicate 32 0"] by (simp add: execute_def Let_def)

end
