(* ===== verification/Clearing.thy ===== *)
theory Clearing
  imports Calls
begin

text \<open>
  The loops that blank a screen: the one of \<open>execute ("clear")\<close> and \<open>entry\<close>, which goes through VGA memory
  as the running process sees it, and \<open>clear\<close>, which writes the screen that is shown.
\<close>

section \<open>Blanking the screen\<close>

definition blanked :: "nat \<Rightarrow> nat \<Rightarrow> 'a machine_scheme \<Rightarrow> 'a machine_scheme \<Rightarrow> bool" where
  "blanked k n s t \<longleftrightarrow> t = s\<lparr>phys := phys t\<rparr> \<and> (\<forall>a. \<not> in_screen k a \<longrightarrow> phys t a = phys s a)
     \<and> (\<forall>i<n. phys t (cell k i) = 32 \<and> phys t (attr k i) = 7)"

lemma blank_cell_step:
  assumes "views s k" "blanked k i s t" "i < 1920"
  shows "\<exists>u. blank_cell i t = Some u \<and> blanked k (Suc i) s u"
proof -
  have k: "k < 3" by (rule views_less [OF assms(1)])
  have i: "unat (of_nat i :: u32) = i" by (rule unat_of_nat_small) (use assms(3) in simp)
  have "mmu t = mmu s" using assms(2) by (metis blanked_def mmu_io(5))
  then have v: "views t k" using assms(1) views_mmu by blast
  let ?t = "t\<lparr>phys := (phys t)(cell k i := 32)\<rparr>"
  let ?u = "?t\<lparr>phys := (phys ?t)(attr k i := 7)\<rparr>"
  have "blank_cell i t = Some ?u"
    using vga_access(2) [OF v, of "of_nat i"] vga_access(3) [of ?t k "of_nat i"] v assms(3) i by (simp add: blank_cell_def)
  moreover have "blanked k (Suc i) s ?u"
    unfolding blanked_def
  proof (intro conjI allI impI)
    obtain ph where t: "t = s\<lparr>phys := ph\<rparr>" using assms(2) by (auto simp: blanked_def)
    show "?u = s\<lparr>phys := phys ?u\<rparr>" unfolding t by simp
    show "\<not> in_screen k a \<Longrightarrow> phys ?u a = phys s a" for a
      using assms(2,3) cell_in_screen [OF k, of i] by (auto simp: blanked_def)
    fix j
    assume "j < Suc i"
    then show "phys ?u (cell k j) = 32" "phys ?u (attr k j) = 7"
      using assms(2,3) cell_attr [OF k, of j i] cell_attr [OF k, of i j] attr_inj [OF k, of j i] cell_inj [OF k, of j i]
      by (auto simp: blanked_def less_Suc_eq)
  qed
  ultimately show ?thesis by blast
qed

lemma blank_screen:
  assumes "views s k"
  obtains t where "foldM blank_cell [0..<1920] s = Some t" "blanked k 1920 s t"
proof -
  have "\<exists>t. foldM blank_cell [0..<1920] s = Some t \<and> blanked k 1920 s t"
    by (rule foldM_upt [where P = "\<lambda>i. blanked k i s"]) (use blank_cell_step [OF assms] in \<open>auto simp: blanked_def\<close>)
  then show ?thesis using that by blast
qed

section \<open>The function clear\<close>

lemma clear_cell_step:
  assumes "views s k" "unat (term_on_screen s) = k" "blanked k i s t" "i < 1920" "mmu_ok s"
  shows "\<exists>u. clear_cell i t = Some u \<and> blanked k (Suc i) s u"
proof -
  obtain ph where t: "t = s\<lparr>phys := ph\<rparr>" using assms(3) by (auto simp: blanked_def)
  have i: "unat (of_nat i :: u32) = i" by (rule unat_of_nat_small) (use assms(4) in simp)
  obtain p where p: "p < 6" "current_dir s = Some p" "mmu_ok s"
    using assms(1,5) by (auto simp: views_def mmu_ok_def paging_on_def)
  have a: "st (vga (shown_screen r) (of_nat i)) b r = Some (r\<lparr>phys := (phys r)(cell k i := b)\<rparr>)"
    "st (vga (shown_screen r) (of_nat i) + 1) b r = Some (r\<lparr>phys := (phys r)(attr k i := b)\<rparr>)" if "r = s\<lparr>phys := f\<rparr>" for r f b
  proof -
    have m: "mmu r = mmu s" unfolding that by simp
    have r: "mmu_ok r" "current_dir r = Some p" "unat (term_on_screen r) < 3" "unat (of_nat i :: u32) < 2048"
      "unat (term_on_screen r) = k"
      using p mmu_cong(3,4) [OF m] views_less [OF assms(1)] assms(2,4) i that by simp_all
    show "st (vga (shown_screen r) (of_nat i)) b r = Some (r\<lparr>phys := (phys r)(cell k i := b)\<rparr>)"
      "st (vga (shown_screen r) (of_nat i) + 1) b r = Some (r\<lparr>phys := (phys r)(attr k i := b)\<rparr>)"
      using shown_access [OF r(1,2) p(1) r(3,4)] r(5) i by simp_all
  qed
  have v: "views t k" using assms(1) t by simp
  have "clear_cell i t = Some (t\<lparr>phys := (phys t)(cell k i := 32, attr k i := 7)\<rparr>)"
    using a(1) [OF t, of 32] a(2) [of "s\<lparr>phys := ph(cell k i := 32)\<rparr>", OF refl, of 7] by (simp add: clear_cell_def t)
  moreover have "blank_cell i t = Some (t\<lparr>phys := (phys t)(cell k i := 32, attr k i := 7)\<rparr>)"
    using vga_access(2) [OF v, of "of_nat i"] vga_access(3) [of "t\<lparr>phys := (phys t)(cell k i := 32)\<rparr>" k "of_nat i"] v assms(4) i
    by (simp add: blank_cell_def)
  ultimately show ?thesis using blank_cell_step [OF assms(1,3,4)] by simp
qed

definition blank_tty :: tty where
  "blank_tty = \<lparr> tty_char = (\<lambda>n. if n < 1920 then 32 else 0), tty_x = 0, tty_y = 0 \<rparr>"

lemma clear_shows:
  assumes "console_ok s" "term_on_screen s = curr_term s" "tty_fits (bytes ''391OS>'' @ xs) blank_tty" "mmu_ok s"
  obtains t where "clear s = Some t" "tty_of (unat (curr_term s)) t = fold tty_putc (bytes ''391OS>'') blank_tty"
    "output_only s t" "can_show t xs"
proof -
  let ?k = "unat (curr_term s)"
  have v: "views s ?k" using assms(1) by (simp add: console_ok_def)
  have "\<exists>t. foldM clear_cell [0..<1920] s = Some t \<and> blanked ?k 1920 s t"
    by (rule foldM_upt [where P = "\<lambda>i. blanked ?k i s"]) (use clear_cell_step [OF v] assms(2,4) in \<open>auto simp: blanked_def\<close>)
  then obtain b where b: "foldM clear_cell [0..<1920] s = Some b" "blanked ?k 1920 s b" by blast
  obtain ph where be: "b = s\<lparr>phys := ph\<rparr>" using b(2) by (auto simp: blanked_def)
  let ?r = "reset_cursor b"
  have r: "?r = place s ph 0 0 (io_log s)"
    by (simp add: be reset_cursor_def upd_shown_def upd_term_def place_def cur_def assms(2))
  have o: "output_only s ?r" unfolding r by (rule output_only_place) (use b(2) be in \<open>simp add: blanked_def\<close>)
  have ty: "tty_of ?k ?r = blank_tty"
    unfolding r by (subst tty_of_place) (use b(2) be in \<open>auto simp: blanked_def blank_tty_def\<close>)
  have c: "curr_term ?r = curr_term s" by (rule output_only_frame(2) [OF o])
  have cs: "can_show ?r (bytes ''391OS>'' @ xs)"
    using console_ok_output [OF o assms(1)] assms(3) ty by (simp add: can_show_def c) (simp add: tty_ok_def blank_tty_def)
  obtain u where u: "puts_const ''391OS>'' ?r = Some u" "shows_out ?r (bytes ''391OS>'') u"
    by (rule puts_const_shows [OF _ _ can_show_first [OF cs]]) (simp_all add: bytes_def asc_def)
  have cu: "can_show u xs" by (rule can_show_rest [OF cs u(2)])
  obtain l where l: "update_cursor u = u\<lparr>io_log := l\<rparr>" using update_cursor_log by blast
  have "clear s = Some (u\<lparr>io_log := l\<rparr>)" using b(1) u(1) l by (simp add: clear_def)
  moreover have tl: "tty_of m (u\<lparr>io_log := l\<rparr>) = tty_of m u" for m by (simp add: tty_of_def cong: if_cong)
  moreover have lo: "output_only u (u\<lparr>io_log := l\<rparr>)"
    unfolding output_only_def cur_def
    by (rule exI [of _ "phys u"], rule exI [of _ l], rule exI [of _ "terms u (unat (curr_term u))"]) simp
  moreover have "output_only ?r u" using u(2) by (simp add: shows_out_def)
  then have "output_only s (u\<lparr>io_log := l\<rparr>)" by (rule output_only_trans [OF o output_only_trans [OF _ lo]])
  moreover have "tty_of ?k (u\<lparr>io_log := l\<rparr>) = fold tty_putc (bytes ''391OS>'') blank_tty"
    using u(2) ty c by (simp add: shows_out_def tl)
  moreover have "can_show (u\<lparr>io_log := l\<rparr>) xs"
    using cu console_ok_output [OF lo] by (simp add: can_show_def tl)
  ultimately show ?thesis using that by blast
qed

end
