(* ===== verification/Handlers.thy ===== *)
theory Handlers
  imports Clearing
begin

text \<open>
  \<open>inthandler.c\<close>, the vector tables of \<open>kernel.c\<close> and the descriptor layouts of \<open>x86_desc.h\<close>: what each
  exception handler does, which handler each interrupt vector gets, and what the processor makes of the
  entries. The addresses of the handlers are the linker's, an argument of the definitions.
\<close>

section \<open>Handlers\<close>

text \<open>The exception handlers end in \<open>while(1)\<close>; the default handler returns.\<close>

datatype after = Spins | Returns

definition report :: "string \<Rightarrow> 'a console_scheme \<Rightarrow> (after \<times> 'a console_scheme) option" where
  "report str s = do { s \<leftarrow> clear s; s \<leftarrow> say str s; Some (Spins, s) }"

definition div_by_0 :: "'a console_scheme \<Rightarrow> (after \<times> 'a console_scheme) option" where
  "div_by_0 = report ''Exception 0:divided by 0!\<newline>''"

definition debugger :: "'a console_scheme \<Rightarrow> (after \<times> 'a console_scheme) option" where
  "debugger = report ''Exception 1:debugger\<newline>''"

definition nmi :: "'a console_scheme \<Rightarrow> (after \<times> 'a console_scheme) option" where
  "nmi = report ''Exception 2:NMI\<newline>''"

definition breakpoint :: "'a console_scheme \<Rightarrow> (after \<times> 'a console_scheme) option" where
  "breakpoint = report ''Exception 3:breakpoint\<newline>''"

definition over_flow :: "'a console_scheme \<Rightarrow> (after \<times> 'a console_scheme) option" where
  "over_flow = report ''Exception 4:overflow\<newline>''"

definition bounds :: "'a console_scheme \<Rightarrow> (after \<times> 'a console_scheme) option" where
  "bounds = report ''Exception 5:bounds\<newline>''"

definition opcode_invalid :: "'a console_scheme \<Rightarrow> (after \<times> 'a console_scheme) option" where
  "opcode_invalid = report ''Exception 6:opcode invalid\<newline>''"

definition no_coprocessor :: "'a console_scheme \<Rightarrow> (after \<times> 'a console_scheme) option" where
  "no_coprocessor = report ''Exception 7:coprocessor not available\<newline>''"

definition double_fault :: "'a console_scheme \<Rightarrow> (after \<times> 'a console_scheme) option" where
  "double_fault = report ''Exception 8:double fault\<newline>''"

definition coprocessor_segment :: "'a console_scheme \<Rightarrow> (after \<times> 'a console_scheme) option" where
  "coprocessor_segment = report ''Exception 9:coprocessor segment overrun\<newline>''"

definition invalid_task_state :: "'a console_scheme \<Rightarrow> (after \<times> 'a console_scheme) option" where
  "invalid_task_state = report ''Exception 10:invalid task state segment\<newline>''"

definition segment_not_present :: "'a console_scheme \<Rightarrow> (after \<times> 'a console_scheme) option" where
  "segment_not_present = report ''Exception 11:segment not present\<newline>''"

definition stack_fault :: "'a console_scheme \<Rightarrow> (after \<times> 'a console_scheme) option" where
  "stack_fault = report ''Exception 12:stack fault\<newline>''"

definition general_protection_fault :: "'a console_scheme \<Rightarrow> (after \<times> 'a console_scheme) option" where
  "general_protection_fault = report ''Exception 13:general protection fault\<newline>''"

definition page_fault :: "'a console_scheme \<Rightarrow> (after \<times> 'a console_scheme) option" where
  "page_fault s = do { s \<leftarrow> say ''Exception 14:page fault\<newline>'' (flush_tlb 0 s); Some (Spins, s) }"

definition reserved :: "'a console_scheme \<Rightarrow> (after \<times> 'a console_scheme) option" where
  "reserved = report ''Exception 15:reserved\<newline>''"

definition math_fault :: "'a console_scheme \<Rightarrow> (after \<times> 'a console_scheme) option" where
  "math_fault = report ''Exception 16:math fault\<newline>''"

definition align_check :: "'a console_scheme \<Rightarrow> (after \<times> 'a console_scheme) option" where
  "align_check = report ''Exception 16:alignment check\<newline>''"

definition machine_check :: "'a console_scheme \<Rightarrow> (after \<times> 'a console_scheme) option" where
  "machine_check = report ''Exception 17:machine check\<newline>''"

definition SIMD_floating :: "'a console_scheme \<Rightarrow> (after \<times> 'a console_scheme) option" where
  "SIMD_floating = report ''Exception 18:SIMD floating point exception\<newline>''"

definition dfthand :: "'a console_scheme \<Rightarrow> (after \<times> 'a console_scheme) option" where
  "dfthand s =
     do { s \<leftarrow> clear s;
          s \<leftarrow> say ''Exception & Interrupt:default handler\<newline>'' s;
          Some (Returns, s) }"

section \<open>The vector tables\<close>

text \<open>The routines a vector can point to.\<close>

datatype handler = Div_by_0 | Debugger | Nmi | Breakpoint | Over_flow | Bounds | Opcode_invalid | No_coprocessor
  | Double_fault | Coprocessor_segment | Invalid_task_state | Segment_not_present | Stack_fault
  | General_protection_fault | Page_fault | Reserved | Math_fault | Align_check | Machine_check | Simd_floating
  | Timer_hand | Kbd | Dfthand | Rtc_handler | Sys_call_handler

definition exception_table :: "handler list" where
  "exception_table = [Div_by_0, Debugger, Nmi, Breakpoint, Over_flow, Bounds, Opcode_invalid, No_coprocessor,
     Double_fault, Coprocessor_segment, Invalid_task_state, Segment_not_present, Stack_fault,
     General_protection_fault, Page_fault, Reserved, Math_fault, Align_check, Machine_check, Simd_floating]"

definition int_table :: "handler list" where
  "int_table = [Timer_hand, Kbd, Dfthand, Dfthand, Dfthand, Dfthand, Dfthand, Dfthand,
     Rtc_handler, Dfthand, Dfthand, Dfthand, Dfthand, Dfthand, Dfthand, Dfthand]"

text \<open>The functions the first table names, in its order.\<close>

definition exception_handlers :: "('a console_scheme \<Rightarrow> (after \<times> 'a console_scheme) option) list" where
  "exception_handlers = [div_by_0, debugger, nmi, breakpoint, over_flow, bounds, opcode_invalid, no_coprocessor,
     double_fault, coprocessor_segment, invalid_task_state, segment_not_present, stack_fault,
     general_protection_fault, page_fault, reserved, math_fault, align_check, machine_check, SIMD_floating]"

section \<open>Interrupt descriptors\<close>

record idt_desc =
  offset_15_00 :: u16
  seg_selector :: u16
  reserved4 :: u8
  reserved3 :: bool
  reserved2 :: bool
  reserved1 :: bool
  gate_size :: bool
  reserved0 :: bool
  gate_dpl :: "2 word"
  gate_present :: bool
  offset_31_16 :: u16

definition KERNEL_CS :: u16 where
  "KERNEL_CS = 0x10"

definition SET_IDT_ENTRY :: "u32 \<Rightarrow> idt_desc \<Rightarrow> idt_desc" where
  "SET_IDT_ENTRY handler str =
     str\<lparr>offset_31_16 := ucast (drop_bit 16 (handler AND 0xFFFF0000)), offset_15_00 := ucast (handler AND 0xFFFF)\<rparr>"

text \<open>The three assignments sequences of \<open>entry\<close> differ in \<open>reserved3\<close> and \<open>dpl\<close>.\<close>

definition set_gate :: "bool \<Rightarrow> 2 word \<Rightarrow> u32 \<Rightarrow> idt_desc \<Rightarrow> idt_desc" where
  "set_gate trap dpl handler d =
     SET_IDT_ENTRY handler (d\<lparr>seg_selector := KERNEL_CS, reserved4 := 0, reserved3 := trap, reserved2 := True,
       reserved1 := True, gate_size := True, reserved0 := False, gate_dpl := dpl, gate_present := True\<rparr>)"

definition set_exceptions :: "(handler \<Rightarrow> u32) \<Rightarrow> (nat \<Rightarrow> idt_desc) \<Rightarrow> nat \<Rightarrow> idt_desc" where
  "set_exceptions link idt = fold (\<lambda>i idt. idt(i := set_gate False 0 (link (exception_table ! i)) (idt i))) [0..<20] idt"

definition set_interrupts :: "(handler \<Rightarrow> u32) \<Rightarrow> (nat \<Rightarrow> idt_desc) \<Rightarrow> nat \<Rightarrow> idt_desc" where
  "set_interrupts link idt = fold (\<lambda>i idt. idt(i := set_gate False 0 (link (int_table ! (i - 32))) (idt i))) [32..<48] idt"

definition set_syscall :: "(handler \<Rightarrow> u32) \<Rightarrow> (nat \<Rightarrow> idt_desc) \<Rightarrow> nat \<Rightarrow> idt_desc" where
  "set_syscall link idt = idt(128 := set_gate True 3 (link Sys_call_handler) (idt 128))"

definition set_vectors :: "(handler \<Rightarrow> u32) \<Rightarrow> (nat \<Rightarrow> idt_desc) \<Rightarrow> nat \<Rightarrow> idt_desc" where
  "set_vectors link idt = set_syscall link (set_interrupts link (set_exceptions link idt))"

text \<open>The packed layout, and how the processor reads it: a gate that is not present, is not a 32-bit interrupt
  or trap gate, or is reached by an \<open>INT\<close> instruction from user code and has \<open>dpl\<close> below 3, faults. Otherwise
  control goes to the offset; an interrupt gate also clears the interrupt flag.\<close>

definition gate_word :: "idt_desc \<Rightarrow> 64 word" where
  "gate_word d = ucast (offset_15_00 d) OR push_bit 16 (ucast (seg_selector d)) OR push_bit 32 (ucast (reserved4 d))
     OR push_bit 40 (of_bool (reserved3 d)) OR push_bit 41 (of_bool (reserved2 d)) OR push_bit 42 (of_bool (reserved1 d))
     OR push_bit 43 (of_bool (gate_size d)) OR push_bit 44 (of_bool (reserved0 d)) OR push_bit 45 (ucast (gate_dpl d))
     OR push_bit 47 (of_bool (gate_present d)) OR push_bit 48 (ucast (offset_31_16 d))"

record delivery =
  to_selector :: u16
  to_offset :: u32
  clears_iflag :: bool

definition deliver :: "bool \<Rightarrow> 64 word \<Rightarrow> delivery option" where
  "deliver from_user w =
     (let kind = ucast (drop_bit 40 w) AND 0x1F :: u8;
          dpl = ucast (drop_bit 45 w) :: 2 word
      in if \<not> bit w 47 \<or> kind \<notin> {0x0E, 0x0F} \<or> from_user \<and> dpl \<noteq> 3 then None
         else Some \<lparr> to_selector = ucast (drop_bit 16 w),
                     to_offset = push_bit 16 (ucast (drop_bit 48 w)) OR ucast (ucast w :: u16),
                     clears_iflag = (kind = 0x0E) \<rparr>)"

section \<open>What the vectors do\<close>

text \<open>Each bit of the packed word belongs to one field.\<close>

lemma field_64:
  "m + LENGTH('a) \<le> 64 \<Longrightarrow> bit (push_bit m (ucast (v :: 'a::len word)) :: 64 word) n \<longleftrightarrow> m \<le> n \<and> n < m + LENGTH('a) \<and> bit v (n - m)"
  "LENGTH('a) \<le> 64 \<Longrightarrow> bit (ucast v :: 64 word) n \<longleftrightarrow> n < LENGTH('a) \<and> bit v n"
  "m < 64 \<Longrightarrow> bit (push_bit m (of_bool b) :: 64 word) n \<longleftrightarrow> n = m \<and> b"
  by (auto simp: bit_simps dest: bit_imp_le_length)

lemma bit_gate_word:
  "bit (gate_word d) n \<longleftrightarrow> n < 16 \<and> bit (offset_15_00 d) n \<or> 16 \<le> n \<and> n < 32 \<and> bit (seg_selector d) (n - 16)
     \<or> 32 \<le> n \<and> n < 40 \<and> bit (reserved4 d) (n - 32) \<or> n = 40 \<and> reserved3 d \<or> n = 41 \<and> reserved2 d \<or> n = 42 \<and> reserved1 d
     \<or> n = 43 \<and> gate_size d \<or> n = 44 \<and> reserved0 d \<or> 45 \<le> n \<and> n < 47 \<and> bit (gate_dpl d) (n - 45)
     \<or> n = 47 \<and> gate_present d \<or> 48 \<le> n \<and> n < 64 \<and> bit (offset_31_16 d) (n - 48)"
  unfolding gate_word_def bit_or_iff by (simp add: field_64)

lemma set_gate_fields [simp]:
  "seg_selector (set_gate trap dpl h d) = KERNEL_CS" "reserved4 (set_gate trap dpl h d) = 0"
  "reserved3 (set_gate trap dpl h d) = trap" "reserved2 (set_gate trap dpl h d)" "reserved1 (set_gate trap dpl h d)"
  "gate_size (set_gate trap dpl h d)" "\<not> reserved0 (set_gate trap dpl h d)" "gate_dpl (set_gate trap dpl h d) = dpl"
  "gate_present (set_gate trap dpl h d)"
  "bit (offset_15_00 (set_gate trap dpl h d)) n \<longleftrightarrow> n < 16 \<and> bit h n"
  "bit (offset_31_16 (set_gate trap dpl h d)) n \<longleftrightarrow> n < 16 \<and> bit h (n + 16)"
proof -
  have m: "(0xFFFF0000 :: u32) = push_bit 16 (mask 16)" "(0xFFFF :: u32) = mask 16" by (simp_all add: mask_eq_exp_minus_1)
  show "bit (offset_15_00 (set_gate trap dpl h d)) n \<longleftrightarrow> n < 16 \<and> bit h n"
    "bit (offset_31_16 (set_gate trap dpl h d)) n \<longleftrightarrow> n < 16 \<and> bit h (n + 16)"
    by (auto simp: set_gate_def SET_IDT_ENTRY_def m bit_simps ac_simps)
qed (simp_all add: set_gate_def SET_IDT_ENTRY_def)

lemma deliver_gate:
  "deliver u (gate_word (set_gate trap dpl h d)) = (if u \<and> dpl \<noteq> 3 then None
     else Some \<lparr> to_selector = KERNEL_CS, to_offset = h, clears_iflag = (\<not> trap) \<rparr>)"
proof -
  let ?w = "gate_word (set_gate trap dpl h d)"
  have "bit ((ucast (drop_bit 40 ?w) AND 0x1F :: u8)) n \<longleftrightarrow> bit (if trap then 0x0F else 0x0E :: u8) n" if "n < 8" for n
  proof -
    have "n = 0 \<or> n = 1 \<or> n = 2 \<or> n = 3 \<or> n = 4 \<or> n = 5 \<or> n = 6 \<or> n = 7" using that by auto
    then show ?thesis by (elim disjE) (simp_all add: bit_simps bit_gate_word bit_numeral_rec)
  qed
  then have k: "(ucast (drop_bit 40 ?w) AND 0x1F :: u8) = (if trap then 0x0F else 0x0E)" by (intro bit_word_eqI) simp
  have p: "(ucast (drop_bit 45 ?w) :: 2 word) = dpl"
    by (rule bit_word_eqI) (auto simp: bit_simps bit_gate_word)
  have s: "(ucast (drop_bit 16 ?w) :: u16) = KERNEL_CS"
    by (rule bit_word_eqI) (auto simp: bit_simps bit_gate_word)
  have o: "push_bit 16 (ucast (drop_bit 48 ?w)) OR ucast (ucast ?w :: u16) = h"
    by (rule bit_word_eqI) (auto simp: bit_simps bit_gate_word)
  have "bit ?w 47" by (simp add: bit_gate_word)
  then show ?thesis by (simp add: deliver_def Let_def k p s o)
qed

lemma fold_gates:
  "distinct is \<Longrightarrow> fold (\<lambda>i f. f(i := g i (f i))) is f = (\<lambda>i. if i \<in> set is then g i (f i) else f i)"
  by (induction "is" arbitrary: f) (auto simp: fun_eq_iff)

lemma set_vectors_entry:
  "i < 20 \<Longrightarrow> set_vectors link idt i = set_gate False 0 (link (exception_table ! i)) (idt i)"
  "32 \<le> i \<Longrightarrow> i < 48 \<Longrightarrow> set_vectors link idt i = set_gate False 0 (link (int_table ! (i - 32))) (idt i)"
  "set_vectors link idt 128 = set_gate True 3 (link Sys_call_handler) (idt 128)"
  "20 \<le> i \<Longrightarrow> i < 32 \<or> 48 \<le> i \<Longrightarrow> i \<noteq> 128 \<Longrightarrow> set_vectors link idt i = idt i"
proof -
  have e: "set_exceptions link idt = (\<lambda>i. if i < 20 then set_gate False 0 (link (exception_table ! i)) (idt i) else idt i)"
    unfolding set_exceptions_def fold_gates [OF distinct_upt, of "\<lambda>i. set_gate False 0 (link (exception_table ! i))"] set_upt by simp
  have n: "set_interrupts link f = (\<lambda>i. if 32 \<le> i \<and> i < 48 then set_gate False 0 (link (int_table ! (i - 32))) (f i) else f i)" for f
    unfolding set_interrupts_def fold_gates [OF distinct_upt, of "\<lambda>i. set_gate False 0 (link (int_table ! (i - 32)))"] set_upt by simp
  show "i < 20 \<Longrightarrow> set_vectors link idt i = set_gate False 0 (link (exception_table ! i)) (idt i)"
    "32 \<le> i \<Longrightarrow> i < 48 \<Longrightarrow> set_vectors link idt i = set_gate False 0 (link (int_table ! (i - 32))) (idt i)"
    "set_vectors link idt 128 = set_gate True 3 (link Sys_call_handler) (idt 128)"
    "20 \<le> i \<Longrightarrow> i < 32 \<or> 48 \<le> i \<Longrightarrow> i \<noteq> 128 \<Longrightarrow> set_vectors link idt i = idt i"
    by (simp_all add: set_vectors_def set_syscall_def e n) auto
qed

section \<open>What the exception handlers do\<close>

text \<open>One line of text fits a screen whose cursor is near the left.\<close>

lemma line_fits: "10 \<notin> set xs \<Longrightarrow> 13 \<notin> set xs \<Longrightarrow> tty_x t + length xs < 80 \<Longrightarrow> tty_fits (xs @ [10]) t"
  by (induction xs arbitrary: t) (auto simp: tty_last_def tty_putc_def Let_def)

lemma render_plain: "37 \<notin> set xs \<Longrightarrow> render xs as = Some xs"
  by (induction xs) (auto simp: asc_codes)

lemma report_shows:
  assumes "console_ok s" "term_on_screen s = curr_term s" "bytes str = xs @ [10]" "length xs < 70"
    and "\<forall>c\<in>set xs. c \<notin> {0, 10, 13, 37}" "mmu_ok s"
  obtains t where "report str s = Some (Spins, t)" "output_only s t"
    "tty_of (unat (curr_term s)) t = fold tty_putc (bytes ''391OS>'' @ bytes str) blank_tty"
proof -
  have "tty_fits ((bytes ''391OS>'' @ xs) @ [10]) blank_tty"
    by (rule line_fits) (use assms(4,5) in \<open>auto simp: bytes_def asc_def blank_tty_def\<close>)
  then have f: "tty_fits (bytes ''391OS>'' @ bytes str) blank_tty" by (simp add: assms(3))
  obtain u where u: "clear s = Some u" "tty_of (unat (curr_term s)) u = fold tty_putc (bytes ''391OS>'') blank_tty"
    "output_only s u" "can_show u (bytes str)"
    by (rule clear_shows [OF assms(1,2) f assms(6)])
  have r: "render (bytes str) [] = Some (bytes str)" by (rule render_plain) (use assms(3,5) in auto)
  have l: "length str < 2 ^ 31"
    using arg_cong [OF assms(3), of length] assms(4) by (simp add: bytes_def)
  obtain t where t: "printf str [] u = Some (of_nat (length str), t)" "shows_out u (bytes str) t"
    by (rule printf_shows [OF _ l r u(4)]) (use assms(3,5) in auto)
  have "report str s = Some (Spins, t)" using u(1) t(1) by (simp add: report_def say_def)
  moreover have "output_only s t" using u(3) t(2) output_only_trans by (auto simp: shows_out_def)
  moreover have "tty_of (unat (curr_term s)) t = fold tty_putc (bytes ''391OS>'' @ bytes str) blank_tty"
    using t(2) u(2) output_only_frame(2) [OF u(3)] by (simp add: shows_out_def)
  ultimately show ?thesis by (rule that)
qed

text \<open>The messages, in the order of the vectors.\<close>

definition exception_texts :: "string list" where
  "exception_texts = [''Exception 0:divided by 0!'', ''Exception 1:debugger'', ''Exception 2:NMI'', ''Exception 3:breakpoint'',
     ''Exception 4:overflow'', ''Exception 5:bounds'', ''Exception 6:opcode invalid'',
     ''Exception 7:coprocessor not available'', ''Exception 8:double fault'', ''Exception 9:coprocessor segment overrun'',
     ''Exception 10:invalid task state segment'', ''Exception 11:segment not present'', ''Exception 12:stack fault'',
     ''Exception 13:general protection fault'', ''Exception 14:page fault'', ''Exception 15:reserved'',
     ''Exception 16:math fault'', ''Exception 16:alignment check'', ''Exception 17:machine check'',
     ''Exception 18:SIMD floating point exception'']"

lemma exception_handlers_report:
  "i < 20 \<Longrightarrow> i \<noteq> 14 \<Longrightarrow> exception_handlers ! i = report (exception_texts ! i @ ''\<newline>'')"
proof -
  have "\<forall>i<20. i \<noteq> 14 \<longrightarrow> exception_handlers ! i = report (exception_texts ! i @ ''\<newline>'')"
    by (simp add: numeral_eq_Suc forall_less_Suc_shift exception_handlers_def exception_texts_def
        div_by_0_def debugger_def nmi_def breakpoint_def over_flow_def bounds_def opcode_invalid_def no_coprocessor_def
        double_fault_def coprocessor_segment_def invalid_task_state_def segment_not_present_def stack_fault_def
        general_protection_fault_def reserved_def math_fault_def align_check_def machine_check_def SIMD_floating_def)
  then show "i < 20 \<Longrightarrow> i \<noteq> 14 \<Longrightarrow> exception_handlers ! i = report (exception_texts ! i @ ''\<newline>'')" by blast
qed

lemma exception_texts_plain:
  "\<forall>str\<in>set exception_texts. length str < 70 \<and> (\<forall>c\<in>set (bytes str). c \<notin> {0, 10, 13, 37})"
  by (simp add: exception_texts_def bytes_def asc_def)

end
