(* ===== verification/Boot.thy ===== *)
theory Boot
  imports Handlers
begin

text \<open>
  \<open>kernel.c\<close>: \<open>entry\<close>, from the boot loader's registers to the first shell, with the two segment
  descriptors of \<open>x86_desc.h\<close>, the boot information of \<open>multiboot.h\<close> and the user table of \<open>user.c\<close>. Paging
  is off until \<open>init_paging\<close>, so addresses before that are physical. Interrupts that arrive during the
  sequence are left out.
\<close>

section \<open>Segment descriptors\<close>

record seg_desc =
  seg_lim_15_00 :: u16
  base_15_00 :: u16
  base_23_16 :: u8
  seg_type :: "4 word"
  seg_sys :: bool
  seg_dpl :: "2 word"
  seg_present :: bool
  seg_lim_19_16 :: "4 word"
  seg_avail :: bool
  seg_reserved :: bool
  seg_opsize :: bool
  seg_granularity :: bool
  base_31_24 :: u8

text \<open>\<open>SET_LDT_PARAMS\<close> and \<open>SET_TSS_PARAMS\<close> have the same body.\<close>

definition SET_PARAMS :: "u32 \<Rightarrow> u32 \<Rightarrow> seg_desc \<Rightarrow> seg_desc" where
  "SET_PARAMS a lim str =
     str\<lparr>base_31_24 := ucast (drop_bit 24 (a AND 0xFF000000)), base_23_16 := ucast (drop_bit 16 (a AND 0x00FF0000)),
       base_15_00 := ucast (a AND 0x0000FFFF), seg_lim_19_16 := ucast (drop_bit 16 (lim AND 0x000F0000)),
       seg_lim_15_00 := ucast (lim AND 0x0000FFFF)\<rparr>"

definition TSS_SIZE :: u32 where
  "TSS_SIZE = 104"

definition ldt_descriptor :: "u32 \<Rightarrow> u32 \<Rightarrow> seg_desc \<Rightarrow> seg_desc" where
  "ldt_descriptor ldt ldt_size d =
     SET_PARAMS ldt ldt_size (d\<lparr>seg_granularity := False, seg_opsize := True, seg_reserved := False, seg_avail := False,
       seg_present := True, seg_dpl := 0, seg_sys := False, seg_type := 2\<rparr>)"

definition tss_descriptor :: "u32 \<Rightarrow> u32 \<Rightarrow> seg_desc \<Rightarrow> seg_desc" where
  "tss_descriptor tss tss_size d =
     SET_PARAMS tss tss_size (d\<lparr>seg_granularity := False, seg_opsize := False, seg_reserved := False, seg_avail := False,
       seg_lim_19_16 := ucast (TSS_SIZE AND 0x000F0000), seg_present := True, seg_dpl := 0, seg_sys := False, seg_type := 9,
       seg_lim_15_00 := ucast (TSS_SIZE AND 0x0000FFFF)\<rparr>)"

section \<open>State\<close>

record user_t =
  username :: "u8 list"
  password :: "u8 list"
  authrization :: u8

text \<open>What \<open>lidt\<close>, \<open>lldt\<close> and \<open>ltr\<close> load, and the tables they refer to.\<close>

record boot = kernel +
  idt :: "nat \<Rightarrow> idt_desc"
  ldt_desc_ptr :: seg_desc
  tss_desc_ptr :: seg_desc
  tss_ldt_selector :: u16
  idtr_loaded :: bool
  ldtr :: u16
  task_register :: u16
  users :: "nat \<Rightarrow> user_t"

text \<open>What the linker and the assembly files the kernel is linked with provide.\<close>

record link =
  routine :: "handler \<Rightarrow> u32"
  ldt_addr :: u32
  ldt_size :: u32
  tss_addr :: u32
  tss_size :: u32
  desc_slot :: seg_desc

definition KERNEL_TSS :: u16 where
  "KERNEL_TSS = 0x30"

definition KERNEL_LDT :: u16 where
  "KERNEL_LDT = 0x38"

section \<open>The boot information\<close>

definition MULTIBOOT_BOOTLOADER_MAGIC :: u32 where
  "MULTIBOOT_BOOTLOADER_MAGIC = 0x2BADB002"

text \<open>The offsets of the fields of \<open>multiboot_info_t\<close>; a list gives several of them in order.\<close>

definition multiboot_offset :: "string \<Rightarrow> u32" where
  "multiboot_offset field =
     (if field = ''flags'' then 0 else if field = ''mem_lower'' then 4 else if field = ''mem_upper'' then 8
      else if field = ''boot_device'' then 12 else if field = ''cmdline'' then 16 else if field = ''mods_count'' then 20
      else if field = ''mods_addr'' then 24 else if field = ''elf_sec.num'' then 28 else if field = ''elf_sec.size'' then 32
      else if field = ''elf_sec.addr'' then 36 else if field = ''elf_sec.shndx'' then 40 else if field = ''mmap_length'' then 44
      else 48)"

definition mbi :: "u32 \<Rightarrow> string \<Rightarrow> 'a machine_scheme \<Rightarrow> u32 option" where
  "mbi a field s = ld_word s (a + multiboot_offset field)"

definition CHECK_FLAG :: "u32 \<Rightarrow> nat \<Rightarrow> bool" where
  "CHECK_FLAG w b \<longleftrightarrow> w AND push_bit b 1 \<noteq> 0"

definition tell :: "string \<Rightarrow> u32 list \<Rightarrow> 'a console_scheme \<Rightarrow> 'a console_scheme option" where
  "tell format as s = map_option snd (printf format as s)"

definition tell_fields :: "string \<Rightarrow> u32 \<Rightarrow> string list \<Rightarrow> 'a console_scheme \<Rightarrow> 'a console_scheme option" where
  "tell_fields format a fs s = do { vs \<leftarrow> those (map (\<lambda>f. mbi a f s) fs); tell format vs s }"

definition when_flag :: "u32 \<Rightarrow> nat \<Rightarrow> ('a console_scheme \<Rightarrow> 'a console_scheme option) \<Rightarrow> 'a console_scheme \<Rightarrow> 'a console_scheme option" where
  "when_flag a n f s = do { w \<leftarrow> mbi a ''flags'' s; if CHECK_FLAG w n then f s else Some s }"

text \<open>One module. \<open>%x\<close> of a \<open>char\<close> gets the sign-extended byte.\<close>

definition print_module :: "u32 \<Rightarrow> nat \<Rightarrow> 'a console_scheme \<Rightarrow> 'a console_scheme option" where
  "print_module mods i s =
     do { mod_start \<leftarrow> ld_word s (mods + 16 * of_nat i);
          s \<leftarrow> tell ''Module %d loaded at address: 0x%#x\<newline>'' [of_nat i, mod_start] s;
          mod_end \<leftarrow> ld_word s (mods + 16 * of_nat i + 4);
          s \<leftarrow> tell ''Module %d ends at address: 0x%#x\<newline>'' [of_nat i, mod_end] s;
          s \<leftarrow> tell ''First few bytes of module:\<newline>'' [] s;
          s \<leftarrow> foldM (\<lambda>j s. do { start \<leftarrow> ld_word s (mods + 16 * of_nat i); b \<leftarrow> ld s (start + of_nat j);
                               tell ''0x%x '' [scast b] s }) [0..<16] s;
          tell ''\<newline>'' [] s }"

text \<open>\<open>mods_count\<close> is read before each round; the address of the first module is not.\<close>

partial_function (option) print_modules :: "u32 \<Rightarrow> u32 \<Rightarrow> nat \<Rightarrow> 'a console_scheme \<Rightarrow> 'a console_scheme option" where
  "print_modules a mods mod_count s =
     do { n \<leftarrow> mbi a ''mods_count'' s;
          if (of_nat mod_count :: u32) < n
          then do { s \<leftarrow> print_module mods mod_count s; print_modules a mods (mod_count + 1) s }
          else Some s }"

definition find_modules :: "u32 \<Rightarrow> 'a filesys_scheme \<Rightarrow> 'a filesys_scheme option" where
  "find_modules a s =
     do { mods \<leftarrow> mbi a ''mods_addr'' s;
          base \<leftarrow> ld_word s mods;
          print_modules a mods 0 (s\<lparr>filesystem_base := base\<rparr>) }"

text \<open>The memory map: each record says how long it is, so the loop need not end.\<close>

definition memory_map_text :: string where
  "memory_map_text = '' size = 0x%x,     base_addr = 0x%#x%#x\<newline>'' @ ''     type = 0x%x,  length    = 0x%#x%#x\<newline>''"

definition print_memory_map :: "u32 \<Rightarrow> 'a console_scheme \<Rightarrow> 'a console_scheme option" where
  "print_memory_map mmap s =
     do { sz \<leftarrow> ld_word s mmap; low \<leftarrow> ld_word s (mmap + 4); high \<leftarrow> ld_word s (mmap + 8);
          len_low \<leftarrow> ld_word s (mmap + 12); len_high \<leftarrow> ld_word s (mmap + 16); type \<leftarrow> ld_word s (mmap + 20);
          tell memory_map_text [sz, high, low, type, len_high, len_low] s }"

partial_function (option) print_memory_maps :: "u32 \<Rightarrow> u32 \<Rightarrow> 'a console_scheme \<Rightarrow> 'a console_scheme option" where
  "print_memory_maps a mmap s =
     do { first \<leftarrow> mbi a ''mmap_addr'' s;
          len \<leftarrow> mbi a ''mmap_length'' s;
          if mmap < first + len
          then do { s \<leftarrow> print_memory_map mmap s; sz \<leftarrow> ld_word s mmap; print_memory_maps a (mmap + sz + 4) s }
          else Some s }"

definition elf_sec_text :: string where
  "elf_sec_text = ''elf_sec: num = %u, size = 0x%#x,'' @ '' addr = 0x%#x, shndx = 0x%#x\<newline>''"

text \<open>\<open>Inl\<close>: \<open>entry\<close> returns.\<close>

definition boot_info :: "u32 \<Rightarrow> u32 \<Rightarrow> 'a filesys_scheme \<Rightarrow> ('a filesys_scheme + 'a filesys_scheme) option" where
  "boot_info magic a s =
     (if magic \<noteq> MULTIBOOT_BOOTLOADER_MAGIC then map_option Inl (tell ''Invalid magic number: 0x%#x\<newline>'' [magic] s)
      else
        do { s \<leftarrow> tell_fields ''flags = 0x%#x\<newline>'' a [''flags''] s;
             s \<leftarrow> when_flag a 0 (tell_fields ''mem_lower = %uKB, mem_upper = %uKB\<newline>'' a [''mem_lower'', ''mem_upper'']) s;
             s \<leftarrow> when_flag a 1 (tell_fields ''boot_device = 0x%#x\<newline>'' a [''boot_device'']) s;
             s \<leftarrow> when_flag a 2 (tell_fields ''cmdline = %s\<newline>'' a [''cmdline'']) s;
             w \<leftarrow> mbi a ''flags'' s;
             s \<leftarrow> (if CHECK_FLAG w 3 then find_modules a s else Some s);
             w \<leftarrow> mbi a ''flags'' s;
             if CHECK_FLAG w 4 \<and> CHECK_FLAG w 5 then map_option Inl (tell ''Both bits 4 and 5 are set.\<newline>'' [] s)
             else
               do { s \<leftarrow> when_flag a 5 (tell_fields elf_sec_text a [''elf_sec.num'', ''elf_sec.size'', ''elf_sec.addr'', ''elf_sec.shndx'']) s;
                    s \<leftarrow> when_flag a 6 (\<lambda>s.
                           do { s \<leftarrow> tell_fields ''mmap_addr = 0x%#x, mmap_length = 0x%x\<newline>'' a [''mmap_addr'', ''mmap_length''] s;
                                mmap \<leftarrow> mbi a ''mmap_addr'' s;
                                print_memory_maps a mmap s }) s;
                    Some (Inr s) } })"

section \<open>Descriptor tables\<close>

definition load_ldt :: "link \<Rightarrow> 'a boot_scheme \<Rightarrow> 'a boot_scheme" where
  "load_ldt k s = s\<lparr>ldt_desc_ptr := ldt_descriptor (ldt_addr k) (ldt_size k) (desc_slot k), ldtr := KERNEL_LDT\<rparr>"

definition load_tss :: "link \<Rightarrow> 'a boot_scheme \<Rightarrow> 'a boot_scheme" where
  "load_tss k s =
     s\<lparr>tss_desc_ptr := tss_descriptor (tss_addr k) (tss_size k) (desc_slot k),
       tss_ldt_selector := KERNEL_LDT, tss_ss0 := KERNEL_DS, tss_esp0 := 0x800000, task_register := KERNEL_TSS\<rparr>"

definition load_tables :: "link \<Rightarrow> 'a boot_scheme \<Rightarrow> 'a boot_scheme" where
  "load_tables k s =
     (let s = s\<lparr>idt := set_interrupts (routine k) (set_exceptions (routine k) (idt s))\<rparr>;
          s = load_tss k (load_ldt k s)
      in s\<lparr>idt := set_syscall (routine k) (idt s), idtr_loaded := True\<rparr>)"

section \<open>Devices and shells\<close>

definition init_user_group :: "'a boot_scheme \<Rightarrow> 'a boot_scheme" where
  "init_user_group s =
     s\<lparr>users := (users s)(0 := \<lparr>username = bytes ''user'', password = bytes ''ece391'', authrization = 0\<rparr>,
        1 := \<lparr>username = bytes ''root'', password = bytes ''ece391root'', authrization = 1\<rparr>), loging_password := 0\<rparr>"

definition init_devices :: "device \<Rightarrow> 'a boot_scheme \<Rightarrow> 'a boot_scheme option" where
  "init_devices dev s =
     do { s \<leftarrow> clear s;
          let (r, s) = terminal_open 0 s;
          s \<leftarrow> i8259_init s;
          let (r, s) = open_rtc dev 0 s;
          s \<leftarrow> Some (init_timer (enable_irq 8 (enable_irq 1 (sti s))));
          s \<leftarrow> Some ((init_paging s)\<lparr>active_proc_num := 0\<rparr>);
          (r, s) \<leftarrow> file_system_init s;
          s \<leftarrow> Some (setup_terms (init_schedule s));
          Some (init_user_group (s\<lparr>curr_term := 0, active_root_shell := 0\<rparr>)) }"

text \<open>\<open>execute ("shell")\<close> three times: the first two only set up a process and return.\<close>

definition start_shells :: "'a kernel_scheme \<Rightarrow> 'a kernel_scheme syscall" where
  "start_shells s =
     do { (r, s) \<leftarrow> execute (shell_command s) s;
          case r of Left l \<Rightarrow> Some (Left l, s)
          | Done v \<Rightarrow>
              do { (r, s) \<leftarrow> execute (shell_command s) s;
                   case r of Left l \<Rightarrow> Some (Left l, s)
                   | Done v \<Rightarrow>
                       do { s \<leftarrow> Some (flush_tlb 0 (s\<lparr>pcb_status_array := (pcb_status_array s)[0 := 0]\<rparr>));
                            s \<leftarrow> foldM blank_cell [0..<1920] s;
                            execute (shell_command s) (reset_cursor s) } } }"

text \<open>\<open>entry\<close> returns, is left for a process, or ends in the \<open>hlt\<close> loop.\<close>

datatype booted = Returned | Entered leaving | Idle

definition entry_point :: "device \<Rightarrow> link \<Rightarrow> u32 \<Rightarrow> u32 \<Rightarrow> 'a boot_scheme \<Rightarrow> (booted \<times> 'a boot_scheme) option" where
  "entry_point dev k magic a s =
     do { s \<leftarrow> clear s;
          r \<leftarrow> boot_info magic a s;
          case r of Inl s \<Rightarrow> Some (Returned, s)
          | Inr s \<Rightarrow>
              do { s \<leftarrow> init_devices dev (load_tables k s);
                   (r, s) \<leftarrow> start_shells s;
                   Some (case r of Left l \<Rightarrow> (Entered l, s) | Done v \<Rightarrow> (Idle, s)) } }"

text \<open>\<open>start\<close> of \<open>boot.S\<close>, which the boot loader jumps to: \<open>eax\<close> is the magic number, \<open>ebx\<close> the address of the multiboot
  structure. Both are pushed, and then the return address; of the stack only the pointer is in the state, and of the segment
  registers only \<open>ss\<close>. When \<open>entry\<close> returns, the processor is halted for good.\<close>

definition boot_start :: "device \<Rightarrow> link \<Rightarrow> u32 \<Rightarrow> u32 \<Rightarrow> 'a boot_scheme \<Rightarrow> (booted \<times> 'a boot_scheme) option" where
  "boot_start dev k eax ebx s =
     (let s = cli s;
          s = s\<lparr>esp := 0x800000\<rparr>;
          s = s\<lparr>ss := KERNEL_DS\<rparr>;
          s = s\<lparr>esp := esp s - 4\<rparr>;
          s = s\<lparr>esp := esp s - 4\<rparr>;
          s = s\<lparr>esp := esp s - 4\<rparr>
      in map_option (\<lambda>(b, s). (case b of Returned \<Rightarrow> Idle | _ \<Rightarrow> b, s)) (entry_point dev k eax ebx s))"

lemma boot_start_entry:
  "boot_start dev k eax ebx s =
     map_option (\<lambda>(b, s). (if b = Returned then Idle else b, s)) (entry_point dev k eax ebx ((cli s)\<lparr>ss := KERNEL_DS, esp := 0x7FFFF4\<rparr>))"
proof -
  have "(\<lambda>(b, s :: 'a boot_scheme). (case b of Returned \<Rightarrow> Idle | _ \<Rightarrow> b, s)) = (\<lambda>(b, s). (if b = Returned then Idle else b, s))"
    by (auto simp: fun_eq_iff split: booted.splits)
  then show ?thesis by (simp add: boot_start_def Let_def)
qed

text \<open>The processor never comes back to the boot loader.\<close>

lemma boot_start_stays: "boot_start dev k eax ebx s = Some (b, t) \<Longrightarrow> b \<noteq> Returned"
  by (auto simp: boot_start_entry split: if_splits)

section \<open>What the processor makes of the segment descriptors\<close>

text \<open>The packed layout, and the base and limit of a descriptor whose granularity is a byte.\<close>

definition seg_word :: "seg_desc \<Rightarrow> 64 word" where
  "seg_word d = ucast (seg_lim_15_00 d) OR push_bit 16 (ucast (base_15_00 d)) OR push_bit 32 (ucast (base_23_16 d))
     OR push_bit 40 (ucast (seg_type d)) OR push_bit 44 (of_bool (seg_sys d)) OR push_bit 45 (ucast (seg_dpl d))
     OR push_bit 47 (of_bool (seg_present d)) OR push_bit 48 (ucast (seg_lim_19_16 d)) OR push_bit 52 (of_bool (seg_avail d))
     OR push_bit 53 (of_bool (seg_reserved d)) OR push_bit 54 (of_bool (seg_opsize d)) OR push_bit 55 (of_bool (seg_granularity d))
     OR push_bit 56 (ucast (base_31_24 d))"

definition segment_base :: "64 word \<Rightarrow> u32" where
  "segment_base w = (ucast (drop_bit 16 w) AND 0xFFFFFF) OR push_bit 24 (ucast (drop_bit 56 w))"

definition segment_limit :: "64 word \<Rightarrow> u32" where
  "segment_limit w = (ucast w AND 0xFFFF) OR push_bit 16 (ucast (drop_bit 48 w) AND 0xF)"

lemma bit_seg_word:
  "bit (seg_word d) n \<longleftrightarrow> n < 16 \<and> bit (seg_lim_15_00 d) n \<or> 16 \<le> n \<and> n < 32 \<and> bit (base_15_00 d) (n - 16)
     \<or> 32 \<le> n \<and> n < 40 \<and> bit (base_23_16 d) (n - 32) \<or> 40 \<le> n \<and> n < 44 \<and> bit (seg_type d) (n - 40)
     \<or> n = 44 \<and> seg_sys d \<or> 45 \<le> n \<and> n < 47 \<and> bit (seg_dpl d) (n - 45) \<or> n = 47 \<and> seg_present d
     \<or> 48 \<le> n \<and> n < 52 \<and> bit (seg_lim_19_16 d) (n - 48) \<or> n = 52 \<and> seg_avail d \<or> n = 53 \<and> seg_reserved d
     \<or> n = 54 \<and> seg_opsize d \<or> n = 55 \<and> seg_granularity d \<or> 56 \<le> n \<and> n < 64 \<and> bit (base_31_24 d) (n - 56)"
  unfolding seg_word_def bit_or_iff by (simp add: field_64)

lemma SET_PARAMS_bits:
  "bit (seg_lim_15_00 (SET_PARAMS a l d)) n \<longleftrightarrow> n < 16 \<and> bit l n"
  "bit (base_15_00 (SET_PARAMS a l d)) n \<longleftrightarrow> n < 16 \<and> bit a n"
  "bit (base_23_16 (SET_PARAMS a l d)) n \<longleftrightarrow> n < 8 \<and> bit a (n + 16)"
  "bit (base_31_24 (SET_PARAMS a l d)) n \<longleftrightarrow> n < 8 \<and> bit a (n + 24)"
  "bit (seg_lim_19_16 (SET_PARAMS a l d)) n \<longleftrightarrow> n < 4 \<and> bit l (n + 16)"
proof -
  have m: "(0xFF000000 :: u32) = push_bit 24 (mask 8)" "(0x00FF0000 :: u32) = push_bit 16 (mask 8)"
    "(0x0000FFFF :: u32) = mask 16" "(0x000F0000 :: u32) = push_bit 16 (mask 4)"
    by (simp_all add: mask_eq_exp_minus_1)
  show "bit (seg_lim_15_00 (SET_PARAMS a l d)) n \<longleftrightarrow> n < 16 \<and> bit l n"
    "bit (base_15_00 (SET_PARAMS a l d)) n \<longleftrightarrow> n < 16 \<and> bit a n"
    "bit (base_23_16 (SET_PARAMS a l d)) n \<longleftrightarrow> n < 8 \<and> bit a (n + 16)"
    "bit (base_31_24 (SET_PARAMS a l d)) n \<longleftrightarrow> n < 8 \<and> bit a (n + 24)"
    "bit (seg_lim_19_16 (SET_PARAMS a l d)) n \<longleftrightarrow> n < 4 \<and> bit l (n + 16)"
    unfolding SET_PARAMS_def m by (auto simp: bit_simps ac_simps)
qed

lemma segment_decode:
  "segment_base (seg_word (SET_PARAMS a l d)) = a" "segment_limit (seg_word (SET_PARAMS a l d)) = l AND mask 20"
proof -
  have m: "(0xFFFFFF :: u32) = mask 24" "(0xFFFF :: u32) = mask 16" "(0xF :: u32) = mask 4" by (simp_all add: mask_eq_exp_minus_1)
  show "segment_base (seg_word (SET_PARAMS a l d)) = a"
  proof (rule bit_word_eqI)
    fix n
    assume "n < LENGTH(32)"
    then consider "n < 16" | "16 \<le> n" "n < 24" | "24 \<le> n" "n < 32" by (simp, linarith)
    then show "bit (segment_base (seg_word (SET_PARAMS a l d))) n = bit a n"
      unfolding segment_base_def m by cases (simp_all add: bit_simps bit_seg_word SET_PARAMS_bits, linarith+)
  qed
  show "segment_limit (seg_word (SET_PARAMS a l d)) = l AND mask 20"
  proof (rule bit_word_eqI)
    fix n
    assume "n < LENGTH(32)"
    then consider "n < 16" | "16 \<le> n" "n < 20" | "20 \<le> n" "n < 32" by (simp, linarith)
    then show "bit (segment_limit (seg_word (SET_PARAMS a l d))) n = bit (l AND mask 20) n"
      unfolding segment_limit_def m by cases (simp_all add: bit_simps bit_seg_word SET_PARAMS_bits, linarith+)
  qed
qed

end
