(* ===== verification/Login.thy ===== *)
theory Login
  imports Boot
begin

text \<open>
  \<open>prompt_login\<close> of \<open>user.c\<close>: it reads a name and a password and compares them with the user table. The
  two tests are definitions of their own, on whatever the buffers hold, and the last lemmas say which lines pass.
\<close>

section \<open>The tests\<close>

text \<open>C's \<open>||\<close> and \<open>&&\<close>: the second operand is only evaluated when the first does not decide.\<close>

definition or_else :: "bool option \<Rightarrow> bool option \<Rightarrow> bool option" where
  "or_else a b = do { x \<leftarrow> a; if x then Some True else b }"

definition and_then :: "bool option \<Rightarrow> bool option \<Rightarrow> bool option" where
  "and_then a b = do { x \<leftarrow> a; if x then b else Some False }"

text \<open>\<open>!strncmp (known, typed, n)\<close> for a string of the table.\<close>

definition agrees :: "u8 list \<Rightarrow> reader \<Rightarrow> u32 \<Rightarrow> bool option" where
  "agrees known typed n = map_option (\<lambda>r. r = 0) (strncmp (lit (known @ [0])) typed n)"

definition known_name :: "(nat \<Rightarrow> user_t) \<Rightarrow> reader \<Rightarrow> bool option" where
  "known_name us name_buf =
     or_else (agrees (username (us 0)) name_buf 4) (agrees (username (us 1)) name_buf 4)"

text \<open>A password of the table starts the line, and a password of the table has the line's length.\<close>

definition begins_with :: "u8 list \<Rightarrow> reader \<Rightarrow> bool option" where
  "begins_with pw typed = do { n \<leftarrow> strlen (lit (pw @ [0])); agrees pw typed n }"

definition same_length :: "u8 list \<Rightarrow> reader \<Rightarrow> bool option" where
  "same_length pw typed = do { n \<leftarrow> strlen (lit (pw @ [0])); m \<leftarrow> strlen typed; Some (n = m) }"

definition known_password :: "(nat \<Rightarrow> user_t) \<Rightarrow> reader \<Rightarrow> bool option" where
  "known_password us password_buf =
     and_then (or_else (begins_with (password (us 0)) password_buf) (begins_with (password (us 1)) password_buf))
       (or_else (same_length (password (us 0)) password_buf) (same_length (password (us 1)) password_buf))"

section \<open>prompt_login\<close>

text \<open>\<open>while (i) i--\<close> from \<open>i\<close>: it ends whatever \<open>i\<close> is, and changes nothing else.\<close>

function spin_down :: "u32 \<Rightarrow> u32" where
  "spin_down i = (if i \<noteq> 0 then spin_down (i - 1) else i)"
  by pat_completeness auto

termination by (relation "measure unat") (auto simp: unat_minus_1_less)

declare spin_down.simps [simp del]

text \<open>The two halves: the password, once a name of the table was typed, and the whole. The buffers are
  globals of the kernel; \<open>brk\<close> (the \<open>halt\<close> of Ctrl-C), \<open>dev\<close> and \<open>n\<close> are what \<open>terminal_read\<close> waits on; \<open>Inl\<close> is a program
  left by Ctrl-C meanwhile.\<close>

definition check_password :: "u32 \<Rightarrow> 'a boot_scheme \<Rightarrow> 'a boot_scheme option" where
  "check_password password_buf s =
     do { ok \<leftarrow> known_password (users s) (at s password_buf);
          if ok then map_option snd (printf ''login successful!\<newline>'' [] (s\<lparr>loging_password := 0\<rparr>))
          else do { (r, s) \<leftarrow> printf ''password incorrect!\<newline>'' [] s; Some (s\<lparr>loging_password := 0\<rparr>) } }"

definition ask_password ::
    "(u8 \<Rightarrow> 'a boot_scheme \<Rightarrow> 'h option) \<Rightarrow> device \<Rightarrow> nat \<Rightarrow> u32 \<Rightarrow> 'a boot_scheme \<Rightarrow> ('h + 'a boot_scheme) option" where
  "ask_password brk dev n password_buf s =
     do { (r, s) \<leftarrow> printf ''PASSWORD: '' [] (s\<lparr>loging_password := 1\<rparr>);
          r \<leftarrow> terminal_read brk dev n 0 password_buf 128 s;
          case r of Inl h \<Rightarrow> Some (Inl h)
          | Inr (cnt, s) \<Rightarrow> map_option Inr (check_password password_buf s) }"

definition prompt_login ::
    "(u8 \<Rightarrow> 'a boot_scheme \<Rightarrow> 'h option) \<Rightarrow> device \<Rightarrow> nat \<Rightarrow> u32 \<Rightarrow> u32 \<Rightarrow> 'a boot_scheme
      \<Rightarrow> ('h + 'a boot_scheme) option" where
  "prompt_login brk dev n name_buf password_buf s =
     do { (r, s) \<leftarrow> printf ''user_login\<newline>USERNAME: '' [] s;
          r \<leftarrow> terminal_read brk dev n 0 name_buf 128 s;
          r \<leftarrow> (case r of Inl h \<Rightarrow> Some (Inl h)
                | Inr (cnt, s) \<Rightarrow>
                    do { known \<leftarrow> known_name (users s) (at s name_buf);
                         if known then ask_password brk dev n password_buf s
                         else map_option (Inr \<circ> snd) (printf ''invalid username\<newline>'' [] s) });
          case r of Inl h \<Rightarrow> Some (Inl h)
          | Inr s \<Rightarrow> (let i = spin_down 120000000 in Some (Inr s)) }"

section \<open>Which lines pass\<close>

lemma spin_down_zero [simp]: "spin_down i = 0"
  by (induction i rule: spin_down.induct) (subst spin_down.simps, simp)

lemma agrees_cstr:
  assumes "0 \<notin> set known" "length known < 2 ^ 31" "cstr typed xs"
  shows "agrees known typed n = Some (take (unat n) known = take (unat n) xs)"
proof -
  obtain r where "strncmp (lit (known @ [0])) typed n = Some r" "r = 0 \<longleftrightarrow> take (unat n) known = take (unat n) xs"
    using strncmp_cstr [OF cstr_take [OF lit_cstr [OF assms(1,2)]] cstr_take [OF assms(3)]] by blast
  then show ?thesis by (simp add: agrees_def)
qed

lemma begins_with_cstr:
  assumes "0 \<notin> set pw" "length pw < 2 ^ 31" "cstr typed xs"
  shows "begins_with pw typed = Some (pw = take (length pw) xs)"
  using agrees_cstr [OF assms, of "of_nat (length pw)"] strlen_cstr [OF lit_cstr [OF assms(1,2)]] assms(2)
  by (simp add: begins_with_def unat_of_nat_small)

lemma same_length_cstr:
  assumes "0 \<notin> set pw" "length pw < 2 ^ 31" "cstr typed xs"
  shows "same_length pw typed = Some (length pw = length xs)"
proof -
  have "length xs < 2 ^ 32" "length pw < 2 ^ 32" using assms(2,3) by (simp_all add: cstr_def)
  then have "(of_nat (length pw) = (of_nat (length xs) :: u32)) = (length pw = length xs)"
    by (metis unat_of_nat_small)
  then show ?thesis using strlen_cstr [OF lit_cstr [OF assms(1,2)]] strlen_cstr [OF assms(3)]
    by (simp add: same_length_def)
qed

lemma or_else_Some [simp]: "or_else (Some a) (Some b) = Some (a \<or> b)"
  by (simp add: or_else_def)

lemma and_then_Some [simp]: "and_then (Some a) (Some b) = Some (a \<and> b)"
  by (simp add: and_then_def)

text \<open>Only the first four characters of a name count.\<close>

lemma known_name_iff:
  assumes "cstr name_buf xs"
  shows "known_name (users (init_user_group s)) name_buf = Some (take 4 xs \<in> {bytes ''user'', bytes ''root''})"
  using agrees_cstr [OF _ _ assms, of "bytes ''user''" 4] agrees_cstr [OF _ _ assms, of "bytes ''root''" 4]
  by (auto simp: known_name_def init_user_group_def bytes_def asc_def)

text \<open>A line passes as a password when it starts with \<open>ece391\<close> and has 6 or 10 characters: whose password it
  is, and for ten characters what follows \<open>ece391\<close>, does not matter.\<close>

theorem known_password_iff:
  assumes "cstr password_buf xs"
  shows "known_password (users (init_user_group s)) password_buf
    = Some (take 6 xs = bytes ''ece391'' \<and> length xs \<in> {6, 10})"
proof -
  let ?u = "bytes ''ece391''" and ?r = "bytes ''ece391root''"
  have z: "0 \<notin> set ?u" "0 \<notin> set ?r" "length ?u = 6" "length ?r = 10" by (simp_all add: bytes_def asc_def)
  have "?r = take 10 xs \<Longrightarrow> ?u = take 6 xs"
  proof -
    assume "?r = take 10 xs"
    then have "take 6 ?r = take 6 xs" by simp
    then show ?thesis by (simp add: bytes_def)
  qed
  then show ?thesis using begins_with_cstr [OF _ _ assms] same_length_cstr [OF _ _ assms] z
    by (auto simp: known_password_def init_user_group_def)
qed

lemma any_ten_characters_pass:
  "known_password (users (init_user_group s)) (lit (bytes ''ece391xxxx'' @ [0])) = Some True"
  by (subst known_password_iff [OF lit_cstr]) (simp_all add: bytes_def asc_def)

end
