(* ===== verification/Shells.thy ===== *)
theory Shells
  imports Boot
begin

text \<open>
  How the kernel gets from its tables to the first shell: the three \<open>execute ("shell")\<close> calls of
  \<open>entry\<close>, and the invariant of the process table they establish.
\<close>

section \<open>A shell that waits\<close>

text \<open>\<open>loaded s i name ys bs eip t\<close>: from \<open>s\<close>, process \<open>i\<close> was given the program and its block, and the kernel
  is on its tables.\<close>

definition loaded :: "'a kernel_scheme \<Rightarrow> nat \<Rightarrow> u8 list \<Rightarrow> u8 list \<Rightarrow> u8 list \<Rightarrow> 'a kernel_scheme \<Rightarrow> bool" where
  "loaded s i name ys bs t \<longleftrightarrow>
     (\<exists>c ph m sm l. t = (s\<lparr>cr3 := c, phys := ph, master_mask := m, slave_mask := sm, io_log := l,
        pcb_status_array := (pcb_status_array s)[i := 1], active_root_shell := active_root_shell s + 1,
        active_proc_num := active_proc_num s + 1, curr_pid := of_nat i,
        pcbs := (pcbs s)(i := new_block i None (name @ replicate (32 - length name) 0)
          (ys @ replicate (128 - length ys) 0) (length ys) (pcbs s i)),
        terms := (terms s)(unat (curr_term s) := (terms s (unat (curr_term s)))\<lparr>pid := of_nat i\<rparr>)\<rparr>))
   \<and> (\<forall>a. \<not> in_program i a \<longrightarrow> phys t a = phys s a) \<and> runs t i \<and> screen_of t = screen_of s
   \<and> ld_bytes t 0x08048000 (length bs) = Some bs"

text \<open>The part of \<open>execute\<close> that is the same for all three shells.\<close>

lemma execute_root:
  assumes "runs s q" "command_is cmd name ys" "take 5 name \<noteq> bytes ''clear''" "program_in s n k name inode bs eip"
    and "free_slot s = Some i" "i < 3" "active_proc_num s < 3"
  obtains t where "loaded s i name ys bs t"
    "execute cmd s = (if active_root_shell t < 3
       then Some (Done 0, upd_pcb i (\<lambda>p. p\<lparr>shell_flag := 1, cmd_eip := eip\<rparr>) t) else exec_enter i eip t)"
proof -
  let ?s = "disable_irq 0 s" and ?fn = "name @ replicate (32 - length name) 0" and ?arg = "ys @ replicate (128 - length ys) 0"
  note sc = command_scans [OF assms(2)]
  have len: "length name \<le> 32" "length name \<noteq> 0" using assms(2) by (simp_all add: command_is_def)
  have pi: "program_in ?s n k name inode bs eip" by (rule same_program [OF disable_same [OF assms(1)] assms(4)])
  have rs: "runs ?s q" using assms(1) runs_mmu [of ?s s] by simp
  obtain c where c: "strncmp (lit (bytes ''clear'' @ [0])) (lit ?fn) 5 = Some c" "c \<noteq> 0"
    using not_clear [OF sc(3) len(1) assms(3)] by blast
  have fi: "exec_find ?fn ?s = Some (Inr (inode, eip), ?s)" by (rule exec_find_program [OF rs pi sc(3) len(1)])
  have bs: "holds_file ?s inode bs" "bs \<noteq> []" "length bs \<le> 3899392" using pi by (auto simp: program_in_def)
  obtain w where w: "read_data inode 0 0x08048000 3899392 ((flush_tlb i ?s)\<lparr>pcb_status_array := (pcb_status_array ?s)[i := 1]\<rparr>) = Some (of_nat (length bs), w)"
    "copied ?s i bs w"
    by (rule load_copies [OF rs _ bs, of i]) (use assms(6) in simp_all)
  let ?w = "w\<lparr>active_root_shell := active_root_shell w + 1\<rparr>"
  define t where "t = exec_block i ?fn ?arg (length ys) ?w"
  have wf: "w = ?s\<lparr>cr3 := cr3 w, pcb_status_array := (pcb_status_array s)[i := 1], phys := phys w\<rparr>"
    and wr: "runs w i" "screen_of w = screen_of s" "ld_bytes w 0x08048000 (length bs) = Some bs" "\<forall>a. \<not> in_program i a \<longrightarrow> phys w a = phys s a"
    using w(2) mmu_cong(5) [of ?s s] by (simp_all add: copied_def)
  have f: "curr_pid w = curr_pid s" "curr_term w = curr_term s" "active_proc_num w = active_proc_num s" "pcbs w = pcbs s"
    "active_root_shell w = active_root_shell s" "terms w = terms s"
    by (subst wf, simp add: disable_irq_def outb_def Let_def)+
  have few: "\<not> active_proc_num s + 1 > 3"
  proof -
    have "unat (active_proc_num s + 1) = unat (active_proc_num s) + 1"
      using assms(7) by (simp add: word_less_nat_alt unat_word_ariths)
    then show ?thesis using assms(7) by (simp add: word_less_nat_alt)
  qed
  have te: "t = (upd_pcb i (new_block i None ?fn ?arg (length ys)) ?w)\<lparr>active_proc_num := active_proc_num s + 1, curr_pid := of_nat i,
     terms := (terms s)(unat (curr_term s) := (terms s (unat (curr_term s)))\<lparr>pid := of_nat i\<rparr>)\<rparr>"
    unfolding t_def exec_block_eq using few by (simp add: f)
  have m: "mmu t = mmu w" "phys t = phys w" unfolding te by (simp_all add: upd_pcb_def mmu_def)
  have "loaded s i name ys bs t"
  proof -
    obtain c ph m sm l where we: "w = s\<lparr>cr3 := c, pcb_status_array := (pcb_status_array s)[i := 1], phys := ph,
        master_mask := m, slave_mask := sm, io_log := l\<rparr>"
    proof
      show "w = s\<lparr>cr3 := cr3 w, pcb_status_array := (pcb_status_array s)[i := 1], phys := phys w,
        master_mask := master_mask ?s, slave_mask := slave_mask ?s, io_log := io_log ?s\<rparr>"
        by (rule trans [OF wf]) (subst pic_rest(2), simp)
    qed
    have "t = s\<lparr>cr3 := c, phys := ph, master_mask := m, slave_mask := sm, io_log := l,
        pcb_status_array := (pcb_status_array s)[i := 1], active_root_shell := active_root_shell s + 1,
        active_proc_num := active_proc_num s + 1, curr_pid := of_nat i,
        pcbs := (pcbs s)(i := new_block i None ?fn ?arg (length ys) (pcbs s i)),
        terms := (terms s)(unat (curr_term s) := (terms s (unat (curr_term s)))\<lparr>pid := of_nat i\<rparr>)\<rparr>"
      unfolding te upd_pcb_def we by simp
    moreover have "runs t i" "screen_of t = screen_of s" "ld_bytes t 0x08048000 (length bs) = Some bs"
      using wr runs_mmu [OF m(1)] mmu_cong(5) [OF m(1)] ld_bytes_cong [OF m] by simp_all
    ultimately show ?thesis using wr(4) m(2) unfolding loaded_def by (intro conjI exI) simp_all
  qed
  moreover have "execute cmd s = (if active_root_shell t < 3
       then Some (Done 0, upd_pcb i (\<lambda>p. p\<lparr>shell_flag := 1, cmd_eip := eip\<rparr>) t) else exec_enter i eip t)"
  proof -
    have l: "unat (of_nat (length bs) :: u32) = length bs" by (rule unat_of_nat_small) (use bs(3) in simp)
    then have ret: "(of_nat (length bs) :: u32) \<noteq> -1" "(of_nat (length bs) :: u32) \<noteq> 0"
      using bs(2,3) by (auto simp: word_unat_eq_iff unsigned_minus_1_eq_mask mask_eq_exp_minus_1)
    have ps: "pcb_status_array (flush_tlb i ?s) = pcb_status_array ?s" by (simp add: flush_tlb_def Let_def)
    have i6: "i \<noteq> 6" using assms(6) by simp
    have "exec_load ?fn ?arg (length ys) inode eip ?s = (if active_root_shell t < 3
       then Some (Done 0, upd_pcb i (\<lambda>p. p\<lparr>shell_flag := 1, cmd_eip := eip\<rparr>) t) else exec_enter i eip t)"
      using assms(5,6) i6 w(1) ret ps by (simp add: exec_load_def Let_def t_def)
    then show ?thesis using sc(1,2) len c fi by (simp add: execute_def Let_def)
  qed
  ultimately show ?thesis by (rule that)
qed

text \<open>The last call enters the program. Its block has no parent, so no stack pointer is saved.\<close>

lemma exec_enter_root:
  assumes "i < 3" "curr_pid s = of_nat i" "mmu_ok s" "unat (curr_term s) < 3"
  obtains t where "exec_enter i eip s = Some (Left (Start eip 0x083FFFFC), t)"
    "\<exists>pt c m sm l. t = s\<lparr>tss_ss0 := KERNEL_DS, tss_esp0 := stack_top (of_nat i), page_table := pt, cr3 := c,
       master_mask := m, slave_mask := sm, io_log := l, iflag := True\<rparr>"
    "runs t i" "screen_of t = (screen_of s)(i := unat (curr_term s))" "irq_enabled t 0"
proof -
  have c: "unat (curr_pid s) = i" "ucast (curr_pid s) = (of_nat i :: u32)" "\<not> curr_pid s > 2" "curr_pid s < 3"
    using assms(1) less_3_cases [OF assms(1)] by (auto simp: assms(2))
  define s1 where "s1 = s\<lparr>tss_ss0 := KERNEL_DS, tss_esp0 := stack_top (of_nat i)\<rparr>"
  define s2 where "s2 = set_pte i 0xB8 (\<lambda>e. e\<lparr>pt_phys_page_addr := 0xB8 + 2 * ucast (curr_term s)\<rparr>) s1"
  define s3 where "s3 = flush_tlb i s2"
  define s4 where "s4 = enable_irq 0 s3"
  have m1: "mmu s1 = mmu s" by (simp add: s1_def mmu_def)
  have m2: "mmu_ok s2 \<and> screen_of s2 = (screen_of s)(i := unat (curr_term s))"
    using screen_moved [of s1 i "curr_term s"] assms(1,3,4) mmu_cong(3,5) [OF m1] unfolding s2_def by simp
  have s2: "s2 = s1\<lparr>page_table := page_table s2\<rparr>" by (simp add: s2_def set_pte_def)
  have s3: "s3 = s2\<lparr>cr3 := cr3 s3\<rparr>" unfolding s3_def by (rule flush_tlb_rest)
  have s4: "s4 = s3\<lparr>master_mask := master_mask s4, slave_mask := slave_mask s4, io_log := io_log s4\<rparr>"
    unfolding s4_def by (rule pic_rest(1))
  have g: "curr_pid s2 = curr_pid s" "curr_pid s3 = curr_pid s" "curr_pid s1 = curr_pid s" "curr_term s1 = curr_term s"
    by (simp_all add: s2_def s3_def s1_def set_pte_def flush_tlb_def Let_def)
  have ex: "exec_enter i eip s = Some (Left (Start eip 0x083FFFFC), sti s4)"
    using c assms(2) g unfolding exec_enter_def Let_def
    by (simp add: s1_def [symmetric] s2_def [symmetric] s3_def [symmetric] s4_def [symmetric] jump_to_program_def slt_def)
  have tm: "mmu (sti s4) = mmu s3" by (simp add: s4_def)
  have r3: "runs s3 i" "screen_of s3 = screen_of s2" using runs_flush [of s2 i] m2 assms(1) by (simp_all add: s3_def fun_eq_iff)
  have "irq_enabled (sti s4) 0" using enable_irq_enabled [of 0 0 s3] by (simp add: s4_def sti_def irq_enabled_def)
  moreover have "\<exists>pt c m sm l. sti s4 = s\<lparr>tss_ss0 := KERNEL_DS, tss_esp0 := stack_top (of_nat i), page_table := pt, cr3 := c,
       master_mask := m, slave_mask := sm, io_log := l, iflag := True\<rparr>"
    unfolding sti_def by (subst s4, subst s3, subst s2, unfold s1_def) (intro exI, rule refl)
  ultimately show ?thesis
    using ex r3 m2 runs_mmu [OF tm] mmu_cong(5) [OF tm] by (intro that [of "sti s4"]) auto
qed

section \<open>The three shells\<close>

definition image_at :: "(u32 \<Rightarrow> u8) \<Rightarrow> nat \<Rightarrow> u8 list \<Rightarrow> bool" where
  "image_at ph p bs \<longleftrightarrow> (\<forall>j<length bs. ph (prog_addr p (0x08048000 + of_nat j)) = bs ! j)"

lemma image_place:
  assumes "j < 3899392"
  shows "0x8000000 \<le> unat (0x08048000 + of_nat j :: u32)" "unat (0x08048000 + of_nat j :: u32) < 0x8400000"
proof -
  have "unat (0x08048000 + of_nat j :: u32) = 0x08048000 + j" by (subst unat_add_of_nat) (use assms in simp_all)
  then show "0x8000000 \<le> unat (0x08048000 + of_nat j :: u32)" "unat (0x08048000 + of_nat j :: u32) < 0x8400000"
    using assms by simp_all
qed

lemma image_loaded:
  "runs t p \<Longrightarrow> ld_bytes t 0x08048000 (length bs) = Some bs \<Longrightarrow> length bs \<le> 3899392 \<Longrightarrow> image_at (phys t) p bs"
  using translate_user [of t p] image_place by (fastforce simp: image_at_def ld_bytes_nth ld_def)

lemma image_keep:
  assumes "image_at ph p bs" "p < 6" "length bs \<le> 3899392" "\<forall>a. in_program p a \<longrightarrow> ph' a = ph a"
  shows "image_at ph' p bs"
  using assms prog_addr_in [OF assms(2) image_place] by (simp add: image_at_def)

lemma loaded_fields:
  assumes "loaded s i name ys bs t"
  shows "curr_pid t = of_nat i" "curr_term t = curr_term s" "term_on_screen t = term_on_screen s" "terminal t = terminal s"
    "active_root_shell t = active_root_shell s + 1" "active_proc_num t = active_proc_num s + 1"
    "pcb_status_array t = (pcb_status_array s)[i := 1]" "after_shell t = after_shell s" "beyond_status t = beyond_status s"
    "task_list_head t = task_list_head s" "task_list_tail t = task_list_tail s" "runs t i" "screen_of t = screen_of s"
    "pcbs t = (pcbs s)(i := new_block i None (name @ replicate (32 - length name) 0)
          (ys @ replicate (128 - length ys) 0) (length ys) (pcbs s i))"
    "\<not> in_program i a \<Longrightarrow> phys t a = phys s a"
  using assms unfolding loaded_def by auto

lemma in_program_high: "in_program i a \<Longrightarrow> 0x800000 \<le> unat a"
  by (simp add: in_program_def)

lemma loaded_same:
  assumes "loaded s i name ys bs t" "runs s q"
  shows "kernel_same s t"
proof -
  have "phys t a = phys s a" if "unat a < 0x800000" for a
    using loaded_fields(15) [OF assms(1)] in_program_high [of i a] that by force
  moreover have "inode_ptr_base t = inode_ptr_base s \<and> data_block_ptr_base t = data_block_ptr_base s
     \<and> num_of_blocks t = num_of_blocks s \<and> num_of_entries t = num_of_entries s \<and> entry_ptr_base t = entry_ptr_base s"
    using assms(1) unfolding loaded_def by auto
  ultimately show ?thesis using assms(2) loaded_fields(12) [OF assms(1)] by (auto simp: kernel_same_def)
qed

lemma runs_pcb: "runs (upd_pcb i f s) p = runs s p" "screen_of (upd_pcb i f s) = screen_of s" "phys (upd_pcb i f s) = phys s"
proof -
  have m: "mmu (upd_pcb i f s) = mmu s" by (simp add: upd_pcb_def mmu_def)
  show "runs (upd_pcb i f s) p = runs s p" "screen_of (upd_pcb i f s) = screen_of s" using runs_mmu [OF m] mmu_cong(5) [OF m] by simp_all
qed (simp add: upd_pcb_def)

lemma same_pcb: "kernel_same s t \<Longrightarrow> kernel_same s (upd_pcb i f t)"
  unfolding kernel_same_def runs_pcb by (auto simp: upd_pcb_def)

text \<open>What the kernel has when \<open>entry\<close> gets to the shells.\<close>

definition before_shells :: "'a kernel_scheme \<Rightarrow> bool" where
  "before_shells s \<longleftrightarrow> runs s 0 \<and> (\<forall>p<3. screen_of s p = p) \<and> ring_ok s \<and> (\<forall>i<3. task_pid (terminal s i) = of_nat i)
     \<and> curr_term s = 0 \<and> unat (term_on_screen s) < 3 \<and> active_proc_num s = 0 \<and> active_root_shell s = 0
     \<and> pcb_status_array s = [1, 0, 0, 0, 0, 0]"

text \<open>One of the first two calls.\<close>

lemma shell_waits:
  assumes "runs s q" "command_is (shell_command s) (bytes ''shell'') ys" "program_in s n k (bytes ''shell'') inode bs eip"
    and "free_slot s = Some i" "i < 3" "unat (active_proc_num s) < 3" "unat (active_root_shell s) < 2"
  obtains t where "execute (shell_command s) s = Some (Done 0, upd_pcb i (\<lambda>p. p\<lparr>shell_flag := 1, cmd_eip := eip\<rparr>) t)"
    "loaded s i (bytes ''shell'') ys bs t" "program_in t n k (bytes ''shell'') inode bs eip" "image_at (phys t) i bs"
proof -
  have nc: "take 5 (bytes ''shell'') \<noteq> bytes ''clear''" by (simp add: bytes_def asc_def)
  have an: "active_proc_num s < 3" using assms(6) by (simp add: word_less_nat_alt)
  obtain t where t: "loaded s i (bytes ''shell'') ys bs t"
    "execute (shell_command s) s = (if active_root_shell t < 3
       then Some (Done 0, upd_pcb i (\<lambda>p. p\<lparr>shell_flag := 1, cmd_eip := eip\<rparr>) t) else exec_enter i eip t)"
    by (rule execute_root [OF assms(1,2) nc assms(3,4,5) an])
  have "unat (active_root_shell s + 1) = unat (active_root_shell s) + 1" using assms(7) by (simp add: unat_word_ariths)
  then have "active_root_shell t < 3" using assms(7) loaded_fields(5) [OF t(1)] by (simp add: word_less_nat_alt)
  moreover have "ld_bytes t 0x08048000 (length bs) = Some bs" using t(1) by (simp add: loaded_def)
  moreover have "length bs \<le> 3899392" using assms(3) by (simp add: program_in_def)
  ultimately show ?thesis
    using t same_program [OF loaded_same [OF t(1) assms(1)] assms(3)] image_loaded [OF loaded_fields(12) [OF t(1)]]
    by (intro that [of t]) simp_all
qed

text \<open>Between the second and the third.\<close>

lemma screen_cleared:
  assumes "runs s q" "screen_of s 0 = 0"
  obtains b c ph T where "foldM blank_cell [0..<1920] (flush_tlb 0 s) = Some b"
    "reset_cursor b = s\<lparr>cr3 := c, phys := ph, terms := T\<rparr>" "runs (reset_cursor b) 0" "screen_of (reset_cursor b) = screen_of s"
    "\<forall>a. 0x400000 \<le> unat a \<longrightarrow> ph a = phys s a"
proof -
  let ?u = "flush_tlb 0 s"
  have u: "?u = s\<lparr>cr3 := cr3 ?u\<rparr>" by (rule flush_tlb_rest)
  have r: "runs ?u 0" using assms(1) by (intro runs_flush) (simp_all add: runs_def)
  then have v: "views ?u 0" using assms(2) by (auto simp: views_def runs_def intro!: exI [of _ 0])
  obtain b where b: "foldM blank_cell [0..<1920] ?u = Some b" "blanked 0 1920 ?u b" by (rule blank_screen [OF v])
  then have be: "b = ?u\<lparr>phys := phys b\<rparr>" by (simp add: blanked_def)
  obtain T where T: "reset_cursor b = b\<lparr>terms := T\<rparr>" by (simp add: reset_cursor_def upd_shown_def upd_term_def)
  have m: "mmu (reset_cursor b) = mmu ?u" unfolding T by (subst be) simp
  have "reset_cursor b = ?u\<lparr>phys := phys b, terms := T\<rparr>" unfolding T by (subst be) simp
  then have e: "reset_cursor b = s\<lparr>cr3 := cr3 ?u, phys := phys b, terms := T\<rparr>" by (subst (asm) u) simp
  have k: "\<forall>a. 0x400000 \<le> unat a \<longrightarrow> phys b a = phys s a"
    using b(2) by (simp add: blanked_def in_screen_def)
  have sc: "screen_of (reset_cursor b) = screen_of s" using mmu_cong(5) [OF m] by (simp add: fun_eq_iff)
  have rr: "runs (reset_cursor b) 0" using runs_mmu [OF m] r by simp
  show ?thesis by (rule that [OF b(1) e rr sc k])
qed


lemma start_shells_enters:
  assumes "before_shells s" "command_is (shell_command s) (bytes ''shell'') ys" "program_in s n k (bytes ''shell'') inode bs eip"
  obtains t where "start_shells s = Some (Left (Start eip 0x083FFFFC), t)" "proc_ok t" "curr_pid t = 0" "irq_enabled t 0" "iflag t"
    "pcb_status_array t = [1, 1, 1, 0, 0, 0]" "active_proc_num t = 3" "active_root_shell t = 3"
    "\<forall>p<3. image_at (phys t) p bs" "\<forall>p\<in>{1, 2}. shell_flag (pcbs t p) = 1 \<and> cmd_eip (pcbs t p) = eip"
proof -
  note b = assms(1) [unfolded before_shells_def]
  let ?F = "\<lambda>p. p\<lparr>shell_flag := 1, cmd_eip := eip\<rparr>"
  have nc: "take 5 (bytes ''shell'') \<noteq> bytes ''clear''" by (simp add: bytes_def asc_def)
  have len: "length bs \<le> 3899392" using assms(3) by (simp add: program_in_def)
  have r0: "runs s 0" using b by blast
  have f0: "free_slot s = Some 1" using b by (simp add: free_slot_def upt_rec)
  obtain t1 where t1: "execute (shell_command s) s = Some (Done 0, upd_pcb 1 ?F t1)" "loaded s 1 (bytes ''shell'') ys bs t1"
    "program_in t1 n k (bytes ''shell'') inode bs eip" "image_at (phys t1) 1 bs"
    by (rule shell_waits [OF r0 assms(2,3) f0]) (use b in simp_all)
  note l1 = loaded_fields [OF t1(2)]
  define u1 where "u1 = upd_pcb 1 ?F t1"
  have s1: "kernel_same s u1" unfolding u1_def by (rule same_pcb [OF loaded_same [OF t1(2) r0]])
  have r1: "runs u1 1" "screen_of u1 = screen_of s" "phys u1 = phys t1" unfolding u1_def runs_pcb using l1 by simp_all
  have u1: "active_proc_num u1 = 1" "active_root_shell u1 = 1" "pcb_status_array u1 = [1, 1, 0, 0, 0, 0]"
    "after_shell u1 = after_shell s" "curr_term u1 = 0" "term_on_screen u1 = term_on_screen s" "terminal u1 = terminal s"
    "task_list_head u1 = task_list_head s" "task_list_tail u1 = task_list_tail s"
    "the_pid (pcbs u1 1) = 1" "shell_flag (pcbs u1 1) = 1" "cmd_eip (pcbs u1 1) = eip"
    using b l1 by (simp_all add: u1_def upd_pcb_def new_block_def)
  have f1: "free_slot u1 = Some 2" using u1(3) by (simp add: free_slot_def upt_rec)
  have sc1: "shell_command u1 = shell_command s" using u1(4) by (simp add: shell_command_def fun_eq_iff)
  have c1: "command_is (shell_command u1) (bytes ''shell'') ys" unfolding sc1 by (rule assms(2))
  have p1: "program_in u1 n k (bytes ''shell'') inode bs eip" by (rule same_program [OF s1 assms(3)])
  obtain t2 where t2: "execute (shell_command u1) u1 = Some (Done 0, upd_pcb 2 ?F t2)" "loaded u1 2 (bytes ''shell'') ys bs t2"
    "program_in t2 n k (bytes ''shell'') inode bs eip" "image_at (phys t2) 2 bs"
    by (rule shell_waits [OF r1(1) c1 p1 f1]) (simp_all add: u1(1,2))
  note l2 = loaded_fields [OF t2(2)]
  define u2 where "u2 = upd_pcb 2 ?F t2"
  have s2: "kernel_same u1 u2" unfolding u2_def by (rule same_pcb [OF loaded_same [OF t2(2) r1(1)]])
  have r2: "runs u2 2" "screen_of u2 = screen_of s" "phys u2 = phys t2" unfolding u2_def runs_pcb using l2 r1 by simp_all
  have u2: "active_proc_num u2 = 2" "active_root_shell u2 = 2" "pcb_status_array u2 = [1, 1, 1, 0, 0, 0]"
    "after_shell u2 = after_shell s" "curr_term u2 = 0" "term_on_screen u2 = term_on_screen s" "terminal u2 = terminal s"
    "task_list_head u2 = task_list_head s" "task_list_tail u2 = task_list_tail s"
    "the_pid (pcbs u2 2) = 2" "shell_flag (pcbs u2 2) = 1" "cmd_eip (pcbs u2 2) = eip" "pcbs u2 1 = pcbs u1 1"
    using u1 l2 by (simp_all add: u2_def upd_pcb_def new_block_def)
  define v where "v = u2\<lparr>pcb_status_array := (pcb_status_array u2)[0 := 0]\<rparr>"
  have mv: "mmu v = mmu u2" by (simp add: v_def mmu_def)
  have v: "runs v 2" "screen_of v = screen_of s" using runs_mmu [OF mv] mmu_cong(5) [OF mv] r2 by simp_all
  have v0: "screen_of v 0 = 0" using v(2) b by simp
  obtain w' c ph T where w': "foldM blank_cell [0..<1920] (flush_tlb 0 v) = Some w'"
    "reset_cursor w' = v\<lparr>cr3 := c, phys := ph, terms := T\<rparr>" "runs (reset_cursor w') 0" "screen_of (reset_cursor w') = screen_of v"
    "\<forall>a. 0x400000 \<le> unat a \<longrightarrow> ph a = phys v a"
    by (rule screen_cleared [OF v(1) v0])
  define w where "w = reset_cursor w'"
  note we = w'(2) [folded w_def] and rw = w'(3,4) [folded w_def]
  have w: "active_proc_num w = 2" "active_root_shell w = 2" "pcb_status_array w = [0, 1, 1, 0, 0, 0]"
    "after_shell w = after_shell s" "curr_term w = 0" "term_on_screen w = term_on_screen s" "terminal w = terminal s"
    "task_list_head w = task_list_head s" "task_list_tail w = task_list_tail s" "pcbs w = pcbs u2"
    unfolding we using u2 by (simp_all add: v_def)
  have hi: "phys w a = phys t2 a" if "0x400000 \<le> unat a" for a
    unfolding we using w'(5) that r2(3) by (simp add: v_def)
  have sw: "kernel_same u2 w"
  proof -
    have "\<forall>a. 0x400000 \<le> unat a \<longrightarrow> phys w a = phys u2 a" using hi r2(3) by simp
    then show ?thesis using r2(1) rw(1) unfolding kernel_same_def by (auto simp: we v_def)
  qed
  have pw: "program_in w n k (bytes ''shell'') inode bs eip"
    by (rule same_program [OF sw]) (rule same_program [OF s2 p1])
  have fw: "free_slot w = Some 0" using w(3) by (simp add: free_slot_def upt_rec)
  have scw: "shell_command w = shell_command s" using w(4) by (simp add: shell_command_def fun_eq_iff)
  have cw: "command_is (shell_command w) (bytes ''shell'') ys" unfolding scw by (rule assms(2))
  have aw: "active_proc_num w < 3" unfolding w(1) by simp
  obtain t3 where t3: "loaded w 0 (bytes ''shell'') ys bs t3"
    "execute (shell_command w) w = (if active_root_shell t3 < 3
       then Some (Done 0, upd_pcb 0 ?F t3) else exec_enter 0 eip t3)"
    by (rule execute_root [OF rw(1) cw nc pw fw _ aw]) simp
  note l3 = loaded_fields [OF t3(1)]
  have ex3: "execute (shell_command w) w = exec_enter 0 eip t3" using t3(2) l3(5) w(2) by simp
  have m3: "mmu_ok t3" using l3(12) by (simp add: runs_def)
  obtain t where t: "exec_enter 0 eip t3 = Some (Left (Start eip 0x083FFFFC), t)"
    "\<exists>pt c m sm l. t = t3\<lparr>tss_ss0 := KERNEL_DS, tss_esp0 := stack_top (of_nat 0), page_table := pt, cr3 := c,
       master_mask := m, slave_mask := sm, io_log := l, iflag := True\<rparr>"
    "runs t 0" "screen_of t = (screen_of t3)(0 := unat (curr_term t3))" "irq_enabled t 0"
    by (rule exec_enter_root [of 0 t3 eip]) (use l3 m3 w in simp_all)
  have tf: "curr_pid t = 0" "iflag t" "pcb_status_array t = [1, 1, 1, 0, 0, 0]" "active_proc_num t = 3" "active_root_shell t = 3"
    "curr_term t = 0" "term_on_screen t = term_on_screen s" "terminal t = terminal s" "task_list_head t = task_list_head s"
    "task_list_tail t = task_list_tail s" "phys t = phys t3" "the_pid (pcbs t 0) = 0" "pcbs t 1 = pcbs u1 1" "pcbs t 2 = pcbs u2 2"
    using t(2) l3 w u2(13) by (auto simp: new_block_def)
  have sct: "screen_of t p = p" if "p < 3" for p
    using t(4) l3(2,13) rw(2) v(2) w(5) b that by simp
  have sd: "shell_command w' = shell_command s"
  proof -
    have "after_shell w' = after_shell w" by (simp add: w_def reset_cursor_def upd_shown_def upd_term_def)
    then show ?thesis using w(4) by (simp add: shell_command_def fun_eq_iff)
  qed
  have st: "start_shells s = Some (Left (Start eip 0x083FFFFC), t)"
    using t1(1) [folded u1_def] t2(1) [folded u2_def] sc1 sd scw ex3 t(1) w'(1)
    by (simp add: start_shells_def v_def [symmetric] w_def [symmetric])
  have tp: "task_pid (terminal t i) = of_nat i" if "i < 3" for i using tf(8) b that by simp
  have "proc_ok t"
  proof -
    have "ring_ok t" using b tf(8,9,10) by (simp add: ring_ok_def)
    moreover have "slots_ok t" using less_3_cases sct tp by (fastforce simp: slots_ok_def)
    moreover have "running_ok t" using t(3) tf tp [of 0] b by (simp add: running_ok_def runs_def)
    moreover have "pcb_status_array t ! unat (task_pid (terminal t j)) \<noteq> 0" if "j < 3" for j
      using less_3_cases [OF that] tp [OF that] tf(3) by auto
    moreover have "the_pid (pcbs t p) = of_nat p" if "p < 6" "pcb_status_array t ! p \<noteq> 0" for p
      using less_6_cases [OF that(1)] that(2) tf u1(10) u2(10) by auto
    ultimately show ?thesis using tf(3) by (simp add: proc_ok_def sched_ok_def)
  qed
  moreover have "image_at (phys t) p bs" if "p < 3" for p
  proof -
    have d: "phys t a = phys t2 a" if "in_program q a" "q \<noteq> 0" for q a
      using l3(15) [of a] hi [of a] in_program_high [OF that(1)] in_program_disjoint [OF that(1)] that(2) tf(11) by force
    have e: "phys t2 a = phys t1 a" if "in_program 1 a" for a
      using l2(15) [of a] in_program_disjoint [OF that] r1(3) by force
    have "image_at (phys t) 1 bs" by (rule image_keep [OF t1(4) _ len]) (use d e in simp_all)
    moreover have "image_at (phys t) 2 bs" by (rule image_keep [OF t2(4) _ len]) (use d in simp_all)
    moreover have "image_at (phys t) 0 bs"
      using image_loaded [OF l3(12) _ len] t3(1) tf(11) by (simp add: loaded_def)
    ultimately show ?thesis using less_3_cases [OF that] by auto
  qed
  ultimately show ?thesis using st tf(1) t(5) tf(2,3,4,5) u1(11,12) u2(11,12) tf(13,14) by (intro that [of t]) simp_all
qed

end
