(* ===== verification/Startup.thy ===== *)
theory Startup
  imports Shells
begin

text \<open>
  The initialisation of \<open>entry\<close> that comes before the shells: until \<open>init_paging\<close> every address is physical, the
  screen is the one of terminal 0, and only the screens, the terms and the interrupt masks change; after it
  the file system is found and the scheduler set up.
\<close>

section \<open>Before paging\<close>

definition cold :: "'a console_scheme \<Rightarrow> bool" where
  "cold s \<longleftrightarrow> \<not> bit (cr0 s) 31 \<and> curr_term s = 0 \<and> term_on_screen s = 0"

text \<open>What the console and the controllers change, outside the kernel's page.\<close>

definition devices_only :: "'a console_scheme \<Rightarrow> 'a console_scheme \<Rightarrow> bool" where
  "devices_only s t \<longleftrightarrow> (\<exists>ph l b m n T. t = s\<lparr>phys := ph, io_log := l, iflag := b, master_mask := m, slave_mask := n, terms := T\<rparr>
     \<and> (\<forall>a. 0x400000 \<le> unat a \<longrightarrow> unat a < 0x800000 \<longrightarrow> ph a = phys s a))"

lemma devices_only_trans: "devices_only s t \<Longrightarrow> devices_only t u \<Longrightarrow> devices_only s u"
  unfolding devices_only_def
proof (elim exE conjE)
  fix ph l b m n T ph' l' b' m' n' T'
  assume a: "t = s\<lparr>phys := ph, io_log := l, iflag := b, master_mask := m, slave_mask := n, terms := T\<rparr>"
    "\<forall>a. 0x400000 \<le> unat a \<longrightarrow> unat a < 0x800000 \<longrightarrow> ph a = phys s a"
    "u = t\<lparr>phys := ph', io_log := l', iflag := b', master_mask := m', slave_mask := n', terms := T'\<rparr>"
    "\<forall>a. 0x400000 \<le> unat a \<longrightarrow> unat a < 0x800000 \<longrightarrow> ph' a = phys t a"
  show "\<exists>ph l b m n T. u = s\<lparr>phys := ph, io_log := l, iflag := b, master_mask := m, slave_mask := n, terms := T\<rparr>
     \<and> (\<forall>a. 0x400000 \<le> unat a \<longrightarrow> unat a < 0x800000 \<longrightarrow> ph a = phys s a)"
    by (intro exI [of _ ph'] exI [of _ l'] exI [of _ b'] exI [of _ m'] exI [of _ n'] exI [of _ T'])
       (use a in simp)
qed

lemma devices_only_cold: "devices_only s t \<Longrightarrow> cold s \<Longrightarrow> cold t"
  by (auto simp: devices_only_def cold_def)

lemma output_devices: "output_only s t \<Longrightarrow> unat (curr_term s) < 3 \<Longrightarrow> devices_only s t"
  unfolding output_only_def devices_only_def
proof (elim exE conjE)
  fix ph l T
  assume t: "t = s\<lparr>phys := ph, io_log := l, terms := (terms s)(unat (curr_term s) := T)\<rparr>"
    and p: "\<forall>a. \<not> in_screen (unat (curr_term s)) a \<longrightarrow> ph a = phys s a" and c: "unat (curr_term s) < 3"
  have "\<not> in_screen (unat (curr_term s)) a" if "0x400000 \<le> unat a" for a using that c by (auto simp: in_screen_def)
  then show "\<exists>ph l b m n T. t = s\<lparr>phys := ph, io_log := l, iflag := b, master_mask := m, slave_mask := n, terms := T\<rparr>
     \<and> (\<forall>a. 0x400000 \<le> unat a \<longrightarrow> unat a < 0x800000 \<longrightarrow> ph a = phys s a)"
    using t p
    by (intro exI [of _ ph] exI [of _ l] exI [of _ "iflag s"] exI [of _ "master_mask s"] exI [of _ "slave_mask s"]
        exI [of _ "(terms s)(unat (curr_term s) := T)"]) simp
qed

text \<open>\<open>clear\<close> goes through the addresses at which programs see the screens: before paging, that is memory far
  above the screen, which keeps its contents.\<close>

lemma clear_cells_cold:
  assumes "cold s"
  obtains ph where "foldM clear_cell [0..<1920] s = Some (s\<lparr>phys := ph\<rparr>)" "\<forall>a. unat a < 0x84B8000 \<longrightarrow> ph a = phys s a"
proof -
  let ?P = "\<lambda>(i :: nat) t. \<exists>ph. t = s\<lparr>phys := ph\<rparr> \<and> (\<forall>a. unat a < 0x84B8000 \<longrightarrow> ph a = phys s a)"
  have "\<exists>t. foldM clear_cell [0..<1920] s = Some t \<and> ?P 1920 t"
  proof (rule foldM_upt [where P = ?P])
    show "?P 0 s" by (intro exI [of _ "phys s"]) simp
    fix i t
    assume i: "i < 1920" and "?P i t"
    then obtain ph where t: "t = s\<lparr>phys := ph\<rparr>" and ph: "\<forall>a. unat a < 0x84B8000 \<longrightarrow> ph a = phys s a" by blast
    let ?a = "0x84B8000 + of_nat (2 * i) :: u32"
    have c: "\<not> bit (cr0 s) 31" "term_on_screen s = 0" using assms by (simp_all add: cold_def)
    have ui: "unat (of_nat i :: u32) = i" by (rule unat_of_nat_small) (use i in simp)
    have v: "vga (shown_screen r) (of_nat i) = ?a" if "term_on_screen r = 0" for r :: "'a console_scheme"
      using vga_nat [of "of_nat i" "shown_screen r"] ui i that by (simp add: shown_screen_def)
    have ua: "unat ?a = 0x84B8000 + 2 * i" "unat (?a + 1) = 0x84B8000 + 2 * i + 1"
      using unat_of_nat_small [of "0x84B8000 + 2 * i"] unat_of_nat_small [of "0x84B8000 + 2 * i + 1"] i
      by (simp_all add: ac_simps)
    have "clear_cell i t = Some (s\<lparr>phys := ph(?a := 32, ?a + 1 := 7)\<rparr>)"
      using c by (simp add: clear_cell_def t v st_def translate_def)
    moreover have "(ph(?a := 32, ?a + 1 := 7)) a = phys s a" if "unat a < 0x84B8000" for a
      using that ph ua by auto
    ultimately show "\<exists>u. clear_cell i t = Some u \<and> ?P (Suc i) u" by blast
  qed simp
  then show ?thesis using that by metis
qed

lemma line_start_fits: "10 \<notin> set xs \<Longrightarrow> 13 \<notin> set xs \<Longrightarrow> tty_x t + length xs < 80 \<Longrightarrow> tty_fits xs t"
  by (induction xs arbitrary: t) (auto simp: tty_last_def tty_putc_def Let_def)

text \<open>So \<open>clear\<close> writes its prompt over the top line of a screen it does not blank.\<close>

lemma clear_cold_memory:
  assumes "cold s"
  obtains t where "clear s = Some t" "devices_only s t"
    "tty_of 0 t = fold tty_putc (bytes ''391OS>'') ((tty_of 0 s)\<lparr>tty_x := 0, tty_y := 0\<rparr>)"
    "\<And>a. unat a < 0x84B8000 \<Longrightarrow> \<not> in_screen 0 a \<Longrightarrow> phys t a = phys s a"
proof -
  note c = assms [unfolded cold_def]
  obtain ph where ph: "foldM clear_cell [0..<1920] s = Some (s\<lparr>phys := ph\<rparr>)" "\<forall>a. unat a < 0x84B8000 \<longrightarrow> ph a = phys s a"
    by (rule clear_cells_cold [OF assms])
  let ?r = "reset_cursor (s\<lparr>phys := ph\<rparr>)"
  have r: "?r = s\<lparr>phys := ph, terms := (terms s)(0 := (terms s 0)\<lparr>screen_x := 0, screen_y := 0\<rparr>)\<rparr>"
    using c by (simp add: reset_cursor_def upd_shown_def upd_term_def)
  have rc: "cold ?r" using c unfolding r by (simp add: cold_def)
  have cell: "unat (cell 0 n) < 0x84B8000" if "n < 1920" for n
    unfolding cell_def screen_addr_def using that by (subst unat_of_nat_small) simp_all
  have ty: "tty_of 0 ?r = (tty_of 0 s)\<lparr>tty_x := 0, tty_y := 0\<rparr>"
    using ph(2) cell unfolding r by (auto simp: tty_of_def fun_eq_iff)
  have cs: "can_show ?r (bytes ''391OS>'')"
    using rc ty line_start_fits [of "bytes ''391OS>''" "(tty_of 0 s)\<lparr>tty_x := 0, tty_y := 0\<rparr>"]
    by (simp add: can_show_def console_ok_def views_def cold_def tty_ok_def) (simp add: bytes_def asc_def)
  obtain u where u: "puts_const ''391OS>'' ?r = Some u" "shows_out ?r (bytes ''391OS>'') u"
    by (rule puts_const_shows [OF _ _ cs]) (simp_all add: bytes_def asc_def)
  obtain l where l: "update_cursor u = u\<lparr>io_log := l\<rparr>" using update_cursor_log by blast
  have "clear s = Some (u\<lparr>io_log := l\<rparr>)" using ph(1) u(1) l by (simp add: clear_def)
  moreover have "devices_only s (u\<lparr>io_log := l\<rparr>)"
  proof (rule devices_only_trans [OF _ devices_only_trans])
    show "devices_only s ?r" unfolding devices_only_def r
      by (intro exI [of _ ph] exI [of _ "io_log s"] exI [of _ "iflag s"] exI [of _ "master_mask s"] exI [of _ "slave_mask s"]
          exI [of _ "(terms s)(0 := (terms s 0)\<lparr>screen_x := 0, screen_y := 0\<rparr>)"]) (use ph(2) in simp)
    show "devices_only ?r u" using u(2) rc by (intro output_devices) (simp_all add: shows_out_def cold_def)
    show "devices_only u (u\<lparr>io_log := l\<rparr>)" unfolding devices_only_def
      by (intro exI [of _ "phys u"] exI [of _ l] exI [of _ "iflag u"] exI [of _ "master_mask u"] exI [of _ "slave_mask u"]
          exI [of _ "terms u"]) simp
  qed
  moreover have "tty_of 0 (u\<lparr>io_log := l\<rparr>) = fold tty_putc (bytes ''391OS>'') ((tty_of 0 s)\<lparr>tty_x := 0, tty_y := 0\<rparr>)"
    using u(2) rc ty by (simp add: shows_out_def cold_def) (simp add: tty_of_def cong: if_cong)
  moreover have "phys (u\<lparr>io_log := l\<rparr>) a = phys s a" if "unat a < 0x84B8000" "\<not> in_screen 0 a" for a
    using output_only_frame(9) [of ?r u a] u(2) rc that ph(2) by (simp add: shows_out_def cold_def) (simp add: r)
  ultimately show ?thesis by (rule that)
qed

lemma clear_cold:
  assumes "cold s"
  obtains t where "clear s = Some t" "devices_only s t"
    "tty_of 0 t = fold tty_putc (bytes ''391OS>'') ((tty_of 0 s)\<lparr>tty_x := 0, tty_y := 0\<rparr>)"
  using clear_cold_memory [OF assms] that by blast


section \<open>The devices\<close>

lemma devices_only_io:
  "t = s\<lparr>io_log := io_log t, iflag := iflag t, master_mask := master_mask t, slave_mask := slave_mask t\<rparr> \<Longrightarrow> devices_only s t"
  unfolding devices_only_def
  by (rule exI [of _ "phys s"], rule exI [of _ "io_log t"], rule exI [of _ "iflag t"], rule exI [of _ "master_mask t"],
      rule exI [of _ "slave_mask t"], rule exI [of _ "terms s"], rule conjI, erule trans) simp_all

lemma devices_only_step:
  "devices_only s (sti s)" "devices_only s (enable_irq n s)" "devices_only s (pic_words s)" "devices_only s (init_timer s)"
  "devices_only s (snd (open_rtc dev f s))"
  by (rule devices_only_io;
      simp add: outb_def sti_def cli_def inb_def enable_irq_def pic_words_def outb_all_def init_timer_def open_rtc_def Let_def)+

text \<open>Up to \<open>init_paging\<close>.\<close>

lemma devices_before_paging:
  fixes s :: "'a boot_scheme"
  assumes "cold s"
  obtains c i where "clear s = Some c" "i8259_init c = Some i"
    "devices_only s (init_timer (enable_irq 8 (enable_irq 1 (sti (snd (open_rtc dev 0 i))))))"
proof -
  obtain c where c: "clear s = Some c" "devices_only s c"
    "tty_of 0 c = fold tty_putc (bytes ''391OS>'') ((tty_of 0 s)\<lparr>tty_x := 0, tty_y := 0\<rparr>)"
    by (rule clear_cold [OF assms])
  have cc: "cold c" by (rule devices_only_cold [OF c(2) assms])
  let ?msg = "bytes ''Initializing 8259\<newline>''"
  have ty: "tty_ok (tty_of 0 c)" "tty_x (tty_of 0 c) = 6"
    unfolding c(3) by (simp_all add: bytes_def asc_def tty_putc_def tty_ok_def Let_def)
  have "tty_fits (bytes ''Initializing 8259'' @ [10]) (tty_of 0 c)"
    by (rule line_fits) (use ty in \<open>auto simp: bytes_def asc_def\<close>)
  then have "can_show c ?msg"
    using cc ty(1) by (simp add: can_show_def console_ok_def views_def cold_def) (simp add: bytes_def asc_def)
  then have cs: "can_show c ?msg" .
  have rn: "render ?msg [] = Some ?msg" by (rule render_plain) (simp add: bytes_def asc_def)
  have z: "0 \<notin> set ?msg" by (simp add: bytes_def asc_def)
  obtain u where u: "printf ''Initializing 8259\<newline>'' [] c = Some (of_nat (length ''Initializing 8259\<newline>''), u)" "shows_out c ?msg u"
    by (rule printf_shows [OF z _ rn cs]) simp_all
  have i: "i8259_init c = Some (pic_words u)" using u(1) by (simp add: i8259_init_def)
  have cu: "devices_only c u" using u(2) cc by (intro output_devices) (simp_all add: shows_out_def cold_def)
  note st = devices_only_trans
  have "devices_only s (init_timer (enable_irq 8 (enable_irq 1 (sti (snd (open_rtc dev 0 (pic_words u)))))))"
    by (rule st [OF c(2) st [OF cu st [OF devices_only_step(3) st [OF devices_only_step(5) st [OF devices_only_step(1)
        st [OF devices_only_step(2) st [OF devices_only_step(2) devices_only_step(4)]]]]]]])
  then show ?thesis by (rule that [OF c(1) i])
qed

section \<open>Paging and the file system\<close>

definition paging_only :: "'a machine_scheme \<Rightarrow> 'a machine_scheme \<Rightarrow> bool" where
  "paging_only s t \<longleftrightarrow> t = s\<lparr>page_directory := page_directory t, page_table := page_table t, video_table := video_table t,
     cr0 := cr0 t, cr3 := cr3 t, cr4 := cr4 t\<rparr>"

lemma paging_only_trans: "paging_only s t \<Longrightarrow> paging_only t u \<Longrightarrow> paging_only s u"
  unfolding paging_only_def
proof -
  assume t: "t = s\<lparr>page_directory := page_directory t, page_table := page_table t, video_table := video_table t,
     cr0 := cr0 t, cr3 := cr3 t, cr4 := cr4 t\<rparr>"
    and u: "u = t\<lparr>page_directory := page_directory u, page_table := page_table u, video_table := video_table u,
     cr0 := cr0 u, cr3 := cr3 u, cr4 := cr4 u\<rparr>"
  show "u = s\<lparr>page_directory := page_directory u, page_table := page_table u, video_table := video_table u,
     cr0 := cr0 u, cr3 := cr3 u, cr4 := cr4 u\<rparr>" by (rule trans [OF u], subst t) simp
qed

lemma paging_only_fold:
  assumes "\<And>x s. paging_only s (f x s)"
  shows "paging_only s (fold f xs s)"
proof (induction xs arbitrary: s)
  case (Cons x xs)
  show ?case using paging_only_trans [OF assms Cons.IH] by simp
qed (simp add: paging_only_def)

lemma paging_only_step:
  "paging_only s (set_pde p i f s)" "paging_only s (set_pte p i g s)" "paging_only s (set_vte p i g s)"
  "paging_only s (flush_tlb p s)" "paging_only s (set_cr0 s)" "paging_only s (set_pse s)"
  by (simp_all add: paging_only_def set_pde_def set_pte_def set_vte_def flush_tlb_def set_cr0_def set_pse_def Let_def)

lemma init_paging_only: "paging_only s (init_paging s)"
proof -
  have c: "paging_only r (clear_tables p r)" for p and r :: "'a machine_scheme"
    unfolding clear_tables_def by (rule paging_only_fold) (rule paging_only_trans [OF paging_only_step(1,2)])
  have m: "paging_only r (map_process p r)" for p and r :: "'a machine_scheme"
    unfolding map_process_def map_video_pages_def map_video_dirs_def map_program_def map_kernel_def Let_def
    by (intro paging_only_trans [OF _ paging_only_fold] paging_only_step
        paging_only_trans [OF _ paging_only_step(1)] paging_only_trans [OF _ paging_only_step(2)])
  show ?thesis unfolding init_paging_def
    by (intro paging_only_trans [OF _ paging_only_step(4)] paging_only_trans [OF _ paging_only_step(5)]
        paging_only_trans [OF _ paging_only_step(6)] paging_only_trans [OF paging_only_fold paging_only_fold] c m)
qed


lemma fs_init:
  assumes "runs s q" "in_kernel (filesystem_base s) 12"
  obtains e i b where "ld_word s (filesystem_base s) = Some e" "ld_word s (filesystem_base s + 4) = Some i"
    "ld_word s (filesystem_base s + 8) = Some b"
    "file_system_init s = Some (0, s\<lparr>num_of_entries := e, num_of_inodes := i, num_of_blocks := b,
       inode_ptr_base := filesystem_base s + 4096, entry_ptr_base := filesystem_base s + 64,
       data_block_ptr_base := filesystem_base s + (i + 1) * 4096\<rparr>)"
proof -
  have k: "kernel_same s s" using assms(1) by (auto simp: kernel_same_def)
  have w: "ld_word s (filesystem_base s + of_nat j) \<noteq> None" if "j + 4 \<le> 12" for j
    by (rule same_ld_word(2) [OF k assms(2) that])
  obtain e i b where l: "ld_word s (filesystem_base s) = Some e" "ld_word s (filesystem_base s + 4) = Some i"
    "ld_word s (filesystem_base s + 8) = Some b"
    using w [of 0] w [of 4] w [of 8] by auto
  have c: "ld_word t a = ld_word s a" if "mmu t = mmu s" "phys t = phys s" for t :: "'a filesys_scheme" and a
    using ld_bytes_cong [OF that] by (simp add: ld_word_def)
  have m: "ld_word (s\<lparr>inode_ptr_base := x, entry_ptr_base := y\<rparr>) a = ld_word s a"
    "ld_word (s\<lparr>inode_ptr_base := x, entry_ptr_base := y, num_of_entries := z\<rparr>) a = ld_word s a"
    "ld_word (s\<lparr>inode_ptr_base := x, entry_ptr_base := y, num_of_entries := z, num_of_inodes := v, data_block_ptr_base := u\<rparr>) a = ld_word s a"
    for x y z v u a by (rule c; simp add: mmu_def)+
  have "file_system_init s = Some (0, s\<lparr>num_of_entries := e, num_of_inodes := i, num_of_blocks := b,
       inode_ptr_base := filesystem_base s + 4096, entry_ptr_base := filesystem_base s + 64,
       data_block_ptr_base := filesystem_base s + (i + 1) * 4096\<rparr>)"
    by (simp add: file_system_init_def m l)
  then show ?thesis by (rule that [OF l])
qed

lemma init_schedule_result:
  "\<exists>T. init_schedule s = s\<lparr>terminal := T, curr_term := 0, term_on_screen := 0, task_list_head := 0, task_list_tail := 2\<rparr>
    \<and> (\<forall>i<3. T i = \<lparr>task_pid = of_nat i, task_term = of_nat i, task_next = (i + 1) mod 3, task_active = if i = 0 then 1 else 0\<rparr>)"
  by (rule exI [of _ "terminal (init_schedule s)"])
     (auto simp: init_schedule_def init_task_def upt_rec numeral_2_eq_2 Let_def dest!: less_3_cases)

lemma setup_terms_result: "\<exists>T. setup_terms s = s\<lparr>terms := T\<rparr>"
  unfolding setup_terms_def by (rule exI) (simp add: upt_rec upd_term_def)

lemma init_devices_ready:
  fixes s :: "'a boot_scheme"
  assumes "cold s" "link_ok s" "video_table s = (\<lambda>_ _. blank_pte)" "in_kernel (filesystem_base s) 12"
    and "pcb_status_array s = [1, 0, 0, 0, 0, 0]" "file_system_init (init_paging s) = Some (r, d)"
  obtains t where "init_devices dev s = Some t" "before_shells t" "kernel_same d t" "after_shell t = after_shell s"
proof -
  obtain c i where ci: "clear s = Some c" "i8259_init c = Some i"
    "devices_only s (init_timer (enable_irq 8 (enable_irq 1 (sti (snd (open_rtc dev 0 i))))))"
    by (rule devices_before_paging [OF assms(1)])
  define g where "g = init_timer (enable_irq 8 (enable_irq 1 (sti (snd (open_rtc dev 0 i)))))"
  obtain ph l b m n T where ge: "g = s\<lparr>phys := ph, io_log := l, iflag := b, master_mask := m, slave_mask := n, terms := T\<rparr>"
    and gp: "\<forall>a. 0x400000 \<le> unat a \<longrightarrow> unat a < 0x800000 \<longrightarrow> ph a = phys s a"
    using ci(3) unfolding devices_only_def g_def by blast
  have lg: "link_ok g" "video_table g = (\<lambda>_ _. blank_pte)" using assms(2,3) unfolding ge by (simp_all add: link_ok_def)
  define p where "p = (init_paging g)\<lparr>active_proc_num := 0\<rparr>"
  have mp: "mmu p = mmu (init_paging g)" by (simp add: p_def mmu_def)
  have ep: "mmu_ok p" "current_dir p = Some 0" "\<forall>q<6. screen_of p q = (if q < 3 then q else 0)"
    using init_paging_establishes [OF lg] mmu_cong(3-5) [OF mp] by simp_all
  have es: "mmu_ok (init_paging s)" "current_dir (init_paging s) = Some 0"
    using init_paging_establishes [OF assms(2,3)] by simp_all
  have rp: "runs p 0" "runs (init_paging s) 0" using ep es by (simp_all add: runs_def)
  have po: "paging_only s (init_paging s)" "paging_only g (init_paging g)" by (rule init_paging_only)+
  have ps: "phys (init_paging s) = phys s" "filesystem_base (init_paging s) = filesystem_base s"
    "inode_ptr_base (init_paging s) = inode_ptr_base s" "data_block_ptr_base (init_paging s) = data_block_ptr_base s"
    "num_of_blocks (init_paging s) = num_of_blocks s" "num_of_entries (init_paging s) = num_of_entries s"
    "entry_ptr_base (init_paging s) = entry_ptr_base s"
    by (subst po(1) [unfolded paging_only_def], simp)+
  have pp: "phys p = ph" "filesystem_base p = filesystem_base s" "inode_ptr_base p = inode_ptr_base s"
    "data_block_ptr_base p = data_block_ptr_base s" "num_of_blocks p = num_of_blocks s" "num_of_entries p = num_of_entries s"
    "entry_ptr_base p = entry_ptr_base s" "pcb_status_array p = pcb_status_array s" "after_shell p = after_shell s"
    "active_proc_num p = 0"
    unfolding p_def by (subst po(2) [unfolded paging_only_def], simp add: ge)+
  have k: "kernel_same (init_paging s) p"
    using rp gp ps pp by (auto simp: kernel_same_def)
  have ik: "in_kernel (filesystem_base (init_paging s)) 12" "in_kernel (filesystem_base p) 12" using assms(4) ps(2) pp(2) by simp_all
  obtain e i' b' where D: "ld_word (init_paging s) (filesystem_base s) = Some e" "ld_word (init_paging s) (filesystem_base s + 4) = Some i'"
    "ld_word (init_paging s) (filesystem_base s + 8) = Some b'"
    "file_system_init (init_paging s) = Some (0, (init_paging s)\<lparr>num_of_entries := e, num_of_inodes := i', num_of_blocks := b',
       inode_ptr_base := filesystem_base s + 4096, entry_ptr_base := filesystem_base s + 64,
       data_block_ptr_base := filesystem_base s + (i' + 1) * 4096\<rparr>)"
    by (rule fs_init [OF rp(2) ik(1), unfolded ps(2)])
  obtain e2 i2 b2 where F: "ld_word p (filesystem_base s) = Some e2" "ld_word p (filesystem_base s + 4) = Some i2"
    "ld_word p (filesystem_base s + 8) = Some b2"
    "file_system_init p = Some (0, p\<lparr>num_of_entries := e2, num_of_inodes := i2, num_of_blocks := b2,
       inode_ptr_base := filesystem_base s + 4096, entry_ptr_base := filesystem_base s + 64,
       data_block_ptr_base := filesystem_base s + (i2 + 1) * 4096\<rparr>)"
    by (rule fs_init [OF rp(1) ik(2), unfolded pp(2)])
  have eq: "e2 = e" "i2 = i'" "b2 = b'"
    using same_ld_word(1) [OF k assms(4), of 0] same_ld_word(1) [OF k assms(4), of 4] same_ld_word(1) [OF k assms(4), of 8] D(1-3) F(1-3) ps(2)
    by simp_all
  define f where "f = p\<lparr>num_of_entries := e2, num_of_inodes := i2, num_of_blocks := b2,
       inode_ptr_base := filesystem_base s + 4096, entry_ptr_base := filesystem_base s + 64,
       data_block_ptr_base := filesystem_base s + (i2 + 1) * 4096\<rparr>"
  obtain T1 where T1: "init_schedule f = f\<lparr>terminal := T1, curr_term := 0, term_on_screen := 0, task_list_head := 0, task_list_tail := 2\<rparr>"
    "\<forall>i<3. T1 i = \<lparr>task_pid = of_nat i, task_term = of_nat i, task_next = (i + 1) mod 3, task_active = if i = 0 then 1 else 0\<rparr>"
    using init_schedule_result by blast
  obtain T2 where T2: "setup_terms (init_schedule f) = (init_schedule f)\<lparr>terms := T2\<rparr>" using setup_terms_result by blast
  have ST: "setup_terms (init_schedule f) = f\<lparr>terminal := T1, curr_term := 0, term_on_screen := 0, task_list_head := 0,
      task_list_tail := 2, terms := T2\<rparr>"
    unfolding T2 by (subst T1(1)) simp
  define u where "u = init_user_group ((setup_terms (init_schedule f))\<lparr>curr_term := 0, active_root_shell := 0\<rparr>)"
  have "file_system_init p = Some (0, f)" unfolding f_def by (rule F(4))
  then have ini: "init_devices dev s = Some u"
    using ci(1,2)
    by (simp add: init_devices_def terminal_open_def case_prod_unfold g_def [symmetric] p_def [symmetric] u_def [symmetric])
  have uf: "phys u = ph" "terminal u = T1" "curr_term u = 0" "term_on_screen u = 0" "task_list_head u = 0" "task_list_tail u = 2"
    "active_proc_num u = 0" "active_root_shell u = 0" "pcb_status_array u = pcb_status_array s" "after_shell u = after_shell s"
    "num_of_entries u = e" "num_of_blocks u = b'" "inode_ptr_base u = filesystem_base s + 4096"
    "entry_ptr_base u = filesystem_base s + 64" "data_block_ptr_base u = filesystem_base s + (i' + 1) * 4096"
    unfolding u_def ST by (simp_all add: init_user_group_def f_def pp eq)
  have mu: "mmu u = mmu p" unfolding u_def ST by (simp add: init_user_group_def f_def mmu_def)
  have ru: "runs u 0" "\<forall>q<3. screen_of u q = q" using rp(1) runs_mmu [OF mu] mmu_cong(5) [OF mu] ep(3) by simp_all
  have "before_shells u"
    using ru T1(2) uf assms(5) by (simp add: before_shells_def ring_ok_def)
  moreover have "kernel_same d u"
  proof -
    have d: "d = (init_paging s)\<lparr>num_of_entries := e, num_of_inodes := i', num_of_blocks := b',
       inode_ptr_base := filesystem_base s + 4096, entry_ptr_base := filesystem_base s + 64,
       data_block_ptr_base := filesystem_base s + (i' + 1) * 4096\<rparr>" using D(4) assms(6) by simp
    have "mmu d = mmu (init_paging s)" unfolding d by (simp add: mmu_def)
    then have "runs d 0" using runs_mmu rp(2) by blast
    then show ?thesis using ru(1) uf gp ps(1) unfolding kernel_same_def by (auto simp: d)
  qed
  ultimately show ?thesis using ini uf(10) by (intro that)
qed


section \<open>From power-on to the first shell\<close>

lemma boot_enters_shell:
  fixes s :: "'a boot_scheme"
  assumes "cold s" "link_ok s" "video_table s = (\<lambda>_ _. blank_pte)" "in_kernel (filesystem_base s) 12"
    and "pcb_status_array s = [1, 0, 0, 0, 0, 0]" "command_is (shell_command s) (bytes ''shell'') ys"
    and "file_system_init (init_paging s) = Some (r, d)" "program_in d n k (bytes ''shell'') inode bs eip"
  obtains t u where "init_devices dev s = Some t" "start_shells t = Some (Left (Start eip 0x083FFFFC), u)" "proc_ok u"
    "curr_pid u = 0" "irq_enabled u 0" "iflag u" "pcb_status_array u = [1, 1, 1, 0, 0, 0]" "\<forall>p<3. image_at (phys u) p bs"
proof -
  obtain t where t: "init_devices dev s = Some t" "before_shells t" "kernel_same d t" "after_shell t = after_shell s"
    by (rule init_devices_ready [OF assms(1-5,7)])
  have "shell_command t = shell_command s" using t(4) by (simp add: shell_command_def fun_eq_iff)
  then have c: "command_is (shell_command t) (bytes ''shell'') ys" using assms(6) by simp
  obtain u where u: "start_shells t = Some (Left (Start eip 0x083FFFFC), u)" "proc_ok u" "curr_pid u = 0" "irq_enabled u 0" "iflag u"
    "pcb_status_array u = [1, 1, 1, 0, 0, 0]" "\<forall>p<3. image_at (phys u) p bs"
    by (rule start_shells_enters [OF t(2) c same_program [OF t(3) assms(8)]])
  show ?thesis by (rule that [OF t(1) u])
qed

end
