(* ===== verification/Desctypes.thy ===== *)
theory Desctypes
  imports Exec
begin

text \<open>
  The typing of descriptor tables: \<open>execute\<close> gives a process a well-typed one and the calls on descriptors
  keep it so, whatever arguments a program passes.
\<close>

text \<open>An open descriptor points to the driver its number and file type call for.\<close>

definition typed_descs :: "nat \<Rightarrow> 'a process_scheme \<Rightarrow> bool" where
  "typed_descs p s \<longleftrightarrow> (\<forall>j<8. desc_busy p s j \<longrightarrow>
     file_ops_table_ptr (desc_of s p j) \<in> (if j < 2 then {Terminal_ops} else {Rtc_ops, File_ops}))"

lemma typed_keep: "\<forall>j<8. desc_of t p j = desc_of s p j \<Longrightarrow> typed_descs p s \<Longrightarrow> typed_descs p t"
  by (simp add: typed_descs_def desc_busy_def)

lemma typed_update:
  assumes "typed_descs p s" "\<forall>j. j \<noteq> k \<longrightarrow> desc_of t p j = desc_of s p j"
    and "flags (desc_of t p k) = 0 \<or> file_ops_table_ptr (desc_of t p k) \<in> (if k < 2 then {Terminal_ops} else {Rtc_ops, File_ops})"
  shows "typed_descs p t"
  unfolding typed_descs_def
proof (intro allI impI)
  fix j :: nat
  assume j: "j < 8" "desc_busy p t j"
  show "file_ops_table_ptr (desc_of t p j) \<in> (if j < 2 then {Terminal_ops} else {Rtc_ops, File_ops})"
  proof (cases "j = k")
    case True
    then show ?thesis using assms(3) j by (auto simp: desc_busy_def)
  next
    case False
    then show ?thesis using assms(1,2) j by (simp add: typed_descs_def desc_busy_def)
  qed
qed

lemma driver_open_descs: "driver_open dev ops e s = Some (r, t) \<Longrightarrow> pcbs t = pcbs s"
  by (auto simp: driver_open_def terminal_open_def open_rtc_def filesystem_open_def inb_def outb_def cli_def sti_def Let_def
      split: file_ops_table.splits)

lemma find_found: "find P xs = Some x \<Longrightarrow> x \<in> set xs \<and> P x"
  by (auto simp: find_Some_iff)

lemma sys_open_typed:
  assumes "fetch_cur_pcb_ptr s = Some p" "typed_descs p s" "sys_open dev e s = Some (v, t)"
  shows "typed_descs p t"
proof -
  obtain r d where d: "read_dentry_by_name (at s e) s = Some (r, d)"
    using assms(1,3) by (auto simp: sys_open_def bind_eq_Some_conv)
  show ?thesis
  proof (cases "d = None \<or> free_desc s p = None")
    case True
    then show ?thesis using assms d by (auto simp: sys_open_def split: option.splits)
  next
    case False
    then obtain de i where de: "d = Some de" and i: "free_desc s p = Some i" by auto
    let ?u = "upd_desc p i (set_desc (dentry_filetype de) (dentry_inode_num de)) s"
    have "i \<in> set [2..<8]" "flags (filesys_desc_array (pcbs s p) i) = 0" using find_found [OF i [unfolded free_desc_def]] by (simp_all only:)
    then have f: "2 \<le> i" "flags (desc_of s p i) = 0" by (auto simp: desc_of_def)
    have "pcbs t = pcbs ?u"
      using assms(1,3) d de i driver_open_descs by (auto simp: sys_open_def bind_eq_Some_conv)
    then have e: "desc_of t p j = desc_of ?u p j" for j by (simp add: desc_of_def)
    have k: "desc_of ?u p i = set_desc (dentry_filetype de) (dentry_inode_num de) (desc_of s p i)"
      "\<forall>j. j \<noteq> i \<longrightarrow> desc_of ?u p j = desc_of s p j" by (auto simp: desc_of_def upd_desc_def upd_pcb_def)
    show ?thesis
      by (rule typed_update [OF assms(2), of i]) (use e k f in \<open>auto simp: set_desc_def\<close>)
  qed
qed

lemma sys_close_typed: "fetch_cur_pcb_ptr s = Some p \<Longrightarrow> typed_descs p s \<Longrightarrow> sys_close fd s = Some (v, t) \<Longrightarrow> typed_descs p t"
proof -
  assume h: "fetch_cur_pcb_ptr s = Some p" "typed_descs p s" "sys_close fd s = Some (v, t)"
  then have "t = s \<or> t = upd_desc p (unat fd) (\<lambda>d. d\<lparr>flags := 0\<rparr>) s"
    by (auto simp: sys_close_def bind_eq_Some_conv split: if_splits)
  then show ?thesis
  proof
    assume t: "t = upd_desc p (unat fd) (\<lambda>d. d\<lparr>flags := 0\<rparr>) s"
    show ?thesis by (rule typed_update [OF h(2), of "unat fd"]) (auto simp: t desc_of_def upd_desc_def upd_pcb_def)
  qed (use h in simp)
qed


text \<open>Copying and printing leave the control blocks alone, wherever the addresses point.\<close>

lemma st_pcbs: "st a b s = Some t \<Longrightarrow> pcbs t = pcbs s"
  by (auto simp: st_Some)

lemma foldM_pcbs: "(\<And>i s t. f i s = Some t \<Longrightarrow> pcbs t = pcbs s) \<Longrightarrow> foldM f xs s = Some t \<Longrightarrow> pcbs t = pcbs s"
proof (induction xs arbitrary: s)
  case (Cons x xs)
  from Cons.prems(2) obtain u where u: "f x s = Some u" "foldM f xs u = Some t" by (auto simp: bind_eq_Some_conv)
  show ?case using Cons.IH [OF Cons.prems(1) u(2)] Cons.prems(1) [OF u(1)] by simp
qed simp

lemma scroll_pcbs: "scroll_screen s = Some t \<Longrightarrow> pcbs t = pcbs s"
proof -
  assume "scroll_screen s = Some t"
  then obtain u where u: "foldM scroll_row [1..<24] s = Some u" "foldM scroll_blank [0..<80] u = Some t"
    by (auto simp: scroll_screen_def bind_eq_Some_conv simp del: upt_rec_numeral)
  have c: "pcbs w = pcbs v" if "scroll_cell i j v = Some w" for i j and v w :: "'a process_scheme"
    using that st_pcbs by (auto simp: scroll_cell_def bind_eq_Some_conv)
  have "pcbs u = pcbs s"
    by (rule foldM_pcbs [OF _ u(1)]) (use foldM_pcbs [OF c] in \<open>auto simp: scroll_row_def simp del: upt_rec_numeral\<close>)
  moreover have "pcbs t = pcbs u"
    by (rule foldM_pcbs [OF _ u(2)]) (auto simp: scroll_blank_def dest: st_pcbs)
  ultimately show ?thesis by simp
qed

lemma cursor_pcbs [simp]: "pcbs (update_cursor s) = pcbs s" "pcbs (upd_cur f s) = pcbs s"
  by (simp_all add: update_cursor_def outb_def Let_def upd_cur_def upd_term_def)

lemma putc_pcbs: "putc c s = Some t \<Longrightarrow> pcbs t = pcbs s"
  unfolding putc_def
  by (auto simp: bind_eq_Some_conv split: if_splits dest!: st_pcbs scroll_pcbs)

lemma write_chars_pcbs: "write_chars buf n s = Some t \<Longrightarrow> pcbs t = pcbs s"
  unfolding write_chars_def by (rule foldM_pcbs) (auto simp: bind_eq_Some_conv dest: putc_pcbs)

lemma sys_write_typed:
  assumes "fetch_cur_pcb_ptr s = Some p" "typed_descs p s" "sys_write dev fd buf n s = Some (v, t)"
  shows "typed_descs p t"
proof -
  have w: "pcbs u = pcbs s" if "driver_write dev ops fd buf n s = Some (v, u)" for ops v u
    using that write_chars_pcbs
    by (auto simp: driver_write_def terminal_write_def write_rtc_def filesystem_write_def bind_eq_Some_conv cli_def sti_def outb_def inb_def Let_def
        split: file_ops_table.splits option.splits dest!: write_chars_pcbs)
  have "pcbs t = pcbs s"
    using assms(1,3) w by (auto simp: sys_write_def bind_eq_Some_conv split: if_splits)
  then show ?thesis using assms(2) by (intro typed_keep [of t p s]) (simp_all add: desc_of_def)
qed

lemma exec_block_typed: "typed_descs i (exec_block i fname arg m s)"
  by (auto simp: exec_block_eq typed_descs_def desc_busy_def desc_of_def upd_pcb_def new_block_def new_descs_def stdio_def)

end
