(* ===== verification/Bootinfo.thy ===== *)
theory Bootinfo
  imports Startup
begin

text \<open>
  The first half of \<open>entry\<close>: what the boot loader left in memory is printed, field by field, and gives the
  address of the file system. \<open>boot_text\<close> is the text, a function of the memory; \<open>boot_info\<close> prints it.
\<close>

section \<open>Memory before paging\<close>

text \<open>Addresses below the ones \<open>clear\<close> writes to, and off the first screen.\<close>

definition low_memory :: "u32 \<Rightarrow> nat \<Rightarrow> bool" where
  "low_memory a n \<longleftrightarrow> (\<forall>i<n. unat (a + of_nat i) < 0x84B8000 \<and> \<not> in_screen 0 (a + of_nat i))"

definition boot_mem :: "(u32 \<Rightarrow> u8) \<Rightarrow> 'a console_scheme \<Rightarrow> bool" where
  "boot_mem m s \<longleftrightarrow> cold s \<and> (\<forall>a. unat a < 0x84B8000 \<longrightarrow> \<not> in_screen 0 a \<longrightarrow> phys s a = m a)"

definition mem_word :: "(u32 \<Rightarrow> u8) \<Rightarrow> u32 \<Rightarrow> u32" where
  "mem_word m a = word_of_bytes [m a, m (a + 1), m (a + 2), m (a + 3)]"

lemma low_memory_sub:
  assumes "low_memory a n" "k + j \<le> n"
  shows "low_memory (a + of_nat k) j"
  unfolding low_memory_def
proof (intro allI impI)
  fix i assume "i < j"
  then have "k + i < n" using assms(2) by simp
  moreover have "a + of_nat k + of_nat i = a + of_nat (k + i)" by simp
  ultimately show "unat (a + of_nat k + of_nat i) < 0x84B8000 \<and> \<not> in_screen 0 (a + of_nat k + of_nat i)"
    using assms(1) unfolding low_memory_def by metis
qed

lemma boot_load: "boot_mem m s \<Longrightarrow> low_memory a n \<Longrightarrow> i < n \<Longrightarrow> ld s (a + of_nat i) = Some (m (a + of_nat i))"
  by (simp add: boot_mem_def low_memory_def cold_def ld_def translate_def)

lemma boot_word:
  assumes "boot_mem m s" "low_memory a 4"
  shows "ld_word s a = Some (mem_word m a)"
proof -
  have "ld s a = Some (m a)" "ld s (a + 1) = Some (m (a + 1))" "ld s (a + 2) = Some (m (a + 2))" "ld s (a + 3) = Some (m (a + 3))"
    using boot_load [OF assms, of 0] boot_load [OF assms, of 1] boot_load [OF assms, of 2] boot_load [OF assms, of 3] by simp_all
  then have "ld_bytes s a 4 = Some [m a, m (a + 1), m (a + 2), m (a + 3)]"
    unfolding ld_bytes_nth by (auto simp: less_Suc_eq numeral_eq_Suc)
  then show ?thesis by (simp add: ld_word_def mem_word_def)
qed

lemma boot_mem_shows: "boot_mem m s \<Longrightarrow> shows_out s xs t \<Longrightarrow> boot_mem m t"
  unfolding boot_mem_def shows_out_def
  using devices_only_cold [OF output_devices] output_only_frame(9) by (fastforce simp: cold_def)

section \<open>What prints\<close>

text \<open>\<open>prints m f xs\<close>: with \<open>m\<close> in memory, \<open>f\<close> prints \<open>xs\<close>, where it fits, and does nothing else.\<close>

definition prints :: "(u32 \<Rightarrow> u8) \<Rightarrow> ('a console_scheme \<Rightarrow> 'a console_scheme option) \<Rightarrow> u8 list \<Rightarrow> bool" where
  "prints m f xs \<longleftrightarrow> (\<forall>s. boot_mem m s \<longrightarrow> can_show s xs \<longrightarrow> (\<exists>t. f s = Some t \<and> shows_out s xs t))"

lemma prints_run:
  assumes "prints m f xs" "boot_mem m s" "can_show s (xs @ ys)"
  obtains t where "f s = Some t" "shows_out s xs t" "boot_mem m t" "can_show t ys"
proof -
  obtain t where t: "f s = Some t" "shows_out s xs t" using assms can_show_first unfolding prints_def by blast
  then show ?thesis using that boot_mem_shows [OF assms(2) t(2)] can_show_rest [OF assms(3) t(2)] by blast
qed

lemma prints_none: "prints m Some []"
  by (auto simp: prints_def shows_out_Nil)

lemma prints_seq:
  assumes "prints m f xs" "prints m g ys"
  shows "prints m (\<lambda>s. do { s \<leftarrow> f s; g s }) (xs @ ys)"
  unfolding prints_def
proof (intro allI impI)
  fix s :: "'a console_scheme" assume s: "boot_mem m s" "can_show s (xs @ ys)"
  obtain t where t: "f s = Some t" "shows_out s xs t" "boot_mem m t" "can_show t ys" by (rule prints_run [OF assms(1) s])
  obtain u where "g t = Some u" "shows_out t ys u" using assms(2) t(3,4) unfolding prints_def by blast
  then show "\<exists>u. (do { s \<leftarrow> f s; g s }) = Some u \<and> shows_out s (xs @ ys) u" using t(1) shows_out_append [OF t(2)] by auto
qed

lemma prints_read:
  assumes "low_memory a 4" "prints m (f (mem_word m a)) xs"
  shows "prints m (\<lambda>s. do { v \<leftarrow> ld_word s a; f v s }) xs"
  using assms(2) by (simp add: prints_def boot_word [OF _ assms(1)])

lemma prints_byte:
  assumes "low_memory a n" "i < n" "prints m (f (m (a + of_nat i))) xs"
  shows "prints m (\<lambda>s. do { b \<leftarrow> ld s (a + of_nat i); f b s }) xs"
  using assms(3) by (simp add: prints_def boot_load [OF _ assms(1,2)])

lemma prints_tell:
  assumes "0 \<notin> set (bytes format)" "length format < 2 ^ 31" "render (bytes format) vs = Some xs"
  shows "prints m (tell format vs) xs"
  unfolding prints_def
proof (intro allI impI)
  fix s :: "'a console_scheme" assume "boot_mem m s" "can_show s xs"
  then obtain t where "printf format vs s = Some (of_nat (length format), t)" "shows_out s xs t"
    using printf_shows [OF assms] by metis
  then show "\<exists>t. tell format vs s = Some t \<and> shows_out s xs t" by (simp add: tell_def)
qed

lemma prints_loop:
  assumes "\<And>i. i \<in> set is \<Longrightarrow> prints m (f i) (xs i)"
  shows "prints m (foldM f is) (concat (map xs is))"
  using assms
proof (induction "is")
  case Nil
  then show ?case using prints_none by (simp add: prints_def)
next
  case (Cons i js)
  then have "prints m (\<lambda>s. do { s \<leftarrow> f i s; foldM f js s }) (xs i @ concat (map xs js))" by (intro prints_seq) auto
  then show ?case by simp
qed

text \<open>The fields of \<open>multiboot_info_t\<close>.\<close>

definition info :: "(u32 \<Rightarrow> u8) \<Rightarrow> u32 \<Rightarrow> string \<Rightarrow> u32" where
  "info m a field = mem_word m (a + multiboot_offset field)"

lemma field_memory: "low_memory a 52 \<Longrightarrow> low_memory (a + multiboot_offset field) 4"
  using low_memory_sub [of a 52 "unat (multiboot_offset field)" 4] by (auto simp: multiboot_offset_def)

lemma mbi_info: "boot_mem m s \<Longrightarrow> low_memory a 52 \<Longrightarrow> mbi a field s = Some (info m a field)"
  using boot_word [OF _ field_memory] by (simp add: mbi_def info_def)

lemma prints_fields:
  fixes m :: "u32 \<Rightarrow> u8"
  assumes "low_memory a 52" "prints m (tell format (map (info m a) fs) :: 'a console_scheme \<Rightarrow> _) xs"
  shows "prints m (tell_fields format a fs :: 'a console_scheme \<Rightarrow> _) xs"
proof -
  have "those (map (\<lambda>f. mbi a f s) fs) = Some (map (info m a) fs)" if "boot_mem m s" for s :: "'a console_scheme"
    by (induction fs) (simp_all add: mbi_info [OF that assms(1)])
  then show ?thesis using assms(2) by (simp add: prints_def tell_fields_def)
qed

definition info_flag :: "(u32 \<Rightarrow> u8) \<Rightarrow> u32 \<Rightarrow> nat \<Rightarrow> bool" where
  "info_flag m a n \<longleftrightarrow> CHECK_FLAG (info m a ''flags'') n"

lemma prints_flag: "low_memory a 52 \<Longrightarrow> prints m f xs \<Longrightarrow> prints m (when_flag a n f) (if info_flag m a n then xs else [])"
  by (simp add: prints_def when_flag_def info_flag_def mbi_info shows_out_Nil)

section \<open>The command line\<close>

text \<open>\<open>puts\<close> of a string in memory, read as it is printed.\<close>

definition holds_text :: "(u32 \<Rightarrow> u8) \<Rightarrow> u32 \<Rightarrow> u8 list \<Rightarrow> bool" where
  "holds_text m p xs \<longleftrightarrow> length xs < 2 ^ 31 \<and> low_memory p (length xs + 1) \<and> 0 \<notin> set xs
     \<and> (\<forall>i\<le>length xs. m (p + of_nat i) = (xs @ [0]) ! i)"

lemma puts_from_memory:
  assumes "holds_text m p xs" "i \<le> length xs" "boot_mem m s" "can_show s (drop i xs)"
  shows "\<exists>n t. puts_from (\<lambda>s. at s p) (of_nat i) s = Some (n, t) \<and> shows_out s (drop i xs) t"
  using assms(2-4)
proof (induction "length xs - i" arbitrary: i s)
  case 0
  then have i: "i = length xs" by simp
  have "at s p (of_nat i) = Some 0" using boot_load [OF 0(3), of p "length xs + 1" i] assms(1) i by (simp add: holds_text_def at_def)
  then show ?case using i by (subst puts_from.simps) (simp add: shows_out_Nil)
next
  case (Suc k)
  then have i: "i < length xs" by simp
  have k: "k = length xs - Suc i" using Suc.hyps(2) by simp
  have "xs ! i \<noteq> 0" using assms(1) nth_mem [OF i] unfolding holds_text_def by metis
  then have rd: "at s p (of_nat i) = Some (xs ! i)" "xs ! i \<noteq> 0"
    using boot_load [OF Suc.prems(2), of p "length xs + 1" i] assms(1) i by (auto simp: holds_text_def at_def nth_append)
  have d: "drop i xs = [xs ! i] @ drop (Suc i) xs" using i by (simp add: Cons_nth_drop_Suc)
  then obtain t where t: "putc (xs ! i) s = Some t" "shows_out s [xs ! i] t" "can_show t (drop (Suc i) xs)"
    using putc_shows Suc.prems(3) by fastforce
  obtain n u where u: "puts_from (\<lambda>s. at s p) (of_nat (Suc i)) t = Some (n, u)" "shows_out t (drop (Suc i) xs) u"
    using Suc.hyps(1) [OF k _ boot_mem_shows [OF Suc.prems(2) t(2)] t(3)] i by auto
  then have "puts_from (\<lambda>s. at s p) (of_nat i) s = Some (n, u)" using rd t(1) by (subst puts_from.simps) (simp add: add.commute)
  moreover have "shows_out s (drop i xs) u" unfolding d by (rule shows_out_append [OF t(2) u(2)])
  ultimately show ?case by blast
qed

lemma printf_plain:
  assumes "\<forall>i<length xs. format (of_nat (k + i)) = Some (xs ! i) \<and> xs ! i \<noteq> 0 \<and> xs ! i \<noteq> 37" "can_show s xs"
  shows "\<exists>t. shows_out s xs t \<and> printf_from format (of_nat k) as s = printf_from format (of_nat (k + length xs)) as t"
  using assms
proof (induction xs arbitrary: k s)
  case Nil
  then show ?case using shows_out_Nil by auto
next
  case (Cons x xs)
  obtain t where t: "putc x s = Some t" "shows_out s [x] t" "can_show t xs" using putc_shows [OF Cons.prems(2)] by blast
  have f: "format (of_nat k) = Some x" "x \<noteq> 0" "x \<noteq> 37" using Cons.prems(1) by auto
  have "\<forall>i<length xs. format (of_nat (Suc k + i)) = Some (xs ! i) \<and> xs ! i \<noteq> 0 \<and> xs ! i \<noteq> 37"
    using Cons.prems(1) by (auto simp del: of_nat_Suc of_nat_add dest: spec [of _ "Suc _"])
  then obtain u where u: "shows_out t xs u" "printf_from format (of_nat (Suc k)) as t = printf_from format (of_nat (Suc k + length xs)) as u"
    using Cons.IH [of "Suc k" t] t(3) by blast
  have "printf_from format (of_nat k) as s = printf_from format (of_nat (Suc k)) as t"
    using f t(1) by (subst printf_from.simps) (simp add: asc_codes add.commute)
  then show ?case using u shows_out_append [OF t(2) u(1)] by auto
qed

lemma prints_cmdline:
  assumes "holds_text m p xs"
  shows "prints m (tell ''cmdline = %s\<newline>'' [p]) (bytes ''cmdline = '' @ xs @ [10])"
  unfolding prints_def
proof (intro allI impI)
  fix s :: "'a console_scheme" assume s: "boot_mem m s" "can_show s (bytes ''cmdline = '' @ xs @ [10])"
  let ?f = "lit (bytes ''cmdline = %s\<newline>'' @ [0])" and ?pre = "bytes ''cmdline = ''"
  have l: "length ?pre = 10" by (simp add: bytes_def)
  have cs: "cstr ?f (bytes ''cmdline = %s\<newline>'')" by (rule lit_cstr) (simp_all add: bytes_def asc_def)
  have e: "bytes ''cmdline = %s\<newline>'' = ?pre @ [37, 115, 10]" by (simp add: bytes_def asc_def)
  have rd: "?f (of_nat i) = Some ((?pre @ [37, 115, 10]) ! i)" if "i < 13" for i
    using cs that unfolding cstr_def e by (simp add: l)
  have "\<forall>c\<in>set ?pre. c \<noteq> 0 \<and> c \<noteq> 37" by (simp add: bytes_def asc_def)
  then have f: "\<forall>i<length ?pre. ?f (of_nat (0 + i)) = Some (?pre ! i) \<and> ?pre ! i \<noteq> 0 \<and> ?pre ! i \<noteq> 37"
    using rd nth_mem [of _ ?pre] by (simp add: l nth_append)
  obtain t where t: "shows_out s ?pre t" "printf_from ?f (of_nat 0) [p] s = printf_from ?f (of_nat (0 + length ?pre)) [p] t"
    using printf_plain [OF f can_show_first [OF s(2)]] by blast
  have bt: "boot_mem m t" by (rule boot_mem_shows [OF s(1) t(1)])
  have ct: "can_show t (xs @ [10])" by (rule can_show_rest [OF s(2) t(1)])
  obtain n u where u: "puts (\<lambda>s. at s p) t = Some (n, u)" "shows_out t xs u"
    using puts_from_memory [OF assms, of 0 t] bt can_show_first [OF ct] by (auto simp: puts_def)
  have cu: "can_show u [10]" by (rule can_show_rest [OF ct u(2)])
  obtain w where w: "putc 10 u = Some w" "shows_out u [10] w" using putc_shows [OF cu] by blast
  have f2: "?f 10 = Some 37" "?f 11 = Some 115" "?f 12 = Some 10"
    using rd [of 10] rd [of 11] rd [of 12] by (simp_all add: nth_append l)
  have f3: "?f 13 = Some 0" using cs unfolding cstr_def e by (simp add: l)
  have c: "conversion ?f False 11 [p] t = Some (11, [], u)"
    using f2 u(1) by (subst conversion.simps) (simp add: asc_codes next_arg_def)
  have "printf_from ?f 13 [] w = Some (13, w)" using f3 by (subst printf_from.simps) simp
  then have "printf_from ?f 12 [] u = Some (13, w)" using f2 w(1) by (subst printf_from.simps) (simp add: asc_codes)
  then have "printf_from ?f 10 [p] t = Some (13, w)" using f2 c by (subst printf_from.simps) (simp add: asc_codes)
  then have "tell ''cmdline = %s\<newline>'' [p] s = Some w" using t(2) l by (simp add: tell_def printf_def)
  moreover have "shows_out s (?pre @ xs @ [10]) w" by (rule shows_out_append [OF t(1) shows_out_append [OF u(2) w(2)]])
  ultimately show "\<exists>w. tell ''cmdline = %s\<newline>'' [p] s = Some w \<and> shows_out s (?pre @ xs @ [10]) w" by blast
qed

section \<open>Modules and the memory map\<close>

definition bytes_text :: "(u32 \<Rightarrow> u8) \<Rightarrow> u32 \<Rightarrow> u8 list" where
  "bytes_text m start = concat (map (\<lambda>j. bytes ''0x'' @ decimal 16 (scast (m (start + of_nat j))) @ [32]) [0..<16])"

definition module_text :: "(u32 \<Rightarrow> u8) \<Rightarrow> u32 \<Rightarrow> nat \<Rightarrow> u8 list" where
  "module_text m mods i =
     (let r = mods + 16 * of_nat i
      in bytes ''Module '' @ signed_decimal (of_nat i) @ bytes '' loaded at address: 0x'' @ hex8 (mem_word m r) @ [10]
       @ bytes ''Module '' @ signed_decimal (of_nat i) @ bytes '' ends at address: 0x'' @ hex8 (mem_word m (r + 4)) @ [10]
       @ bytes ''First few bytes of module:\<newline>'' @ bytes_text m (mem_word m r) @ [10])"

definition module_ok :: "(u32 \<Rightarrow> u8) \<Rightarrow> u32 \<Rightarrow> nat \<Rightarrow> bool" where
  "module_ok m mods i \<longleftrightarrow> low_memory (mods + 16 * of_nat i) 8 \<and> low_memory (mem_word m (mods + 16 * of_nat i)) 16"

lemma prints_seq_eq: "prints m f xs \<Longrightarrow> prints m g ys \<Longrightarrow> zs = xs @ ys \<Longrightarrow> prints m (\<lambda>s. do { s \<leftarrow> f s; g s }) zs"
  using prints_seq by blast

lemma prints_module:
  assumes "module_ok m mods i"
  shows "prints m (print_module mods i) (module_text m mods i)"
proof -
  let ?r = "mods + 16 * of_nat i"
  have lm: "low_memory ?r 4" "low_memory (?r + 4) 4" "low_memory (mem_word m ?r) 16"
    using assms low_memory_sub [of ?r 8 0 4] low_memory_sub [of ?r 8 4 4] by (simp_all add: module_ok_def)
  have byte: "prints m (\<lambda>s. do { start \<leftarrow> ld_word s ?r; b \<leftarrow> ld s (start + of_nat j); tell ''0x%x '' [scast b] s })
      (bytes ''0x'' @ decimal 16 (scast (m (mem_word m ?r + of_nat j))) @ [32])" if "j \<in> set [0..<16]" for j
  proof (rule prints_read [OF lm(1)], rule prints_byte [OF lm(3)])
    show "j < 16" using that by simp
    show "prints m (tell ''0x%x '' [scast (m (mem_word m ?r + of_nat j))]) (bytes ''0x'' @ decimal 16 (scast (m (mem_word m ?r + of_nat j))) @ [32])"
      by (rule prints_tell) (simp_all add: bytes_def asc_def number_out_def)
  qed
  have t1: "prints m (tell ''Module %d loaded at address: 0x%#x\<newline>'' [of_nat i, w])
      (bytes ''Module '' @ signed_decimal (of_nat i) @ bytes '' loaded at address: 0x'' @ hex8 w @ [10])" for w
    by (rule prints_tell) (simp_all add: bytes_def asc_def number_out_def)
  have t2: "prints m (tell ''Module %d ends at address: 0x%#x\<newline>'' [of_nat i, w])
      (bytes ''Module '' @ signed_decimal (of_nat i) @ bytes '' ends at address: 0x'' @ hex8 w @ [10])" for w
    by (rule prints_tell) (simp_all add: bytes_def asc_def number_out_def)
  have t3: "prints m (tell ''First few bytes of module:\<newline>'' []) (bytes ''First few bytes of module:\<newline>'')"
    by (rule prints_tell) (simp_all add: bytes_def asc_def)
  have t4: "prints m (tell ''\<newline>'' []) [10]" by (rule prints_tell) (simp_all add: bytes_def asc_def)
  have "prints m (\<lambda>s. do { mod_start \<leftarrow> ld_word s ?r;
          s \<leftarrow> tell ''Module %d loaded at address: 0x%#x\<newline>'' [of_nat i, mod_start] s;
          mod_end \<leftarrow> ld_word s (?r + 4);
          s \<leftarrow> tell ''Module %d ends at address: 0x%#x\<newline>'' [of_nat i, mod_end] s;
          s \<leftarrow> tell ''First few bytes of module:\<newline>'' [] s;
          s \<leftarrow> foldM (\<lambda>j s. do { start \<leftarrow> ld_word s ?r; b \<leftarrow> ld s (start + of_nat j); tell ''0x%x '' [scast b] s }) [0..<16] s;
          tell ''\<newline>'' [] s }) (module_text m mods i)"
    unfolding module_text_def Let_def
    by (rule prints_read [OF lm(1)], rule prints_seq_eq [OF t1 prints_read [OF lm(2) prints_seq_eq [OF t2 prints_seq_eq [OF t3
          prints_seq_eq [OF prints_loop [OF byte] t4 refl] refl] refl]]]) (simp_all add: bytes_text_def)
  then show ?thesis unfolding print_module_def [abs_def] .
qed

lemma prints_modules:
  assumes "low_memory a 52" "\<forall>i<unat (info m a ''mods_count''). module_ok m mods i" "c \<le> unat (info m a ''mods_count'')"
  shows "prints m (print_modules a mods c :: 'a console_scheme \<Rightarrow> _) (concat (map (module_text m mods) [c..<unat (info m a ''mods_count'')]))"
  using assms(3)
proof (induction "unat (info m a ''mods_count'') - c" arbitrary: c)
  case 0
  then have "\<not> (of_nat c :: u32) < info m a ''mods_count''" by (simp add: word_less_nat_alt unat_of_nat_small)
  then show ?case using 0
    by (subst print_modules.simps) (simp add: prints_def mbi_info [OF _ assms(1)] shows_out_Nil)
next
  case (Suc k)
  then have c: "c < unat (info m a ''mods_count'')" by simp
  then have lt: "(of_nat c :: u32) < info m a ''mods_count''"
    using unsigned_less [of "info m a ''mods_count''", where ?'a = nat] by (simp add: word_less_nat_alt unat_of_nat_small)
  have k: "k = unat (info m a ''mods_count'') - Suc c" "Suc c \<le> unat (info m a ''mods_count'')" using Suc.hyps(2) c by simp_all
  have "prints m (\<lambda>s :: 'a console_scheme. do { s \<leftarrow> print_module mods c s; print_modules a mods (c + 1) s })
      (module_text m mods c @ concat (map (module_text m mods) [Suc c..<unat (info m a ''mods_count'')]))"
    using Suc.hyps(1) [OF k] assms(2) c by (intro prints_seq prints_module) simp_all
  note step = this
  have "print_modules a mods c s = (do { s \<leftarrow> print_module mods c s; print_modules a mods (c + 1) s })"
    if "boot_mem m s" for s :: "'a console_scheme"
    using lt by (subst print_modules.simps) (simp add: mbi_info [OF that assms(1)])
  then show ?case using step c by (simp add: prints_def upt_conv_Cons)
qed

text \<open>\<open>map_records m lim r rs\<close>: from \<open>r\<close> on the memory map has the records \<open>rs\<close>, the last of which reaches \<open>lim\<close>.\<close>

primrec map_records :: "(u32 \<Rightarrow> u8) \<Rightarrow> u32 \<Rightarrow> u32 \<Rightarrow> u32 list \<Rightarrow> bool" where
  "map_records m lim r [] \<longleftrightarrow> \<not> r < lim"
| "map_records m lim r (x # rs) \<longleftrightarrow> x = r \<and> r < lim \<and> low_memory r 24 \<and> map_records m lim (r + mem_word m r + 4) rs"

definition record_text :: "(u32 \<Rightarrow> u8) \<Rightarrow> u32 \<Rightarrow> u8 list" where
  "record_text m r = bytes '' size = 0x'' @ decimal 16 (mem_word m r) @ bytes '',     base_addr = 0x'' @ hex8 (mem_word m (r + 8))
     @ hex8 (mem_word m (r + 4)) @ [10] @ bytes ''     type = 0x'' @ decimal 16 (mem_word m (r + 20)) @ bytes '',  length    = 0x''
     @ hex8 (mem_word m (r + 16)) @ hex8 (mem_word m (r + 12)) @ [10]"

lemma prints_record:
  assumes "low_memory r 24"
  shows "prints m (print_memory_map r) (record_text m r)"
proof -
  have lm: "low_memory r 4" "low_memory (r + 4) 4" "low_memory (r + 8) 4" "low_memory (r + 12) 4" "low_memory (r + 16) 4" "low_memory (r + 20) 4"
    using low_memory_sub [OF assms, of 0 4] low_memory_sub [OF assms, of 4 4] low_memory_sub [OF assms, of 8 4]
      low_memory_sub [OF assms, of 12 4] low_memory_sub [OF assms, of 16 4] low_memory_sub [OF assms, of 20 4] by simp_all
  have "prints m (tell memory_map_text [mem_word m r, mem_word m (r + 8), mem_word m (r + 4), mem_word m (r + 20), mem_word m (r + 16), mem_word m (r + 12)])
      (record_text m r)"
    by (rule prints_tell) (simp_all add: memory_map_text_def record_text_def bytes_def asc_def number_out_def)
  then show ?thesis unfolding print_memory_map_def [abs_def]
    by (intro prints_read lm)
qed

lemma prints_map:
  assumes "low_memory a 52" "map_records m (info m a ''mmap_addr'' + info m a ''mmap_length'') r rs"
  shows "prints m (print_memory_maps a r :: 'a console_scheme \<Rightarrow> _) (concat (map (record_text m) rs))"
  using assms(2)
proof (induction rs arbitrary: r)
  case Nil
  then show ?case by (subst print_memory_maps.simps) (simp add: prints_def mbi_info [OF _ assms(1)] shows_out_Nil)
next
  case (Cons x rs)
  then have x: "x = r" "r < info m a ''mmap_addr'' + info m a ''mmap_length''" "low_memory r 24" by simp_all
  have lm: "low_memory r 4" using low_memory_sub [OF x(3), of 0 4] by simp
  have "prints m (print_memory_maps a (r + mem_word m r + 4) :: 'a console_scheme \<Rightarrow> _) (concat (map (record_text m) rs))"
    by (rule Cons.IH) (use Cons.prems x(1) in simp)
  then have "prints m (\<lambda>s :: 'a console_scheme. do { s \<leftarrow> print_memory_map r s; sz \<leftarrow> ld_word s r; print_memory_maps a (r + sz + 4) s })
      (record_text m r @ concat (map (record_text m) rs))"
    by (intro prints_seq prints_record x(3) prints_read lm)
  then show ?case using x(1,2)
    by (subst print_memory_maps.simps) (simp add: prints_def mbi_info [OF _ assms(1)])
qed

section \<open>The whole text\<close>

text \<open>What is printed before the modules, for them, and after them; \<open>cmd\<close> is the command line and \<open>rs\<close> are the records
  of the memory map.\<close>

definition head_text :: "(u32 \<Rightarrow> u8) \<Rightarrow> u32 \<Rightarrow> u8 list \<Rightarrow> u8 list" where
  "head_text m a cmd = (bytes ''flags = 0x'' @ hex8 (info m a ''flags'') @ [10])
     @ (if info_flag m a 0 then bytes ''mem_lower = '' @ decimal 10 (info m a ''mem_lower'') @ bytes ''KB, mem_upper = ''
          @ decimal 10 (info m a ''mem_upper'') @ bytes ''KB\<newline>'' else [])
     @ (if info_flag m a 1 then bytes ''boot_device = 0x'' @ hex8 (info m a ''boot_device'') @ [10] else [])
     @ (if info_flag m a 2 then bytes ''cmdline = '' @ cmd @ [10] else [])"

definition modules_text :: "(u32 \<Rightarrow> u8) \<Rightarrow> u32 \<Rightarrow> u8 list" where
  "modules_text m a = (if info_flag m a 3
     then concat (map (module_text m (info m a ''mods_addr'')) [0..<unat (info m a ''mods_count'')]) else [])"

definition tail_text :: "(u32 \<Rightarrow> u8) \<Rightarrow> u32 \<Rightarrow> u32 list \<Rightarrow> u8 list" where
  "tail_text m a rs =
     (if info_flag m a 5 then bytes ''elf_sec: num = '' @ decimal 10 (info m a ''elf_sec.num'') @ bytes '', size = 0x''
        @ hex8 (info m a ''elf_sec.size'') @ bytes '', addr = 0x'' @ hex8 (info m a ''elf_sec.addr'') @ bytes '', shndx = 0x''
        @ hex8 (info m a ''elf_sec.shndx'') @ [10] else [])
     @ (if info_flag m a 6 then (bytes ''mmap_addr = 0x'' @ hex8 (info m a ''mmap_addr'') @ bytes '', mmap_length = 0x''
        @ decimal 16 (info m a ''mmap_length'') @ [10]) @ concat (map (record_text m) rs) else [])"

definition boot_text :: "(u32 \<Rightarrow> u8) \<Rightarrow> u32 \<Rightarrow> u8 list \<Rightarrow> u32 list \<Rightarrow> u8 list" where
  "boot_text m a cmd rs = head_text m a cmd @ modules_text m a @ tail_text m a rs"

text \<open>A structure the boot loader may leave: in memory \<open>clear\<close> and the printing do not write to, the bits 4 and 5 not both
  set, and whatever the flags announce there to be read.\<close>

definition boot_block :: "(u32 \<Rightarrow> u8) \<Rightarrow> u32 \<Rightarrow> u8 list \<Rightarrow> u32 list \<Rightarrow> bool" where
  "boot_block m a cmd rs \<longleftrightarrow> low_memory a 52 \<and> \<not> (info_flag m a 4 \<and> info_flag m a 5)
     \<and> (info_flag m a 2 \<longrightarrow> holds_text m (info m a ''cmdline'') cmd)
     \<and> (info_flag m a 3 \<longrightarrow> low_memory (info m a ''mods_addr'') 4
          \<and> (\<forall>i<unat (info m a ''mods_count''). module_ok m (info m a ''mods_addr'') i))
     \<and> (info_flag m a 6 \<longrightarrow> map_records m (info m a ''mmap_addr'' + info m a ''mmap_length'') (info m a ''mmap_addr'') rs)"

text \<open>The address of the file system: where the first module was loaded.\<close>

definition boot_base :: "(u32 \<Rightarrow> u8) \<Rightarrow> u32 \<Rightarrow> u32 \<Rightarrow> u32" where
  "boot_base m a b = (if info_flag m a 3 then mem_word m (info m a ''mods_addr'') else b)"

lemma prints_field_line:
  fixes m :: "u32 \<Rightarrow> u8"
  assumes "low_memory a 52" "0 \<notin> set (bytes format)" "length format < 2 ^ 31" "render (bytes format) (map (info m a) fs) = Some xs"
  shows "prints m (tell_fields format a fs :: 'a console_scheme \<Rightarrow> _) xs"
  by (rule prints_fields [OF assms(1) prints_tell [OF assms(2-4)]])

definition print_head :: "u32 \<Rightarrow> 'a console_scheme \<Rightarrow> 'a console_scheme option" where
  "print_head a s = do { s \<leftarrow> tell_fields ''flags = 0x%#x\<newline>'' a [''flags''] s;
     s \<leftarrow> when_flag a 0 (tell_fields ''mem_lower = %uKB, mem_upper = %uKB\<newline>'' a [''mem_lower'', ''mem_upper'']) s;
     s \<leftarrow> when_flag a 1 (tell_fields ''boot_device = 0x%#x\<newline>'' a [''boot_device'']) s;
     when_flag a 2 (tell_fields ''cmdline = %s\<newline>'' a [''cmdline'']) s }"

definition print_tail :: "u32 \<Rightarrow> 'a console_scheme \<Rightarrow> 'a console_scheme option" where
  "print_tail a s = do { s \<leftarrow> when_flag a 5 (tell_fields elf_sec_text a [''elf_sec.num'', ''elf_sec.size'', ''elf_sec.addr'', ''elf_sec.shndx'']) s;
     when_flag a 6 (\<lambda>s. do { s \<leftarrow> tell_fields ''mmap_addr = 0x%#x, mmap_length = 0x%x\<newline>'' a [''mmap_addr'', ''mmap_length''] s;
                            mmap \<leftarrow> mbi a ''mmap_addr'' s; print_memory_maps a mmap s }) s }"

lemma boot_info_parts:
  "boot_info magic a s =
     (if magic \<noteq> MULTIBOOT_BOOTLOADER_MAGIC then map_option Inl (tell ''Invalid magic number: 0x%#x\<newline>'' [magic] s)
      else do { s \<leftarrow> print_head a s; w \<leftarrow> mbi a ''flags'' s;
                s \<leftarrow> (if CHECK_FLAG w 3 then find_modules a s else Some s);
                w \<leftarrow> mbi a ''flags'' s;
                if CHECK_FLAG w 4 \<and> CHECK_FLAG w 5 then map_option Inl (tell ''Both bits 4 and 5 are set.\<newline>'' [] s)
                else map_option Inr (print_tail a s) })"
  by (simp add: boot_info_def print_head_def print_tail_def map_conv_bind_option comp_def cong del: if_weak_cong)

lemma prints_head:
  assumes "low_memory a 52" "info_flag m a 2 \<longrightarrow> holds_text m (info m a ''cmdline'') cmd"
  shows "prints m (print_head a :: 'a console_scheme \<Rightarrow> _) (head_text m a cmd)"
proof -
  note line = prints_field_line [OF assms(1)]
  have c: "prints m (when_flag a 2 (tell_fields ''cmdline = %s\<newline>'' a [''cmdline'']) :: 'a console_scheme \<Rightarrow> _)
      (if info_flag m a 2 then bytes ''cmdline = '' @ cmd @ [10] else [])"
  proof (cases "info_flag m a 2")
    case True
    show ?thesis by (rule prints_flag [OF assms(1) prints_fields [OF assms(1)]])
       (use prints_cmdline assms(2) True in simp)
  next
    case False
    then show ?thesis by (simp add: prints_def when_flag_def mbi_info [OF _ assms(1)] info_flag_def shows_out_Nil)
  qed
  show ?thesis unfolding print_head_def [abs_def] head_text_def
    by (intro prints_seq prints_flag [OF assms(1)] c line) (simp_all add: bytes_def asc_def number_out_def)
qed

lemma prints_tail:
  assumes "low_memory a 52" "info_flag m a 6 \<longrightarrow> map_records m (info m a ''mmap_addr'' + info m a ''mmap_length'') (info m a ''mmap_addr'') rs"
  shows "prints m (print_tail a :: 'a console_scheme \<Rightarrow> _) (tail_text m a rs)"
proof -
  note line = prints_field_line [OF assms(1)]
  let ?maps = "\<lambda>s :: 'a console_scheme. do { s \<leftarrow> tell_fields ''mmap_addr = 0x%#x, mmap_length = 0x%x\<newline>'' a [''mmap_addr'', ''mmap_length''] s;
                            mmap \<leftarrow> mbi a ''mmap_addr'' s; print_memory_maps a mmap s }"
  let ?line = "bytes ''mmap_addr = 0x'' @ hex8 (info m a ''mmap_addr'') @ bytes '', mmap_length = 0x'' @ decimal 16 (info m a ''mmap_length'') @ [10]"
  have c: "prints m (when_flag a 6 ?maps) (if info_flag m a 6 then ?line @ concat (map (record_text m) rs) else [])"
  proof (cases "info_flag m a 6")
    case True
    have 1: "prints m (tell_fields ''mmap_addr = 0x%#x, mmap_length = 0x%x\<newline>'' a [''mmap_addr'', ''mmap_length''] :: 'a console_scheme \<Rightarrow> _) ?line"
      by (rule line) (simp_all add: bytes_def asc_def number_out_def)
    have 2: "prints m (\<lambda>s :: 'a console_scheme. do { mmap \<leftarrow> mbi a ''mmap_addr'' s; print_memory_maps a mmap s }) (concat (map (record_text m) rs))"
      using prints_map [OF assms(1), where ?'a = 'a] assms(2) True by (simp add: prints_def mbi_info [OF _ assms(1)])
    show ?thesis by (rule prints_flag [OF assms(1) prints_seq [OF 1 2]])
  next
    case False
    then show ?thesis by (simp add: prints_def when_flag_def mbi_info [OF _ assms(1)] info_flag_def shows_out_Nil)
  qed
  show ?thesis unfolding print_tail_def [abs_def] tail_text_def
    by (intro prints_seq prints_flag [OF assms(1)] c line) (simp_all add: elf_sec_text_def bytes_def asc_def number_out_def)
qed

lemma base_tty [simp]: "tty_of k (s\<lparr>filesystem_base := b\<rparr>) = tty_of k s" for s :: "'a filesys_scheme"
  by (simp add: tty_of_def cong: if_cong)

lemma base_shows:
  fixes s t :: "'a filesys_scheme"
  assumes "shows_out s xs t"
  shows "shows_out (s\<lparr>filesystem_base := b\<rparr>) xs (t\<lparr>filesystem_base := b\<rparr>)"
proof -
  obtain ph l T where "t = s\<lparr>phys := ph, io_log := l, terms := (terms s)(unat (curr_term s) := T)\<rparr>"
    "\<forall>a. \<not> in_screen (unat (curr_term s)) a \<longrightarrow> ph a = phys s a"
    "pid T = pid (cur s)" "terminal_buf T = terminal_buf (cur s)" "terminal_cnt T = terminal_cnt (cur s)"
    "terminal_read_on T = terminal_read_on (cur s)"
    using assms unfolding shows_out_def output_only_def by blast
  then have "output_only (s\<lparr>filesystem_base := b\<rparr>) (t\<lparr>filesystem_base := b\<rparr>)"
    unfolding output_only_def by (intro exI [of _ ph] exI [of _ l] exI [of _ T]) (simp add: cur_def)
  then show ?thesis using assms by (simp add: shows_out_def)
qed

lemma base_views [simp]: "views (s\<lparr>filesystem_base := b\<rparr>) k = views s k" for s :: "'a filesys_scheme"
  by (rule views_mmu) (simp add: mmu_def)

lemma base_same [simp]:
  "boot_mem m (s\<lparr>filesystem_base := b\<rparr>) \<longleftrightarrow> boot_mem m s" "can_show (s\<lparr>filesystem_base := b\<rparr>) xs \<longleftrightarrow> can_show s xs"
  for s :: "'a filesys_scheme"
  by (simp_all add: boot_mem_def cold_def can_show_def console_ok_def)

lemma find_modules_prints:
  fixes s :: "'a filesys_scheme"
  assumes "boot_block m a cmd rs" "boot_mem m s" "can_show s (modules_text m a)"
  shows "\<exists>t. (if CHECK_FLAG (info m a ''flags'') 3 then find_modules a s else Some s) = Some t
    \<and> shows_out (s\<lparr>filesystem_base := boot_base m a (filesystem_base s)\<rparr>) (modules_text m a) t"
proof (cases "info_flag m a 3")
  case True
  have lm: "low_memory a 52" "low_memory (info m a ''mods_addr'') 4"
    "\<forall>i<unat (info m a ''mods_count''). module_ok m (info m a ''mods_addr'') i"
    using assms(1) True by (simp_all add: boot_block_def)
  let ?b = "mem_word m (info m a ''mods_addr'')"
  have "prints m (print_modules a (info m a ''mods_addr'') 0 :: 'a filesys_scheme \<Rightarrow> _) (modules_text m a)"
    using prints_modules [OF lm(1,3), of 0] True by (simp add: modules_text_def)
  then obtain t where "print_modules a (info m a ''mods_addr'') 0 (s\<lparr>filesystem_base := ?b\<rparr>) = Some t"
    "shows_out (s\<lparr>filesystem_base := ?b\<rparr>) (modules_text m a) t"
    using assms(2,3) unfolding prints_def by (metis base_same)
  then show ?thesis using True
    by (simp add: find_modules_def info_flag_def mbi_info [OF assms(2) lm(1)] boot_word [OF assms(2) lm(2)] boot_base_def)
qed (simp add: modules_text_def info_flag_def boot_base_def shows_out_Nil)

lemma boot_info_shows:
  fixes s :: "'a filesys_scheme"
  assumes "boot_block m a cmd rs" "boot_mem m s" "can_show s (boot_text m a cmd rs)"
  shows "\<exists>t. boot_info MULTIBOOT_BOOTLOADER_MAGIC a s = Some (Inr t)
    \<and> shows_out (s\<lparr>filesystem_base := boot_base m a (filesystem_base s)\<rparr>) (boot_text m a cmd rs) t"
proof -
  have lm: "low_memory a 52" using assms(1) by (simp add: boot_block_def)
  note fl = mbi_info [OF _ lm, of _ _ "''flags''"]
  have p1: "prints m (print_head a :: 'a filesys_scheme \<Rightarrow> _) (head_text m a cmd)"
    by (rule prints_head [OF lm]) (use assms(1) in \<open>simp add: boot_block_def\<close>)
  have p3: "prints m (print_tail a :: 'a filesys_scheme \<Rightarrow> _) (tail_text m a rs)"
    by (rule prints_tail [OF lm]) (use assms(1) in \<open>simp add: boot_block_def\<close>)
  obtain t where t: "print_head a s = Some t" "shows_out s (head_text m a cmd) t" "boot_mem m t" "can_show t (modules_text m a @ tail_text m a rs)"
    by (rule prints_run [OF p1 assms(2,3) [unfolded boot_text_def]])
  let ?B = "\<lambda>s. s\<lparr>filesystem_base := boot_base m a (filesystem_base s)\<rparr>"
  obtain u where u: "(if CHECK_FLAG (info m a ''flags'') 3 then find_modules a t else Some t) = Some u"
    "shows_out (?B t) (modules_text m a) u"
    using find_modules_prints [OF assms(1) t(3) can_show_first [OF t(4)]] by blast
  have bu: "boot_mem m u" by (rule boot_mem_shows [OF _ u(2)]) (use t(3) in simp)
  have cu: "can_show u (tail_text m a rs)" by (rule can_show_rest [OF _ u(2)]) (use t(4) in simp)
  obtain w where w: "print_tail a u = Some w" "shows_out u (tail_text m a rs) w"
    using p3 bu cu unfolding prints_def by blast
  have "\<not> (CHECK_FLAG (info m a ''flags'') 4 \<and> CHECK_FLAG (info m a ''flags'') 5)"
    using assms(1) by (simp add: boot_block_def info_flag_def)
  then have "boot_info MULTIBOOT_BOOTLOADER_MAGIC a s = Some (Inr w)"
    using t(1) u(1) w(1) unfolding boot_info_parts by (simp add: fl [OF t(3)] fl [OF bu])
  moreover have "filesystem_base t = filesystem_base s" using t(2) by (auto simp: shows_out_def output_only_def)
  then have "shows_out (?B s) (boot_text m a cmd rs) w"
    using shows_out_append [OF base_shows [OF t(2)] shows_out_append [OF u(2) w(2)]] by (simp add: boot_text_def)
  ultimately show ?thesis by blast
qed

section \<open>From the boot loader to the first shell\<close>

text \<open>Kernels whose memory above 4 MB is the same have the same file system.\<close>

lemma same_disk:
  assumes "kernel_same p q" "filesystem_base q = filesystem_base p" "in_kernel (filesystem_base p) 12" "file_system_init p = Some (r, d)"
  obtains d' where "file_system_init q = Some (0, d')" "kernel_same d d'"
proof -
  obtain x y where r: "runs p x" "runs q y" using assms(1) by (auto simp: kernel_same_def)
  obtain e i b where D: "ld_word p (filesystem_base p) = Some e" "ld_word p (filesystem_base p + 4) = Some i" "ld_word p (filesystem_base p + 8) = Some b"
    "file_system_init p = Some (0, p\<lparr>num_of_entries := e, num_of_inodes := i, num_of_blocks := b,
       inode_ptr_base := filesystem_base p + 4096, entry_ptr_base := filesystem_base p + 64,
       data_block_ptr_base := filesystem_base p + (i + 1) * 4096\<rparr>)"
    by (rule fs_init [OF r(1) assms(3)])
  obtain e' i' b' where F: "ld_word q (filesystem_base p) = Some e'" "ld_word q (filesystem_base p + 4) = Some i'" "ld_word q (filesystem_base p + 8) = Some b'"
    "file_system_init q = Some (0, q\<lparr>num_of_entries := e', num_of_inodes := i', num_of_blocks := b',
       inode_ptr_base := filesystem_base p + 4096, entry_ptr_base := filesystem_base p + 64,
       data_block_ptr_base := filesystem_base p + (i' + 1) * 4096\<rparr>)"
    by (rule fs_init [OF r(2), unfolded assms(2), OF assms(3)])
  have eq: "e' = e" "i' = i" "b' = b"
    using same_ld_word(1) [OF assms(1,3), of 0] same_ld_word(1) [OF assms(1,3), of 4] same_ld_word(1) [OF assms(1,3), of 8] D(1-3) F(1-3)
    by simp_all
  let ?q = "q\<lparr>num_of_entries := e', num_of_inodes := i', num_of_blocks := b', inode_ptr_base := filesystem_base p + 4096,
      entry_ptr_base := filesystem_base p + 64, data_block_ptr_base := filesystem_base p + (i' + 1) * 4096\<rparr>"
  have d: "d = p\<lparr>num_of_entries := e, num_of_inodes := i, num_of_blocks := b, inode_ptr_base := filesystem_base p + 4096,
      entry_ptr_base := filesystem_base p + 64, data_block_ptr_base := filesystem_base p + (i + 1) * 4096\<rparr>"
    using D(4) assms(4) by simp
  have "mmu d = mmu p" "mmu ?q = mmu q" unfolding d by (simp_all add: mmu_def)
  then have "runs d x" "runs ?q y" using runs_mmu r by blast+
  then have "kernel_same d ?q" using assms(1) eq unfolding kernel_same_def by (auto simp: d)
  then show ?thesis using that F(4) by blast
qed

lemma paged_same:
  fixes p q :: "'a filesys_scheme"
  assumes "link_ok p" "video_table p = (\<lambda>_ _. blank_pte)" "link_ok q" "video_table q = (\<lambda>_ _. blank_pte)"
    and "\<forall>a. 0x400000 \<le> unat a \<longrightarrow> unat a < 0x800000 \<longrightarrow> phys q a = phys p a"
    and "inode_ptr_base q = inode_ptr_base p" "data_block_ptr_base q = data_block_ptr_base p" "num_of_blocks q = num_of_blocks p"
    "num_of_entries q = num_of_entries p" "entry_ptr_base q = entry_ptr_base p"
  shows "kernel_same (init_paging p) (init_paging q)"
proof -
  have r: "runs (init_paging p) 0" "runs (init_paging q) 0"
    using init_paging_establishes [OF assms(1,2)] init_paging_establishes [OF assms(3,4)] by (simp_all add: runs_def)
  have f: "phys (init_paging s) = phys s \<and> inode_ptr_base (init_paging s) = inode_ptr_base s
      \<and> data_block_ptr_base (init_paging s) = data_block_ptr_base s \<and> num_of_blocks (init_paging s) = num_of_blocks s
      \<and> num_of_entries (init_paging s) = num_of_entries s \<and> entry_ptr_base (init_paging s) = entry_ptr_base s" for s :: "'a filesys_scheme"
    by (subst (1 2 3 4 5 6) init_paging_only [of s, unfolded paging_only_def]) simp
  show ?thesis using r assms(5-) f unfolding kernel_same_def by auto
qed

lemma base_devices:
  fixes s t :: "'a filesys_scheme"
  assumes "devices_only s t"
  shows "devices_only (s\<lparr>filesystem_base := b\<rparr>) (t\<lparr>filesystem_base := b\<rparr>)"
proof -
  obtain ph l f m n T where "t = s\<lparr>phys := ph, io_log := l, iflag := f, master_mask := m, slave_mask := n, terms := T\<rparr>"
    "\<forall>a. 0x400000 \<le> unat a \<longrightarrow> unat a < 0x800000 \<longrightarrow> ph a = phys s a"
    using assms unfolding devices_only_def by blast
  then show ?thesis unfolding devices_only_def
    by (intro exI [of _ ph] exI [of _ l] exI [of _ f] exI [of _ m] exI [of _ n] exI [of _ T]) simp
qed

lemma paged_base: "filesystem_base (init_paging s) = filesystem_base s"
  by (subst init_paging_only [of s, unfolded paging_only_def]) simp

lemma load_tables_frame:
  "cold (load_tables l s) = cold s" "link_ok (load_tables l s) = link_ok s" "video_table (load_tables l s) = video_table s"
  "filesystem_base (load_tables l s) = filesystem_base s" "pcb_status_array (load_tables l s) = pcb_status_array s"
  "shell_command (load_tables l s) = shell_command s" "phys (load_tables l s) = phys s"
  "inode_ptr_base (load_tables l s) = inode_ptr_base s" "data_block_ptr_base (load_tables l s) = data_block_ptr_base s"
  "num_of_blocks (load_tables l s) = num_of_blocks s" "num_of_entries (load_tables l s) = num_of_entries s"
  "entry_ptr_base (load_tables l s) = entry_ptr_base s"
  by (simp_all add: load_tables_def load_tss_def load_ldt_def Let_def cold_def link_ok_def shell_command_def fun_eq_iff)

lemma entry_enters_shell:
  fixes s :: "'a boot_scheme"
  assumes "cold s" "link_ok s" "video_table s = (\<lambda>_ _. blank_pte)" "pcb_status_array s = [1, 0, 0, 0, 0, 0]"
    and "command_is (shell_command s) (bytes ''shell'') ys" "boot_block (phys s) a cmd rs"
    and "tty_fits (boot_text (phys s) a cmd rs) (fold tty_putc (bytes ''391OS>'') ((tty_of 0 s)\<lparr>tty_x := 0, tty_y := 0\<rparr>))"
    and "in_kernel b 12" "b = boot_base (phys s) a (filesystem_base s)"
    and "file_system_init (init_paging (s\<lparr>filesystem_base := b\<rparr>)) = Some (r, d)" "program_in d n k (bytes ''shell'') inode bs eip"
  obtains u where "entry_point dev l MULTIBOOT_BOOTLOADER_MAGIC a s = Some (Entered (Start eip 0x083FFFFC), u)" "proc_ok u"
    "curr_pid u = 0" "irq_enabled u 0" "iflag u" "pcb_status_array u = [1, 1, 1, 0, 0, 0]" "\<forall>p<3. image_at (phys u) p bs"
proof -
  let ?B = "\<lambda>s :: 'a boot_scheme. s\<lparr>filesystem_base := b\<rparr>"
  obtain t where t: "clear s = Some t" "devices_only s t"
    "tty_of 0 t = fold tty_putc (bytes ''391OS>'') ((tty_of 0 s)\<lparr>tty_x := 0, tty_y := 0\<rparr>)"
    "\<And>a. unat a < 0x84B8000 \<Longrightarrow> \<not> in_screen 0 a \<Longrightarrow> phys t a = phys s a"
    using clear_cold_memory [OF assms(1)] by metis
  have ct: "cold t" by (rule devices_only_cold [OF t(2) assms(1)])
  have bt: "boot_mem (phys s) t" using ct t(4) by (simp add: boot_mem_def)
  have ty: "tty_ok (tty_of 0 t)" unfolding t(3) by (simp add: bytes_def asc_def tty_putc_def tty_ok_def Let_def)
  have sh: "can_show t (boot_text (phys s) a cmd rs)"
    using ct ty assms(7) t(3) by (simp add: can_show_def console_ok_def views_def cold_def)
  have ft: "filesystem_base t = filesystem_base s" using t(2) by (auto simp: devices_only_def)
  obtain w where w: "boot_info MULTIBOOT_BOOTLOADER_MAGIC a t = Some (Inr w)" "shows_out (?B t) (boot_text (phys s) a cmd rs) w"
    using boot_info_shows [OF assms(6) bt sh] unfolding ft assms(9) [symmetric] by blast
  have "devices_only (?B t) w" using w(2) ct by (intro output_devices) (simp_all add: shows_out_def cold_def)
  moreover have "devices_only (?B s) (?B t)" by (rule base_devices [OF t(2)])
  ultimately have sw: "devices_only (?B s) w" by (rule devices_only_trans [rotated])
  then obtain ph lg f m n' T where we: "w = (?B s)\<lparr>phys := ph, io_log := lg, iflag := f, master_mask := m, slave_mask := n', terms := T\<rparr>"
    and ph: "\<forall>a. 0x400000 \<le> unat a \<longrightarrow> unat a < 0x800000 \<longrightarrow> ph a = phys s a"
    unfolding devices_only_def by auto
  have cw: "cold w" by (rule devices_only_cold [OF sw]) (use assms(1) in \<open>simp add: cold_def\<close>)
  let ?s = "load_tables l w"
  have fw: "link_ok ?s" "video_table ?s = (\<lambda>_ _. blank_pte)" "filesystem_base ?s = b" "pcb_status_array ?s = [1, 0, 0, 0, 0, 0]"
    "shell_command ?s = shell_command s"
    using assms(2-4) unfolding load_tables_frame we by (simp_all add: link_ok_def shell_command_def fun_eq_iff)
  have ks: "kernel_same (init_paging (?B s)) (init_paging ?s)"
    by (rule paged_same) (use fw(1,2) assms(2,3) ph in \<open>simp_all add: load_tables_frame link_ok_def we\<close>)
  obtain d' where d': "file_system_init (init_paging ?s) = Some (0, d')" "kernel_same d d'"
    by (rule same_disk [OF ks _ _ assms(10)]) (use fw(3) assms(8) in \<open>simp_all add: paged_base\<close>)
  obtain v u where vu: "init_devices dev ?s = Some v" "start_shells v = Some (Left (Start eip 0x083FFFFC), u)" "proc_ok u"
    "curr_pid u = 0" "irq_enabled u 0" "iflag u" "pcb_status_array u = [1, 1, 1, 0, 0, 0]" "\<forall>p<3. image_at (phys u) p bs"
    by (rule boot_enters_shell [OF _ fw(1,2) _ fw(4) _ d'(1) same_program [OF d'(2) assms(11)]])
       (use cw fw assms(5,8) in \<open>simp_all add: load_tables_frame\<close>)
  have "entry_point dev l MULTIBOOT_BOOTLOADER_MAGIC a s = Some (Entered (Start eip 0x083FFFFC), u)"
    using t(1) w(1) vu(1,2) by (simp add: entry_point_def)
  then show ?thesis using vu(3-) by (rule that)
qed

text \<open>\<open>start\<close> only sets up the stack and turns interrupts off.\<close>

lemma start_enters_shell:
  fixes s :: "'a boot_scheme"
  assumes "cold s" "link_ok s" "video_table s = (\<lambda>_ _. blank_pte)" "pcb_status_array s = [1, 0, 0, 0, 0, 0]"
    and "command_is (shell_command s) (bytes ''shell'') ys" "boot_block (phys s) a cmd rs"
    and "tty_fits (boot_text (phys s) a cmd rs) (fold tty_putc (bytes ''391OS>'') ((tty_of 0 s)\<lparr>tty_x := 0, tty_y := 0\<rparr>))"
    and "in_kernel b 12" "b = boot_base (phys s) a (filesystem_base s)"
    and "file_system_init (init_paging (s\<lparr>filesystem_base := b\<rparr>)) = Some (r, d)" "program_in d n k (bytes ''shell'') inode bs eip"
  obtains u where "boot_start dev l MULTIBOOT_BOOTLOADER_MAGIC a s = Some (Entered (Start eip 0x083FFFFC), u)" "proc_ok u"
    "curr_pid u = 0" "irq_enabled u 0" "iflag u" "pcb_status_array u = [1, 1, 1, 0, 0, 0]" "\<forall>p<3. image_at (phys u) p bs"
proof -
  let ?p = "(cli s)\<lparr>ss := KERNEL_DS, esp := 0x7FFFF4\<rparr>"
  have eq: "?p = s\<lparr>iflag := False, ss := KERNEL_DS, esp := 0x7FFFF4\<rparr>" by (simp add: cli_def)
  have t: "tty_of 0 ?p = tty_of 0 s" unfolding eq by (simp add: tty_of_def cong: if_cong)
  have ks: "kernel_same (init_paging (s\<lparr>filesystem_base := b\<rparr>)) (init_paging (?p\<lparr>filesystem_base := b\<rparr>))"
    by (rule paged_same) (use assms(2,3) in \<open>simp_all add: eq link_ok_def\<close>)
  obtain d' where d': "file_system_init (init_paging (?p\<lparr>filesystem_base := b\<rparr>)) = Some (0, d')" "kernel_same d d'"
    by (rule same_disk [OF ks _ _ assms(10)]) (use assms(8) in \<open>simp_all add: paged_base\<close>)
  have sc: "shell_command ?p = shell_command s" by (simp add: eq shell_command_def fun_eq_iff)
  have f: "cold ?p" "link_ok ?p" "video_table ?p = (\<lambda>_ _. blank_pte)" "pcb_status_array ?p = [1, 0, 0, 0, 0, 0]"
    "phys ?p = phys s" "filesystem_base ?p = filesystem_base s"
    using assms(1-4) by (simp_all add: eq cold_def link_ok_def)
  obtain u where u: "entry_point dev l MULTIBOOT_BOOTLOADER_MAGIC a ?p = Some (Entered (Start eip 0x083FFFFC), u)" "proc_ok u"
    "curr_pid u = 0" "irq_enabled u 0" "iflag u" "pcb_status_array u = [1, 1, 1, 0, 0, 0]" "\<forall>p<3. image_at (phys u) p bs"
    by (rule entry_enters_shell [OF f(1-4), unfolded sc t f(5,6), OF assms(5-9) d'(1) same_program [OF d'(2) assms(11)]])
  show ?thesis by (rule that [OF _ u(2-)]) (simp add: boot_start_entry u(1))
qed

end
