(* ===== verification/Sample.thy ===== *)
theory Sample
  imports Calls Output
begin

text \<open>
  One concrete kernel state, on which the properties with hypotheses are instantiated: the tables
  linked at 0x440000, paging as \<open>init_paging\<close> leaves it, three shells running, process 0 on terminal
  0, which is on the screen. A file system with one program, \<open>shell\<close>, is at 0x410000, and the running
  shell's memory holds a command that runs it.
\<close>

section \<open>The state\<close>

definition base_image :: machine where
  "base_image = \<lparr> phys = (\<lambda>_. 0), page_directory = (\<lambda>_ _. blank_pde), page_table = (\<lambda>_ _. blank_pte),
     video_table = (\<lambda>_ _. blank_pte), cr0 = 1, cr3 = 0, cr4 = 0, pd_base = 0x440000, pt_base = 0x450000,
     vt_base = 0x460000, iflag = False, io_log = [] \<rparr>"

definition idle_term :: term_t where
  "idle_term = \<lparr> pid = 0, terminal_buf = replicate 128 0, terminal_cnt = 0, terminal_read_on = 0, screen_x = 0, screen_y = 0 \<rparr>"

definition sample_task :: "nat \<Rightarrow> task_t" where
  "sample_task i = \<lparr> task_pid = of_nat i, task_term = of_nat i, task_next = (i + 1) mod 3, task_active = 1 \<rparr>"

text \<open>The header of the file system; a program of 52 bytes, its directory entry, and the start of its inode.\<close>

definition sample_header :: "u8 list" where
  "sample_header = [1, 0, 0, 0, 1, 0, 0, 0, 1, 0, 0, 0]"

definition sample_program :: "u8 list" where
  "sample_program = [0x7F, 0x45, 0x4C, 0x46] @ replicate 20 0 @ [0x18, 0x80, 0x04, 0x08] @ replicate 24 1"

definition sample_entry :: "u8 list" where
  "sample_entry = bytes ''shell'' @ replicate 27 0 @ [2, 0, 0, 0] @ replicate 28 0"

definition sample_inode :: "u8 list" where
  "sample_inode = [52, 0, 0, 0, 0, 0, 0, 0]"

definition sample_command :: "u8 list" where
  "sample_command = bytes ''shell hi'' @ [0]"

text \<open>What is at \<open>base\<close>.\<close>

definition place_at :: "nat \<Rightarrow> u8 list \<Rightarrow> (u32 \<Rightarrow> u8) \<Rightarrow> u32 \<Rightarrow> u8" where
  "place_at base bs f a = (if base \<le> unat a \<and> unat a < base + length bs then bs ! (unat a - base) else f a)"

definition sample_phys :: "u32 \<Rightarrow> u8" where
  "sample_phys = place_at 0x410000 sample_header (place_at 0x410040 sample_entry (place_at 0x411000 sample_inode
     (place_at 0x412000 sample_program (place_at 0x848100 sample_command (\<lambda>_. 0)))))"

definition sample_desc :: "nat \<Rightarrow> filesys_desc" where
  "sample_desc j = (if j < 2 then \<lparr> file_ops_table_ptr = Terminal_ops, inode_ptr = 0, file_pos = 0, flags = 1 \<rparr>
     else \<lparr> file_ops_table_ptr = No_ops, inode_ptr = 0, file_pos = 0, flags = 0 \<rparr>)"

definition sample_pcb :: "nat \<Rightarrow> pcb" where
  "sample_pcb i = \<lparr> filesys_desc_array = sample_desc, args = replicate 129 0, the_esp = 0, the_ss = 0, parent_pcb = None,
     the_pid = of_nat i, shell_flag = 0, great_esp = stack_top (of_nat i) - 64, cmd_eip = 0x08048018,
     pcb_filename = replicate 32 0 \<rparr>"

definition sample :: kernel where
  "sample = (let m = init_paging base_image in
     \<lparr> phys = sample_phys, page_directory = page_directory m, page_table = page_table m,
     video_table = video_table m, cr0 = cr0 m, cr3 = cr3 m, cr4 = cr4 m, pd_base = pd_base m, pt_base = pt_base m,
     vt_base = vt_base m, iflag = False, io_log = [], master_mask = 0xFF, slave_mask = 0xFF,
     terms = (\<lambda>_. idle_term), curr_term = 0, term_on_screen = 0, curr_pid = 0, terminal = sample_task,
     caps_lock_on = 0, l_shift_on = 0, r_shift_on = 0, ctrl_ready = 0, alt_on = 0, loging_password = 0,
     beyond_characters = (\<lambda>_. 0), pcbs = sample_pcb, pcb_status_array = [1, 1, 1, 0, 0, 0], active_proc_num = 3,
     active_root_shell = 3, tss_ss0 = KERNEL_DS, tss_esp0 = 0x7FFFFC, esp = 0x7FFF00, ss = KERNEL_DS,
     filesystem_base = 0x410000, num_of_entries = 1, num_of_inodes = 1, num_of_blocks = 1, inode_ptr_base = 0x411000,
     entry_ptr_base = 0x410040, data_block_ptr_base = 0x412000, rtc_interrupt_occured = 0, freq_slot = (\<lambda>_. 0),
     task_list_head = 1, task_list_tail = 0, sched_esp = 0, shell_esp_array = (\<lambda>_. 0), elf_slot = (\<lambda>_. 0),
     beyond_status = 0, after_shell = (\<lambda>_. 0), after_args = (\<lambda>_. 0) \<rparr>)"

section \<open>Its fields\<close>

lemma sample_fields [simp]:
  "curr_term sample = 0" "term_on_screen sample = 0" "curr_pid sample = 0" "terms sample = (\<lambda>_. idle_term)"
  "phys sample = sample_phys" "io_log sample = []" "shown sample = idle_term" "cur sample = idle_term" "alt_on sample = 0"
  "terminal sample = sample_task" "pcbs sample = sample_pcb" "pcb_status_array sample = [1, 1, 1, 0, 0, 0]"
  "active_proc_num sample = 3" "active_root_shell sample = 3" "esp sample = 0x7FFF00" "num_of_entries sample = 1"
  "num_of_blocks sample = 1" "inode_ptr_base sample = 0x411000" "entry_ptr_base sample = 0x410040"
  "data_block_ptr_base sample = 0x412000" "rtc_interrupt_occured sample = 0" "task_list_head sample = 1"
  "task_list_tail sample = 0" "beyond_status sample = 0" "iflag sample = False"
  by (simp_all add: sample_def Let_def shown_def cur_def)

lemma idle_fields [simp]:
  "screen_x idle_term = 0" "screen_y idle_term = 0" "terminal_cnt idle_term = 0" "terminal_read_on idle_term = 0"
  "terminal_buf idle_term = replicate 128 0"
  by (simp_all add: idle_term_def)

lemma base_linked: "link_ok base_image"
  unfolding link_ok_def base_image_def by (simp add: aligned_def)

lemma sample_mmu: "mmu sample = mmu (init_paging base_image)"
  by (simp add: mmu_def sample_def Let_def)

lemma sample_paging: "mmu_ok sample \<and> current_dir sample = Some 0 \<and> (\<forall>p<6. screen_of sample p = (if p < 3 then p else 0))"
  using init_paging_establishes [OF base_linked] mmu_cong(3-5) [OF sample_mmu] by (simp add: base_image_def)

lemma sample_runs: "runs sample 0"
  using sample_paging by (simp add: runs_def)

lemma sample_views: "views sample 0"
  using sample_paging by (auto simp: views_def)

lemma sample_console: "console_ok sample"
  by (simp add: console_ok_def sample_views)

lemma sample_tty: "tty_of 0 sample = \<lparr> tty_char = (\<lambda>_. 0), tty_x = 0, tty_y = 0 \<rparr>"
proof -
  have "sample_phys (cell 0 n) = 0" if "n < 1920" for n
  proof -
    have "unat (cell 0 n) = 0xB8000 + 2 * n" unfolding cell_def screen_addr_def using that by (subst unat_of_nat_small) simp_all
    then show ?thesis using that by (simp add: sample_phys_def place_at_def)
  qed
  then show ?thesis by (auto simp: tty_of_def fun_eq_iff)
qed

lemma sample_may_read: "may_read sample 0"
  using sample_runs by (simp add: may_read_def)

lemma sample_sched: "sched_ok sample"
  using sample_paging
  by (auto simp: sched_ok_def ring_ok_def slots_ok_def running_ok_def sample_task_def dest!: less_3_cases)

lemma sample_proc: "proc_ok sample"
  using sample_sched
  by (auto simp: proc_ok_def sample_pcb_def sample_task_def dest!: less_3_cases less_6_cases)

lemma sample_fetch: "fetch_cur_pcb_ptr sample = Some 0"
  by (rule fetch_on_stack) (simp_all add: on_stack_of_def)

lemma sample_free: "free_slot sample = Some 3"
  by (simp add: free_slot_def upt_rec)

section \<open>Its file system\<close>

lemma kernel_load:
  assumes "runs s p" "in_kernel a (n + m)"
  shows "ld_bytes s (a + of_nat n) m = Some (map (\<lambda>i. phys s (of_nat (unat a + n + i))) [0..<m])"
proof -
  have "ld s (a + of_nat n + of_nat i) = Some (phys s (of_nat (unat a + n + i)))" if "i < m" for i
  proof -
    have k: "unat a + n + i < 0x800000" "0x400000 \<le> unat a" using assms(2) that by (simp_all add: in_kernel_def)
    have e: "a + of_nat n + of_nat i = of_nat (unat a + n + i)" by simp
    have "unat (of_nat (unat a + n + i) :: u32) = unat a + n + i" by (rule unat_of_nat_small) (use k in simp)
    then show ?thesis using translate_kernel [of s p "of_nat (unat a + n + i)"] assms(1) k
      unfolding e by (simp add: runs_def ld_def del: of_nat_add)
  qed
  then show ?thesis by (simp add: ld_bytes_nth)
qed

lemma place_at_block:
  assumes "base + length bs < 2 ^ 32" "i < length bs"
  shows "place_at base bs f (of_nat (base + i)) = bs ! i"
proof -
  have "unat (of_nat (base + i) :: u32) = base + i" by (rule unat_of_nat_small) (use assms in simp)
  then show ?thesis using assms(2) by (simp add: place_at_def del: of_nat_add)
qed

lemma place_at_other:
  assumes "x < 2 ^ 32" "x < base \<or> base + length bs \<le> x"
  shows "place_at base bs f (of_nat x) = f (of_nat x)"
proof -
  have "unat (of_nat x :: u32) = x" by (rule unat_of_nat_small) (use assms(1) in simp)
  then show ?thesis using assms(2) by (auto simp: place_at_def)
qed

lemma sample_lengths [simp]:
  "length sample_program = 52" "length sample_entry = 64" "length sample_inode = 8" "length sample_command = 9"
  "length sample_header = 12"
  by (simp_all add: sample_header_def sample_program_def sample_entry_def sample_inode_def sample_command_def bytes_def)

lemma sample_blocks:
  "i < 64 \<Longrightarrow> sample_phys (of_nat (0x410040 + i)) = sample_entry ! i"
  "i < 8 \<Longrightarrow> sample_phys (of_nat (0x411000 + i)) = sample_inode ! i"
  "i < 52 \<Longrightarrow> sample_phys (of_nat (0x412000 + i)) = sample_program ! i"
  "i < 9 \<Longrightarrow> sample_phys (of_nat (0x848100 + i)) = sample_command ! i"
  "i < 12 \<Longrightarrow> sample_phys (of_nat (0x410000 + i)) = sample_header ! i"
  unfolding sample_phys_def
  by (simp_all add: place_at_block place_at_other del: of_nat_add)

lemma sample_load:
  assumes "\<forall>i<length bs. sample_phys (of_nat (base + i)) = bs ! i" "0x400000 \<le> base" "base + length bs \<le> 0x800000" "n + m \<le> length bs"
  shows "ld_bytes sample (of_nat base + of_nat n) m = Some (take m (drop n bs))"
proof -
  have u: "unat (of_nat base :: u32) = base" by (rule unat_of_nat_small) (use assms(3) in simp)
  have "ld_bytes sample (of_nat base + of_nat n) m = Some (map (\<lambda>i. sample_phys (of_nat (base + n + i))) [0..<m])"
    using kernel_load [OF sample_runs, of "of_nat base" n m] assms(2-4) by (simp add: in_kernel_def u del: of_nat_add)
  also have "map (\<lambda>i. sample_phys (of_nat (base + n + i))) [0..<m] = take m (drop n bs)"
    using assms(1,4) by (auto intro!: nth_equalityI simp: add.assoc simp del: of_nat_add)
  finally show ?thesis .
qed

lemma entry_load: "n + m \<le> 64 \<Longrightarrow> ld_bytes sample (0x410040 + of_nat n) m = Some (take m (drop n sample_entry))"
  using sample_load [where bs = sample_entry and base = "0x410040" and n = n and m = m] sample_blocks(1) by simp

lemma inode_load: "n + m \<le> 8 \<Longrightarrow> ld_bytes sample (0x411000 + of_nat n) m = Some (take m (drop n sample_inode))"
  using sample_load [where bs = sample_inode and base = "0x411000" and n = n and m = m] sample_blocks(2) by simp

lemma sample_name: "entry_name sample 0 = bytes ''shell''"
  using entry_load [of 0 32]
  by (simp add: entry_name_def entry_def sample_entry_def bytes_def asc_def)

lemma word_zeros: "word_of_bytes (replicate n 0) = 0"
  by (induction n) (simp_all add: word_of_bytes_def)

lemma sample_read_entry:
  "\<exists>d. read_entry sample 0 = Some d \<and> dentry_filetype d = 2 \<and> dentry_inode_num d = 0"
  using entry_load [of 0 32] entry_load [of 32 4] entry_load [of 36 4] word_zeros [of 4] by (simp add: read_entry_def entry_def ld_word_def sample_entry_def bytes_def word_of_bytes_def)

lemma sample_directory: "directory_ok sample 1"
  by (auto simp: directory_ok_def in_kernel_def entry_def le_Suc_eq)

lemma sample_file: "holds_file sample 0 sample_program"
proof -
  have b: "block_number sample 0 1 = Some 0"
    using inode_load [of 4 4] by (simp add: block_number_def ld_word_def word_of_bytes_def sample_inode_def)
  have l: "ld_word sample 0x411000 = Some 52"
    using inode_load [of 0 4] by (simp add: ld_word_def word_of_bytes_def sample_inode_def)
  have "ld sample (0x412000 + of_nat n) = Some (sample_program ! n)" if "n < 52" for n
  proof -
    have u: "unat (0x412000 + of_nat n :: u32) = 0x412000 + n" by (subst unat_add_of_nat) (use that in simp_all)
    have "ld sample (0x412000 + of_nat n) = Some (sample_phys (0x412000 + of_nat n))"
      using translate_kernel [of sample 0 "0x412000 + of_nat n"] sample_runs that by (simp add: ld_def runs_def u)
    then show ?thesis using sample_blocks(3) [OF that] by simp
  qed
  moreover have z: "m * 4096 \<le> 52 \<longleftrightarrow> m = 0" "m * 4096 < 52 \<longleftrightarrow> m = 0" for m :: nat by auto
  ultimately show ?thesis
    using b l by (simp add: holds_file_def z inode_addr_def file_block_def block_addr_def in_kernel_def slt_def)
qed

lemma sample_program_in: "program_in sample 1 0 (bytes ''shell'') 0 sample_program 0x08048018"
  using sample_directory sample_name sample_read_entry sample_file
  by (auto simp: program_in_def sample_program_def word_of_bytes_def)

lemma sample_user: "i < 9 \<Longrightarrow> ld sample (0x8048100 + of_nat i) = Some (sample_command ! i)"
proof -
  assume i: "i < 9"
  have u: "unat (0x8048100 + of_nat i :: u32) = 0x8048100 + i" by (subst unat_add_of_nat) (use i in simp_all)
  show ?thesis
    using translate_program [of sample 0 "0x8048100 + of_nat i"] sample_runs sample_blocks(4) [OF i] i by (simp add: ld_def runs_def u)
qed

lemma sample_command_is: "command_is (at sample 0x8048100) (bytes ''shell'') (bytes ''hi'')"
proof -
  have c: "at sample 0x8048100 (of_nat i) = Some (sample_command ! i)" if "i < 9" for i
    using sample_user [OF that] by (simp add: at_def)
  show ?thesis
    using c [of 0] c [of 1] c [of 2] c [of 3] c [of 4] c [of 5] c [of 6] c [of 7] c [of 8]
    by (simp add: command_is_def word_at_def sample_command_def bytes_def asc_def forall_less_Suc_shift)
qed

end
