(* ===== verification/Coldsample.thy ===== *)
theory Coldsample
  imports Startup Sample
begin

text \<open>
  The concrete machine at power-on, before paging: the sample's tables and file system, and nothing set up.
\<close>

definition blank_segment :: seg_desc where
  "blank_segment = \<lparr> seg_lim_15_00 = 0, base_15_00 = 0, base_23_16 = 0, seg_type = 0, seg_sys = False, seg_dpl = 0,
     seg_present = False, seg_lim_19_16 = 0, seg_avail = False, seg_reserved = False, seg_opsize = False,
     seg_granularity = False, base_31_24 = 0 \<rparr>"

definition blank_gate :: idt_desc where
  "blank_gate = \<lparr> offset_15_00 = 0, seg_selector = 0, reserved4 = 0, reserved3 = False, reserved2 = False, reserved1 = False,
     gate_size = False, reserved0 = False, gate_dpl = 0, gate_present = False, offset_31_16 = 0 \<rparr>"

definition sample_cold :: boot where
  "sample_cold = kernel.extend
     (sample\<lparr>cr0 := 1, cr4 := 0, video_table := (\<lambda>_ _. blank_pte), pcb_status_array := [1, 0, 0, 0, 0, 0]\<rparr>)
     (boot.fields (\<lambda>_. blank_gate) blank_segment blank_segment 0 False 0 0 (\<lambda>_. \<lparr> username = [], password = [], authrization = 0 \<rparr>))"

lemma sample_cold_fields [simp]:
  "cr0 sample_cold = 1" "curr_term sample_cold = 0" "term_on_screen sample_cold = 0" "video_table sample_cold = (\<lambda>_ _. blank_pte)"
  "filesystem_base sample_cold = 0x410000" "pcb_status_array sample_cold = [1, 0, 0, 0, 0, 0]" "after_shell sample_cold = (\<lambda>_. 0)"
  "phys sample_cold = sample_phys" "pd_base sample_cold = 0x440000" "pt_base sample_cold = 0x450000" "vt_base sample_cold = 0x460000"
  by (simp_all add: sample_cold_def kernel.defs sample_def Let_def init_paging_def base_image_def)


lemma cold_link: "link_ok sample_cold"
  by (simp add: link_ok_def aligned_def)

lemma cold_runs: "runs (init_paging sample_cold) 0"
  using init_paging_establishes [OF cold_link] by (simp add: runs_def)

lemma cold_frame: "phys (init_paging sample_cold) = sample_phys" "filesystem_base (init_paging sample_cold) = 0x410000"
  by (subst init_paging_only [unfolded paging_only_def], simp)+

lemma header_load:
  assumes "n + 4 \<le> 12"
  shows "ld_word (init_paging sample_cold) (0x410000 + of_nat n) = Some (word_of_bytes (take 4 (drop n sample_header)))"
proof -
  have "ld_bytes (init_paging sample_cold) (0x410000 + of_nat n) 4
      = Some (map (\<lambda>i. sample_phys (of_nat (0x410000 + n + i))) [0..<4])"
    using kernel_load [OF cold_runs, of "0x410000" n 4] assms by (simp add: in_kernel_def cold_frame)
  also have "map (\<lambda>i. sample_phys (of_nat (0x410000 + n + i))) [0..<4] = take 4 (drop n sample_header)"
    using assms sample_blocks(5) by (auto intro!: nth_equalityI simp: add.assoc simp del: of_nat_add)
  finally show ?thesis by (simp add: ld_word_def)
qed

lemma cold_disk:
  "\<exists>d. file_system_init (init_paging sample_cold) = Some (0, d) \<and> program_in d 1 0 (bytes ''shell'') 0 sample_program 0x08048018"
proof -
  have h: "ld_word (init_paging sample_cold) 0x410000 = Some 1" "ld_word (init_paging sample_cold) 0x410004 = Some 1"
    "ld_word (init_paging sample_cold) 0x410008 = Some 1"
    using header_load [of 0] header_load [of 4] header_load [of 8] by (simp_all add: sample_header_def word_of_bytes_def)
  obtain e i b where d: "ld_word (init_paging sample_cold) 0x410000 = Some e" "ld_word (init_paging sample_cold) 0x410004 = Some i"
    "ld_word (init_paging sample_cold) 0x410008 = Some b"
    "file_system_init (init_paging sample_cold) = Some (0, (init_paging sample_cold)\<lparr>num_of_entries := e, num_of_inodes := i, num_of_blocks := b,
       inode_ptr_base := 0x411000, entry_ptr_base := 0x410040, data_block_ptr_base := 0x410000 + (i + 1) * 4096\<rparr>)"
    by (rule fs_init [OF cold_runs]) (simp_all add: cold_frame in_kernel_def)
  let ?d = "(init_paging sample_cold)\<lparr>num_of_entries := e, num_of_inodes := i, num_of_blocks := b,
       inode_ptr_base := 0x411000, entry_ptr_base := 0x410040, data_block_ptr_base := 0x410000 + (i + 1) * 4096\<rparr>"
  have "mmu ?d = mmu (init_paging sample_cold)" by (simp add: mmu_def)
  then have "runs ?d 0" using runs_mmu cold_runs by blast
  moreover have "e = 1" "i = 1" "b = 1" using d(1-3) h by simp_all
  ultimately have "kernel_same sample ?d" using sample_runs by (auto simp: kernel_same_def cold_frame)
  from same_program [OF this sample_program_in] d(4) show ?thesis by blast
qed

end
