(* ===== verification/Bootsample.thy ===== *)
theory Bootsample
  imports Bootinfo Coldsample
begin

text \<open>
  The machine as a boot loader leaves it: the multiboot structure at 0x9000, with a command line, one module, which is the
  file system, and a memory map of one record.
\<close>

definition boot_bytes :: "u8 list" where
  "boot_bytes = [0x4C, 0, 0, 0] @ replicate 12 0 @ [0x80, 0x90, 0, 0] @ [1, 0, 0, 0] @ [0xA0, 0x90, 0, 0] @ replicate 16 0
     @ [24, 0, 0, 0] @ [0xC0, 0x90, 0, 0]"

definition loaded_phys :: "u32 \<Rightarrow> u8" where
  "loaded_phys = place_at 0x9000 boot_bytes (place_at 0x9080 (bytes ''kernel'' @ [0])
     (place_at 0x90A0 [0, 0, 0x41, 0, 0, 0x30, 0x41, 0] (place_at 0x90C0 ([20, 0, 0, 0] @ replicate 16 0 @ [1, 0, 0, 0]) sample_phys)))"

definition sample_loaded :: boot where
  "sample_loaded = sample_cold\<lparr>phys := loaded_phys, filesystem_base := 0\<rparr>"

definition sample_link :: link where
  "sample_link = \<lparr> routine = (\<lambda>_. 0x401000), ldt_addr = 0x430000, ldt_size = 16, tss_addr = 0x431000, tss_size = 104,
     desc_slot = blank_segment \<rparr>"

lemma loaded_place:
  "0x9000 \<le> unat x \<Longrightarrow> unat x < 0x9000 + 52 \<Longrightarrow> loaded_phys x = boot_bytes ! (unat x - 0x9000)"
  by (simp add: loaded_phys_def place_at_def boot_bytes_def)

lemma loaded_words:
  "info loaded_phys 0x9000 ''flags'' = 0x4C" "info loaded_phys 0x9000 ''cmdline'' = 0x9080" "info loaded_phys 0x9000 ''mods_count'' = 1"
  "info loaded_phys 0x9000 ''mods_addr'' = 0x90A0" "info loaded_phys 0x9000 ''mmap_length'' = 24" "info loaded_phys 0x9000 ''mmap_addr'' = 0x90C0"
  by (simp_all add: info_def multiboot_offset_def mem_word_def loaded_place) (simp_all add: boot_bytes_def word_of_bytes_def nth_append)

lemma loaded_table:
  "mem_word loaded_phys 0x90A0 = 0x410000" "mem_word loaded_phys 0x90A4 = 0x413000" "mem_word loaded_phys 0x90C0 = 20"
  "mem_word loaded_phys 0x90C4 = 0" "mem_word loaded_phys 0x90C8 = 0" "mem_word loaded_phys 0x90CC = 0" "mem_word loaded_phys 0x90D0 = 0" "mem_word loaded_phys 0x90D4 = 1"
  by (simp_all add: mem_word_def loaded_phys_def place_at_def boot_bytes_def bytes_def asc_def word_of_bytes_def nth_append)

lemma loaded_numbers: "decimal 16 0 = [48]" "decimal 16 1 = [49]" "decimal 16 24 = [49, 56]" "decimal 16 20 = [49, 52]"
  by code_simp+

lemma loaded_disk_text:
  "length (bytes_text loaded_phys 0x410000) = 64 \<and> 10 \<notin> set (bytes_text loaded_phys 0x410000)
     \<and> 13 \<notin> set (bytes_text loaded_phys 0x410000)"
  by (simp add: bytes_text_def upt_rec loaded_phys_def sample_phys_def place_at_def boot_bytes_def sample_header_def
      sample_entry_def bytes_def asc_def loaded_numbers)


lemma loaded_hex:
  "hex8 0 = replicate 8 48" "hex8 1 = replicate 7 48 @ [49]" "hex8 0x4C = bytes ''0000004C''" "hex8 0x410000 = bytes ''00410000''" "hex8 0x413000 = bytes ''00413000''"
  "hex8 0x90C0 = bytes ''000090C0''" "signed_decimal 0 = [48]"
  by (simp_all add: hex8_def decimal_def digits.simps lookup_digits_def bytes_def asc_def signed_decimal_def slt_def) (simp_all add: numeral_eq_Suc)

lemma loaded_flags: "\<not> info_flag loaded_phys 0x9000 0" "\<not> info_flag loaded_phys 0x9000 (Suc 0)" "info_flag loaded_phys 0x9000 2" "info_flag loaded_phys 0x9000 3"
   "\<not> info_flag loaded_phys 0x9000 4" "\<not> info_flag loaded_phys 0x9000 5" "info_flag loaded_phys 0x9000 6"
  unfolding info_flag_def CHECK_FLAG_def loaded_words by simp_all

lemma loaded_text: "narrow 6 (boot_text loaded_phys 0x9000 (bytes ''kernel'') [0x90C0])"
  using loaded_disk_text
  by (simp add: boot_text_def head_text_def modules_text_def tail_text_def loaded_flags loaded_words module_text_def
      Let_def loaded_table record_text_def bytes_def asc_def loaded_numbers loaded_hex narrow_more)

lemma low_below: "unat a + n \<le> 0xB8000 \<Longrightarrow> low_memory a n" "0xB9000 \<le> unat a \<Longrightarrow> unat a + n \<le> 0x84B8000 \<Longrightarrow> low_memory a n"
  by (auto simp: low_memory_def in_screen_def unat_add_of_nat)

lemma loaded_block: "boot_block loaded_phys 0x9000 (bytes ''kernel'') [0x90C0]"
proof -
  have "loaded_phys (0x9080 + of_nat i) = (bytes ''kernel'' @ [0]) ! i" if "i \<le> 6" for i
  proof -
    have "unat (0x9080 + of_nat i :: u32) = 0x9080 + i" by (subst unat_add_of_nat) (use that in simp_all)
    then show ?thesis using that by (simp add: loaded_phys_def place_at_def boot_bytes_def bytes_def)
  qed
  then have "holds_text loaded_phys 0x9080 (bytes ''kernel'')"
    by (simp add: holds_text_def low_below bytes_def asc_def)
  then show ?thesis
    by (simp add: boot_block_def loaded_flags loaded_words loaded_table module_ok_def low_below)
qed

lemma loaded_command: "command_is (shell_command sample_loaded) (bytes ''shell'') []"
  by (simp add: command_is_def word_at_def shell_command_def bytes_def asc_def forall_less_Suc_shift sample_loaded_def)

lemma sample_loaded_fields [simp]:
  "cr0 sample_loaded = 1" "curr_term sample_loaded = 0" "term_on_screen sample_loaded = 0" "video_table sample_loaded = (\<lambda>_ _. blank_pte)"
  "filesystem_base sample_loaded = 0" "pcb_status_array sample_loaded = [1, 0, 0, 0, 0, 0]" "after_shell sample_loaded = (\<lambda>_. 0)"
  "phys sample_loaded = loaded_phys" "link_ok sample_loaded"
  using cold_link by (simp_all add: sample_loaded_def link_ok_def)

lemma loaded_base: "boot_base loaded_phys 0x9000 b = 0x410000"
  by (simp add: boot_base_def loaded_flags loaded_words loaded_table)

lemma loaded_disk:
  "\<exists>d. file_system_init (init_paging (sample_loaded\<lparr>filesystem_base := 0x410000\<rparr>)) = Some (0, d)
     \<and> program_in d 1 0 (bytes ''shell'') 0 sample_program 0x08048018"
proof -
  obtain d where d: "file_system_init (init_paging sample_cold) = Some (0, d)" "program_in d 1 0 (bytes ''shell'') 0 sample_program 0x08048018"
    using cold_disk by blast
  let ?s = "sample_loaded\<lparr>filesystem_base := 0x410000\<rparr>"
  have "kernel_same (init_paging sample_cold) (init_paging ?s)"
  proof (rule paged_same [OF cold_link])
    show "\<forall>a. 0x400000 \<le> unat a \<longrightarrow> unat a < 0x800000 \<longrightarrow> phys ?s a = phys sample_cold a"
      by (simp add: loaded_phys_def place_at_def boot_bytes_def bytes_def)
    show "link_ok ?s" using sample_loaded_fields(9) by (simp add: link_ok_def)
  qed (simp_all add: sample_loaded_def)
  then obtain d' where "file_system_init (init_paging ?s) = Some (0, d')" "kernel_same d d'"
    by (rule same_disk [OF _ _ _ d(1)]) (simp_all add: paged_base in_kernel_def)
  then show ?thesis using same_program [OF _ d(2)] by blast
qed

lemma loaded_fits:
  "tty_fits (boot_text loaded_phys 0x9000 (bytes ''kernel'') [0x90C0])
     (fold tty_putc (bytes ''391OS>'') ((tty_of 0 sample_loaded)\<lparr>tty_x := 0, tty_y := 0\<rparr>))"
proof (rule narrow_fits)
  have "tty_x (fold tty_putc (bytes ''391OS>'') ((tty_of 0 sample_loaded)\<lparr>tty_x := 0, tty_y := 0\<rparr>)) = 6"
    by (simp add: bytes_def asc_def tty_putc_def Let_def)
  then show "narrow (tty_x (fold tty_putc (bytes ''391OS>'') ((tty_of 0 sample_loaded)\<lparr>tty_x := 0, tty_y := 0\<rparr>)))
      (boot_text loaded_phys 0x9000 (bytes ''kernel'') [0x90C0])" using loaded_text by simp
qed

end
