(* ===== verification/Userlib.thy ===== *)
theory Userlib
  imports Calls Output
begin

text \<open>
  What a user program is linked with: the system-call stubs of \<open>ece391syscall.S\<close> and the support
  library \<open>ece391support.c\<close>. A program runs at privilege level 3: its loads and stores go through
  the walk that needs the user bit, and everything else it does is a system call.
\<close>

section \<open>Programs\<close>

text \<open>
  What surrounds a program: the devices, the bound on the interrupts a blocking call waits for, the
  addresses the linker gave its string literals, and the stack words a stub passes where the call has
  fewer than three arguments.
\<close>

record env =
  devices :: device
  patience :: nat
  literal :: "string \<Rightarrow> u32"
  junk :: u32

text \<open>
  A piece of a program has a value, or leaves for another stack as the kernel's calls do; then what
  follows it is not run. A \<open>void\<close> function has the value 0.
\<close>

type_synonym 's prog = "'s \<Rightarrow> 's syscall"

definition ret :: "u32 \<Rightarrow> 's prog" where
  "ret v s = Some (Done v, s)"

definition seq :: "'s prog \<Rightarrow> (u32 \<Rightarrow> 's prog) \<Rightarrow> 's prog" where
  "seq m f s =
     do { (r, s) \<leftarrow> m s;
          case r of Left l \<Rightarrow> Some (Left l, s) | Done v \<Rightarrow> f v s }"

definition user_load :: "'a machine_scheme \<Rightarrow> u32 \<Rightarrow> u8 option" where
  "user_load s a = map_option (phys s) (user_translate s a)"

text \<open>Storing a byte, and branching on one.\<close>

definition poke :: "u32 \<Rightarrow> u8 \<Rightarrow> 'a machine_scheme prog" where
  "poke a b s = do { s \<leftarrow> user_store a b s; ret 0 s }"

definition peek :: "u32 \<Rightarrow> (u8 \<Rightarrow> 'a machine_scheme prog) \<Rightarrow> 'a machine_scheme prog" where
  "peek a f s = do { b \<leftarrow> user_load s a; f b s }"

section \<open>ece391syscall.S\<close>

definition int80 :: "env \<Rightarrow> u32 \<Rightarrow> u32 \<Rightarrow> u32 \<Rightarrow> u32 \<Rightarrow> 'a kernel_scheme prog" where
  "int80 e eax ebx ecx edx = sys_call_handler (devices e) (patience e) eax ebx ecx edx"

definition ece391_halt :: "env \<Rightarrow> u32 \<Rightarrow> 'a kernel_scheme prog" where
  "ece391_halt e status = int80 e 1 status (junk e) (junk e)"

definition ece391_execute :: "env \<Rightarrow> u32 \<Rightarrow> 'a kernel_scheme prog" where
  "ece391_execute e command = int80 e 2 command (junk e) (junk e)"

definition ece391_read :: "env \<Rightarrow> u32 \<Rightarrow> u32 \<Rightarrow> u32 \<Rightarrow> 'a kernel_scheme prog" where
  "ece391_read e fd buf nbytes = int80 e 3 fd buf nbytes"

definition ece391_write :: "env \<Rightarrow> u32 \<Rightarrow> u32 \<Rightarrow> u32 \<Rightarrow> 'a kernel_scheme prog" where
  "ece391_write e fd buf nbytes = int80 e 4 fd buf nbytes"

definition ece391_open :: "env \<Rightarrow> u32 \<Rightarrow> 'a kernel_scheme prog" where
  "ece391_open e filename = int80 e 5 filename (junk e) (junk e)"

definition ece391_close :: "env \<Rightarrow> u32 \<Rightarrow> 'a kernel_scheme prog" where
  "ece391_close e fd = int80 e 6 fd (junk e) (junk e)"

definition ece391_getargs :: "env \<Rightarrow> u32 \<Rightarrow> u32 \<Rightarrow> 'a kernel_scheme prog" where
  "ece391_getargs e buf nbytes = int80 e 7 buf nbytes (junk e)"

definition ece391_vidmap :: "env \<Rightarrow> u32 \<Rightarrow> 'a kernel_scheme prog" where
  "ece391_vidmap e screen_start = int80 e 8 screen_start (junk e) (junk e)"

definition ece391_set_handler :: "env \<Rightarrow> u32 \<Rightarrow> u32 \<Rightarrow> 'a kernel_scheme prog" where
  "ece391_set_handler e signum handler = int80 e 9 signum handler (junk e)"

definition ece391_sigreturn :: "env \<Rightarrow> 'a kernel_scheme prog" where
  "ece391_sigreturn e = int80 e 10 (junk e) (junk e) (junk e)"

text \<open>\<open>_start\<close>: run \<open>main\<close> and halt with what it returns.\<close>

definition start :: "env \<Rightarrow> 'a kernel_scheme prog \<Rightarrow> 'a kernel_scheme prog" where
  "start e main = seq main (ece391_halt e)"

section \<open>ece391support.c\<close>

text \<open>The functions that only read take the program's memory as a function from addresses.\<close>

partial_function (option) strlen_walk :: "reader \<Rightarrow> u32 \<Rightarrow> u32 \<Rightarrow> u32 option" where
  "strlen_walk m s len = do { b \<leftarrow> m s; if b = 0 then Some len else strlen_walk m (s + 1) (len + 1) }"

definition ece391_strlen :: "reader \<Rightarrow> u32 \<Rightarrow> u32 option" where
  "ece391_strlen m s = strlen_walk m s 0"

partial_function (option) ece391_strcpy :: "u32 \<Rightarrow> u32 \<Rightarrow> 'a machine_scheme \<Rightarrow> 'a machine_scheme option" where
  "ece391_strcpy dst src s =
     do { b \<leftarrow> user_load s src;
          s \<leftarrow> user_store dst b s;
          if b = 0 then Some s else ece391_strcpy (dst + 1) (src + 1) s }"

definition ece391_fdputs :: "env \<Rightarrow> u32 \<Rightarrow> u32 \<Rightarrow> 'a kernel_scheme prog" where
  "ece391_fdputs e fd str s =
     do { n \<leftarrow> ece391_strlen (user_load s) str;
          seq (ece391_write e fd str n) (\<lambda>_. ret 0) s }"

text \<open>The difference of the two bytes, each promoted to \<open>int32_t\<close>.\<close>

partial_function (option) ece391_strcmp :: "reader \<Rightarrow> u32 \<Rightarrow> u32 \<Rightarrow> u32 option" where
  "ece391_strcmp m s1 s2 =
     do { a \<leftarrow> m s1; b \<leftarrow> m s2;
          if a = b then if a = 0 then Some 0 else ece391_strcmp m (s1 + 1) (s2 + 1)
          else Some (ucast a - ucast b) }"

text \<open>The loop of \<open>ece391_strncmp\<close>, entered with a count that is not 0; \<open>--n\<close> stands in its condition.\<close>

function strncmp_walk :: "reader \<Rightarrow> u32 \<Rightarrow> u32 \<Rightarrow> u32 \<Rightarrow> u32 option" where
  "strncmp_walk m s1 s2 n =
     do { a \<leftarrow> m s1; b \<leftarrow> m s2;
          if a = b then
            if a = 0 \<or> n - 1 = 0 then Some 0 else strncmp_walk m (s1 + 1) (s2 + 1) (n - 1)
          else Some (ucast a - ucast b) }"
  by pat_completeness auto

termination
  by (relation "measure (\<lambda>(_, _, _, n). if n = 0 then 2 ^ 32 else unat n)")
    (auto simp: unat_minus_1_less unsigned_minus_1_eq_mask mask_eq_exp_minus_1)

definition ece391_strncmp :: "reader \<Rightarrow> u32 \<Rightarrow> u32 \<Rightarrow> u32 \<Rightarrow> u32 option" where
  "ece391_strncmp m s1 s2 n = (if n = 0 then Some 0 else strncmp_walk m s1 s2 n)"


text \<open>Reversing a string in place, and the digits of a number, least significant first.\<close>

function strrev_swap :: "u32 \<Rightarrow> int \<Rightarrow> int \<Rightarrow> 'a machine_scheme \<Rightarrow> 'a machine_scheme option" where
  "strrev_swap str beg fin s =
     (if beg < fin then
        do { tmp \<leftarrow> user_load s (str + of_int fin); b \<leftarrow> user_load s (str + of_int beg);
             s \<leftarrow> user_store (str + of_int fin) b s; s \<leftarrow> user_store (str + of_int beg) tmp s;
             strrev_swap str (beg + 1) (fin - 1) s }
      else Some s)"
  by pat_completeness auto
termination by (relation "measure (\<lambda>(_, b, e, _). nat (e - b))") auto

definition ece391_strrev :: "u32 \<Rightarrow> 'a machine_scheme \<Rightarrow> 'a machine_scheme option" where
  "ece391_strrev str s =
     do { n \<leftarrow> ece391_strlen (user_load s) str;
          if sint (n - 1) \<le> 0 then Some s else strrev_swap str 0 (sint (n - 1)) s }"

text \<open>The table has the digits of \<open>lib.c\<close>'s; with a radix of 0 the division traps.\<close>

partial_function (option) itoa_digits :: "u32 \<Rightarrow> u32 \<Rightarrow> u32 \<Rightarrow> 'a machine_scheme \<Rightarrow> (u32 \<times> 'a machine_scheme) option" where
  "itoa_digits newval radix newbuf s =
     (if newval > 0 then
        if radix = 0 then None
        else do { d \<leftarrow> lit lookup_digits (newval mod radix);
                  s \<leftarrow> user_store newbuf d s;
                  itoa_digits (newval div radix) radix (newbuf + 1) s }
      else Some (newbuf, s))"

definition ece391_itoa :: "u32 \<Rightarrow> u32 \<Rightarrow> u32 \<Rightarrow> 'a machine_scheme \<Rightarrow> 'a machine_scheme option" where
  "ece391_itoa value buf radix s =
     (if value = 0 then do { s \<leftarrow> user_store buf (asc CHR ''0'') s; user_store (buf + 1) 0 s }
      else do { (newbuf, s) \<leftarrow> itoa_digits value radix buf s; s \<leftarrow> user_store newbuf 0 s; ece391_strrev buf s })"

declare strncmp_walk.simps [simp del] strrev_swap.simps [simp del]

section \<open>Rules for programs\<close>

lemma seq_run [simp]:
  "m s = Some (Done v, t) \<Longrightarrow> seq m f s = f v t"
  "m s = Some (Left l, t) \<Longrightarrow> seq m f s = Some (Left l, t)"
  by (simp_all add: seq_def)

lemma ret_run [simp]: "ret v s = Some (Done v, s)"
  by (simp add: ret_def)

lemma peek_run [simp]: "user_load s a = Some b \<Longrightarrow> peek a f s = f b s"
  by (simp add: peek_def)

lemma seq_mono [partial_function_mono]:
  assumes "\<And>v s. mono_option (\<lambda>g. f g v s)"
  shows "mono_option (\<lambda>g. seq m (f g) s)"
proof -
  have "mono_option (\<lambda>g. case r of Left l \<Rightarrow> Some (Left l, t) | Done v \<Rightarrow> f g v t)" for r t
    by (cases r) (simp_all add: assms option.const_mono)
  then have "mono_option (\<lambda>g. case y of (r, s) \<Rightarrow> (case r of Left l \<Rightarrow> Some (Left l, s) | Done v \<Rightarrow> f g v s))" for y
    by (cases y) simp
  then show ?thesis unfolding seq_def by (intro bind_mono option.const_mono)
qed

lemma peek_mono [partial_function_mono]:
  assumes "\<And>b s. mono_option (\<lambda>g. f g b s)"
  shows "mono_option (\<lambda>g. peek a (f g) s)"
  unfolding peek_def by (rule bind_mono) (auto intro!: assms option.const_mono)

end
