(* ===== verification/Userrun.thy ===== *)
theory Userrun
  imports Userlib
begin

text \<open>
  What a program can rely on: the effect of its calls as one relation, and the rules for the calls that
  print, open, close, and are refused.
\<close>

section \<open>The program's memory\<close>

definition in_page :: "u32 \<Rightarrow> bool" where
  "in_page a \<longleftrightarrow> 0x8000000 \<le> unat a \<and> unat a < 0x8400000"

lemma user_load_page: "runs s p \<Longrightarrow> in_page a \<Longrightarrow> user_load s a = Some (phys s (prog_addr p a))"
  by (simp add: user_load_def user_translate_program in_page_def)

lemma user_load_ld: "runs s p \<Longrightarrow> in_page a \<Longrightarrow> user_load s a = ld s a"
  by (simp add: user_load_page ld_def translate_user in_page_def)

lemma user_store_page:
  "runs s p \<Longrightarrow> in_page a \<Longrightarrow> user_store a b s = Some (s\<lparr>phys := (phys s)(prog_addr p a := b)\<rparr>)"
  by (simp add: user_store_def user_translate_program in_page_def)

lemma user_buffer_page: "user_buffer a n \<Longrightarrow> i < n \<Longrightarrow> in_page (a + of_nat i)"
  using user_buffer_at by (simp add: in_page_def)

lemma user_load_bytes:
  assumes "runs s p" "user_buffer a n" "i < n" "ld_bytes s a n = Some bs"
  shows "user_load s (a + of_nat i) = Some (bs ! i)"
  using user_load_ld [OF assms(1) user_buffer_page [OF assms(2,3)]] assms(3,4) by (simp add: ld_bytes_nth)

text \<open>A string of the program.\<close>

definition holds_str :: "'a machine_scheme \<Rightarrow> u32 \<Rightarrow> u8 list \<Rightarrow> bool" where
  "holds_str s a xs \<longleftrightarrow> 0 \<notin> set xs \<and> user_buffer a (length xs + 1) \<and> ld_bytes s a (length xs + 1) = Some (xs @ [0])"

lemma holds_str_cstr:
  assumes "runs s p" "holds_str s a xs"
  shows "cstr (\<lambda>i. user_load s (a + i)) xs" "cstr (at s a) xs" "ld_bytes s a (length xs) = Some xs" "user_buffer a (length xs)"
proof -
  have h: "0 \<notin> set xs" "user_buffer a (length xs + 1)" "ld_bytes s a (length xs + 1) = Some (xs @ [0])"
    using assms(2) by (simp_all add: holds_str_def)
  have u: "user_load s (a + of_nat i) = Some ((xs @ [0]) ! i)" if "i \<le> length xs" for i
    using user_load_bytes [OF assms(1) h(2) _ h(3)] that by simp
  have l: "ld s (a + of_nat i) = Some ((xs @ [0]) ! i)" if "i \<le> length xs" for i
    using h(3) [unfolded ld_bytes_nth] that by simp
  have len: "length xs < 2 ^ 32 - 1" using h(2) by (simp add: user_buffer_def)
  have z: "xs ! i \<noteq> 0" if "i < length xs" for i using h(1) that nth_mem by metis
  show "cstr (\<lambda>i. user_load s (a + i)) xs" unfolding cstr_def using u len z by (auto simp: nth_append)
  show "cstr (at s a) xs" unfolding cstr_def at_def using l len z by (auto simp: nth_append)
  show "ld_bytes s a (length xs) = Some xs" using l by (auto simp: ld_bytes_nth nth_append)
  show "user_buffer a (length xs)" using h(2) by (rule user_buffer_mono) simp
qed

lemma strlen_walk_cstr:
  "cstr (\<lambda>i. m (a + i)) xs \<Longrightarrow> k \<le> length xs \<Longrightarrow>
    strlen_walk m (a + of_nat (length xs - k)) (of_nat (length xs - k)) = Some (of_nat (length xs))"
proof (induction k)
  case 0
  then show ?case by (subst strlen_walk.simps) (simp add: cstr_def)
next
  case (Suc k)
  have i: "length xs - Suc k < length xs" "length xs - k = Suc (length xs - Suc k)" using Suc.prems by auto
  then have "m (a + of_nat (length xs - Suc k)) = Some (xs ! (length xs - Suc k))" "xs ! (length xs - Suc k) \<noteq> 0"
    using Suc.prems(1) by (auto simp: cstr_def)
  then show ?case
    using Suc.IH [OF Suc.prems(1)] Suc.prems(2) unfolding i(2) by (subst strlen_walk.simps) (simp add: ac_simps)
qed

lemma ece391_strlen_str: "runs s p \<Longrightarrow> holds_str s a xs \<Longrightarrow> ece391_strlen (user_load s) a = Some (of_nat (length xs))"
  using strlen_walk_cstr [OF holds_str_cstr(1), of s p a xs "length xs"] by (simp add: ece391_strlen_def)

section \<open>The effect of a program's calls\<close>

text \<open>
  \<open>effect p i W xs s t\<close>: process \<open>i\<close> on tables \<open>p\<close> has printed \<open>xs\<close> on its terminal. Memory has changed on
  that screen and at the addresses \<open>W\<close> of the program's own page; beside it only the terminal's
  structure, the descriptors from 2 on, the ports and the interrupt flag.
\<close>

definition effect :: "nat \<Rightarrow> nat \<Rightarrow> u32 set \<Rightarrow> u8 list \<Rightarrow> 'a kernel_scheme \<Rightarrow> 'a kernel_scheme \<Rightarrow> bool" where
  "effect p i W xs s t \<longleftrightarrow>
     (\<exists>ph l b T D. t = s\<lparr>phys := ph, io_log := l, iflag := b, terms := (terms s)(unat (curr_term s) := T),
          pcbs := (pcbs s)(i := (pcbs s i)\<lparr>filesys_desc_array := D\<rparr>)\<rparr>
        \<and> (\<forall>j<2. D j = desc_of s i j)
        \<and> (\<forall>a. \<not> in_screen (unat (curr_term s)) a \<longrightarrow> a \<notin> prog_addr p ` W \<longrightarrow> ph a = phys s a))
   \<and> tty_of (unat (curr_term s)) t = fold tty_putc xs (tty_of (unat (curr_term s)) s)"

text \<open>A process that may run: on its tables and its kernel stack, with the terminal behind 0 and 1.\<close>

definition ready :: "nat \<Rightarrow> nat \<Rightarrow> 'a kernel_scheme \<Rightarrow> bool" where
  "ready p i s \<longleftrightarrow> runs s p \<and> fetch_cur_pcb_ptr s = Some i \<and> console_ok s
     \<and> (\<forall>j<2. desc_busy i s j \<and> file_ops_table_ptr (desc_of s i j) = Terminal_ops)"

lemma effect_frame:
  assumes "effect p i W xs s t"
  shows "mmu t = mmu s" "curr_term t = curr_term s" "term_on_screen t = term_on_screen s" "esp t = esp s" "curr_pid t = curr_pid s"
    "j < 2 \<Longrightarrow> desc_of t i j = desc_of s i j" "args (pcbs t q) = args (pcbs s q)"
    "\<not> in_screen (unat (curr_term s)) a \<Longrightarrow> a \<notin> prog_addr p ` W \<Longrightarrow> phys t a = phys s a"
    "entry_ptr_base t = entry_ptr_base s" "num_of_entries t = num_of_entries s" "num_of_blocks t = num_of_blocks s"
    "inode_ptr_base t = inode_ptr_base s" "data_block_ptr_base t = data_block_ptr_base s" "after_args t = after_args s"
    "tty_of (unat (curr_term s)) t = fold tty_putc xs (tty_of (unat (curr_term s)) s)"
proof -
  obtain ph l b T D where t: "t = s\<lparr>phys := ph, io_log := l, iflag := b, terms := (terms s)(unat (curr_term s) := T),
      pcbs := (pcbs s)(i := (pcbs s i)\<lparr>filesys_desc_array := D\<rparr>)\<rparr>"
    and D: "\<forall>j<2. D j = desc_of s i j"
    and ph: "\<forall>a. \<not> in_screen (unat (curr_term s)) a \<longrightarrow> a \<notin> prog_addr p ` W \<longrightarrow> ph a = phys s a"
    using assms unfolding effect_def by blast
  show "mmu t = mmu s" "curr_term t = curr_term s" "term_on_screen t = term_on_screen s" "esp t = esp s" "curr_pid t = curr_pid s"
    "entry_ptr_base t = entry_ptr_base s" "num_of_entries t = num_of_entries s" "num_of_blocks t = num_of_blocks s"
    "inode_ptr_base t = inode_ptr_base s" "data_block_ptr_base t = data_block_ptr_base s" "after_args t = after_args s"
    "args (pcbs t q) = args (pcbs s q)"
    by (simp_all add: t mmu_def)
  show "j < 2 \<Longrightarrow> desc_of t i j = desc_of s i j" using D by (simp add: t desc_of_def)
  show "\<not> in_screen (unat (curr_term s)) a \<Longrightarrow> a \<notin> prog_addr p ` W \<Longrightarrow> phys t a = phys s a" using ph by (simp add: t)
  show "tty_of (unat (curr_term s)) t = fold tty_putc xs (tty_of (unat (curr_term s)) s)"
    using assms unfolding effect_def by blast
qed

lemma effect_none: "effect p i W [] s s"
  unfolding effect_def
  by (intro conjI, rule exI [of _ "phys s"], rule exI [of _ "io_log s"], rule exI [of _ "iflag s"], rule exI [of _ "cur s"],
      rule exI [of _ "filesys_desc_array (pcbs s i)"]) (simp_all add: cur_def desc_of_def)

lemma effectE:
  assumes "effect p i W xs s t"
  obtains ph l b T D where "t = s\<lparr>phys := ph, io_log := l, iflag := b, terms := (terms s)(unat (curr_term s) := T),
      pcbs := (pcbs s)(i := (pcbs s i)\<lparr>filesys_desc_array := D\<rparr>)\<rparr>"
    "\<forall>j<2. D j = desc_of s i j" "\<forall>a. \<not> in_screen (unat (curr_term s)) a \<longrightarrow> a \<notin> prog_addr p ` W \<longrightarrow> ph a = phys s a"
  using assms unfolding effect_def by blast

lemma effectI:
  assumes "t = s\<lparr>phys := ph, io_log := l, iflag := b, terms := (terms s)(unat (curr_term s) := T),
      pcbs := (pcbs s)(i := (pcbs s i)\<lparr>filesys_desc_array := D\<rparr>)\<rparr>"
    and "\<And>j. j < 2 \<Longrightarrow> D j = desc_of s i j"
    and "\<And>a. \<not> in_screen (unat (curr_term s)) a \<Longrightarrow> a \<notin> prog_addr p ` W \<Longrightarrow> ph a = phys s a"
    and "tty_of (unat (curr_term s)) t = fold tty_putc xs (tty_of (unat (curr_term s)) s)"
  shows "effect p i W xs s t"
  unfolding effect_def
  by (rule conjI, rule exI [of _ ph], rule exI [of _ l], rule exI [of _ b], rule exI [of _ T], rule exI [of _ D])
    (intro conjI allI impI assms; assumption)+

lemma effect_trans:
  assumes "effect p i W xs s t" "effect p i W ys t u"
  shows "effect p i W (xs @ ys) s u"
proof -
  obtain ph l b T D where t: "t = s\<lparr>phys := ph, io_log := l, iflag := b, terms := (terms s)(unat (curr_term s) := T),
      pcbs := (pcbs s)(i := (pcbs s i)\<lparr>filesys_desc_array := D\<rparr>)\<rparr>" by (rule effectE [OF assms(1)])
  obtain ph' l' b' T' D' where u: "u = t\<lparr>phys := ph', io_log := l', iflag := b', terms := (terms t)(unat (curr_term t) := T'),
      pcbs := (pcbs t)(i := (pcbs t i)\<lparr>filesys_desc_array := D'\<rparr>)\<rparr>" by (rule effectE [OF assms(2)])
  note f = effect_frame [OF assms(1)] and g = effect_frame [OF assms(2)]
  have c: "curr_term t = curr_term s" by (rule f(2))
  show ?thesis
  proof (rule effectI)
    show "u = s\<lparr>phys := ph', io_log := l', iflag := b', terms := (terms s)(unat (curr_term s) := T'),
        pcbs := (pcbs s)(i := (pcbs s i)\<lparr>filesys_desc_array := D'\<rparr>)\<rparr>" by (simp add: u t)
    have D': "D' = desc_of u i" by (rule ext) (simp add: u desc_of_def)
    show "D' j = desc_of s i j" if "j < 2" for j using f(6) [OF that] g(6) [OF that] by (simp add: D')
    have p: "ph' = phys u" by (simp add: u)
    show "ph' a = phys s a" if "\<not> in_screen (unat (curr_term s)) a" "a \<notin> prog_addr p ` W" for a
      using f(8) [OF that] g(8) [of a] that by (simp add: p c)
    show "tty_of (unat (curr_term s)) u = fold tty_putc (xs @ ys) (tty_of (unat (curr_term s)) s)"
      using f(15) g(15) by (simp add: c)
  qed
qed

lemma effect_mono:
  assumes "effect p i W xs s t" "W \<subseteq> V"
  shows "effect p i V xs s t"
proof (rule effectE [OF assms(1)])
  fix ph l b T D
  assume t: "t = s\<lparr>phys := ph, io_log := l, iflag := b, terms := (terms s)(unat (curr_term s) := T),
      pcbs := (pcbs s)(i := (pcbs s i)\<lparr>filesys_desc_array := D\<rparr>)\<rparr>" and D: "\<forall>j<2. D j = desc_of s i j"
    and ph: "\<forall>a. \<not> in_screen (unat (curr_term s)) a \<longrightarrow> a \<notin> prog_addr p ` W \<longrightarrow> ph a = phys s a"
  show ?thesis
    by (rule effectI [OF t _ _ effect_frame(15) [OF assms(1)]]) (use D ph assms(2) in blast)+
qed

lemma effect_ready: "effect p i W xs s t \<Longrightarrow> ready p i s \<Longrightarrow> ready p i t"
  using effect_frame(1-6) [of p i W xs s t] runs_mmu [of t s] views_mmu [of t s]
  by (simp add: ready_def console_ok_def fetch_cur_pcb_ptr_def desc_busy_def)

lemma effect_room:
  assumes "effect p i W xs s t" "ready p i s" "can_show s (xs @ ys)"
  shows "can_show t ys"
  using assms effect_ready [OF assms(1,2)] effect_frame(2,15) [OF assms(1)]
  by (auto simp: can_show_def ready_def tty_fits_append tty_ok_fold)

lemma ready_index: "ready p i s \<Longrightarrow> i < 6 \<and> p < 6"
proof -
  assume r: "ready p i s"
  then have "find (\<lambda>i. pcb_ptr_array ! i = esp s AND 0xFFFFE000) [0..<6] = Some i"
    by (simp add: ready_def fetch_cur_pcb_ptr_def pcb_at_def)
  then have "i \<in> set [0..<6]" by (auto simp: find_Some_iff)
  then show ?thesis using r by (simp add: ready_def runs_def)
qed

lemma effect_page:
  assumes "effect p i W xs s t" "ready p i s" "in_page a" "a \<notin> W" "W \<subseteq> Collect in_page"
  shows "phys t (prog_addr p a) = phys s (prog_addr p a)" "ld t a = ld s a"
proof -
  have p: "p < 6" and k: "unat (curr_term s) < 3" and r: "runs s p" "runs t p"
    using ready_index [OF assms(2)] effect_ready [OF assms(1,2)] assms(2) views_less by (auto simp: ready_def console_ok_def)
  have "\<not> in_screen (unat (curr_term s)) (prog_addr p a)"
    using program_not_screen [OF prog_addr_in [OF p] k] assms(3) by (simp add: in_page_def)
  moreover have "prog_addr p a \<notin> prog_addr p ` W"
  proof
    assume "prog_addr p a \<in> prog_addr p ` W"
    then obtain b where "b \<in> W" "prog_addr p a = prog_addr p b" by blast
    then show False using prog_addr_inj [OF p, of a b] assms(3-5) by (auto simp: in_page_def)
  qed
  ultimately show ph: "phys t (prog_addr p a) = phys s (prog_addr p a)" by (rule effect_frame(8) [OF assms(1)])
  show "ld t a = ld s a" using ph user_load_ld [OF r(1) assms(3)] user_load_ld [OF r(2) assms(3)]
    user_load_page [OF r(1) assms(3)] user_load_page [OF r(2) assms(3)] by simp
qed

lemma effect_bytes:
  assumes "effect p i W xs s t" "ready p i s" "user_buffer a n" "span a n \<inter> W = {}" "W \<subseteq> Collect in_page"
  shows "ld_bytes t a n = ld_bytes s a n"
proof -
  have "ld t (a + of_nat j) = ld s (a + of_nat j)" if "j < n" for j
    using effect_page(2) [OF assms(1,2) user_buffer_page [OF assms(3) that] _ assms(5)] assms(4) spanI [OF that, of a] by blast
  then have "ld_bytes t a n = Some bs \<longleftrightarrow> ld_bytes s a n = Some bs" for bs by (simp add: ld_bytes_nth cong: conj_cong)
  then show ?thesis by (metis not_Some_eq)
qed

lemma effect_str:
  assumes "effect p i W xs s t" "ready p i s" "holds_str s a ys" "span a (length ys + 1) \<inter> W = {}" "W \<subseteq> Collect in_page"
  shows "holds_str t a ys"
  using effect_bytes [OF assms(1,2) _ assms(4,5)] assms(3) by (simp add: holds_str_def)

text \<open>The kernel's page, and so the file system, stays.\<close>

lemma effect_kernel:
  assumes "effect p i W xs s t" "ready p i s" "W \<subseteq> Collect in_page"
  shows "kernel_same s t"
proof -
  have r: "runs s p" "runs t p" "p < 6" "unat (curr_term s) < 3"
    using effect_ready [OF assms(1,2)] ready_index [OF assms(2)] assms(2) views_less by (auto simp: ready_def console_ok_def)
  have "phys t a = phys s a" if a: "0x400000 \<le> unat a" "unat a < 0x800000" for a
  proof (rule effect_frame(8) [OF assms(1)])
    show "\<not> in_screen (unat (curr_term s)) a" using a r(4) by (auto simp: in_screen_def)
    show "a \<notin> prog_addr p ` W"
    proof
      assume "a \<in> prog_addr p ` W"
      then obtain b where "in_page b" "a = prog_addr p b" using assms(3) by blast
      then have "in_program p a" using prog_addr_in [OF r(3)] by (simp add: in_page_def)
      then show False using a by (simp add: in_program_def)
    qed
  qed
  then show ?thesis using r(1,2) effect_frame(9-13) [OF assms(1)] by (auto simp: kernel_same_def)
qed


section \<open>Calls that print\<close>

lemma output_effect:
  assumes "output_only (s\<lparr>iflag := b\<rparr>) t" "tty_of (unat (curr_term s)) t = fold tty_putc xs (tty_of (unat (curr_term s)) s)"
  shows "effect p i W xs s t" "desc_of t i = desc_of s i"
proof -
  obtain ph l T where t: "t = s\<lparr>iflag := b, phys := ph, io_log := l, terms := (terms s)(unat (curr_term s) := T)\<rparr>"
    and ph: "\<forall>a. \<not> in_screen (unat (curr_term s)) a \<longrightarrow> ph a = phys s a"
    using assms(1) unfolding output_only_def by auto
  show "effect p i W xs s t"
  proof (rule effectI)
    show "t = s\<lparr>phys := ph, io_log := l, iflag := b, terms := (terms s)(unat (curr_term s) := T),
        pcbs := (pcbs s)(i := (pcbs s i)\<lparr>filesys_desc_array := filesys_desc_array (pcbs s i)\<rparr>)\<rparr>" by (simp add: t)
    show "filesys_desc_array (pcbs s i) j = desc_of s i j" for j by (simp add: desc_of_def)
    show "ph a = phys s a" if "\<not> in_screen (unat (curr_term s)) a" for a using ph that by blast
  qed (rule assms(2))
  show "desc_of t i = desc_of s i" by (simp add: t desc_of_def fun_eq_iff)
qed

lemma slt_call [simp]:
  "\<not> slt 2 1" "\<not> slt 3 1" "\<not> slt 4 1" "\<not> slt 5 1" "\<not> slt 6 1" "\<not> slt 7 1" "\<not> slt 8 1" "\<not> slt 9 1" "\<not> slt 10 1" "\<not> slt 1 1"
  "\<not> slt 10 2" "\<not> slt 10 3" "\<not> slt 10 4" "\<not> slt 10 5" "\<not> slt 10 6" "\<not> slt 10 7" "\<not> slt 10 8" "\<not> slt 10 9" "\<not> slt 10 10" "\<not> slt 10 1"
  by (simp_all add: slt_def)

text \<open>Each stub reaches its system call.\<close>

lemma stubs:
  "ece391_execute e c s = execute (at s c) s" "ece391_read e fd buf n s = sys_read (devices e) (patience e) fd buf n s"
  "ece391_write e fd buf n s = plain (sys_write (devices e) fd buf n s)" "ece391_open e f s = plain (sys_open (devices e) f s)"
  "ece391_close e fd s = plain (sys_close fd s)" "ece391_getargs e buf n s = plain (getargs buf n s)"
  "ece391_vidmap e a s = plain (vidmap a s)" "ece391_halt e v s = halt (ucast v) s" "ece391_set_handler e g h s = Some (Done (-1), s)"
  by (simp_all add: ece391_execute_def ece391_read_def ece391_write_def ece391_open_def ece391_close_def ece391_getargs_def
      ece391_vidmap_def ece391_halt_def ece391_set_handler_def int80_def sys_call_handler_def plain_def set_handler_def)

lemma plain_Some [simp]: "plain (Some (v, s)) = Some (Done v, s)"
  by (simp add: plain_def)

lemma write_shows:
  assumes "ready p i s" "user_buffer a (length xs)" "ld_bytes s a (length xs) = Some xs" "can_show s xs"
  obtains t where "ece391_write e 1 a (of_nat (length xs)) s = Some (Done 0, t)" "effect p i W xs s t" "desc_of t i = desc_of s i"
proof -
  have r: "runs s p" "console_ok s" "fetch_cur_pcb_ptr s = Some i" "desc_busy i s 1" "file_ops_table_ptr (desc_of s i 1) = Terminal_ops"
    using assms(1) by (auto simp: ready_def)
  have l: "length xs < 2 ^ 31" using assms(2) by (simp add: user_buffer_def)
  obtain t where t: "terminal_write 1 a (of_nat (length xs)) s = Some (0, t)"
    "tty_of (unat (curr_term s)) t = fold tty_putc xs (tty_of (unat (curr_term s)) s)" "output_only (s\<lparr>iflag := True\<rparr>) t"
    using terminal_write_shows [OF r(1,2) assms(2,3,4) l, of 1] by blast
  have "sys_write (devices e) 1 a (of_nat (length xs)) s = Some (0, t)"
    using r(3-5) t(1) by (simp add: sys_write_def desc_def driver_write_def desc_busy_def desc_of_def)
  then show ?thesis using output_effect [OF t(3,2)] by (intro that [of t]) (simp_all add: stubs)
qed

lemma fdputs_shows:
  assumes "ready p i s" "holds_str s a xs" "can_show s xs"
  obtains t where "ece391_fdputs e 1 a s = Some (Done 0, t)" "effect p i W xs s t" "desc_of t i = desc_of s i"
proof -
  have r: "runs s p" using assms(1) by (simp add: ready_def)
  note h = holds_str_cstr [OF r assms(2)]
  obtain t where t: "ece391_write e 1 a (of_nat (length xs)) s = Some (Done 0, t)" "effect p i W xs s t" "desc_of t i = desc_of s i"
    by (rule write_shows [OF assms(1) h(4,3) assms(3)])
  then show ?thesis using ece391_strlen_str [OF r assms(2)] by (intro that [of t]) (simp_all add: ece391_fdputs_def)
qed

section \<open>Programs that print\<close>

text \<open>
  What the rest of a program may rely on between two calls: the effects add up, and the screen has room
  for what is still to come. \<open>does m v xs\<close>: from a good state with room, \<open>m\<close> returns \<open>v\<close>, prints \<open>xs\<close>
  and leaves a good state.
\<close>

locale printing =
  fixes ok :: "'s \<Rightarrow> bool" and eff :: "u8 list \<Rightarrow> 's \<Rightarrow> 's \<Rightarrow> bool" and room :: "'s \<Rightarrow> u8 list \<Rightarrow> bool"
  assumes eff_none: "eff [] s s"
    and eff_append: "eff xs s t \<Longrightarrow> eff ys t u \<Longrightarrow> eff (xs @ ys) s u"
    and room_first: "room s (xs @ ys) \<Longrightarrow> room s xs"
    and room_rest: "ok s \<Longrightarrow> eff xs s t \<Longrightarrow> room s (xs @ ys) \<Longrightarrow> room t ys"
begin

definition does :: "'s prog \<Rightarrow> u32 \<Rightarrow> u8 list \<Rightarrow> bool" where
  "does m v xs \<longleftrightarrow> (\<forall>s. ok s \<longrightarrow> room s xs \<longrightarrow> (\<exists>t. m s = Some (Done v, t) \<and> eff xs s t \<and> ok t))"

lemma does_ret: "does (ret v) v []"
  by (simp add: does_def eff_none)

lemma does_same: "(\<And>s. ok s \<Longrightarrow> m s = Some (Done v, s)) \<Longrightarrow> does m v []"
  by (simp add: does_def eff_none)

lemma does_seq:
  assumes "does m v xs" "does (f v) w ys"
  shows "does (seq m f) w (xs @ ys)"
  unfolding does_def
proof (intro allI impI)
  fix s
  assume s: "ok s" "room s (xs @ ys)"
  then obtain t where t: "m s = Some (Done v, t)" "eff xs s t" "ok t"
    using assms(1) room_first unfolding does_def by blast
  then obtain u where "f v t = Some (Done w, u)" "eff ys t u" "ok u"
    using assms(2) room_rest [OF s(1) t(2) s(2)] unfolding does_def by blast
  then show "\<exists>u. seq m f s = Some (Done w, u) \<and> eff (xs @ ys) s u \<and> ok u"
    using t eff_append by auto
qed

lemma does_seq_quiet: "does m v [] \<Longrightarrow> does (f v) w ys \<Longrightarrow> does (seq m f) w ys"
  using does_seq [of m v "[]"] by simp

lemma does_seq_last: "does m v xs \<Longrightarrow> does (f v) w [] \<Longrightarrow> does (seq m f) w xs"
  using does_seq [of m v xs f w "[]"] by simp

lemma does_run:
  assumes "does m v xs" "ok s" "room s xs"
  obtains t where "m s = Some (Done v, t)" "eff xs s t" "ok t"
  using assms unfolding does_def by blast

end

text \<open>The strings a program is linked with are in its memory.\<close>

definition linked :: "env \<Rightarrow> string set \<Rightarrow> 'a machine_scheme \<Rightarrow> bool" where
  "linked e L s \<longleftrightarrow> (\<forall>str\<in>L. holds_str s (literal e str) (bytes str))"

lemma effect_linked:
  assumes "effect p i W xs s t" "ready p i s" "linked e L s" "\<forall>str\<in>L. span (literal e str) (length str + 1) \<inter> W = {}"
    and "W \<subseteq> Collect in_page"
  shows "linked e L t"
  using effect_str [OF assms(1,2) _ _ assms(5)] assms(3,4) by (auto simp: linked_def bytes_def)

section \<open>Calls on names and descriptors\<close>

text \<open>What the directory says of a name: its first entry, of a type \<open>open\<close> knows; or none.\<close>

definition listed :: "'a filesys_scheme \<Rightarrow> nat \<Rightarrow> u8 list \<Rightarrow> dentry_t \<Rightarrow> bool" where
  "listed s n xs d \<longleftrightarrow> directory_ok s n \<and> dentry_filetype d \<in> {0, 1, 2}
     \<and> (\<exists>k<n. entry_name s k = xs \<and> (\<forall>j<k. entry_name s j \<noteq> xs) \<and> read_entry s (of_nat k) = Some d)"

definition unlisted :: "'a filesys_scheme \<Rightarrow> nat \<Rightarrow> u8 list \<Rightarrow> bool" where
  "unlisted s n xs \<longleftrightarrow> directory_ok s n \<and> (\<forall>k<n. entry_name s k \<noteq> xs)"

lemma same_listed: "kernel_same s t \<Longrightarrow> listed s n xs d \<Longrightarrow> listed t n xs d"
  unfolding listed_def using same_directory [of s t n] by (metis less_imp_le_nat less_trans)

lemma same_unlisted: "kernel_same s t \<Longrightarrow> unlisted s n xs \<Longrightarrow> unlisted t n xs"
  unfolding unlisted_def using same_directory(1,2) [of s t n] by (metis less_imp_le_nat)

lemma str_cstr_n: "runs s p \<Longrightarrow> holds_str s a xs \<Longrightarrow> length xs \<le> 32 \<Longrightarrow> cstr_n (at s a) 32 xs"
  using cstr_take [OF holds_str_cstr(2), of s p a xs 32] by simp

lemma listed_names:
  assumes "runs s p" "cstr_n (at s a) 32 xs" "listed s n xs d"
  shows "names s a d"
proof -
  obtain k where k: "k < n" "entry_name s k = xs" "\<forall>j<k. entry_name s j \<noteq> xs" "read_entry s (of_nat k) = Some d"
    and o: "directory_ok s n" "dentry_filetype d \<in> {0, 1, 2}"
    using assms(3) unfolding listed_def by blast
  then show ?thesis using read_dentry_by_name_first(2) [OF assms(1) o(1) assms(2) k(1-3)] by (simp add: names_def)
qed

lemma open_unlisted:
  assumes "ready p i s" "cstr_n (at s a) 32 xs" "unlisted s n xs"
  shows "ece391_open e a s = Some (Done (-1), s)"
proof -
  have r: "runs s p" "fetch_cur_pcb_ptr s = Some i" using assms(1) by (simp_all add: ready_def)
  have "read_dentry_by_name (at s a) s = Some (-1, None)"
    using read_dentry_by_name_first(1) [OF r(1) _ assms(2)] assms(3) unfolding unlisted_def by blast
  then show ?thesis using sys_open_missing [OF r(2)] by (simp add: stubs)
qed

lemma desc_effect:
  assumes "desc_only i k s t" "2 \<le> k"
  shows "effect p i W [] s t"
proof -
  obtain d l b where t: "t = (upd_desc i k (\<lambda>_. d) s)\<lparr>io_log := l, iflag := b\<rparr>"
    using assms(1) unfolding desc_only_def by blast
  show ?thesis
  proof (rule effectI)
    show "t = s\<lparr>phys := phys s, io_log := l, iflag := b, terms := (terms s)(unat (curr_term s) := cur s),
        pcbs := (pcbs s)(i := (pcbs s i)\<lparr>filesys_desc_array := (filesys_desc_array (pcbs s i))(k := d)\<rparr>)\<rparr>"
      by (simp add: t upd_desc_def upd_pcb_def cur_def)
    show "((filesys_desc_array (pcbs s i))(k := d)) j = desc_of s i j" if "j < 2" for j
      using that assms(2) by (simp add: desc_of_def)
    show "tty_of (unat (curr_term s)) t = fold tty_putc [] (tty_of (unat (curr_term s)) s)"
      by (simp add: t upd_desc_def upd_pcb_def tty_of_def cong: if_cong)
  qed simp
qed

lemma open_listed:
  assumes "ready p i s" "cstr_n (at s a) 32 xs" "listed s n xs d" "2 \<le> k" "k < 8" "\<not> desc_busy i s k"
    and "\<forall>j. 2 \<le> j \<longrightarrow> j < k \<longrightarrow> desc_busy i s j"
  obtains t where "ece391_open e a s = Some (Done (of_nat k), t)" "effect p i W [] s t" "desc_only i k s t"
    "desc_of t i k = set_desc (dentry_filetype d) (dentry_inode_num d) (desc_of s i k)" "desc_busy i t k"
proof -
  have r: "runs s p" "fetch_cur_pcb_ptr s = Some i" using assms(1) by (simp_all add: ready_def)
  have nm: "names s a d" by (rule listed_names [OF r(1) assms(2,3)])
  obtain t where t: "sys_open (devices e) a s = Some (of_nat k, t)" "desc_only i k s t"
    "desc_of t i k = set_desc (dentry_filetype d) (dentry_inode_num d) (desc_of s i k)"
    using sys_open_found [OF r(2) nm assms(4-7), of "devices e"] by blast
  moreover have "desc_busy i t k" using nm t(3) by (auto simp: desc_busy_def set_desc_def names_def)
  ultimately show ?thesis using desc_effect [OF t(2) assms(4)] by (intro that [of t]) (simp_all add: stubs)
qed

lemma open_full:
  assumes "ready p i s" "cstr_n (at s a) 32 xs" "listed s n xs d" "\<forall>j. 2 \<le> j \<longrightarrow> j < 8 \<longrightarrow> desc_busy i s j"
  shows "ece391_open e a s = Some (Done (-1), s)"
proof -
  have r: "runs s p" "fetch_cur_pcb_ptr s = Some i" using assms(1) by (simp_all add: ready_def)
  then show ?thesis using sys_open_full [OF r(2) listed_names [OF r(1) assms(2,3)] assms(4)] by (simp add: stubs)
qed

lemma close_frees:
  assumes "ready p i s" "2 \<le> k" "k < 8" "desc_busy i s k"
  obtains t where "ece391_close e (of_nat k) s = Some (Done 0, t)" "effect p i W [] s t" "\<forall>j. desc_busy i t j \<longleftrightarrow> desc_busy i s j \<and> j \<noteq> k"
proof -
  let ?t = "upd_desc i k (\<lambda>d. d\<lparr>flags := 0\<rparr>) s"
  have c: "ece391_close e (of_nat k) s = Some (Done 0, ?t)"
    using sys_close_open [OF _ assms(2-4)] assms(1) by (simp add: stubs ready_def)
  have "?t = (upd_desc i k (\<lambda>_. (desc_of s i k)\<lparr>flags := 0\<rparr>) s)\<lparr>io_log := io_log s, iflag := iflag s\<rparr>"
    by (simp add: upd_desc_def upd_pcb_def desc_of_def)
  then have "desc_only i k s ?t" unfolding desc_only_def by blast
  then have "effect p i W [] s ?t" using assms(2) by (rule desc_effect)
  with c show ?thesis by (rule that) (simp add: desc_busy_def desc_of_def upd_desc_def upd_pcb_def)
qed

section \<open>Output that fits\<close>

lemma narrow_show: "ready p i s \<Longrightarrow> tty_ok (tty_of (unat (curr_term s)) s) \<Longrightarrow> narrow (tty_x (tty_of (unat (curr_term s)) s)) xs \<Longrightarrow> can_show s xs"
  by (simp add: ready_def can_show_def narrow_fits)

end
