(* ===== verification/Programs.thy ===== *)
theory Programs
  imports Userrun
begin

text \<open>
  The user programs of \<open>src/syscalls/\<close>, each as its \<open>main\<close> over the system calls and the support
  library. A local array is the address the compiler gave it; \<open>literal e str\<close> is where the string
  constant \<open>str\<close> is.
\<close>

definition put :: "env \<Rightarrow> string \<Rightarrow> 'a kernel_scheme prog" where
  "put e str = ece391_fdputs e 1 (literal e str)"

text \<open>A message, and the value the program then returns.\<close>

definition complain :: "env \<Rightarrow> string \<Rightarrow> u32 \<Rightarrow> 'a kernel_scheme prog" where
  "complain e str v = seq (put e str) (\<lambda>_. ret v)"

section \<open>ece391testprint.c, ece391hello.c\<close>

definition testprint_main :: "env \<Rightarrow> 'a kernel_scheme prog" where
  "testprint_main e = seq (put e ''Hello, if this ran, the program was correct. Yay!\<newline>'') (\<lambda>_. ret 0)"

definition hello_main :: "env \<Rightarrow> u32 \<Rightarrow> 'a kernel_scheme prog" where
  "hello_main e buf =
     seq (put e ''Hi, what's your name? '') (\<lambda>_.
     seq (ece391_read e 0 buf 1023) (\<lambda>cnt.
     if cnt = -1 then complain e ''Can't read name from keyboard.\<newline>'' 3
     else
       seq (poke (buf + cnt) 0) (\<lambda>_.
       seq (put e ''Hello, '') (\<lambda>_.
       seq (ece391_fdputs e 1 buf) (\<lambda>_. ret 0)))))"

section \<open>ece391cat.c\<close>

partial_function (option) cat_loop :: "env \<Rightarrow> u32 \<Rightarrow> u32 \<Rightarrow> 'a kernel_scheme prog" where
  "cat_loop e fd buf s =
     seq (ece391_read e fd buf 1024) (\<lambda>cnt s.
       if cnt = 0 then ret 0 s
       else if cnt = -1 then complain e ''file read failed\<newline>'' 3 s
       else seq (ece391_write e 1 buf cnt) (\<lambda>w s. if w = -1 then ret 3 s else cat_loop e fd buf s) s) s"

definition cat_main :: "env \<Rightarrow> u32 \<Rightarrow> 'a kernel_scheme prog" where
  "cat_main e buf =
     seq (ece391_getargs e buf 1024) (\<lambda>r.
     if r \<noteq> 0 then complain e ''could not read arguments\<newline>'' 3
     else seq (ece391_open e buf) (\<lambda>fd.
          if fd = -1 then complain e ''file not found\<newline>'' 2 else cat_loop e fd buf))"

section \<open>ece391ls.c\<close>

partial_function (option) ls_loop :: "env \<Rightarrow> u32 \<Rightarrow> u32 \<Rightarrow> 'a kernel_scheme prog" where
  "ls_loop e fd buf s =
     seq (ece391_read e fd buf 32) (\<lambda>cnt s.
       if cnt = 0 then ret 0 s
       else if cnt = -1 then complain e ''directory entry read failed\<newline>'' 3 s
       else seq (poke (buf + cnt) 10) (\<lambda>_.
            seq (ece391_write e 1 buf (cnt + 1)) (\<lambda>w s. if w = -1 then ret 3 s else ls_loop e fd buf s)) s) s"

definition ls_main :: "env \<Rightarrow> u32 \<Rightarrow> 'a kernel_scheme prog" where
  "ls_main e buf =
     seq (ece391_open e (literal e ''.'')) (\<lambda>fd.
     if fd = -1 then complain e ''directory open failed\<newline>'' 2 else ls_loop e fd buf)"

section \<open>ece391grep.c\<close>

text \<open>The end of the line that starts at \<open>line_end\<close>.\<close>

partial_function (option) line_end_from :: "reader \<Rightarrow> u32 \<Rightarrow> u32 \<Rightarrow> u32 \<Rightarrow> u32 option" where
  "line_end_from m data fill line_end =
     (if slt line_end fill then
        do { b \<leftarrow> m (data + line_end);
             if b \<noteq> 10 then line_end_from m data fill (line_end + 1) else Some line_end }
      else Some line_end)"

text \<open>Does the line match at \<open>check\<close>?\<close>

definition matches :: "reader \<Rightarrow> u32 \<Rightarrow> u32 \<Rightarrow> u32 \<Rightarrow> bool option" where
  "matches m s s_len a =
     do { b \<leftarrow> m s; c \<leftarrow> m a;
          if b = c then do { r \<leftarrow> ece391_strncmp m a s s_len; Some (r = 0) } else Some False }"

partial_function (option) search_line :: "reader \<Rightarrow> u32 \<Rightarrow> u32 \<Rightarrow> u32 \<Rightarrow> u32 \<Rightarrow> u32 \<Rightarrow> bool option" where
  "search_line m s s_len data line_end check =
     (if slt check line_end then
        do { found \<leftarrow> matches m s s_len (data + check);
             if found then Some True else search_line m s s_len data line_end (check + 1) }
      else Some False)"

definition print_match :: "env \<Rightarrow> u32 \<Rightarrow> u32 \<Rightarrow> 'a kernel_scheme prog" where
  "print_match e fname line =
     seq (ece391_fdputs e 1 fname) (\<lambda>_.
     seq (put e '':'') (\<lambda>_.
     seq (ece391_fdputs e 1 line) (\<lambda>_. put e ''\<newline>'')))"

text \<open>The lines in the first \<open>fill\<close> bytes of \<open>data\<close>; its value is what is left there for the next read.\<close>

partial_function (option) grep_lines ::
    "env \<Rightarrow> u32 \<Rightarrow> u32 \<Rightarrow> u32 \<Rightarrow> u32 \<Rightarrow> u32 \<Rightarrow> u32 \<Rightarrow> u32 \<Rightarrow> 'a kernel_scheme prog" where
  "grep_lines e s s_len fname data cnt fill line_start t =
     do { line_end \<leftarrow> line_end_from (user_load t) data fill line_start;
          c \<leftarrow> user_load t (data + line_end);
          if c \<noteq> 10 \<and> cnt \<noteq> 0 \<and> line_start \<noteq> 0 then
            do { t \<leftarrow> user_store (data + line_end) 0 t;
                 t \<leftarrow> ece391_strcpy data (data + line_start) t;
                 ret (fill - line_start) t }
          else
            do { t \<leftarrow> user_store (data + line_end) 0 t;
                 found \<leftarrow> search_line (user_load t) s s_len data line_end line_start;
                 seq (if found then print_match e fname (data + line_start) else ret 0) (\<lambda>_ t.
                   if \<not> slt (line_end + 1) fill then ret 0 t
                   else grep_lines e s s_len fname data cnt fill (line_end + 1) t) t } }"

partial_function (option) grep_file ::
    "env \<Rightarrow> u32 \<Rightarrow> u32 \<Rightarrow> u32 \<Rightarrow> u32 \<Rightarrow> u32 \<Rightarrow> u32 \<Rightarrow> 'a kernel_scheme prog" where
  "grep_file e s s_len fname data fd fill t =
     seq (ece391_read e fd (data + fill) (1024 - fill)) (\<lambda>cnt t.
       if cnt = -1 then complain e ''file read failed\<newline>'' (-1) t
       else seq (grep_lines e s s_len fname data cnt (fill + cnt) 0) (\<lambda>fill t.
              if cnt = 0 then
                seq (ece391_close e fd) (\<lambda>r. if r = -1 then complain e ''file close failed\<newline>'' (-1) else ret 0) t
              else grep_file e s s_len fname data fd fill t) t) t"

definition do_one_file :: "env \<Rightarrow> u32 \<Rightarrow> u32 \<Rightarrow> u32 \<Rightarrow> 'a kernel_scheme prog" where
  "do_one_file e data s fname t =
     do { s_len \<leftarrow> ece391_strlen (user_load t) s;
          seq (ece391_open e fname) (\<lambda>fd.
            if fd = -1 then complain e ''file open failed\<newline>'' (-1)
            else grep_file e s s_len fname data fd 0) t }"

partial_function (option) grep_loop :: "env \<Rightarrow> u32 \<Rightarrow> u32 \<Rightarrow> u32 \<Rightarrow> u32 \<Rightarrow> 'a kernel_scheme prog" where
  "grep_loop e data search buf fd s =
     seq (ece391_read e fd buf 32) (\<lambda>cnt s.
       if cnt = 0 then ret 0 s
       else if cnt = -1 then complain e ''directory entry read failed\<newline>'' 3 s
       else peek buf (\<lambda>c s.
              if c = asc CHR ''.'' then grep_loop e data search buf fd s
              else seq (poke (buf + cnt) 0) (\<lambda>_.
                   seq (do_one_file e data search buf) (\<lambda>r s.
                     if r \<noteq> 0 then ret 3 s else grep_loop e data search buf fd s)) s) s) s"

definition grep_main :: "env \<Rightarrow> u32 \<Rightarrow> u32 \<Rightarrow> u32 \<Rightarrow> 'a kernel_scheme prog" where
  "grep_main e data buf search =
     seq (ece391_getargs e search 1024) (\<lambda>r.
     if r \<noteq> 0 then complain e ''could not read argument\<newline>'' 3
     else seq (ece391_open e (literal e ''.'')) (\<lambda>fd.
          if fd = -1 then complain e ''directory open failed\<newline>'' 2 else grep_loop e data search buf fd))"

section \<open>ece391counter.c\<close>

function count_from :: "env \<Rightarrow> u32 \<Rightarrow> u32 \<Rightarrow> u32 \<Rightarrow> 'a kernel_scheme prog" where
  "count_from e buf limit i s =
     (if i < limit then
        do { s \<leftarrow> ece391_itoa (i + 1) buf 10 s;
             seq (ece391_fdputs e 1 buf) (\<lambda>_.
             seq (put e ''\<newline>'') (\<lambda>_. count_from e buf limit (i + 1))) s }
      else ret 0 s)"
  by pat_completeness auto
termination by (relation "measure (\<lambda>(_, _, limit, i, _). unat limit - unat i)") (auto simp: unat_diff_less)

declare count_from.simps [simp del]

definition wrong_choice :: "u32 \<Rightarrow> u8 \<Rightarrow> bool" where
  "wrong_choice len c \<longleftrightarrow> len > 1 \<or> len = 1 \<and> (c < asc CHR ''0'' \<or> c > asc CHR ''2'')"

definition max_count :: "u8 \<Rightarrow> u32" where
  "max_count c = (if c = asc CHR ''0'' then 100 else if c = asc CHR ''1'' then 10000
     else if c = asc CHR ''2'' then 100000 else 0)"

definition counter_main :: "env \<Rightarrow> u32 \<Rightarrow> 'a kernel_scheme prog" where
  "counter_main e buf =
     seq (put e ''Enter the Test Number: (0): 100, (1): 10000, (2): 100000\<newline>'') (\<lambda>_.
     seq (ece391_read e 0 buf 1023) (\<lambda>cnt.
     if cnt = -1 then complain e ''Can't read the number from keyboard.\<newline>'' 3
     else
       seq (poke (buf + cnt) 0) (\<lambda>_ s.
         do { len \<leftarrow> ece391_strlen (user_load s) buf;
              peek buf (\<lambda>c. if wrong_choice len c then complain e ''Wrong Choice!\<newline>'' 0
                            else count_from e buf (max_count c) 0) s })))"

section \<open>ece391shell.c\<close>

text \<open>What the shell says about the value of \<open>execute\<close>.\<close>

definition shell_report :: "env \<Rightarrow> u32 \<Rightarrow> 'a kernel_scheme prog" where
  "shell_report e rval =
     (if rval = -1 then put e ''no such command\<newline>''
      else if rval = 256 then put e ''program terminated by exception\<newline>''
      else if rval \<noteq> 0 then put e ''program terminated abnormally\<newline>''
      else ret 0)"

definition strip_newline :: "u32 \<Rightarrow> u32 \<Rightarrow> 'a machine_scheme \<Rightarrow> u32 option" where
  "strip_newline buf cnt s =
     (if slt 0 cnt then do { c \<leftarrow> user_load s (buf + (cnt - 1)); Some (if c = 10 then cnt - 1 else cnt) } else Some cnt)"

partial_function (option) shell_loop :: "env \<Rightarrow> u32 \<Rightarrow> 'a kernel_scheme prog" where
  "shell_loop e buf s =
     seq (put e ''391OS> '') (\<lambda>_.
     seq (ece391_read e 0 buf 1023) (\<lambda>cnt s.
       if cnt = -1 then complain e ''read from keyboard failed\<newline>'' 3 s
       else
         do { cnt \<leftarrow> strip_newline buf cnt s;
              s \<leftarrow> user_store (buf + cnt) 0 s;
              r \<leftarrow> ece391_strcmp (user_load s) buf (literal e ''exit'');
              if r = 0 then ret 0 s
              else peek buf (\<lambda>c s.
                     if c = 0 then shell_loop e buf s
                     else seq (ece391_execute e buf) (\<lambda>rval.
                          seq (shell_report e rval) (\<lambda>_ s. shell_loop e buf s)) s) s })) s"

definition shell_main :: "env \<Rightarrow> u32 \<Rightarrow> 'a kernel_scheme prog" where
  "shell_main e buf = seq (put e ''Starting 391 Shell\<newline>'') (\<lambda>_. shell_loop e buf)"

section \<open>ece391sigtest.c\<close>

text \<open>
  The static variables are where the compiler put them: the byte \<open>charbuf\<close> and the pointer \<open>badbuf\<close>, NULL in the
  program's image. \<open>segfault\<close> and \<open>alarm\<close> are the addresses of the handlers, which this kernel never calls:
  the first would make \<open>badbuf\<close> and the saved EAX, seven words above its argument, point to \<open>charbuf\<close>.
\<close>

definition store_dword :: "u32 \<Rightarrow> u32 \<Rightarrow> 'a machine_scheme prog" where
  "store_dword a v =
     seq (poke a (ucast v)) (\<lambda>_. seq (poke (a + 1) (ucast (drop_bit 8 v))) (\<lambda>_.
     seq (poke (a + 2) (ucast (drop_bit 16 v))) (\<lambda>_. poke (a + 3) (ucast (drop_bit 24 v)))))"

definition load_dword :: "u32 \<Rightarrow> (u32 \<Rightarrow> 'a machine_scheme prog) \<Rightarrow> 'a machine_scheme prog" where
  "load_dword a f =
     peek a (\<lambda>b0. peek (a + 1) (\<lambda>b1. peek (a + 2) (\<lambda>b2. peek (a + 3) (\<lambda>b3. f (word_of_bytes [b0, b1, b2, b3])))))"

definition print_signum :: "env \<Rightarrow> u32 \<Rightarrow> 'a kernel_scheme prog" where
  "print_signum e signum =
     put e (if signum = 0 then ''0\<newline>'' else if signum = 1 then ''1\<newline>'' else if signum = 2 then ''2\<newline>''
            else if signum = 3 then ''3\<newline>'' else ''invalid\<newline>'')"

definition segfault_sighandler :: "env \<Rightarrow> u32 \<Rightarrow> u32 \<Rightarrow> u32 \<Rightarrow> u32 \<Rightarrow> u32 \<Rightarrow> 'a kernel_scheme prog" where
  "segfault_sighandler e badbuf charbuf buf signum_addr signum =
     seq (put e ''Segfault signal handler called, signum: '') (\<lambda>_.
     seq (print_signum e signum) (\<lambda>_.
     seq (put e ''Press enter to continue...\<newline>'') (\<lambda>_.
     seq (ece391_read e 0 buf 1) (\<lambda>_.
     seq (store_dword badbuf charbuf) (\<lambda>_.
     seq (store_dword (signum_addr + 28) charbuf) (\<lambda>_.
     put e ''Signal handler returning\<newline>''))))))"

definition alarm_sighandler :: "env \<Rightarrow> u32 \<Rightarrow> 'a kernel_scheme prog" where
  "alarm_sighandler e signum =
     seq (put e ''Alarm signal handler called, signum: '') (\<lambda>_. print_signum e signum)"

definition sigtest_main :: "env \<Rightarrow> u32 \<Rightarrow> u32 \<Rightarrow> u32 \<Rightarrow> u32 \<Rightarrow> u32 \<Rightarrow> 'a kernel_scheme prog" where
  "sigtest_main e segfault alarm badbuf charbuf buf =
     seq (ece391_getargs e buf 1024) (\<lambda>r.
     if r \<noteq> 0 then complain e ''could not read argument\<newline>'' 3
     else
       seq (peek buf (\<lambda>c.
              if c = asc CHR ''1'' then
                seq (put e ''Installing signal handlers\<newline>'') (\<lambda>_.
                seq (ece391_set_handler e 1 segfault) (\<lambda>_. ece391_set_handler e 3 alarm))
              else ret 0)) (\<lambda>_.
       seq (put e ''Hi, what's your name? '') (\<lambda>_.
       seq (ece391_read e 0 buf 1023) (\<lambda>cnt.
       if cnt = -1 then complain e ''Can't read name from keyboard.\<newline>'' 3
       else
         seq (load_dword badbuf (\<lambda>a. poke a 1)) (\<lambda>_.
         seq (poke (buf + cnt) 0) (\<lambda>_.
         seq (put e ''Hello, '') (\<lambda>_.
         seq (ece391_fdputs e 1 buf) (\<lambda>_.
         seq (peek charbuf (\<lambda>c. put e (if c = 1 then ''success\<newline>'' else ''failure\<newline>''))) (\<lambda>_. ret 0)))))))))"

section \<open>ece391pingpong.c\<close>

text \<open>
  The macros are text: \<open>BUFMAX-1\<close> is \<open>79+2-1\<close>, \<open>STARTLOOP\<close> 2, \<open>LOOPMAX\<close> 78. The outer loop never
  ends: \<open>pingpong_main\<close> is the program up to the end of its \<open>n\<close>-th turn.
\<close>

fun seq_all :: "'s prog list \<Rightarrow> 's prog" where
  "seq_all [] = ret 0"
| "seq_all (m # ms) = seq m (\<lambda>_. seq_all ms)"

definition blanks :: "u32 \<Rightarrow> nat \<Rightarrow> nat \<Rightarrow> 'a machine_scheme prog" where
  "blanks buf first limit = seq_all (map (\<lambda>i. poke (buf + of_nat i) 32) [first..<limit])"

definition frame_at :: "env \<Rightarrow> u32 \<Rightarrow> u32 \<Rightarrow> u32 \<Rightarrow> u8 \<Rightarrow> nat \<Rightarrow> 'a kernel_scheme prog" where
  "frame_at e rtc_fd garbage buf c j =
     seq (blanks buf 2 78) (\<lambda>_.
     seq (poke (buf + of_nat j) c) (\<lambda>_.
     seq (ece391_fdputs e 1 buf) (\<lambda>_.
     seq (ece391_read e rtc_fd garbage 4) (\<lambda>_. ret 0))))"

fun pingpong_turns :: "env \<Rightarrow> u32 \<Rightarrow> u32 \<Rightarrow> u32 \<Rightarrow> nat \<Rightarrow> u8 \<Rightarrow> 'a kernel_scheme prog" where
  "pingpong_turns e rtc_fd garbage buf 0 curchar = ret 0"
| "pingpong_turns e rtc_fd garbage buf (Suc n) curchar =
     seq (seq_all (map (frame_at e rtc_fd garbage buf curchar) [2..<78])) (\<lambda>_.
     seq (seq_all (map (frame_at e rtc_fd garbage buf curchar) (rev [2..<78]))) (\<lambda>_.
     pingpong_turns e rtc_fd garbage buf n (if curchar = asc CHR ''Z'' then asc CHR ''A'' else curchar + 1)))"

definition pingpong_main :: "env \<Rightarrow> u32 \<Rightarrow> u32 \<Rightarrow> u32 \<Rightarrow> nat \<Rightarrow> 'a kernel_scheme prog" where
  "pingpong_main e ret_val garbage buf n =
     seq (blanks buf 0 81) (\<lambda>_.
     seq (poke (buf + 80) 0) (\<lambda>_.
     seq (poke (buf + 79) 10) (\<lambda>_.
     seq (poke (buf + 78) (asc CHR ''|'')) (\<lambda>_.
     seq (poke (buf + 1) (asc CHR ''|'')) (\<lambda>_.
     seq (ece391_open e (literal e ''rtc'')) (\<lambda>rtc_fd.
     seq (store_dword ret_val 32) (\<lambda>_.
     seq (ece391_write e rtc_fd ret_val 4) (\<lambda>r.
     seq (store_dword ret_val r) (\<lambda>_.
     pingpong_turns e rtc_fd garbage buf n (asc CHR ''A''))))))))))"

end
