(* ===== verification/Progruns.thy ===== *)
theory Progruns
  imports Programs
begin

text \<open>
  What the programs do on the kernel: \<open>cat\<close> prints its file and \<open>ls\<close> the directory. Their buffers are
  in the program's own page, and what their calls may change there is left open.
\<close>

section \<open>Reading through a descriptor\<close>

abbreviation own_page :: "u32 set" where
  "own_page \<equiv> Collect in_page"

lemma own_page_image: "p < 6 \<Longrightarrow> in_program p a \<Longrightarrow> a \<in> prog_addr p ` own_page"
proof -
  assume h: "p < 6" "in_program p a"
  define va :: u32 where "va = of_nat (unat a - (0x800000 + 0x400000 * p) + 0x8000000)"
  have r: "0x800000 + 0x400000 * p \<le> unat a" "unat a < 0xC00000 + 0x400000 * p" using h(2) by (simp_all add: in_program_def)
  have u: "unat va = unat a - (0x800000 + 0x400000 * p) + 0x8000000"
    unfolding va_def by (rule unat_of_nat_small) (use r h(1) in simp)
  have "in_page va" unfolding in_page_def u using r by linarith
  moreover have "prog_addr p va = a" unfolding prog_addr_def u using r by simp
  ultimately show ?thesis by (metis imageI mem_Collect_eq)
qed

lemma program_effect:
  assumes "ready p i s" "only_program p s t"
  shows "effect p i own_page [] s t" "desc_of t i = desc_of s i"
proof -
  have p: "p < 6" and k: "unat (curr_term s) < 3" using ready_index [OF assms(1)] assms(1) views_less by (auto simp: ready_def console_ok_def)
  have t: "t = s\<lparr>phys := phys t\<rparr>" and ph: "\<forall>a. \<not> in_program p a \<longrightarrow> phys t a = phys s a" using assms(2) by (simp_all add: only_program_def)
  have f: "pcbs t = pcbs s" "terms t = terms s" "curr_term t = curr_term s" by (subst t, simp)+
  show "effect p i own_page [] s t"
  proof (rule effectI)
    show "t = s\<lparr>phys := phys t, io_log := io_log s, iflag := iflag s, terms := (terms s)(unat (curr_term s) := cur s),
        pcbs := (pcbs s)(i := (pcbs s i)\<lparr>filesys_desc_array := filesys_desc_array (pcbs s i)\<rparr>)\<rparr>"
      by (rule trans [OF t]) (simp add: cur_def)
    show "phys t a = phys s a" if "a \<notin> prog_addr p ` own_page" for a using ph own_page_image [OF p] that by blast
    have "phys t (cell (unat (curr_term s)) n) = phys s (cell (unat (curr_term s)) n)" if "n < 1920" for n
    proof -
      have "in_screen (unat (curr_term s)) (cell (unat (curr_term s)) n)" using cell_in_screen [OF k, of n] that by simp
      then show ?thesis using ph program_not_screen [OF _ k] by blast
    qed
    then show "tty_of (unat (curr_term s)) t = fold tty_putc [] (tty_of (unat (curr_term s)) s)" by (simp add: tty_of_def f fun_eq_iff)
  qed (simp add: desc_of_def)
  show "desc_of t i = desc_of s i" by (simp add: desc_of_def f fun_eq_iff)
qed

lemma upd_desc_only: "desc_only i k s (upd_desc i k f s)"
proof -
  have "upd_desc i k f s = (upd_desc i k (\<lambda>_. f (desc_of s i k)) s)\<lparr>io_log := io_log s, iflag := iflag s\<rparr>"
    by (simp add: upd_desc_def upd_pcb_def desc_of_def)
  then show ?thesis unfolding desc_only_def by blast
qed

lemma change_effect:
  assumes "ready p i s" "only_program p s u" "2 \<le> k"
  shows "effect p i own_page [] s (upd_desc i k f u)"
  using effect_trans [OF program_effect(1) [OF assms(1,2)] desc_effect [OF upd_desc_only assms(3)]] by simp

lemma open_file_keep:
  assumes "open_file s p i k inode pos bs" "ready p i s" "effect p i own_page xs s t" "desc_of t i k = desc_of s i k"
  shows "open_file t p i k inode pos bs"
proof -
  note h = assms(1) [unfolded open_file_def at_file_def]
  have u: "unat (of_nat k :: u32) = k" by (rule unat_of_nat_small) (use h in simp)
  have "kernel_same s t" by (rule effect_kernel [OF assms(3,2)]) simp
  then have "holds_file t inode bs" using h same_file by blast
  then show ?thesis using h effect_ready [OF assms(3,2)] assms(4)
    by (simp add: open_file_def at_file_def ready_def desc_busy_def) (simp add: desc_of_def u)
qed

lemma read_file_run:
  assumes "open_file s p i k inode pos bs" "ready p i s" "n < 2 ^ 32" "user_buffer buf n"
  defines "N \<equiv> min n (length bs - pos)"
  obtains t where "ece391_read e (of_nat k) buf (of_nat n) s = Some (Done (of_nat N), t)" "effect p i own_page [] s t"
    "open_file t p i k inode (pos + N) bs" "ld_bytes t buf N = Some (segment pos N bs)"
proof -
  note h = assms(1) [unfolded open_file_def]
  have u: "unat (of_nat k :: u32) = k" by (rule unat_of_nat_small) (use h in simp)
  have ub: "user_buffer buf (min n (length bs - pos))" by (rule user_buffer_mono [OF assms(4)]) simp
  obtain t where t: "filesystem_read (of_nat k) buf (of_nat n) s = Some (of_nat N, t)" "at_file t p i (of_nat k) inode (pos + N) bs"
    "ld_bytes t buf N = Some (segment pos N bs)"
    "filesys_desc_array (pcbs t i) (unat (of_nat k :: u32)) = (filesys_desc_array (pcbs s i) (unat (of_nat k :: u32)))\<lparr>file_pos := of_nat (pos + N)\<rparr>"
    "\<exists>v x. only_program p s v \<and> t = upd_desc i (unat (of_nat k :: u32)) (\<lambda>d. d\<lparr>file_pos := file_pos d + x\<rparr>) v"
    unfolding N_def by (rule filesystem_read_change [of s p i "of_nat k" inode pos bs n buf]) (use h assms(3) ub in auto)
  have f: "fetch_cur_pcb_ptr s = Some i" using assms(2) by (simp add: ready_def)
  have "ece391_read e (of_nat k) buf (of_nat n) s = Some (Done (of_nat N), t)"
    using sys_read_file [OF f, of k "devices e" "patience e"] h t(1) by (simp add: stubs)
  moreover have "effect p i own_page [] s t" using t(5) change_effect [OF assms(2)] h unfolding u by blast
  moreover have "open_file t p i k inode (pos + N) bs" using h t(2,4) by (simp add: open_file_def desc_busy_def desc_of_def u)
  ultimately show ?thesis using t(3) by (rule that)
qed

section \<open>cat\<close>

lemma cat_loop_run:
  assumes "open_file s p i k inode pos bs" "ready p i s" "user_buffer buf 1024" "can_show s (drop pos bs)"
  shows "\<exists>t. cat_loop e (of_nat k) buf s = Some (Done 0, t) \<and> effect p i own_page (drop pos bs) s t"
  using assms
proof (induction "length bs - pos" arbitrary: s pos rule: less_induct)
  case less
  define N where "N = min 1024 (length bs - pos)"
  obtain t where t: "ece391_read e (of_nat k) buf (of_nat 1024) s = Some (Done (of_nat N), t)" "effect p i own_page [] s t"
    "open_file t p i k inode (pos + N) bs" "ld_bytes t buf N = Some (segment pos N bs)"
    unfolding N_def by (rule read_file_run [OF less.prems(1,2) _ less.prems(3)]) simp
  have un: "unat (of_nat N :: u32) = N" by (rule unat_of_nat_small) (simp add: N_def)
  have rt: "ready p i t" by (rule effect_ready [OF t(2) less.prems(2)])
  have pl: "pos \<le> length bs" using less.prems(1) by (simp add: open_file_def at_file_def)
  show ?case
  proof (cases "N = 0")
    case True
    then have "pos = length bs" using pl by (simp add: N_def)
    then show ?thesis using t(1,2) True by (subst cat_loop.simps) simp
  next
    case False
    then have nz: "(of_nat N :: u32) \<noteq> 0" "(of_nat N :: u32) \<noteq> -1"
      using un by (auto simp: N_def word_unat_eq_iff unsigned_minus_1_eq_mask mask_eq_exp_minus_1)
    have seg: "segment pos N bs = take N (drop pos bs)" "length (segment pos N bs) = N" by (simp_all add: segment_def N_def)
    have split: "drop pos bs = segment pos N bs @ drop (pos + N) bs" unfolding seg(1) by (simp add: add.commute flip: drop_drop)
    have room: "can_show t (segment pos N bs @ drop (pos + N) bs)"
      using effect_room [OF t(2) less.prems(2)] less.prems(4) split by simp
    have ub: "user_buffer buf N" by (rule user_buffer_mono [OF less.prems(3)]) (simp add: N_def)
    obtain v where v: "ece391_write e 1 buf (of_nat N) t = Some (Done 0, v)" "effect p i own_page (segment pos N bs) t v" "desc_of v i = desc_of t i"
      by (rule write_shows [OF rt, of buf "segment pos N bs", where e = e and W = own_page]) (use seg(2) ub t(4) can_show_first [OF room] in simp_all)
    have ov: "open_file v p i k inode (pos + N) bs" by (rule open_file_keep [OF t(3) rt v(2)]) (simp add: v(3))
    have "length bs - (pos + N) < length bs - pos" using False pl by (simp add: N_def)
    then obtain w where w: "cat_loop e (of_nat k) buf v = Some (Done 0, w)" "effect p i own_page (drop (pos + N) bs) v w"
      using less.hyps [OF _ ov effect_ready [OF v(2) rt] less.prems(3) effect_room [OF v(2) rt room]] by blast
    have "effect p i own_page (drop pos bs) s w"
      using effect_trans [OF t(2) effect_trans [OF v(2) w(2)]] split by simp
    moreover have "cat_loop e (of_nat k) buf s = Some (Done 0, w)"
      using t(1) v(1) w(1) nz by (subst cat_loop.simps) simp
    ultimately show ?thesis by blast
  qed
qed

lemma cat_main_run:
  assumes "ready p i s" "curr_pid s < 6" "args (pcbs s (unat (curr_pid s))) = name @ replicate (129 - length name) 0" "0 \<notin> set name"
    and "length name \<le> 32" "listed s n name d" "dentry_filetype d = 2" "dentry_inode_num d \<noteq> -1" "holds_file s (dentry_inode_num d) bs"
    and "2 \<le> k" "k < 8" "\<not> desc_busy i s k" "\<forall>j. 2 \<le> j \<longrightarrow> j < k \<longrightarrow> desc_busy i s j" "user_buffer buf 1024" "can_show s bs"
  shows "\<exists>t. cat_main e buf s = Some (Done 0, t) \<and> effect p i own_page bs s t"
proof -
  have r: "runs s p" using assms(1) by (simp add: ready_def)
  obtain as t where t: "getargs buf (of_nat 1024) s = Some (0, t)" "ld_bytes t buf 1024 = Some as"
    "take 129 as = name @ replicate (min 1024 129 - length name) 0" "only_program p s t"
    using getargs_copies [OF r assms(2,3,4), of 1024 buf] assms(5,14) by auto
  note et = program_effect [OF assms(1) t(4)]
  have rt: "ready p i t" "runs t p" using effect_ready [OF et(1) assms(1)] by (simp_all add: ready_def)
  have kt: "kernel_same s t" by (rule effect_kernel [OF et(1) assms(1)]) simp
  have at: "at t buf (of_nat j) = Some ((name @ replicate (129 - length name) 0) ! j)" if "j < 129" for j
  proof -
    have "as ! j = take 129 as ! j" using that by simp
    then show ?thesis using t(2) [unfolded ld_bytes_nth] that unfolding t(3) at_def by simp
  qed
  have nz: "name ! j \<noteq> 0" if "j < length name" for j using that assms(4) nth_mem by metis
  have c: "cstr_n (at t buf) 32 name" unfolding cstr_n_def using at nz assms(5) by (auto simp: nth_append)
  obtain u where u: "ece391_open e buf t = Some (Done (of_nat k), u)" "effect p i own_page [] t u"
    "desc_of u i k = set_desc (dentry_filetype d) (dentry_inode_num d) (desc_of t i k)" "desc_busy i u k"
    by (rule open_listed [OF rt(1) c same_listed [OF kt assms(6)] assms(10,11), where e = e and W = own_page])
      (use assms(12,13) et(2) in \<open>auto simp: desc_busy_def\<close>)
  have un: "unat (of_nat k :: u32) = k" by (rule unat_of_nat_small) (use assms(11) in simp)
  then have nk: "(of_nat k :: u32) \<noteq> -1" "(of_nat k :: u32) < 8"
    using assms(11) by (auto simp: word_unat_eq_iff word_less_nat_alt unsigned_minus_1_eq_mask mask_eq_exp_minus_1)
  have ru: "ready p i u" by (rule effect_ready [OF u(2) rt(1)])
  have "holds_file u (dentry_inode_num d) bs"
    using same_file [OF effect_kernel [OF u(2) rt(1)]] same_file [OF kt assms(9)] by simp
  then have ou: "open_file u p i k (dentry_inode_num d) 0 bs"
    using ru assms(7,8,10,11) u(3,4) nk un by (simp add: open_file_def at_file_def ready_def) (simp add: desc_of_def set_desc_def)
  have eu: "effect p i own_page [] s u" using effect_trans [OF et(1) u(2)] by simp
  have "can_show u (drop 0 bs)" using effect_room [OF eu assms(1), of bs] assms(15) by simp
  from cat_loop_run [OF ou ru assms(14) this] obtain v
    where v: "cat_loop e (of_nat k) buf u = Some (Done 0, v)" "effect p i own_page bs u v" by auto
  have "cat_main e buf s = Some (Done 0, v)"
    using t(1) u(1) v(1) nk(1) by (simp add: cat_main_def stubs)
  then show ?thesis using effect_trans [OF eu v(2)] by auto
qed

section \<open>ls\<close>

lemma poke_run:
  assumes "ready p i s" "in_page a"
  obtains t where "poke a b s = Some (Done 0, t)" "only_program p s t" "ld t a = Some b" "\<And>c. c \<noteq> a \<Longrightarrow> in_page c \<Longrightarrow> ld t c = ld s c"
proof -
  have r: "runs s p" using assms(1) by (simp add: ready_def)
  define t where "t = s\<lparr>phys := (phys s)(prog_addr p a := b)\<rparr>"
  have st: "st a b s = Some t" "only_program p s t"
    using user_st [OF r, of a b] assms(2) by (simp_all add: t_def in_page_def)
  have "poke a b s = Some (Done 0, t)" using user_store_page [OF r assms(2)] by (simp add: poke_def t_def)
  moreover have "ld t c = ld s c" if "c \<noteq> a" "in_page c" for c
  proof (rule ld_st_other [OF st(1)])
    have "p < 6" using r by (simp add: runs_def)
    then show "translate s c \<noteq> translate s a"
      using that assms(2) prog_addr_inj [of p c a] translate_user [OF r, of c] translate_user [OF r, of a] by (auto simp: in_page_def)
  qed
  ultimately show ?thesis using st(2) ld_st_same [OF st(1)] by (intro that [of t])
qed

definition open_dir :: "'a kernel_scheme \<Rightarrow> nat \<Rightarrow> nat \<Rightarrow> nat \<Rightarrow> nat \<Rightarrow> nat \<Rightarrow> bool" where
  "open_dir s p i k n pos \<longleftrightarrow> at_directory s p i (of_nat k) n pos \<and> 2 \<le> k \<and> k < 8 \<and> desc_busy i s k
     \<and> file_ops_table_ptr (desc_of s i k) = File_ops"

lemma open_dir_keep:
  assumes "open_dir s p i k n pos" "ready p i s" "effect p i own_page xs s t" "desc_of t i k = desc_of s i k"
  shows "open_dir t p i k n pos" "\<forall>j\<le>n. entry_name t j = entry_name s j"
proof -
  note h = assms(1) [unfolded open_dir_def at_directory_def]
  have u: "unat (of_nat k :: u32) = k" by (rule unat_of_nat_small) (use h in simp)
  have k: "kernel_same s t" by (rule effect_kernel [OF assms(3,2)]) simp
  then have "directory_ok t n" and e: "\<forall>j\<le>n. entry_name t j = entry_name s j" using same_directory [OF k] h by blast+
  then show "open_dir t p i k n pos" using h effect_ready [OF assms(3,2)] assms(4)
    by (simp add: open_dir_def at_directory_def ready_def desc_busy_def) (simp add: desc_of_def u)
  show "\<forall>j\<le>n. entry_name t j = entry_name s j" by (rule e)
qed

text \<open>What \<open>ls\<close> prints from entry \<open>pos\<close> on.\<close>

definition listing :: "'a filesys_scheme \<Rightarrow> nat \<Rightarrow> nat \<Rightarrow> u8 list" where
  "listing s n pos = concat (map (\<lambda>j. entry_name s j @ [10]) [pos..<n])"

lemma listing_step: "pos < n \<Longrightarrow> listing s n pos = (entry_name s pos @ [10]) @ listing s n (Suc pos)"
  by (simp add: listing_def upt_conv_Cons)

lemma listing_same: "\<forall>j\<le>n. entry_name t j = entry_name s j \<Longrightarrow> listing t n pos = listing s n pos"
  by (auto simp: listing_def intro!: arg_cong [where f = concat])

lemma read_dir_run:
  assumes "open_dir s p i k n pos" "ready p i s" "pos < n" "length (entry_name s pos) < 32" "user_buffer buf 32"
  obtains t where "ece391_read e (of_nat k) buf m s = Some (Done (of_nat (length (entry_name s pos))), t)" "effect p i own_page [] s t"
    "open_dir t p i k n (Suc pos)" "ld_bytes t buf (length (entry_name s pos)) = Some (entry_name s pos)" "\<forall>j\<le>n. entry_name t j = entry_name s j"
proof -
  note h = assms(1) [unfolded open_dir_def]
  have u: "unat (of_nat k :: u32) = k" by (rule unat_of_nat_small) (use h in simp)
  obtain t where t: "filesystem_read (of_nat k) buf m s = Some (of_nat (length (entry_name s pos)), t)"
    "at_directory t p i (of_nat k) n (pos + 1)" "ld_bytes t buf (length (entry_name s pos)) = Some (entry_name s pos)"
    "\<forall>j\<le>n. entry_name t j = entry_name s j" "\<exists>v x. only_program p s v \<and> t = upd_desc i (unat (of_nat k :: u32)) (\<lambda>d. d\<lparr>file_pos := file_pos d + x\<rparr>) v"
    by (rule name_read_change [of s p i "of_nat k" n pos buf m]) (use h assms(3-5) in auto)
  have f: "fetch_cur_pcb_ptr s = Some i" using assms(2) by (simp add: ready_def)
  obtain v x where v: "only_program p s v" "t = upd_desc i k (\<lambda>d. d\<lparr>file_pos := file_pos d + x\<rparr>) v" using t(5) unfolding u by blast
  have "desc_of t i k = (desc_of s i k)\<lparr>file_pos := file_pos (desc_of s i k) + x\<rparr>"
    using program_effect(2) [OF assms(2) v(1)] by (simp add: v(2) desc_of_def upd_desc_def upd_pcb_def fun_eq_iff)
  then have "desc_busy i t k" "file_ops_table_ptr (desc_of t i k) = File_ops" using h by (simp_all add: desc_busy_def)
  moreover have "ece391_read e (of_nat k) buf m s = Some (Done (of_nat (length (entry_name s pos))), t)"
    using sys_read_file [OF f, of k "devices e" "patience e"] h t(1) by (simp add: stubs)
  moreover have "effect p i own_page [] s t" using change_effect [OF assms(2) v(1)] h by (simp add: v(2))
  ultimately show ?thesis using t h by (intro that [of t]) (simp_all add: open_dir_def)
qed

lemma read_dir_end:
  assumes "open_dir s p i k n n" "ready p i s"
  obtains t where "ece391_read e (of_nat k) buf m s = Some (Done 0, t)" "effect p i own_page [] s t"
proof -
  note h = assms(1) [unfolded open_dir_def at_directory_def]
  have u: "unat (of_nat k :: u32) = k" by (rule unat_of_nat_small) (use h in simp)
  have f: "fetch_cur_pcb_ptr s = Some i" using assms(2) by (simp add: ready_def)
  have "filesystem_read (of_nat k) buf m s = Some (0, upd_desc i k (\<lambda>d. d\<lparr>file_pos := 0\<rparr>) s)"
    using h f by (simp add: filesystem_read_def desc_def directory_ok_def u)
  then have "ece391_read e (of_nat k) buf m s = Some (Done 0, upd_desc i k (\<lambda>d. d\<lparr>file_pos := 0\<rparr>) s)"
    using sys_read_file [OF f, of k "devices e" "patience e"] h by (simp add: stubs)
  then show ?thesis using desc_effect [OF upd_desc_only] h by (intro that) auto
qed

lemma ls_loop_run:
  assumes "open_dir s p i k n pos" "ready p i s" "user_buffer buf 33" "can_show s (listing s n pos)"
    and "\<forall>j<n. entry_name s j \<noteq> [] \<and> length (entry_name s j) < 32"
  shows "\<exists>t. ls_loop e (of_nat k) buf s = Some (Done 0, t) \<and> effect p i own_page (listing s n pos) s t"
  using assms
proof (induction "n - pos" arbitrary: s pos)
  case 0
  then have e: "pos = n" by (simp add: open_dir_def at_directory_def)
  obtain t where "ece391_read e (of_nat k) buf 32 s = Some (Done 0, t)" "effect p i own_page [] s t"
    by (rule read_dir_end [OF 0(2) [unfolded e] 0(3)])
  then show ?case by (subst ls_loop.simps) (simp add: e listing_def)
next
  case (Suc x)
  then have pn: "pos < n" and x: "x = n - Suc pos" by simp_all
  define nm where "nm = entry_name s pos"
  have len: "nm \<noteq> []" "length nm < 32" using Suc.prems(5) pn by (simp_all add: nm_def)
  have ub: "user_buffer buf m" if "m \<le> 33" for m using user_buffer_mono [OF Suc.prems(3) that] .
  obtain t where t: "ece391_read e (of_nat k) buf 32 s = Some (Done (of_nat (length nm)), t)" "effect p i own_page [] s t"
    "open_dir t p i k n (Suc pos)" "ld_bytes t buf (length nm) = Some nm" "\<forall>j\<le>n. entry_name t j = entry_name s j"
    unfolding nm_def by (rule read_dir_run [OF Suc.prems(1,2) pn len(2) [unfolded nm_def] ub]) simp
  have rt: "ready p i t" by (rule effect_ready [OF t(2) Suc.prems(2)])
  have un: "unat (of_nat (length nm) :: u32) = length nm" by (rule unat_of_nat_small) (use len in simp)
  have nz: "(of_nat (length nm) :: u32) \<noteq> 0" "(of_nat (length nm) :: u32) \<noteq> -1"
    using un len by (auto simp: word_unat_eq_iff unsigned_minus_1_eq_mask mask_eq_exp_minus_1)
  have pg: "in_page (buf + of_nat j)" if "j < 33" for j using user_buffer_page [OF Suc.prems(3) that] .
  obtain v where v: "poke (buf + of_nat (length nm)) 10 t = Some (Done 0, v)" "only_program p t v" "ld v (buf + of_nat (length nm)) = Some 10"
    "\<And>c. c \<noteq> buf + of_nat (length nm) \<Longrightarrow> in_page c \<Longrightarrow> ld v c = ld t c"
    by (rule poke_run [OF rt pg [of "length nm"], of 10]) (use len in \<open>simp, blast\<close>)
  have ne: "buf + of_nat j \<noteq> buf + of_nat (length nm)" if "j < length nm" for j
    using word_add_of_nat_inj [of j "length nm" buf] that len by auto
  have line: "ld_bytes v buf (length (nm @ [10])) = Some (nm @ [10])"
    unfolding ld_bytes_nth using v(3,4) t(4) [unfolded ld_bytes_nth] ne pg len by (auto simp: nth_append less_Suc_eq)
  note ev = program_effect [OF rt v(2)]
  have sv: "effect p i own_page [] s v" using effect_trans [OF t(2) ev(1)] by simp
  have rv: "ready p i v" by (rule effect_ready [OF ev(1) rt])
  have ov: "open_dir v p i k n (Suc pos)" "\<forall>j\<le>n. entry_name v j = entry_name s j"
    using open_dir_keep [OF t(3) rt ev(1)] ev(2) t(5) by simp_all
  have room: "can_show v ((nm @ [10]) @ listing s n (Suc pos))"
    using effect_room [OF sv Suc.prems(2)] Suc.prems(4) listing_step [OF pn, of s] by (simp add: nm_def)
  obtain w where w: "ece391_write e 1 buf (of_nat (length (nm @ [10]))) v = Some (Done 0, w)" "effect p i own_page (nm @ [10]) v w" "desc_of w i = desc_of v i"
    by (rule write_shows [OF rv _ line can_show_first [OF room]]) (use ub len in simp_all)
  have ow: "open_dir w p i k n (Suc pos)" "\<forall>j\<le>n. entry_name w j = entry_name s j"
    using open_dir_keep [OF ov(1) rv w(2)] w(3) ov(2) by simp_all
  have rw: "ready p i w" by (rule effect_ready [OF w(2) rv])
  have "can_show w (listing s n (Suc pos))" by (rule effect_room [OF w(2) rv room])
  then obtain z where z: "ls_loop e (of_nat k) buf w = Some (Done 0, z)" "effect p i own_page (listing s n (Suc pos)) w z"
    using Suc.hyps(1) [OF x ow(1) rw Suc.prems(3)] listing_same [OF ow(2)] ow(2) Suc.prems(5) by auto
  have "effect p i own_page (listing s n pos) s z"
    using effect_trans [OF sv effect_trans [OF w(2) z(2)]] listing_step [OF pn, of s] by (simp add: nm_def)
  moreover have "ls_loop e (of_nat k) buf s = Some (Done 0, z)"
    using t(1) v(1) w(1) z(1) nz by (subst ls_loop.simps) (simp add: add.commute)
  ultimately show ?case by blast
qed

lemma ls_main_run:
  assumes "ready p i s" "holds_str s (literal e ''.'') (bytes ''.'')" "listed s n (bytes ''.'') d" "dentry_filetype d = 1"
    and "2 \<le> k" "k < 8" "\<not> desc_busy i s k" "\<forall>j. 2 \<le> j \<longrightarrow> j < k \<longrightarrow> desc_busy i s j" "user_buffer buf 33" "can_show s (listing s n 0)"
    and "\<forall>j<n. entry_name s j \<noteq> [] \<and> length (entry_name s j) < 32"
  shows "\<exists>t. ls_main e buf s = Some (Done 0, t) \<and> effect p i own_page (listing s n 0) s t"
proof -
  have r: "runs s p" using assms(1) by (simp add: ready_def)
  have c: "cstr_n (at s (literal e ''.'')) 32 (bytes ''.'')" by (rule str_cstr_n [OF r assms(2)]) (simp add: bytes_def)
  obtain u where u: "ece391_open e (literal e ''.'') s = Some (Done (of_nat k), u)" "effect p i own_page [] s u"
    "desc_of u i k = set_desc (dentry_filetype d) (dentry_inode_num d) (desc_of s i k)" "desc_busy i u k"
    by (rule open_listed [OF assms(1) c assms(3,5-8), where e = e and W = own_page])
  have un: "unat (of_nat k :: u32) = k" by (rule unat_of_nat_small) (use assms(6) in simp)
  then have nk: "(of_nat k :: u32) \<noteq> -1" "(of_nat k :: u32) < 8"
    using assms(6) by (auto simp: word_unat_eq_iff word_less_nat_alt unsigned_minus_1_eq_mask mask_eq_exp_minus_1)
  have ru: "ready p i u" by (rule effect_ready [OF u(2) assms(1)])
  have k: "kernel_same s u" by (rule effect_kernel [OF u(2) assms(1)]) simp
  have dir: "directory_ok u n" and e: "\<forall>j\<le>n. entry_name u j = entry_name s j"
    using same_directory [OF k] assms(3) by (auto simp: listed_def)
  have d: "open_dir u p i k n 0"
    using ru dir assms(4-6) u(3,4) nk un by (simp add: open_dir_def at_directory_def ready_def) (simp add: desc_of_def set_desc_def)
  have room: "can_show u (listing u n 0)" using effect_room [OF u(2) assms(1)] assms(10) listing_same [OF e] by simp
  have nm: "\<forall>j<n. entry_name u j \<noteq> [] \<and> length (entry_name u j) < 32" using e assms(11) by simp
  obtain v where v: "ls_loop e (of_nat k) buf u = Some (Done 0, v)" "effect p i own_page (listing s n 0) u v"
    using ls_loop_run [OF d ru assms(9) room nm] unfolding listing_same [OF e] by blast
  have "effect p i own_page (listing s n 0) s v" using effect_trans [OF u(2) v(2)] by simp
  moreover have "ls_main e buf s = Some (Done 0, v)" using u(1) v(1) nk(1) by (simp add: ls_main_def)
  ultimately show ?thesis by blast
qed

lemma listing_narrow: "\<forall>j<n. length (entry_name s j) < 32 \<Longrightarrow> narrow 0 (listing s n 0)"
proof -
  assume "\<forall>j<n. length (entry_name s j) < 32"
  then have "\<forall>l\<in>set (map (entry_name s) [0..<n]). length l \<le> 79" by fastforce
  then show ?thesis using narrow_lines [of "map (entry_name s) [0..<n]"] by (simp add: listing_def comp_def)
qed

end
