(* ===== verification/Usernum.thy ===== *)
theory Usernum
  imports Progruns
begin

text \<open>
  \<open>ece391_itoa\<close> in the program's memory: it computes what \<open>itoa\<close> of the kernel computes on a list, and the
  counter that is built on it prints the numbers it should.
\<close>

section \<open>Arrays in the program's page\<close>

definition array_at :: "'a machine_scheme \<Rightarrow> u32 \<Rightarrow> u8 list \<Rightarrow> bool" where
  "array_at s a xs \<longleftrightarrow> user_buffer a (length xs) \<and> ld_bytes s a (length xs) = Some xs"

text \<open>\<open>within p a n s t\<close>: only the \<open>n\<close> bytes of the program at \<open>a\<close> may have changed.\<close>

definition within :: "nat \<Rightarrow> u32 \<Rightarrow> nat \<Rightarrow> 'a machine_scheme \<Rightarrow> 'a machine_scheme \<Rightarrow> bool" where
  "within p a n s t \<longleftrightarrow> only_program p s t \<and> (\<forall>c. in_page c \<longrightarrow> c \<notin> span a n \<longrightarrow> ld t c = ld s c)"

lemma within_refl [simp]: "within p a n s s"
  by (simp add: within_def)

lemma within_trans: "within p a n s t \<Longrightarrow> within p a n t u \<Longrightarrow> within p a n s u"
  unfolding within_def using only_program_trans by fastforce

lemma within_runs: "within p a n s t \<Longrightarrow> runs t p = runs s p"
  using only_program_runs unfolding within_def by blast

lemma array_get: "runs s p \<Longrightarrow> array_at s a xs \<Longrightarrow> buf_get xs j = Some b \<Longrightarrow> user_load s (a + of_nat j) = Some b"
  using user_load_bytes [of s p a "length xs" j xs] by (auto simp: array_at_def buf_get_def split: if_splits)

lemma array_set:
  assumes "runs s p" "array_at s a xs" "buf_set xs j b = Some ys"
  obtains t where "user_store (a + of_nat j) b s = Some t" "within p a (length xs) s t" "array_at t a ys" "length ys = length xs"
proof -
  have j: "j < length xs" "ys = xs[j := b]" using assms(3) by (auto simp: buf_set_def split: if_splits)
  have ub: "user_buffer a (length xs)" and l: "ld_bytes s a (length xs) = Some xs" using assms(2) by (simp_all add: array_at_def)
  have pg: "in_page (a + of_nat m)" if "m < length xs" for m using user_buffer_page [OF ub that] .
  define t where "t = s\<lparr>phys := (phys s)(prog_addr p (a + of_nat j) := b)\<rparr>"
  have st: "user_store (a + of_nat j) b s = Some t" using user_store_page [OF assms(1) pg [OF j(1)]] by (simp add: t_def)
  have st': "st (a + of_nat j) b s = Some t" "only_program p s t"
    using user_st [OF assms(1), of "a + of_nat j" b] pg [OF j(1)] by (simp_all add: t_def in_page_def)
  have other: "ld t c = ld s c" if "in_page c" "c \<noteq> a + of_nat j" for c
  proof (rule ld_st_other [OF st'(1)])
    have "p < 6" using assms(1) by (simp add: runs_def)
    then show "translate s c \<noteq> translate s (a + of_nat j)"
      using that pg [OF j(1)] prog_addr_inj [of p c "a + of_nat j"] translate_user [OF assms(1), of c]
        translate_user [OF assms(1), of "a + of_nat j"] by (auto simp: in_page_def)
  qed
  have ne: "a + of_nat m \<noteq> a + of_nat j" if "m < length xs" "m \<noteq> j" for m
    using word_add_of_nat_inj [of m j a] that j(1) ub by (auto simp: user_buffer_def)
  have "within p a (length xs) s t" unfolding within_def using st'(2) other spanI [OF j(1), of a] by blast
  moreover have "array_at t a ys"
    unfolding array_at_def ld_bytes_nth using ub ld_st_same [OF st'(1)] other [OF pg] ne l [unfolded ld_bytes_nth] j
    by (auto simp: nth_list_update)
  ultimately show ?thesis using st j(2) by (intro that [of t]) simp_all
qed

section \<open>ece391_itoa\<close>

lemma itoa_digits_loop:
  assumes "runs s p" "array_at s a xs" "itoa_loop v r xs n = Some (ys, m)"
  shows "\<exists>t. itoa_digits v r (a + of_nat n) s = Some (a + of_nat m, t) \<and> within p a (length xs) s t \<and> array_at t a ys \<and> length ys = length xs"
  using assms
proof (induction v r xs n arbitrary: s rule: itoa_loop.induct)
  case (1 v r xs n)
  show ?case
  proof (cases "v > 0")
    case False
    then show ?thesis using 1(3,4) by (subst itoa_digits.simps) (auto simp: itoa_loop.simps [of v])
  next
    case True
    from 1(4) True have nr: "r \<noteq> 0" "n < length xs" by (auto simp: itoa_loop.simps [of v] split: if_splits)
    from 1(4) True nr obtain d b where d: "buf_get lookup_digits (unat (v mod r)) = Some d" "buf_set xs n d = Some b"
      "itoa_loop (v div r) r b (n + 1) = Some (ys, m)" by (auto simp: itoa_loop.simps [of v] bind_eq_Some_conv)
    obtain t where t: "user_store (a + of_nat n) d s = Some t" "within p a (length xs) s t" "array_at t a b" "length b = length xs"
      by (rule array_set [OF 1(2,3) d(2)])
    have rt: "runs t p" using within_runs [OF t(2)] 1(2) by simp
    obtain u where u: "itoa_digits (v div r) r (a + of_nat (n + 1)) t = Some (a + of_nat m, u)" "within p a (length b) t u" "array_at u a ys"
      "length ys = length b"
      using 1(1) [OF True nr d(1,2) rt t(3) d(3)] by blast
    have "lit lookup_digits (v mod r) = Some d" using d(1) by (simp add: lit_def buf_get_def)
    then have "itoa_digits v r (a + of_nat n) s = Some (a + of_nat m, u)"
      using True nr(1) t(1) u(1) by (subst itoa_digits.simps) (simp add: ac_simps)
    then show ?thesis using u t(2,4) within_trans by metis
  qed
qed

lemma strrev_swap_loop:
  assumes "runs s p" "array_at s a xs" "strrev_loop 0 b e xs = Some ys" "0 \<le> b"
  shows "\<exists>t. strrev_swap a b e s = Some t \<and> within p a (length xs) s t \<and> array_at t a ys \<and> length ys = length xs"
  using assms
proof (induction "0 :: nat" b e xs arbitrary: s rule: strrev_loop.induct)
  case (1 b e xs)
  show ?case
  proof (cases "b < e")
    case False
    then show ?thesis using 1(3,4) by (subst strrev_swap.simps) (auto simp: strrev_loop.simps [of _ b])
  next
    case True
    from 1(4) True obtain x y us vs where x: "buf_get xs (nat e) = Some x" "buf_get xs (nat b) = Some y" "buf_set xs (nat e) y = Some us"
      "buf_set us (nat b) x = Some vs" "strrev_loop 0 (b + 1) (e - 1) vs = Some ys"
      by (auto simp: strrev_loop.simps [of _ b] bind_eq_Some_conv)
    have ad: "of_int b = (of_nat (nat b) :: u32)" "of_int e = (of_nat (nat e) :: u32)" using 1(5) True by simp_all
    obtain t where t: "user_store (a + of_nat (nat e)) y s = Some t" "within p a (length xs) s t" "array_at t a us" "length us = length xs"
      by (rule array_set [OF 1(2,3) x(3)])
    have rt: "runs t p" using within_runs [OF t(2)] 1(2) by simp
    obtain u where u: "user_store (a + of_nat (nat b)) x t = Some u" "within p a (length us) t u" "array_at u a vs" "length vs = length us"
      by (rule array_set [OF rt t(3) x(4)])
    have ru: "runs u p" using within_runs [OF u(2)] rt by simp
    obtain w where w: "strrev_swap a (b + 1) (e - 1) u = Some w" "within p a (length vs) u w" "array_at w a ys" "length ys = length vs"
      using 1(1) [OF True, of x y us vs, OF _ _ _ _ ru u(3) x(5)] x(1-4) 1(5) by auto
    have "strrev_swap a b e s = Some w"
      using True array_get [OF 1(2,3) x(1)] array_get [OF 1(2,3) x(2)] t(1) u(1) w(1) by (subst strrev_swap.simps) (simp add: ad)
    then show ?thesis using w t(2,4) u(2,4) within_trans by metis
  qed
qed

lemma array_str:
  assumes "array_at s a (xs @ 0 # ys)" "0 \<notin> set xs"
  shows "holds_str s a xs"
proof -
  have ub: "user_buffer a (length xs + 1)" using assms(1) by (auto simp: array_at_def elim!: user_buffer_mono)
  have "ld_bytes s a (length (xs @ 0 # ys)) = Some (xs @ 0 # ys)" using assms(1) by (simp add: array_at_def del: length_append)
  then have "ld_bytes s a (length xs + 1) = Some (xs @ [0])" unfolding ld_bytes_nth by (auto simp: nth_append)
  then show ?thesis using ub assms(2) by (simp add: holds_str_def)
qed

theorem ece391_itoa_decimal:
  assumes "runs s p" "array_at s a xs" "2 \<le> unat r" "unat r \<le> 36" "length (decimal r v) < length xs"
  shows "\<exists>t. ece391_itoa v a r s = Some t \<and> within p a (length xs) s t
    \<and> array_at t a (decimal r v @ 0 # drop (length (decimal r v) + 1) xs)"
proof (cases "v = 0")
  case True
  then have d: "decimal r v = [48]" by (simp add: decimal_def)
  have l: "1 < length xs" using assms(5) d by simp
  then have "buf_set xs 0 48 = Some (xs[0 := 48])" "buf_set (xs[0 := 48]) 1 0 = Some (xs[0 := 48, 1 := 0])"
    by (auto simp: buf_set_def)
  obtain t where t: "user_store (a + of_nat 0) 48 s = Some t" "within p a (length xs) s t" "array_at t a (xs[0 := 48])"
    by (rule array_set [OF assms(1,2) \<open>buf_set xs 0 48 = _\<close>])
  have rt: "runs t p" using within_runs [OF t(2)] assms(1) by simp
  obtain u where u: "user_store (a + of_nat 1) 0 t = Some u" "within p a (length (xs[0 := 48])) t u" "array_at u a (xs[0 := 48, 1 := 0])"
    by (rule array_set [OF rt t(3) \<open>buf_set (xs[0 := 48]) 1 0 = _\<close>])
  have "xs[0 := 48, 1 := 0] = [48] @ 0 # drop 2 xs" 
  proof -
    obtain x y zs where "xs = x # y # zs" using l by (cases xs; cases "tl xs") auto
    then show ?thesis by simp
  qed
  then show ?thesis using True t u within_trans [OF t(2)] unfolding d by (auto simp: ece391_itoa_def asc_def numeral_2_eq_2)
next
  case False
  define ds where "ds = digits (unat r) (unat v)"
  have d: "decimal r v = ds" using False by (simp add: decimal_def ds_def)
  have room: "length ds < length xs" using assms(5) d by simp
  have nz: "0 \<notin> set ds" unfolding ds_def by (rule digits_nonzero [OF assms(4)])
  have loop: "itoa_loop v r xs 0 = Some (rev ds @ drop (length ds) xs, length ds)"
    using itoa_loop_digits [OF assms(3,4), of "[]" v xs] room by (simp add: ds_def)
  obtain t where t: "itoa_digits v r a s = Some (a + of_nat (length ds), t)" "within p a (length xs) s t"
    "array_at t a (rev ds @ drop (length ds) xs)"
    using itoa_digits_loop [OF assms(1,2) loop] by auto
  have rt: "runs t p" using within_runs [OF t(2)] assms(1) by simp
  have l1: "length (rev ds @ drop (length ds) xs) = length xs" using room by simp
  have e: "drop (length ds) xs = xs ! length ds # drop (length ds + 1) xs" using room Cons_nth_drop_Suc by fastforce
  have bs: "buf_set (rev ds @ drop (length ds) xs) (length ds) 0 = Some (rev ds @ 0 # drop (length ds + 1) xs)"
    unfolding e using room by (simp add: buf_set_def list_update_append)
  obtain u where u: "user_store (a + of_nat (length ds)) 0 t = Some u" "within p a (length xs) t u"
    "array_at u a (rev ds @ 0 # drop (length ds + 1) xs)"
    using array_set [OF rt t(3) bs] unfolding l1 by metis
  have ru: "runs u p" using within_runs [OF u(2)] rt by simp
  have hs: "holds_str u a (rev ds)" by (rule array_str [OF u(3)]) (use nz in simp)
  have len: "ece391_strlen (user_load u) a = Some (of_nat (length ds))" using ece391_strlen_str [OF ru hs] by simp
  have dl: "length ds < 2 ^ 31" "ds \<noteq> []"
  proof -
    have "user_buffer a (length xs)" using assms(2) by (simp add: array_at_def)
    then show "length ds < 2 ^ 31" using room by (simp add: user_buffer_def)
    have "unat v \<noteq> 0" using False by (simp add: unat_eq_zero)
    then show "ds \<noteq> []" unfolding ds_def using assms(3) by (subst digits.simps) simp
  qed
  then obtain m where m: "length ds = Suc m" by (cases ds) auto
  have "of_nat (length ds) - (1 :: u32) = of_nat m" by (simp add: m)
  moreover have "unat (of_nat m :: u32) = m" by (rule unat_of_nat_small) (use dl m in simp)
  ultimately have si: "sint (of_nat (length ds) - (1 :: u32)) = int m" using sint_small [of "of_nat m"] dl m by simp
  have l2: "length (rev ds @ 0 # drop (length ds + 1) xs) = length xs" using room by simp
  show ?thesis
  proof (cases "m = 0")
    case True
    then have "rev ds = ds" using m by (cases ds) auto
    moreover have "ece391_itoa v a r s = Some u"
      using False t(1) u(1) len si True by (simp add: ece391_itoa_def ece391_strrev_def)
    ultimately show ?thesis using u(3) within_trans [OF t(2) u(2)] by (auto simp: d)
  next
    case False
    have "strrev_loop 0 0 (int m) (rev ds @ 0 # drop (length ds + 1) xs) = Some (ds @ 0 # drop (length ds + 1) xs)"
      using strrev_loop_rev [of "[]" 0 0 "int m" "rev ds" "0 # drop (length ds + 1) xs"] m by simp
    then obtain w where w: "strrev_swap a 0 (int m) u = Some w" "within p a (length xs) u w" "array_at w a (ds @ 0 # drop (length ds + 1) xs)"
      using strrev_swap_loop [OF ru u(3)] unfolding l2 by blast
    have "ece391_itoa v a r s = Some w"
      using \<open>v \<noteq> 0\<close> t(1) u(1) w(1) len si False by (simp add: ece391_itoa_def ece391_strrev_def)
    then show ?thesis using w(3) within_trans [OF within_trans [OF t(2) u(2)] w(2)] by (auto simp: d)
  qed
qed

section \<open>The counter\<close>

definition numbers :: "nat \<Rightarrow> nat \<Rightarrow> u8 list" where
  "numbers a b = concat (map (\<lambda>j. decimal 10 (of_nat j) @ [10]) [a..<b + 1])"

lemma numbers_step: "i < n \<Longrightarrow> numbers (i + 1) n = decimal 10 (of_nat (i + 1)) @ [10] @ numbers (i + 2) n"
proof -
  assume "i < n"
  then have "[i + 1..<n + 1] = (i + 1) # [i + 2..<n + 1]" by (subst upt_conv_Cons) simp_all
  then show ?thesis by (simp add: numbers_def del: upt_Suc)
qed

lemma count_from_run:
  assumes "ready p i s" "user_buffer buf n" "10 < n" "holds_str s (literal e ''\<newline>'') [10]"
    and "span (literal e ''\<newline>'') 2 \<inter> span buf n = {}" "m \<le> 100000" "j \<le> m" "can_show s (numbers (j + 1) m)"
  shows "\<exists>t. count_from e buf (of_nat m) (of_nat j) s = Some (Done 0, t) \<and> effect p i own_page (numbers (j + 1) m) s t"
  using assms
proof (induction "m - j" arbitrary: s j)
  case 0
  then have "m = j" by simp
  then show ?case using effect_none by (subst count_from.simps) (auto simp: numbers_def)
next
  case (Suc x)
  let ?d = "decimal 10 (of_nat (j + 1))"
  have jm: "j < m" "x = m - Suc j" using Suc.hyps(2) by simp_all
  have un: "unat (of_nat j :: u32) = j" "unat (of_nat m :: u32) = m" by (rule unat_of_nat_small; use Suc.prems(6) jm in simp)+
  then have lt: "(of_nat j :: u32) < of_nat m" using jm by (simp add: word_less_nat_alt)
  have r: "runs s p" using Suc.prems(1) by (simp add: ready_def)
  obtain xs where xs: "array_at s buf xs" "length xs = n"
    using user_ld_bytes [OF r Suc.prems(2)] Suc.prems(2) ld_bytes_length by (fastforce simp: array_at_def)
  have "length ?d < length xs" using decimal_length_10 [of "of_nat (j + 1)"] xs(2) Suc.prems(3) by simp
  from ece391_itoa_decimal [OF r xs(1) _ _ this] obtain t where t: "ece391_itoa (of_nat (j + 1)) buf 10 s = Some t" "within p buf n s t"
    "array_at t buf (?d @ 0 # drop (length ?d + 1) xs)" using xs(2) by auto
  have op: "only_program p s t" using t(2) by (simp add: within_def)
  note et = program_effect [OF Suc.prems(1) op]
  have rt: "ready p i t" by (rule effect_ready [OF et(1) Suc.prems(1)])
  have nl: "holds_str t (literal e ''\<newline>'') [10]"
  proof -
    have ub: "user_buffer (literal e ''\<newline>'') 2" and l: "ld_bytes s (literal e ''\<newline>'') 2 = Some [10, 0]"
      using Suc.prems(4) by (simp_all add: holds_str_def numeral_2_eq_2)
    have "ld t (literal e ''\<newline>'' + of_nat k) = ld s (literal e ''\<newline>'' + of_nat k)" if "k < 2" for k
      using t(2) user_buffer_page [OF ub that] spanI [OF that, of "literal e ''\<newline>''"] Suc.prems(5) unfolding within_def by blast
    then have "ld_bytes t (literal e ''\<newline>'') 2 = Some [10, 0]" using l unfolding ld_bytes_nth by simp
    moreover have e: "length [10 :: u8] + 1 = 2" "[10 :: u8] @ [0] = [10, 0]" by simp_all
    ultimately show ?thesis using ub unfolding holds_str_def e by simp
  qed
  have out: "numbers (j + 1) m = ?d @ [10] @ numbers (j + 2) m" by (rule numbers_step [OF jm(1)])
  have room: "can_show t (?d @ [10] @ numbers (j + 2) m)"
    using effect_room [OF et(1) Suc.prems(1)] Suc.prems(8) unfolding out by simp
  have hd: "holds_str t buf ?d" by (rule array_str [OF t(3)]) (rule decimal_nonzero, simp)
  obtain u where u: "ece391_fdputs e 1 buf t = Some (Done 0, u)" "effect p i {} ?d t u"
    by (rule fdputs_shows [OF rt hd can_show_first [OF room]])
  have ru: "ready p i u" by (rule effect_ready [OF u(2) rt])
  have nu: "holds_str u (literal e ''\<newline>'') [10]" using effect_str [OF u(2) rt nl] by simp
  have room2: "can_show u ([10] @ numbers (j + 2) m)" by (rule effect_room [OF u(2) rt room])
  obtain v where v: "ece391_fdputs e 1 (literal e ''\<newline>'') u = Some (Done 0, v)" "effect p i {} [10] u v"
    by (rule fdputs_shows [OF ru nu can_show_first [OF room2]])
  have rv: "ready p i v" by (rule effect_ready [OF v(2) ru])
  have nv: "holds_str v (literal e ''\<newline>'') [10]" using effect_str [OF v(2) ru nu] by simp
  have room3: "can_show v (numbers (Suc j + 1) m)" using effect_room [OF v(2) ru room2] by simp
  obtain w where w: "count_from e buf (of_nat m) (of_nat (Suc j)) v = Some (Done 0, w)" "effect p i own_page (numbers (Suc j + 1) m) v w"
    using Suc.hyps(1) [OF jm(2) rv Suc.prems(2,3) nv Suc.prems(5,6) _ room3] jm(1) by auto
  have "effect p i own_page (numbers (j + 1) m) s w"
    using effect_trans [OF et(1) effect_trans [OF effect_mono [OF u(2)] effect_trans [OF effect_mono [OF v(2)] w(2)]]] out by simp
  moreover have "count_from e buf (of_nat m) (of_nat j) s = Some (Done 0, w)"
    using lt t(1) u(1) v(1) w(1) by (subst count_from.simps) (simp add: put_def add.commute)
  ultimately show ?case by blast
qed

lemma numbers_narrow: "narrow 0 (numbers a b)"
proof -
  have "\<forall>l\<in>set (map (\<lambda>j. decimal 10 (of_nat j)) [a..<b + 1]). length l \<le> 79"
    using decimal_length_10 le_trans [OF decimal_length_10, of 79] by auto
  then show ?thesis using narrow_lines [of "map (\<lambda>j. decimal 10 (of_nat j)) [a..<b + 1]"] by (simp add: numbers_def comp_def)
qed

end
