(* ===== verification/Syserr.thy ===== *)
theory Syserr
  imports Programs
begin

text \<open>
  \<open>ece391syserr.c\<close>, the kernel's own test of its error handling: eight tests that call the system
  calls wrongly and say PASS when every call refuses.
\<close>

section \<open>The tests\<close>

text \<open>A call that is to fail: its message is printed and the test has failed if it does not.\<close>

definition expect :: "env \<Rightarrow> string \<Rightarrow> 'a kernel_scheme prog \<Rightarrow> u32 \<Rightarrow> 'a kernel_scheme prog" where
  "expect e str call fail =
     seq call (\<lambda>r. if r \<noteq> -1 then complain e str 2 else ret fail)"

text \<open>The \<open>PASS\<close> or \<open>FAIL\<close> line of a test, and its value.\<close>

definition verdict :: "env \<Rightarrow> string \<Rightarrow> string \<Rightarrow> u32 \<Rightarrow> 'a kernel_scheme prog" where
  "verdict e failed passed fail = seq (put e (if fail \<noteq> 0 then failed else passed)) (\<lambda>_. ret fail)"

definition call_sys :: "env \<Rightarrow> u32 \<Rightarrow> 'a kernel_scheme prog" where
  "call_sys e num = int80 e num (junk e) (junk e) (junk e)"

definition err_neg_fd :: "env \<Rightarrow> u32 \<Rightarrow> 'a kernel_scheme prog" where
  "err_neg_fd e buf =
     seq (expect e ''read fail\<newline>'' (ece391_read e (-1073741823) buf 31) 0) (\<lambda>fail.
     seq (expect e ''write fail\<newline>'' (ece391_write e (-1073741823) buf 31) fail) (\<lambda>fail.
     seq (expect e ''close fail\<newline>'' (ece391_close e (-1073741823)) fail) (\<lambda>fail.
     verdict e ''err_neg_fd: FAIL\<newline>'' ''err_neg_fd: PASS\<newline>'' fail)))"

definition err_big_fd :: "env \<Rightarrow> u32 \<Rightarrow> 'a kernel_scheme prog" where
  "err_big_fd e buf =
     seq (expect e ''read fail\<newline>'' (ece391_read e 1073741823 buf 31) 0) (\<lambda>fail.
     seq (expect e ''write fail\<newline>'' (ece391_write e 1073741823 buf 31) fail) (\<lambda>fail.
     seq (expect e ''close fail\<newline>'' (ece391_close e 1073741823) fail) (\<lambda>fail.
     verdict e ''err_big_fd: FAIL\<newline>'' ''err_big_fd: PASS\<newline>'' fail)))"

text \<open>The two loops of the third test: seven calls of \<open>open\<close>, counting those that fail, and \<open>close\<close>
  of 2 to 7.\<close>

fun open_times :: "env \<Rightarrow> nat \<Rightarrow> u32 \<Rightarrow> 'a kernel_scheme prog" where
  "open_times e 0 cnt = ret cnt"
| "open_times e (Suc n) cnt =
     seq (ece391_open e (literal e ''.'')) (\<lambda>r. open_times e n (if r = -1 then cnt + 1 else cnt))"

definition close_all :: "env \<Rightarrow> nat list \<Rightarrow> 'a kernel_scheme prog" where
  "close_all e is = seq_all (map (\<lambda>i. ece391_close e (of_nat i)) is)"

definition err_open_lots :: "env \<Rightarrow> 'a kernel_scheme prog" where
  "err_open_lots e =
     seq (open_times e 7 0) (\<lambda>cnt.
     seq (close_all e [2..<8]) (\<lambda>_.
     if cnt = 1 then complain e ''err_open_lots: PASS\<newline>'' 0
     else complain e ''err_open_lots: FAIL\<newline>'' 2))"

definition err_open :: "env \<Rightarrow> 'a kernel_scheme prog" where
  "err_open e =
     seq (expect e ([CHR 0x27] @ ''helloo'' @ [CHR 0x27] @ '' fail\<newline>'') (ece391_open e (literal e ''helloo'')) 0) (\<lambda>fail.
     seq (expect e ([CHR 0x27] @ ''shel'' @ [CHR 0x27] @ '' fail\<newline>'') (ece391_open e (literal e ''shel'')) fail) (\<lambda>fail.
     seq (expect e ''empty string fail\<newline>'' (ece391_open e (literal e [])) fail) (\<lambda>fail.
     verdict e ''err_open: FAIL\<newline>'' ''err_open: PASS\<newline>'' fail)))"

fun expect_each :: "env \<Rightarrow> string \<Rightarrow> (nat \<Rightarrow> 'a kernel_scheme prog) \<Rightarrow> nat list \<Rightarrow> u32 \<Rightarrow> 'a kernel_scheme prog" where
  "expect_each e str call [] fail = ret fail"
| "expect_each e str call (i # is) fail = seq (expect e str (call i) fail) (expect_each e str call is)"

definition err_unopened :: "env \<Rightarrow> u32 \<Rightarrow> 'a kernel_scheme prog" where
  "err_unopened e buf =
     seq (expect_each e ''close unopened or invalid fd fail\<newline>'' (\<lambda>i. ece391_close e (of_nat i)) [0..<8] 0) (\<lambda>fail.
     seq (expect_each e ''read from unopened fd fail\<newline>'' (\<lambda>i. ece391_read e (of_nat i) buf 31) [2..<8] fail) (\<lambda>fail.
     seq (expect_each e ''write to unopened fd fail\<newline>'' (\<lambda>i. ece391_write e (of_nat i) buf 31) [2..<8] fail) (\<lambda>fail.
     verdict e ''err_unopened: FAIL\<newline>'' ''err_unopened: PASS\<newline>'' fail)))"

definition err_vidmap :: "env \<Rightarrow> 'a kernel_scheme prog" where
  "err_vidmap e =
     seq (expect e ''Null pointer fail\<newline>'' (ece391_vidmap e 0) 0) (\<lambda>fail.
     seq (expect e ''Kernel pointer fail fail\<newline>'' (ece391_vidmap e 0x400000) fail) (\<lambda>fail.
     verdict e ''err_vidmap: FAIL\<newline>'' ''err_vidmap: PASS\<newline>'' fail))"

definition err_stdin_out :: "env \<Rightarrow> u32 \<Rightarrow> 'a kernel_scheme prog" where
  "err_stdin_out e buf =
     seq (expect e ''write to stdin fail\<newline>'' (ece391_write e 0 buf 31) 0) (\<lambda>fail.
     seq (expect e ''read from stdout fail\<newline>'' (ece391_read e 1 buf 31) fail) (\<lambda>fail.
     verdict e ''err_stdin_out: FAIL\<newline>'' ''err_stdin_out: PASS\<newline>'' fail))"

definition err_syscall_num :: "env \<Rightarrow> 'a kernel_scheme prog" where
  "err_syscall_num e =
     seq (expect e ''syscall 0 fail\<newline>'' (call_sys e 1073741823) 0) (\<lambda>fail.
     seq (expect e ''big num syscall fail\<newline>'' (call_sys e (-1073741823)) fail) (\<lambda>fail.
     seq (expect e ''neg num syscall fail\<newline>'' (call_sys e 0) fail) (\<lambda>fail.
     verdict e ''err_syscall_num: FAIL\<newline>'' ''err_syscall_num: PASS\<newline>'' fail)))"

section \<open>main\<close>

definition all_tests :: "env \<Rightarrow> (u32 \<Rightarrow> u32) \<Rightarrow> 'a kernel_scheme prog" where
  "all_tests e buf =
     seq (err_neg_fd e (buf 1)) (\<lambda>a. seq (err_big_fd e (buf 2)) (\<lambda>b. seq (err_open_lots e) (\<lambda>c.
     seq (err_open e) (\<lambda>d. seq (err_unopened e (buf 5)) (\<lambda>f. seq (err_vidmap e) (\<lambda>g.
     seq (err_stdin_out e (buf 7)) (\<lambda>h. seq (err_syscall_num e) (\<lambda>i.
       let fail = a + b + c + d + f + g + h + i
       in verdict e ''\<newline>Overall Tests: FAIL\<newline>'' ''\<newline>Overall Tests: PASS\<newline>'' fail))))))))"

text \<open>\<open>tests k\<close> is where the compiler put the array \<open>buf\<close> of the \<open>k\<close>-th test, \<open>buf\<close> where it put \<open>main\<close>'s.\<close>

definition run_test :: "env \<Rightarrow> (u32 \<Rightarrow> u32) \<Rightarrow> u32 \<Rightarrow> 'a kernel_scheme prog" where
  "run_test e tests select =
     (if select = 0 then all_tests e tests
      else if select = 1 then err_neg_fd e (tests 1)
      else if select = 2 then err_big_fd e (tests 2)
      else if select = 3 then err_open_lots e
      else if select = 4 then err_open e
      else if select = 5 then err_unopened e (tests 5)
      else if select = 6 then err_vidmap e
      else if select = 7 then err_stdin_out e (tests 7)
      else if select = 8 then err_syscall_num e
      else complain e ''Invalid test number. Choose from tests 1-8 or 0'' 0)"

definition syserr_main :: "env \<Rightarrow> (u32 \<Rightarrow> u32) \<Rightarrow> u32 \<Rightarrow> 'a kernel_scheme prog" where
  "syserr_main e tests buf =
     seq (put e ''this is syserr test\<newline>'') (\<lambda>_.
     seq (put e ''Choose from tests 1-8. 0 to run all: '') (\<lambda>_.
     seq (ece391_read e 0 buf 127) (\<lambda>cnt.
     if cnt = -1 then complain e ''Can't read test #\<newline>'' 2
     else peek buf (\<lambda>c. run_test e tests (ucast c - 48)))))"

section \<open>The tests pass\<close>

definition test_strings :: "string list" where
  "test_strings = [''.'', ''helloo'', ''shel'', [], ''err_neg_fd: PASS\<newline>'', ''err_big_fd: PASS\<newline>'', ''err_open_lots: PASS\<newline>'',
     ''err_open: PASS\<newline>'', ''err_unopened: PASS\<newline>'', ''err_vidmap: PASS\<newline>'', ''err_stdin_out: PASS\<newline>'',
     ''err_syscall_num: PASS\<newline>'', ''\<newline>Overall Tests: PASS\<newline>'']"

text \<open>The state the tests expect: the directory has \<open>.\<close> and not the three wrong names, nothing but 0 and 1 is open.\<close>

definition under_test :: "env \<Rightarrow> nat \<Rightarrow> nat \<Rightarrow> nat \<Rightarrow> 'a kernel_scheme \<Rightarrow> bool" where
  "under_test e p i n s \<longleftrightarrow> ready p i s \<and> linked e (set test_strings) s
     \<and> (\<exists>d. listed s n (bytes ''.'') d) \<and> unlisted s n (bytes ''helloo'') \<and> unlisted s n (bytes ''shel'') \<and> unlisted s n []"

definition only_stdio :: "nat \<Rightarrow> 'a process_scheme \<Rightarrow> bool" where
  "only_stdio i s \<longleftrightarrow> (\<forall>j. 2 \<le> j \<longrightarrow> j < 8 \<longrightarrow> \<not> desc_busy i s j)"

lemma under_test_effect:
  assumes "under_test e p i n s" "effect p i {} xs s t"
  shows "under_test e p i n t"
proof -
  have r: "ready p i s" "linked e (set test_strings) s" using assms(1) by (simp_all add: under_test_def)
  have k: "kernel_same s t" by (rule effect_kernel [OF assms(2) r(1)]) simp
  show ?thesis
    using assms(1) effect_ready [OF assms(2) r(1)] effect_linked [OF assms(2) r] same_listed [OF k] same_unlisted [OF k]
    unfolding under_test_def by blast
qed

interpretation tests: printing "\<lambda>s. under_test e p i n s \<and> only_stdio i s" "effect p i {}" can_show for e p i n
proof
  show "effect p i {} xs s t \<Longrightarrow> effect p i {} ys t u \<Longrightarrow> effect p i {} (xs @ ys) s u" for xs ys and s t u :: "'a kernel_scheme"
    by (rule effect_trans)
  show "can_show s (xs @ ys) \<Longrightarrow> can_show s xs" for xs ys and s :: "'a kernel_scheme" by (rule can_show_first)
  show "under_test e p i n s \<and> only_stdio i s \<Longrightarrow> effect p i {} xs s t \<Longrightarrow> can_show s (xs @ ys) \<Longrightarrow> can_show t ys"
    for xs ys and s t :: "'a kernel_scheme" using effect_room by (auto simp: under_test_def)
qed (rule effect_none)

lemma put_passes:
  assumes "str \<in> set test_strings"
  shows "tests.does e p i n (put e str) 0 (bytes str)"
  unfolding tests.does_def
proof (intro allI impI)
  fix s :: "'a kernel_scheme"
  assume s: "under_test e p i n s \<and> only_stdio i s" "can_show s (bytes str)"
  then have "holds_str s (literal e str) (bytes str)" "ready p i s" using assms by (auto simp: under_test_def linked_def)
  from fdputs_shows [OF this(2,1) s(2)] obtain t where
    t: "ece391_fdputs e 1 (literal e str) s = Some (Done 0, t)" "effect p i {} (bytes str) s t" "desc_of t i = desc_of s i" by blast
  then have "only_stdio i t" using s(1) by (simp add: only_stdio_def desc_busy_def)
  then show "\<exists>t. put e str s = Some (Done 0, t) \<and> effect p i {} (bytes str) s t \<and> under_test e p i n t \<and> only_stdio i t"
    using t under_test_effect s(1) by (auto simp: put_def)
qed

lemma verdict_passes: "str \<in> set test_strings \<Longrightarrow> tests.does e p i n (verdict e failed str 0) 0 (bytes str)"
  unfolding verdict_def using tests.does_seq_last [OF put_passes tests.does_ret] by fastforce

lemma expect_passes:
  assumes "\<And>s. under_test e p i n s \<Longrightarrow> only_stdio i s \<Longrightarrow> call s = Some (Done (-1), s)"
  shows "tests.does e p i n (expect e str call fail) fail []"
  unfolding expect_def
proof (rule tests.does_seq_quiet)
  show "tests.does e p i n call (-1) []" by (rule tests.does_same) (use assms in blast)
  show "tests.does e p i n (if - 1 \<noteq> (-1 :: u32) then complain e str 2 else ret fail) fail []"
    unfolding if_not_P [OF not_not [THEN iffD2, OF refl]] by (rule tests.does_ret)
qed

lemma expect_each_passes:
  assumes "\<And>s k. k \<in> set ks \<Longrightarrow> under_test e p i n s \<Longrightarrow> only_stdio i s \<Longrightarrow> call k s = Some (Done (-1), s)"
  shows "tests.does e p i n (expect_each e str call ks fail) fail []"
  using assms
proof (induction ks)
  case Nil
  show ?case unfolding expect_each.simps by (rule tests.does_ret)
next
  case (Cons k ks)
  have "tests.does e p i n (expect e str (call k) fail) fail []" by (rule expect_passes) (use Cons.prems in simp)
  moreover have "tests.does e p i n (expect_each e str call ks fail) fail []" by (rule Cons.IH) (use Cons.prems in simp)
  ultimately show ?case unfolding expect_each.simps by (rule tests.does_seq_quiet)
qed

text \<open>Calls on numbers that are no open descriptor, through the stubs.\<close>

lemma refused:
  assumes "ready p i s" "sint fd < 0 \<or> 7 < sint fd \<or> fd < 8 \<and> \<not> desc_busy i s (unat fd)"
  shows "ece391_read e fd buf m s = Some (Done (-1), s)" "ece391_write e fd buf m s = Some (Done (-1), s)"
    "ece391_close e fd s = Some (Done (-1), s)"
  using assms(2) bad_descriptor(1,2) [of s i fd "devices e" "patience e" buf m] assms(1) by (auto simp: stubs ready_def)

lemma unopened:
  assumes "only_stdio i s" "2 \<le> j" "j < 8"
  shows "(of_nat j :: u32) < 8 \<and> \<not> desc_busy i s (unat (of_nat j :: u32))"
proof -
  have u: "unat (of_nat j :: u32) = j" by (rule unat_of_nat_small) (use assms(3) in simp)
  moreover have "(of_nat j :: u32) < 8" using u assms(3) by (simp add: word_less_nat_alt)
  ultimately show ?thesis using assms by (simp add: only_stdio_def)
qed

lemma tests_refused:
  assumes "under_test e p i n s" "only_stdio i s"
  shows "sint fd < 0 \<or> 7 < sint fd \<or> fd < 8 \<and> 2 \<le> fd \<Longrightarrow> ece391_read e fd buf m s = Some (Done (-1), s)"
    "sint fd < 0 \<or> 7 < sint fd \<or> fd < 8 \<and> 2 \<le> fd \<Longrightarrow> ece391_write e fd buf m s = Some (Done (-1), s)"
    "sint fd < 0 \<or> 7 < sint fd \<or> fd < 8 \<Longrightarrow> ece391_close e fd s = Some (Done (-1), s)"
    "ece391_write e 0 buf m s = Some (Done (-1), s)" "ece391_read e 1 buf m s = Some (Done (-1), s)"
    "slt num 1 \<or> slt 10 num \<Longrightarrow> call_sys e num s = Some (Done (-1), s)"
    "unat a < 0x8000000 \<Longrightarrow> ece391_vidmap e a s = Some (Done (-1), s)"
    "str \<in> {''helloo'', ''shel'', []} \<Longrightarrow> ece391_open e (literal e str) s = Some (Done (-1), s)"
proof -
  have r: "ready p i s" using assms(1) by (simp add: under_test_def)
  then have f: "fetch_cur_pcb_ptr s = Some i" by (simp add: ready_def)
  have o: "\<not> desc_busy i s (unat fd)" if "fd < 8" "2 \<le> fd" for fd :: u32
    using that assms(2) by (simp add: only_stdio_def word_less_nat_alt word_le_nat_alt)
  show "sint fd < 0 \<or> 7 < sint fd \<or> fd < 8 \<and> 2 \<le> fd \<Longrightarrow> ece391_read e fd buf m s = Some (Done (-1), s)"
    "sint fd < 0 \<or> 7 < sint fd \<or> fd < 8 \<and> 2 \<le> fd \<Longrightarrow> ece391_write e fd buf m s = Some (Done (-1), s)"
    using refused(1,2) [OF r] o by blast+
  show "ece391_close e fd s = Some (Done (-1), s)" if "sint fd < 0 \<or> 7 < sint fd \<or> fd < 8"
  proof (cases "fd < 2")
    case True
    then show ?thesis using bad_descriptor(5) [OF f] by (simp add: stubs)
  next
    case False
    then have "2 \<le> fd" by simp
    then show ?thesis using that refused(3) [OF r] o by blast
  qed
  show "ece391_write e 0 buf m s = Some (Done (-1), s)" "ece391_read e 1 buf m s = Some (Done (-1), s)"
    using bad_descriptor(3,4) [OF f] by (simp_all add: stubs)
  show "slt num 1 \<or> slt 10 num \<Longrightarrow> call_sys e num s = Some (Done (-1), s)"
    by (simp add: call_sys_def int80_def sys_call_handler_def)
  show "unat a < 0x8000000 \<Longrightarrow> ece391_vidmap e a s = Some (Done (-1), s)" by (simp add: stubs vidmap_refuses)
  assume str: "str \<in> {''helloo'', ''shel'', []}"
  then have "holds_str s (literal e str) (bytes str)" "unlisted s n (bytes str)" "length (bytes str) \<le> 32"
    using assms(1) by (auto simp: under_test_def linked_def test_strings_def bytes_def)
  moreover have "runs s p" using r by (simp add: ready_def)
  ultimately show "ece391_open e (literal e str) s = Some (Done (-1), s)" using open_unlisted [OF r str_cstr_n] by blast
qed

lemma in_test_strings:
  "str \<in> set [''err_neg_fd: PASS\<newline>'', ''err_big_fd: PASS\<newline>'', ''err_open_lots: PASS\<newline>'',
     ''err_open: PASS\<newline>'', ''err_unopened: PASS\<newline>'', ''err_vidmap: PASS\<newline>'', ''err_stdin_out: PASS\<newline>'',
     ''err_syscall_num: PASS\<newline>'', ''\<newline>Overall Tests: PASS\<newline>''] \<Longrightarrow> str \<in> set test_strings"
  by (auto simp: test_strings_def)

lemma neg_fd_passes: "tests.does e p i n (err_neg_fd e buf) 0 (bytes ''err_neg_fd: PASS\<newline>'')"
  unfolding err_neg_fd_def
  by (rule tests.does_seq_quiet expect_passes verdict_passes in_test_strings | (rule tests_refused, assumption+) | simp)+

lemma big_fd_passes: "tests.does e p i n (err_big_fd e buf) 0 (bytes ''err_big_fd: PASS\<newline>'')"
  unfolding err_big_fd_def
  by (rule tests.does_seq_quiet expect_passes verdict_passes in_test_strings | (rule tests_refused, assumption+) | simp)+

lemma vidmap_passes: "tests.does e p i n (err_vidmap e) 0 (bytes ''err_vidmap: PASS\<newline>'')"
  unfolding err_vidmap_def
  by (rule tests.does_seq_quiet expect_passes verdict_passes in_test_strings | (rule tests_refused, assumption+) | simp)+

lemma stdin_out_passes: "tests.does e p i n (err_stdin_out e buf) 0 (bytes ''err_stdin_out: PASS\<newline>'')"
  unfolding err_stdin_out_def
  by (rule tests.does_seq_quiet expect_passes verdict_passes in_test_strings | (rule tests_refused(4,5), assumption+) | simp)+

lemma syscall_num_passes: "tests.does e p i n (err_syscall_num e) 0 (bytes ''err_syscall_num: PASS\<newline>'')"
  unfolding err_syscall_num_def
  by (rule tests.does_seq_quiet expect_passes verdict_passes in_test_strings | (rule tests_refused, assumption+) | simp add: slt_def)+

lemma err_open_passes: "tests.does e p i n (err_open e) 0 (bytes ''err_open: PASS\<newline>'')"
  unfolding err_open_def
  by (rule tests.does_seq_quiet expect_passes verdict_passes in_test_strings | (rule tests_refused, assumption+) | simp)+

lemma unopened_passes: "tests.does e p i n (err_unopened e buf) 0 (bytes ''err_unopened: PASS\<newline>'')"
proof -
  have u: "(of_nat j :: u32) < 8 \<and> (k \<le> j \<longrightarrow> (of_nat k :: u32) \<le> of_nat j)" if "j < 8" for j k
  proof -
    have "unat (of_nat j :: u32) = j" by (rule unat_of_nat_small) (use that in simp)
    moreover have "unat (of_nat k :: u32) = k" if "k \<le> j" by (rule unat_of_nat_small) (use that \<open>j < 8\<close> in simp)
    ultimately show ?thesis using that by (auto simp: word_less_nat_alt word_le_nat_alt)
  qed
  have u2: "(2 :: u32) \<le> of_nat j" if "2 \<le> j" "j < 8" for j using u [OF that(2), of 2] that(1) by simp
  show ?thesis
    unfolding err_unopened_def
    by (rule tests.does_seq_quiet expect_each_passes verdict_passes in_test_strings | (rule tests_refused, assumption+) | use u u2 in force)+
qed

text \<open>The third test: six of the seven calls of \<open>open\<close> succeed, and every descriptor can be closed again.\<close>

lemma open_times_run:
  assumes "under_test e p i n s" "\<forall>j. 2 \<le> j \<longrightarrow> j < 8 \<longrightarrow> (desc_busy i s j \<longleftrightarrow> j < k)" "2 \<le> k" "k \<le> 8"
  shows "\<exists>t. open_times e m cnt s = Some (Done (cnt + of_nat (m - (8 - k))), t) \<and> effect p i {} [] s t \<and> under_test e p i n t
    \<and> (\<forall>j. 2 \<le> j \<longrightarrow> j < 8 \<longrightarrow> (desc_busy i t j \<longleftrightarrow> j < min 8 (k + m)))"
  using assms
proof (induction m arbitrary: s k cnt)
  case 0
  then show ?case using effect_none by auto
next
  case (Suc m)
  have r: "ready p i s" "runs s p" and h: "holds_str s (literal e ''.'') (bytes ''.'')"
    using Suc.prems(1) by (auto simp: under_test_def ready_def linked_def test_strings_def)
  obtain d where d: "listed s n (bytes ''.'') d" using Suc.prems(1) by (auto simp: under_test_def)
  have c: "cstr_n (at s (literal e ''.'')) 32 (bytes ''.'')" by (rule str_cstr_n [OF r(2) h]) (simp add: bytes_def)
  show ?case
  proof (cases "k = 8")
    case True
    then have "ece391_open e (literal e ''.'') s = Some (Done (-1), s)"
      using Suc.prems(2) by (intro open_full [OF r(1) c d]) simp
    then show ?thesis using Suc.IH [OF Suc.prems(1,2), of "cnt + 1"] True by (simp add: algebra_simps)
  next
    case False
    then have k: "k < 8" using Suc.prems(4) by simp
    obtain t where t: "ece391_open e (literal e ''.'') s = Some (Done (of_nat k), t)" "effect p i {} [] s t" "desc_only i k s t" "desc_busy i t k"
      by (rule open_listed [OF r(1) c d Suc.prems(3) k, where e = e and W = "{}"]) (use Suc.prems(2,3) k in auto)
    have u: "unat (of_nat k :: u32) = k" by (rule unat_of_nat_small) (use k in simp)
    have nk: "(of_nat k :: u32) \<noteq> -1" using u k by (auto simp: word_unat_eq_iff unsigned_minus_1_eq_mask mask_eq_exp_minus_1)
    have b: "\<forall>j. 2 \<le> j \<longrightarrow> j < 8 \<longrightarrow> (desc_busy i t j \<longleftrightarrow> j < Suc k)"
      using desc_only_busy [OF t(3,4)] Suc.prems(2) by auto
    obtain v where v: "open_times e m cnt t = Some (Done (cnt + of_nat (m - (8 - Suc k))), v)" "effect p i {} [] t v" "under_test e p i n v"
      "\<forall>j. 2 \<le> j \<longrightarrow> j < 8 \<longrightarrow> (desc_busy i v j \<longleftrightarrow> j < min 8 (Suc k + m))"
      using Suc.IH [OF under_test_effect [OF Suc.prems(1) t(2)] b, of cnt] Suc.prems(3) k by auto
    have "m - (8 - Suc k) = Suc m - (8 - k)" using k by simp
    then show ?thesis using t(1) v nk effect_trans [OF t(2) v(2)] by simp
  qed
qed

lemma close_all_run:
  assumes "under_test e p i n s" "\<forall>j. 2 \<le> j \<longrightarrow> j < 8 \<longrightarrow> (desc_busy i s j \<longleftrightarrow> k \<le> j)" "2 \<le> k" "k \<le> 8"
  shows "\<exists>t. close_all e [k..<8] s = Some (Done 0, t) \<and> effect p i {} [] s t \<and> under_test e p i n t \<and> only_stdio i t"
  using assms
proof (induction "8 - k" arbitrary: s k)
  case 0
  then show ?case using effect_none by (auto simp: close_all_def only_stdio_def)
next
  case (Suc x)
  then have k: "k < 8" and x: "x = 8 - Suc k" by simp_all
  obtain t where t: "ece391_close e (of_nat k) s = Some (Done 0, t)" "effect p i {} [] s t"
    "\<forall>j. desc_busy i t j \<longleftrightarrow> desc_busy i s j \<and> j \<noteq> k"
    by (rule close_frees [where p = p and i = i and s = s and e = e and k = k and W = "{}"]) (use Suc.prems k in \<open>auto simp: under_test_def\<close>)
  have "\<forall>j. 2 \<le> j \<longrightarrow> j < 8 \<longrightarrow> (desc_busy i t j \<longleftrightarrow> Suc k \<le> j)" using t(3) Suc.prems(2) by auto
  then obtain v where v: "close_all e [Suc k..<8] t = Some (Done 0, v)" "effect p i {} [] t v" "under_test e p i n v" "only_stdio i v"
    using Suc.hyps(1) [of "Suc k" t] x under_test_effect [OF Suc.prems(1) t(2)] Suc.prems(3) k by auto
  have "[k..<8] = k # [Suc k..<8]" using k by (rule upt_conv_Cons)
  then show ?case using t(1) v effect_trans [OF t(2) v(2)] by (simp add: close_all_def)
qed

lemma opens_and_closes:
  assumes "under_test e p i n s \<and> only_stdio i s"
  obtains t u where "open_times e 7 0 s = Some (Done 1, t)" "close_all e [2..<8] t = Some (Done 0, u)" "effect p i {} [] s u"
    "under_test e p i n u" "only_stdio i u"
proof -
  have "\<forall>j. 2 \<le> j \<longrightarrow> j < 8 \<longrightarrow> (desc_busy i s j \<longleftrightarrow> j < 2)" using assms by (simp add: only_stdio_def)
  from open_times_run [OF conjunct1 [OF assms] this, of 7 0] obtain t where
    t: "open_times e 7 0 s = Some (Done 1, t)" "effect p i {} [] s t" "under_test e p i n t" "\<forall>j. 2 \<le> j \<longrightarrow> j < 8 \<longrightarrow> desc_busy i t j"
    by auto
  have "\<forall>j. 2 \<le> j \<longrightarrow> j < 8 \<longrightarrow> (desc_busy i t j \<longleftrightarrow> 2 \<le> j)" using t(4) by simp
  from close_all_run [OF t(3) this] obtain u where
    u: "close_all e [2..<8] t = Some (Done 0, u)" "effect p i {} [] t u" "under_test e p i n u" "only_stdio i u" by auto
  from that [OF t(1) u(1) _ u(3,4)] show ?thesis using effect_trans [OF t(2) u(2)] by simp
qed

lemma open_lots_passes: "tests.does e p i n (err_open_lots e) 0 (bytes ''err_open_lots: PASS\<newline>'')"
proof -
  let ?say = "complain e ''err_open_lots: PASS\<newline>'' 0 :: 'a kernel_scheme prog"
  have o: "tests.does e p i n (seq (open_times e 7 0 :: 'a kernel_scheme prog) (\<lambda>cnt. seq (close_all e [2..<8]) (\<lambda>_. ret cnt))) 1 []"
    unfolding tests.does_def
  proof (intro allI impI)
    fix s :: "'a kernel_scheme"
    assume "under_test e p i n s \<and> only_stdio i s"
    then obtain t u where "open_times e 7 0 s = Some (Done 1, t)" "close_all e [2..<8] t = Some (Done 0, u)"
      "effect p i {} [] s u" "under_test e p i n u" "only_stdio i u" by (rule opens_and_closes)
    then show "\<exists>u. seq (open_times e 7 0) (\<lambda>cnt. seq (close_all e [2..<8]) (\<lambda>_. ret cnt)) s = Some (Done 1, u)
        \<and> effect p i {} [] s u \<and> under_test e p i n u \<and> only_stdio i u" by simp
  qed
  have say: "tests.does e p i n ?say 0 (bytes ''err_open_lots: PASS\<newline>'')"
    unfolding complain_def by (rule tests.does_seq_last [OF put_passes tests.does_ret]) (simp add: test_strings_def)
  have "tests.does e p i n (seq (seq (open_times e 7 0 :: 'a kernel_scheme prog) (\<lambda>cnt. seq (close_all e [2..<8]) (\<lambda>_. ret cnt)))
      (\<lambda>cnt. if cnt = 1 then ?say else complain e ''err_open_lots: FAIL\<newline>'' 2)) 0 (bytes ''err_open_lots: PASS\<newline>'')"
    by (rule tests.does_seq_quiet [OF o]) (use say in simp)
  moreover have "seq (seq (open_times e 7 0) (\<lambda>cnt. seq (close_all e [2..<8]) (\<lambda>_. ret cnt))) f
      = seq (open_times e 7 0) (\<lambda>cnt. seq (close_all e [2..<8]) (\<lambda>_. f cnt))" for f :: "u32 \<Rightarrow> 'a kernel_scheme prog"
    by (simp add: seq_def fun_eq_iff ret_def split: Option.bind_split sysret.split)
  ultimately show ?thesis by (simp add: err_open_lots_def)
qed

definition verdicts :: "u8 list" where
  "verdicts = bytes (''err_neg_fd: PASS\<newline>'' @ ''err_big_fd: PASS\<newline>'' @ ''err_open_lots: PASS\<newline>'' @ ''err_open: PASS\<newline>'' @ ''err_unopened: PASS\<newline>''
     @ ''err_vidmap: PASS\<newline>'' @ ''err_stdin_out: PASS\<newline>'' @ ''err_syscall_num: PASS\<newline>'' @ ''\<newline>Overall Tests: PASS\<newline>'')"

lemma all_pass: "tests.does e p i n (all_tests e buf) 0 verdicts"
  unfolding all_tests_def verdicts_def bytes_def map_append unfolding bytes_def [symmetric]
  by (rule tests.does_seq neg_fd_passes big_fd_passes open_lots_passes err_open_passes unopened_passes vidmap_passes stdin_out_passes
      syscall_num_passes)+ (simp add: Let_def verdict_passes test_strings_def)

lemma verdicts_narrow: "narrow 0 verdicts"
  by (simp add: verdicts_def bytes_def asc_def)

end
