(* ===== verification/Usersample.thy ===== *)
theory Usersample
  imports Usernum Syserr Sample
begin

text \<open>
  A concrete state for the user programs: the sample kernel whose directory also has \<open>.\<close>, with process 0 in a
  program that was given the argument \<open>shell\<close> and has the strings of the programs in its page.
\<close>

definition user_strings :: "string list" where
  "user_strings = test_strings @ [''\<newline>'']"

definition user_literal :: "string \<Rightarrow> u32" where
  "user_literal str = 0x08048200 + of_nat (64 * length (takeWhile (\<lambda>x. x \<noteq> str) user_strings))"

definition string_block :: "string \<Rightarrow> u8 list" where
  "string_block str = bytes str @ replicate (64 - length str) 0"

definition dot_entry :: "u8 list" where
  "dot_entry = bytes ''.'' @ replicate 31 0 @ [1, 0, 0, 0] @ replicate 28 0"

definition user_phys :: "u32 \<Rightarrow> u8" where
  "user_phys = place_at 0x410080 dot_entry (place_at 0x848200 (concat (map string_block user_strings)) sample_phys)"

definition user_sample :: kernel where
  "user_sample = sample\<lparr>phys := user_phys, num_of_entries := 2,
     pcbs := (sample_pcb)(0 := (sample_pcb 0)\<lparr>args := bytes ''shell'' @ replicate 124 0\<rparr>)\<rparr>"

definition user_env :: env where
  "user_env = \<lparr> devices = (\<lambda>_ _. 0), patience = 0, literal = user_literal, junk = 0 \<rparr>"

lemma user_fields [simp]:
  "phys user_sample = user_phys" "num_of_entries user_sample = 2" "entry_ptr_base user_sample = 0x410040" "curr_pid user_sample = 0"
  "inode_ptr_base user_sample = 0x411000" "data_block_ptr_base user_sample = 0x412000" "num_of_blocks user_sample = 1"
  "curr_term user_sample = 0" "term_on_screen user_sample = 0" "terms user_sample = (\<lambda>_. idle_term)" "literal user_env = user_literal"
  by (simp_all add: user_sample_def user_env_def)

lemma user_mmu: "mmu user_sample = mmu sample"
  by (simp add: user_sample_def mmu_def)

lemma user_runs: "runs user_sample 0"
  using sample_runs runs_mmu [OF user_mmu] by simp

lemma user_ready: "ready 0 0 user_sample"
  using user_runs sample_console sample_fetch views_mmu [OF user_mmu]
  by (simp add: ready_def console_ok_def fetch_cur_pcb_ptr_def user_sample_def desc_busy_def desc_of_def sample_pcb_def sample_desc_def)

lemma user_stdio: "only_stdio 0 user_sample"
  by (simp add: only_stdio_def desc_busy_def desc_of_def user_sample_def sample_pcb_def sample_desc_def)

section \<open>Its strings\<close>

lemma concat_blocks: "\<forall>b\<in>set bs. length b = w \<Longrightarrow> k < length bs \<Longrightarrow> j < w \<Longrightarrow> concat bs ! (w * k + j) = bs ! k ! j"
proof (induction bs arbitrary: k)
  case (Cons b bs)
  then show ?case by (cases k) (auto simp: nth_append algebra_simps)
qed simp

lemma concat_length: "\<forall>b\<in>set bs. length b = w \<Longrightarrow> length (concat bs) = w * length bs"
  by (induction bs) auto

lemma string_lengths: "\<forall>str\<in>set user_strings. length str < 64 \<and> 0 \<notin> set (bytes str)" "length user_strings = 14" "distinct user_strings"
  by (simp_all add: user_strings_def test_strings_def bytes_def asc_def)

lemma block_length: "\<forall>b\<in>set (map string_block user_strings). length b = 64"
  using string_lengths(1) by (auto simp: string_block_def bytes_def)

lemma user_phys_other:
  assumes "x < 2 ^ 32" "x < 0x410080 \<or> 0x4100C0 \<le> x" "x < 0x848200 \<or> 0x848580 \<le> x"
  shows "user_phys (of_nat x) = sample_phys (of_nat x)"
  unfolding user_phys_def
  using assms string_lengths(2) concat_length [OF block_length] by (subst place_at_other; simp add: dot_entry_def bytes_def place_at_other)

lemma user_phys_string:
  assumes "k < 14" "j < 64"
  shows "user_phys (of_nat (0x848200 + (64 * k + j))) = string_block (user_strings ! k) ! j"
proof -
  have l: "length (concat (map string_block user_strings)) = 896" using concat_length [OF block_length] string_lengths(2) by simp
  have "user_phys (of_nat (0x848200 + (64 * k + j))) = concat (map string_block user_strings) ! (64 * k + j)"
    unfolding user_phys_def using assms l
    by (subst place_at_other) (simp_all add: dot_entry_def bytes_def place_at_block del: of_nat_add)
  then show ?thesis using concat_blocks [OF block_length _ assms(2), of k] string_lengths(2) assms(1) by simp
qed

lemma user_string:
  assumes "str \<in> set user_strings"
  shows "holds_str user_sample (user_literal str) (bytes str)"
proof -
  obtain k where k: "k < 14" "str = user_strings ! k" using assms string_lengths(2) by (metis in_set_conv_nth)
  have "takeWhile (\<lambda>x. x \<noteq> str) user_strings = take k user_strings"
    using k string_lengths(2,3) by (intro takeWhile_eq_take_P_nth) (auto simp: nth_eq_iff_index_eq)
  then have a: "user_literal str = 0x08048200 + of_nat (64 * k)" using k(1) string_lengths(2) by (simp add: user_literal_def)
  have len: "length str < 64" "0 \<notin> set (bytes str)" using assms string_lengths(1) by auto
  have ua: "unat (user_literal str) = 0x08048200 + 64 * k" unfolding a by (subst unat_add_of_nat) (use k(1) in simp_all)
  have "ld user_sample (user_literal str + of_nat j) = Some ((bytes str @ [0]) ! j)" if j: "j \<le> length str" for j
  proof -
    have u: "unat (user_literal str + of_nat j) = 0x08048200 + 64 * k + j" using ua by (subst unat_add_of_nat) (use k(1) j len in simp_all)
    have "prog_addr 0 (user_literal str + of_nat j) = of_nat (0x848200 + (64 * k + j))" by (simp add: prog_addr_def u)
    then have "ld user_sample (user_literal str + of_nat j) = Some (string_block str ! j)"
      using translate_user [OF user_runs, of "user_literal str + of_nat j"] user_phys_string [OF k(1), of j] u k j len
      by (simp add: ld_def del: of_nat_add)
    then show ?thesis using j len by (auto simp: string_block_def nth_append bytes_def)
  qed
  then have "ld_bytes user_sample (user_literal str) (length (bytes str) + 1) = Some (bytes str @ [0])"
    unfolding ld_bytes_nth by (simp add: bytes_def)
  moreover have "user_buffer (user_literal str) (length (bytes str) + 1)" using k(1) len by (simp add: user_buffer_def ua bytes_def)
  ultimately show ?thesis using len(2) by (simp add: holds_str_def)
qed

section \<open>Its directory and file\<close>

lemma user_kernel_load:
  assumes "0x400000 \<le> x" "x + m \<le> 0x800000" "x + m \<le> 0x410080 \<or> 0x4100C0 \<le> x"
  shows "ld_bytes user_sample (of_nat x) m = ld_bytes sample (of_nat x) m"
proof -
  have u: "unat (of_nat x :: u32) = x" by (rule unat_of_nat_small) (use assms in simp)
  have k: "in_kernel (of_nat x) (0 + m)" using assms by (simp add: in_kernel_def u)
  have "user_phys (of_nat (x + j)) = sample_phys (of_nat (x + j))" if "j < m" for j
    by (rule user_phys_other) (use that assms in auto)
  then show ?thesis using kernel_load [OF user_runs k] kernel_load [OF sample_runs k] by (simp add: u del: of_nat_add)
qed

lemma dot_load: "n + m \<le> 64 \<Longrightarrow> ld_bytes user_sample (0x410080 + of_nat n) m = Some (take m (drop n dot_entry))"
proof -
  assume h: "n + m \<le> 64"
  have l: "length dot_entry = 64" by (simp add: dot_entry_def bytes_def)
  have "user_phys (of_nat (0x410080 + n + j)) = dot_entry ! (n + j)" if "j < m" for j
    unfolding user_phys_def add.assoc by (rule place_at_block) (use h l that in simp_all)
  then have "map (\<lambda>j. user_phys (of_nat (0x410080 + n + j))) [0..<m] = take m (drop n dot_entry)"
    using h l by (auto intro!: nth_equalityI simp del: of_nat_add)
  then show ?thesis using kernel_load [OF user_runs, of "0x410080" n m] h by (simp add: in_kernel_def del: of_nat_add)
qed

lemma user_names: "entry_name user_sample 0 = bytes ''shell''" "entry_name user_sample 1 = bytes ''.''"
  using sample_name user_kernel_load [of "0x410040" 32] dot_load [of 0 32]
  by (simp_all add: entry_name_def entry_def dot_entry_def bytes_def asc_def)

lemma user_entries:
  "\<exists>d. read_entry user_sample 0 = Some d \<and> dentry_filetype d = 2 \<and> dentry_inode_num d = 0"
  "\<exists>d. read_entry user_sample 1 = Some d \<and> dentry_filetype d = 1"
  using sample_read_entry user_kernel_load [of "0x410040" 32] user_kernel_load [of "0x410060" 4] user_kernel_load [of "0x410064" 4]
    dot_load [of 0 32] dot_load [of 32 4] dot_load [of 36 4]
  by (simp_all add: read_entry_def entry_def ld_word_def dot_entry_def bytes_def word_of_bytes_def)

lemma user_directory: "directory_ok user_sample 2"
proof -
  have "in_kernel (entry user_sample (of_nat i)) 64" if le: "i \<le> 2" for i
  proof -
    consider "i = 0" | "i = 1" | "i = 2" using le by linarith
    then show ?thesis by cases (simp_all add: in_kernel_def entry_def)
  qed
  then show ?thesis by (simp add: directory_ok_def)
qed

lemma user_file: "holds_file user_sample 0 sample_program"
proof -
  have b: "block_number user_sample 0 1 = Some 0"
    using inode_load [of 4 4] user_kernel_load [of "0x411004" 4]
    by (simp add: block_number_def ld_word_def word_of_bytes_def sample_inode_def)
  have l: "ld_word user_sample 0x411000 = Some 52"
    using inode_load [of 0 4] user_kernel_load [of "0x411000" 4] by (simp add: ld_word_def word_of_bytes_def sample_inode_def)
  have "ld user_sample (0x412000 + of_nat n) = Some (sample_program ! n)" if "n < 52" for n
  proof -
    have u: "unat (0x412000 + of_nat n :: u32) = 0x412000 + n" by (subst unat_add_of_nat) (use that in simp_all)
    have "ld user_sample (0x412000 + of_nat n) = Some (user_phys (of_nat (0x412000 + n)))"
      using translate_kernel [of user_sample 0 "0x412000 + of_nat n"] user_runs that by (simp add: ld_def runs_def u)
    then show ?thesis using sample_blocks(3) [OF that] user_phys_other [of "0x412000 + n"] that by (simp del: of_nat_add)
  qed
  moreover have z: "m * 4096 \<le> 52 \<longleftrightarrow> m = 0" "m * 4096 < 52 \<longleftrightarrow> m = 0" for m :: nat by auto
  ultimately show ?thesis
    using b l by (simp add: holds_file_def z inode_addr_def file_block_def block_addr_def in_kernel_def slt_def)
qed

lemma user_listed:
  "\<exists>d. listed user_sample 2 (bytes ''shell'') d \<and> dentry_filetype d = 2 \<and> dentry_inode_num d = 0"
  "\<exists>d. listed user_sample 2 (bytes ''.'') d \<and> dentry_filetype d = 1"
  "str \<in> {''helloo'', ''shel'', []} \<Longrightarrow> unlisted user_sample 2 (bytes str)"
proof -
  show "\<exists>d. listed user_sample 2 (bytes ''shell'') d \<and> dentry_filetype d = 2 \<and> dentry_inode_num d = 0"
    using user_entries(1) user_names user_directory unfolding listed_def by (auto intro!: exI [of _ 0])
  have "\<exists>k<2. entry_name user_sample k = bytes ''.'' \<and> (\<forall>j<k. entry_name user_sample j \<noteq> bytes ''.'') \<and> read_entry user_sample (of_nat k) = Some d"
    if "read_entry user_sample 1 = Some d" for d
    using that user_names by (intro exI [of _ 1]) (simp add: bytes_def)
  then show "\<exists>d. listed user_sample 2 (bytes ''.'') d \<and> dentry_filetype d = 1"
    using user_entries(2) user_directory unfolding listed_def by blast
  show "str \<in> {''helloo'', ''shel'', []} \<Longrightarrow> unlisted user_sample 2 (bytes str)"
    using user_names user_directory by (auto simp: unlisted_def less_2_cases_iff bytes_def asc_def)
qed

lemma user_tty: "tty_of 0 user_sample = \<lparr> tty_char = (\<lambda>_. 0), tty_x = 0, tty_y = 0 \<rparr>"
proof -
  have "user_phys (cell 0 n) = sample_phys (cell 0 n)" if "n < 1920" for n
    using user_phys_other [of "0xB8000 + 2 * n"] that by (simp add: cell_def screen_addr_def)
  then have "tty_of 0 user_sample = tty_of 0 sample" by (simp add: tty_of_def fun_eq_iff)
  then show ?thesis using sample_tty by simp
qed

lemma user_under_test: "under_test user_env 0 0 2 user_sample"
  using user_ready user_string user_listed(2) user_listed(3) [of "''helloo''"] user_listed(3) [of "''shel''"] user_listed(3) [of "[]"]
  by (auto simp: under_test_def linked_def user_strings_def bytes_def)

end
