(* ===== verification/Fish.thy ===== *)
theory Fish
  imports Programs
begin

text \<open>
  The fish program of \<open>src/fish\<close>: \<open>fish.c\<close> and the list of blinking characters of \<open>blink.S\<close>, in the
  program's own memory. What \<open>blink.S\<close> does needs no system call, so it is a function on memory with a result;
  an address that user code cannot reach gives \<open>None\<close>, and so does a list that never ends.
\<close>

section \<open>Memory of the program\<close>

text \<open>Where the linker put the globals, and the compiler the locals whose address is taken: \<open>add_temp\<close> is the
  structure \<open>mp1_ioctl_add\<close> copies to the stack, and \<open>find_key\<close> the two bytes of \<open>mp1_ioctl_find\<close>.\<close>

record layout =
  vmem_base_addr :: u32
  blink_array :: u32
  mp1_list_head :: u32
  add_temp :: u32
  find_key :: u32
  file0 :: u32
  file1 :: u32
  blink_struct :: u32
  ret_val :: u32
  garbage :: u32
  frame_struct :: u32
  char0 :: u32
  char1 :: u32

definition get_word :: "'a machine_scheme \<Rightarrow> u32 \<Rightarrow> u16 option" where
  "get_word s a = do { b0 \<leftarrow> user_load s a; b1 \<leftarrow> user_load s (a + 1); Some (ucast (word_of_bytes [b0, b1, 0, 0])) }"

definition put_word :: "u32 \<Rightarrow> u16 \<Rightarrow> 'a machine_scheme \<Rightarrow> 'a machine_scheme option" where
  "put_word a v s = do { s \<leftarrow> user_store a (ucast v) s; user_store (a + 1) (ucast (drop_bit 8 v)) s }"

definition get_dword :: "'a machine_scheme \<Rightarrow> u32 \<Rightarrow> u32 option" where
  "get_dword s a =
     do { b0 \<leftarrow> user_load s a; b1 \<leftarrow> user_load s (a + 1); b2 \<leftarrow> user_load s (a + 2); b3 \<leftarrow> user_load s (a + 3);
          Some (word_of_bytes [b0, b1, b2, b3]) }"

definition put_dword :: "u32 \<Rightarrow> u32 \<Rightarrow> 'a machine_scheme \<Rightarrow> 'a machine_scheme option" where
  "put_dword a v s =
     do { s \<leftarrow> user_store a (ucast v) s; s \<leftarrow> user_store (a + 1) (ucast (drop_bit 8 v)) s;
          s \<leftarrow> user_store (a + 2) (ucast (drop_bit 16 v)) s; user_store (a + 3) (ucast (drop_bit 24 v)) s }"

text \<open>\<open>i < n\<close> is a signed comparison in both.\<close>

definition ece391_memset :: "u32 \<Rightarrow> u8 \<Rightarrow> u32 \<Rightarrow> 'a machine_scheme \<Rightarrow> 'a machine_scheme option" where
  "ece391_memset memory c n s = foldM (\<lambda>i. user_store (memory + of_nat i) c) [0..<nat (sint n)] s"

definition ece391_memcpy :: "u32 \<Rightarrow> u32 \<Rightarrow> u32 \<Rightarrow> 'a machine_scheme \<Rightarrow> (u32 \<times> 'a machine_scheme) option" where
  "ece391_memcpy dest src n s =
     map_option (Pair 0)
       (foldM (\<lambda>i s. do { c \<leftarrow> user_load s (src + of_nat i); user_store (dest + of_nat i) c s }) [0..<nat (sint n)] s)"

text \<open>The first structure whose \<open>location\<close> is 0 counts as free.\<close>

fun malloc_from :: "layout \<Rightarrow> nat list \<Rightarrow> 'a machine_scheme \<Rightarrow> u32 option" where
  "malloc_from l [] s = Some 0"
| "malloc_from l (i # js) s =
     do { loc \<leftarrow> get_word s (blink_array l + of_nat (16 * i));
          if loc = 0 then Some (blink_array l + of_nat (16 * i)) else malloc_from l js s }"

definition mp1_malloc :: "layout \<Rightarrow> 'a machine_scheme \<Rightarrow> u32 option" where
  "mp1_malloc l s = malloc_from l [0..<80 * 25] s"

definition mp1_free :: "u32 \<Rightarrow> 'a machine_scheme \<Rightarrow> 'a machine_scheme option" where
  "mp1_free memory s = ece391_memset memory 0 16 s"

section \<open>blink.S\<close>

text \<open>The fields are at 0 (\<open>location\<close>), 2 and 3 (the characters), 4 and 6 (the lengths), 8 (\<open>countdown\<close>),
  10 (\<open>status\<close>) and 12 (\<open>next\<close>).\<close>

definition mp1_poke :: "layout \<Rightarrow> u8 \<Rightarrow> u32 \<Rightarrow> 'a machine_scheme \<Rightarrow> 'a machine_scheme option" where
  "mp1_poke l cl eax s = do { edx \<leftarrow> get_dword s (vmem_base_addr l); user_store (edx + eax) cl s }"

text \<open>\<open>jg\<close> after a comparison of a word with 0.\<close>

definition positive :: "u16 \<Rightarrow> bool" where
  "positive w \<longleftrightarrow> 0 < sint w"

definition blink_node :: "layout \<Rightarrow> u32 \<Rightarrow> 'a machine_scheme \<Rightarrow> 'a machine_scheme option" where
  "blink_node l ebx s =
     do { loc \<leftarrow> get_word s ebx;
          let eax = push_bit 1 (ucast loc);
          status \<leftarrow> get_word s (ebx + 10);
          (dx, s) \<leftarrow>
            (if status AND 1 \<noteq> 0
             then do { cl \<leftarrow> user_load s (ebx + 3); s \<leftarrow> mp1_poke l cl eax s; dx \<leftarrow> get_word s (ebx + 6); Some (dx, s) }
             else do { cl \<leftarrow> user_load s (ebx + 2); s \<leftarrow> mp1_poke l cl eax s; dx \<leftarrow> get_word s (ebx + 4); Some (dx, s) });
          s \<leftarrow> put_word (ebx + 8) dx s;
          status \<leftarrow> get_word s (ebx + 10);
          put_word (ebx + 10) (status XOR 1) s }"

definition blink_step :: "layout \<Rightarrow> u32 \<Rightarrow> 'a machine_scheme \<Rightarrow> 'a machine_scheme option" where
  "blink_step l ebx s =
     do { c \<leftarrow> get_word s (ebx + 8);
          s \<leftarrow> put_word (ebx + 8) (c - 1) s;
          c \<leftarrow> get_word s (ebx + 8);
          if positive c then Some s else blink_node l ebx s }"

partial_function (option) tasklet_loop :: "layout \<Rightarrow> u32 \<Rightarrow> 'a machine_scheme \<Rightarrow> 'a machine_scheme option" where
  "tasklet_loop l ebx s =
     (if ebx = 0 then Some s
      else do { s \<leftarrow> blink_step l ebx s;
                n \<leftarrow> get_dword s (ebx + 12);
                tasklet_loop l n s })"

definition mp1_rtc_tasklet :: "layout \<Rightarrow> 'a machine_scheme \<Rightarrow> 'a machine_scheme option" where
  "mp1_rtc_tasklet l s = do { ebx \<leftarrow> get_dword s (mp1_list_head l); tasklet_loop l ebx s }"

text \<open>The search of the list: the address of a structure with this location, or 0.\<close>

partial_function (option) find_loop :: "u16 \<Rightarrow> u32 \<Rightarrow> 'a machine_scheme \<Rightarrow> u32 option" where
  "find_loop ax ebx s =
     (if ebx = 0 then Some 0
      else do { loc \<leftarrow> get_word s ebx;
                if loc = ax then Some ebx
                else do { n \<leftarrow> get_dword s (ebx + 12); find_loop ax n s } })"

definition mp1_find_helper :: "layout \<Rightarrow> u32 \<Rightarrow> 'a machine_scheme \<Rightarrow> u32 option" where
  "mp1_find_helper l loc s = do { ebx \<leftarrow> get_dword s (mp1_list_head l); find_loop (ucast loc) ebx s }"

definition mp1_ioctl_add :: "layout \<Rightarrow> u32 \<Rightarrow> 'a machine_scheme \<Rightarrow> (u32 \<times> 'a machine_scheme) option" where
  "mp1_ioctl_add l arg s =
     do { (r, s) \<leftarrow> ece391_memcpy (add_temp l) arg 16 s;
          loc \<leftarrow> get_word s (add_temp l);
          if r \<noteq> 0 \<or> 80 * 25 \<le> loc then Some (-1, s)
          else do {
            s \<leftarrow> put_word (add_temp l + 10) 1 s;
            dx \<leftarrow> get_word s (add_temp l + 4);
            s \<leftarrow> put_word (add_temp l + 8) dx s;
            eax \<leftarrow> mp1_malloc l s;
            if eax = 0 then Some (-1, s)
            else do {
              (r, s) \<leftarrow> ece391_memcpy eax (add_temp l) 16 s;
              h \<leftarrow> get_dword s (mp1_list_head l);
              s \<leftarrow> put_dword (eax + 12) h s;
              s \<leftarrow> put_dword (mp1_list_head l) eax s;
              loc \<leftarrow> get_word s eax;
              cl \<leftarrow> user_load s (eax + 2);
              s \<leftarrow> mp1_poke l cl (push_bit 1 (ucast loc)) s;
              Some (0, s) } } }"

text \<open>The pointer that points to the structure: the list head or a \<open>next\<close> field.\<close>

partial_function (option) find_prev :: "u32 \<Rightarrow> u32 \<Rightarrow> 'a machine_scheme \<Rightarrow> u32 option" where
  "find_prev eax edx s =
     do { v \<leftarrow> get_dword s edx; if v = eax then Some edx else find_prev eax (v + 12) s }"

definition mp1_ioctl_remove :: "layout \<Rightarrow> u32 \<Rightarrow> 'a machine_scheme \<Rightarrow> (u32 \<times> 'a machine_scheme) option" where
  "mp1_ioctl_remove l arg s =
     do { eax \<leftarrow> mp1_find_helper l arg s;
          if eax = 0 then Some (-1, s)
          else do {
            edx \<leftarrow> find_prev eax (mp1_list_head l) s;
            ecx \<leftarrow> get_dword s (eax + 12);
            s \<leftarrow> put_dword edx ecx s;
            s \<leftarrow> mp1_free eax s;
            Some (0, s) } }"

definition mp1_ioctl_find :: "layout \<Rightarrow> u32 \<Rightarrow> 'a machine_scheme \<Rightarrow> (u32 \<times> 'a machine_scheme) option" where
  "mp1_ioctl_find l arg s =
     do { (r, s) \<leftarrow> ece391_memcpy (find_key l) arg 2 s;
          if r \<noteq> 0 then Some (-1, s)
          else do {
            loc \<leftarrow> get_word s (find_key l);
            eax \<leftarrow> mp1_find_helper l (ucast loc) s;
            if eax = 0 then Some (-1, s)
            else do {
              (r, s) \<leftarrow> ece391_memcpy arg eax 16 s;
              Some (if r = 0 then 0 else -1, s) } } }"

definition copy_word :: "u32 \<Rightarrow> u32 \<Rightarrow> 'a machine_scheme \<Rightarrow> 'a machine_scheme option" where
  "copy_word dest src s = do { w \<leftarrow> get_word s src; put_word dest w s }"

text \<open>
  \<open>cmovl\<close> is the move on \<open>less\<close>: after \<open>testb\<close> with 1 the overflow flag and the sign flag are clear, so it
  never moves, and what is shown is the off character, whatever the status is.
\<close>

definition mp1_ioctl_sync :: "layout \<Rightarrow> u32 \<Rightarrow> 'a machine_scheme \<Rightarrow> (u32 \<times> 'a machine_scheme) option" where
  "mp1_ioctl_sync l arg s =
     do { esi \<leftarrow> mp1_find_helper l (drop_bit 16 arg) s;
          if esi = 0 then Some (-1, s)
          else do {
            edi \<leftarrow> mp1_find_helper l (arg AND 0xFFFF) s;
            if edi = 0 then Some (-1, s)
            else do {
              s \<leftarrow> copy_word (edi + 4) (esi + 4) s;
              s \<leftarrow> copy_word (edi + 6) (esi + 6) s;
              s \<leftarrow> copy_word (edi + 8) (esi + 8) s;
              s \<leftarrow> copy_word (edi + 10) (esi + 10) s;
              loc \<leftarrow> get_word s edi;
              ecx \<leftarrow> user_load s (edi + 3);
              ebx \<leftarrow> user_load s (edi + 2);
              status \<leftarrow> user_load s (edi + 10);
              s \<leftarrow> mp1_poke l (if bit (status AND 1) 7 then ebx else ecx) (push_bit 1 (ucast loc)) s;
              Some (0, s) } } }"

text \<open>The jump through \<open>call_table\<close>, which has four entries.\<close>

definition mp1_ioctl :: "layout \<Rightarrow> u32 \<Rightarrow> u32 \<Rightarrow> 'a machine_scheme \<Rightarrow> (u32 \<times> 'a machine_scheme) option" where
  "mp1_ioctl l arg cmd s =
     (if cmd = 0 then mp1_ioctl_add l arg s
      else if cmd = 1 then mp1_ioctl_remove l arg s
      else if cmd = 2 then mp1_ioctl_find l arg s
      else if cmd = 3 then mp1_ioctl_sync l arg s
      else None)"

section \<open>fish.c\<close>

text \<open>A step in memory as a piece of the program, with and without a value.\<close>

definition quiet :: "('s \<Rightarrow> 's option) \<Rightarrow> 's prog" where
  "quiet f s = do { s \<leftarrow> f s; ret 0 s }"

text \<open>The fields of a \<open>blink_struct\<close> that the program fills in.\<close>

definition set_lengths :: "u32 \<Rightarrow> u16 \<Rightarrow> u16 \<Rightarrow> 'a machine_scheme \<Rightarrow> 'a machine_scheme option" where
  "set_lengths b on off s = do { s \<leftarrow> put_word (b + 4) on s; put_word (b + 6) off s }"

definition set_blink :: "u32 \<Rightarrow> u8 \<Rightarrow> u8 \<Rightarrow> u16 \<Rightarrow> 'a machine_scheme \<Rightarrow> 'a machine_scheme option" where
  "set_blink b on off loc s =
     do { s \<leftarrow> user_store (b + 2) on s; s \<leftarrow> user_store (b + 3) off s; put_word b loc s }"

text \<open>\<open>add_frames\<close>: the next character of a file, unless its line has ended; its result is the file's \<open>eof\<close>
  flag. After a line, a file that ended stays ended and is closed, each time again.\<close>

definition next_char :: "env \<Rightarrow> u32 \<Rightarrow> u32 \<Rightarrow> u32 \<Rightarrow> 'a kernel_scheme prog" where
  "next_char e fd c eof =
     peek c (\<lambda>b. if b \<noteq> 10
       then seq (ece391_read e fd c 1) (\<lambda>n. if n = 0 then seq (poke c 10) (\<lambda>_. ret 1) else ret eof)
       else ret eof)"

definition end_line :: "env \<Rightarrow> u32 \<Rightarrow> u32 \<Rightarrow> u32 \<Rightarrow> 'a kernel_scheme prog" where
  "end_line e fd c eof =
     (if eof \<noteq> 0 then seq (poke c 10) (\<lambda>_. ece391_close e fd) else poke c (asc CHR ''0''))"

definition show_pair :: "layout \<Rightarrow> u32 \<Rightarrow> u32 \<Rightarrow> u8 \<Rightarrow> u8 \<Rightarrow> 'a kernel_scheme prog" where
  "show_pair l row col b0 b1 =
     (if b0 \<noteq> 32 \<and> b0 \<noteq> 10 \<or> b1 \<noteq> 32 \<and> b1 \<noteq> 10
      then seq (quiet (set_blink (frame_struct l) (if b0 = 10 then 32 else b0) (if b1 = 10 then 32 else b1)
                  (ucast (row * 80 + col + 40))))
             (\<lambda>_ s. plain (mp1_ioctl l (frame_struct l) 0 s))
      else ret 0)"

text \<open>The two loops, in one: at the end of a line the next row starts, as long as a file has more.\<close>

partial_function (option) frame_loop ::
    "env \<Rightarrow> layout \<Rightarrow> u32 \<Rightarrow> u32 \<Rightarrow> u32 \<Rightarrow> u32 \<Rightarrow> u32 \<Rightarrow> u32 \<Rightarrow> 'a kernel_scheme prog" where
  "frame_loop e l fd0 fd1 row col eof0 eof1 s =
     seq (next_char e fd0 (char0 l) eof0) (\<lambda>eof0.
     seq (next_char e fd1 (char1 l) eof1) (\<lambda>eof1.
     peek (char0 l) (\<lambda>b0.
     peek (char1 l) (\<lambda>b1 s.
       if b0 = 10 \<and> b1 = 10
       then seq (end_line e fd0 (char0 l) eof0) (\<lambda>_.
            seq (end_line e fd1 (char1 l) eof1) (\<lambda>_ s.
              if eof0 = 0 \<or> eof1 = 0 then frame_loop e l fd0 fd1 (row + 1) 0 eof0 eof1 s else ret 0 s)) s
       else seq (show_pair l row col b0 b1) (\<lambda>_ s. frame_loop e l fd0 fd1 row (col + 1) eof0 eof1 s) s)))) s"

definition add_frames :: "env \<Rightarrow> layout \<Rightarrow> 'a kernel_scheme prog" where
  "add_frames e l =
     seq (poke (char0 l) (asc CHR ''0'')) (\<lambda>_.
     seq (poke (char1 l) (asc CHR ''0'')) (\<lambda>_.
     seq (quiet (set_lengths (frame_struct l) 15 15)) (\<lambda>_.
     seq (ece391_open e (file0 l)) (\<lambda>fd0.
     seq (if slt fd0 0 then ece391_halt e (-1) else ret 0) (\<lambda>_.
     seq (ece391_open e (file1 l)) (\<lambda>fd1.
     seq (if slt fd1 0 then ece391_halt e (-1) else ret 0) (\<lambda>_.
     frame_loop e l fd0 fd1 0 0 0 0)))))))"

definition mp1_set_video_mode :: "env \<Rightarrow> layout \<Rightarrow> 'a kernel_scheme prog" where
  "mp1_set_video_mode e l =
     seq (ece391_vidmap e (vmem_base_addr l)) (\<lambda>r.
     if r = -1 then ret 0 else (\<lambda>s. do { v \<leftarrow> get_dword s (vmem_base_addr l); ret v s }))"

text \<open>\<open>n\<close> turns of waiting for the clock and blinking.\<close>

definition ticks :: "env \<Rightarrow> layout \<Rightarrow> u32 \<Rightarrow> nat \<Rightarrow> 'a kernel_scheme prog" where
  "ticks e l rtc_fd n =
     seq_all (replicate n (seq (ece391_read e rtc_fd (garbage l) 4) (\<lambda>_. quiet (mp1_rtc_tasklet l))))"

text \<open>The screen is asked for first, and without it the program ends.\<close>

definition fish_start :: "env \<Rightarrow> layout \<Rightarrow> 'a kernel_scheme prog" where
  "fish_start e l = seq (quiet (ece391_memset (blink_array l) 0 (16 * 80 * 25))) (\<lambda>_. mp1_set_video_mode e l)"

definition fish_main :: "env \<Rightarrow> layout \<Rightarrow> 'a kernel_scheme prog" where
  "fish_main e l =
     seq (fish_start e l) (\<lambda>v.
     if v = 0 then ret (-1)
     else
       seq (ece391_open e (literal e ''rtc'')) (\<lambda>rtc_fd.
       seq (add_frames e l) (\<lambda>_.
       seq (store_dword (ret_val l) 32) (\<lambda>_.
       seq (ece391_write e rtc_fd (ret_val l) 4) (\<lambda>r.
       seq (store_dword (ret_val l) r) (\<lambda>_.
       seq (ticks e l rtc_fd 200) (\<lambda>_.
       seq (quiet (set_blink (blink_struct l) (asc CHR ''I'') (asc CHR ''M'') (6 * 80 + 60))) (\<lambda>_.
       seq (quiet (set_lengths (blink_struct l) 7 6)) (\<lambda>_.
       seq (\<lambda>s. plain (mp1_ioctl l (blink_struct l) 0 s)) (\<lambda>_.
       seq (ticks e l rtc_fd 200) (\<lambda>_.
       seq (\<lambda>s. plain (mp1_ioctl l (push_bit 16 40 OR (6 * 80 + 60)) 3 s)) (\<lambda>_.
       seq (ticks e l rtc_fd 200) (\<lambda>_.
       seq (quiet (put_word (blink_struct l) 60)) (\<lambda>_.
       seq (\<lambda>s. plain (mp1_ioctl l 200 1 s)) (\<lambda>_.
       seq (ticks e l rtc_fd 2000) (\<lambda>_.
       seq (ece391_close e rtc_fd) (\<lambda>_.
       ret 0)))))))))))))))))"

end
