(* ===== verification/Userview.thy ===== *)
theory Userview
  imports Fish Usernum
begin

text \<open>
  What a program sees: its page as a function of addresses and its screen as a function of offsets, so that
  loads and stores of bytes and words are applications and updates of functions.
\<close>

section \<open>What the program sees\<close>

text \<open>The program's page as a function of addresses, and the screen its video pages show.\<close>

definition umem :: "nat \<Rightarrow> 'a machine_scheme \<Rightarrow> u32 \<Rightarrow> u8" where
  "umem p s a = (if in_page a then phys s (prog_addr p a) else 0)"

definition vmem :: "nat \<Rightarrow> 'a machine_scheme \<Rightarrow> nat \<Rightarrow> u8" where
  "vmem k s n = (if n < 4096 then phys s (screen_addr k n) else 0)"

definition sees :: "nat \<Rightarrow> nat \<Rightarrow> 'a machine_scheme \<Rightarrow> (u32 \<Rightarrow> u8) \<Rightarrow> (nat \<Rightarrow> u8) \<Rightarrow> bool" where
  "sees p k s m v \<longleftrightarrow> runs s p \<and> k < 3 \<and> umem p s = m \<and> vmem k s = v"

lemma sees_load: "sees p k s m v \<Longrightarrow> in_page a \<Longrightarrow> user_load s a = Some (m a)"
  by (auto simp: sees_def umem_def user_load_page)

lemma page_not_screen: "p < 6 \<Longrightarrow> in_page a \<Longrightarrow> k < 3 \<Longrightarrow> n < 4096 \<Longrightarrow> prog_addr p a \<noteq> screen_addr k n"
  using program_not_screen [OF prog_addr_in, of p a k] in_screen_addr [of k n k] by (auto simp: in_page_def)

lemma runs_phys [simp]: "runs (s\<lparr>phys := x\<rparr>) p = runs s p"
  by (rule runs_mmu) simp

lemma sees_store:
  assumes "sees p k s m v" "in_page a"
  obtains t where "user_store a b s = Some t" "sees p k t (m(a := b)) v"
proof -
  have r: "runs s p" "p < 6" "k < 3" using assms(1) by (auto simp: sees_def runs_def)
  let ?t = "s\<lparr>phys := (phys s)(prog_addr p a := b)\<rparr>"
  have "prog_addr p c = prog_addr p a \<longleftrightarrow> c = a" if "in_page c" for c
    using prog_addr_inj [OF r(2), of c a] that assms(2) by (auto simp: in_page_def)
  then have "umem p ?t = (umem p s)(a := b)" using assms(2) by (auto simp: umem_def fun_eq_iff)
  moreover have "vmem k ?t = vmem k s"
    using page_not_screen [OF r(2) assms(2) r(3)] by (simp add: vmem_def fun_eq_iff not_sym)
  ultimately show ?thesis using that user_store_page [OF r(1) assms(2)] assms(1) by (simp add: sees_def)
qed

lemma sees_show:
  assumes "sees p k s m v" "n < 4096"
  obtains t where "user_store (screen_pointer (of_nat k) + of_nat n) b s = Some t" "sees p k t m (v(n := b))"
proof -
  have r: "runs s p" "p < 6" "k < 3" using assms(1) by (auto simp: sees_def runs_def)
  have k: "unat (of_nat k :: u8) = k" using r(3) by (simp add: unsigned_of_nat take_bit_nat_eq_self_iff)
  let ?t = "s\<lparr>phys := (phys s)(screen_addr k n := b)\<rparr>"
  have "user_translate s (screen_pointer (of_nat k) + of_nat n) = Some (screen_addr k n)"
    by (rule screen_pointer_user [OF r(1), of "of_nat k" n, unfolded k, OF r(3) assms(2)])
  then have "user_store (screen_pointer (of_nat k) + of_nat n) b s = Some ?t" by (simp add: user_store_def)
  moreover have "umem p ?t = umem p s"
    using page_not_screen [OF r(2) _ r(3) assms(2)] by (auto simp: umem_def fun_eq_iff)
  moreover have "vmem k ?t = (vmem k s)(n := b)"
    using screen_addr_inj [OF r(3,3) _ assms(2)] assms(2) by (auto simp: vmem_def fun_eq_iff)
  ultimately show ?thesis using that assms(1) by (simp add: sees_def)
qed

section \<open>Words in memory\<close>

definition word_in :: "(u32 \<Rightarrow> u8) \<Rightarrow> u32 \<Rightarrow> u16" where
  "word_in m a = ucast (word_of_bytes [m a, m (a + 1), 0, 0])"

definition dword_in :: "(u32 \<Rightarrow> u8) \<Rightarrow> u32 \<Rightarrow> u32" where
  "dword_in m a = word_of_bytes [m a, m (a + 1), m (a + 2), m (a + 3)]"

definition word_upd :: "(u32 \<Rightarrow> u8) \<Rightarrow> u32 \<Rightarrow> u16 \<Rightarrow> u32 \<Rightarrow> u8" where
  "word_upd m a v = m(a := ucast v, a + 1 := ucast (drop_bit 8 v))"

definition dword_upd :: "(u32 \<Rightarrow> u8) \<Rightarrow> u32 \<Rightarrow> u32 \<Rightarrow> u32 \<Rightarrow> u8" where
  "dword_upd m a v = m(a := ucast v, a + 1 := ucast (drop_bit 8 v), a + 2 := ucast (drop_bit 16 v), a + 3 := ucast (drop_bit 24 v))"

lemma word_of_word: "ucast (word_of_bytes [ucast v, ucast (drop_bit 8 v), 0, 0]) = (v :: u16)"
proof (rule bit_word_eqI)
  fix n assume "n < LENGTH(16)"
  then consider "n < 8" | "8 \<le> n" "n < 16" by force
  then show "bit (ucast (word_of_bytes [ucast v, ucast (drop_bit 8 v), 0, 0]) :: u16) n = bit v n"
    by cases (auto simp: word_of_bytes_def bit_simps)
qed

lemma word_in_upd [simp]: "word_in (word_upd m a v) a = v"
  by (simp add: word_in_def word_upd_def word_of_word)

lemma dword_in_upd [simp]: "dword_in (dword_upd m a v) a = v"
  by (simp add: dword_in_def dword_upd_def word_of_dword)

lemma sees_get_word: "sees p k s m v \<Longrightarrow> in_page a \<Longrightarrow> in_page (a + 1) \<Longrightarrow> get_word s a = Some (word_in m a)"
  by (simp add: get_word_def word_in_def sees_load)

lemma sees_get_dword:
  "sees p k s m v \<Longrightarrow> in_page a \<Longrightarrow> in_page (a + 1) \<Longrightarrow> in_page (a + 2) \<Longrightarrow> in_page (a + 3) \<Longrightarrow> get_dword s a = Some (dword_in m a)"
  by (simp add: get_dword_def dword_in_def sees_load)

lemma sees_put_word:
  assumes "sees p k s m v" "in_page a" "in_page (a + 1)"
  obtains t where "put_word a w s = Some t" "sees p k t (word_upd m a w) v"
proof -
  obtain t where t: "user_store a (ucast w) s = Some t" "sees p k t (m(a := ucast w)) v" by (rule sees_store [OF assms(1,2)])
  obtain u where "user_store (a + 1) (ucast (drop_bit 8 w)) t = Some u" "sees p k u (m(a := ucast w, a + 1 := ucast (drop_bit 8 w))) v"
    by (rule sees_store [OF t(2) assms(3)])
  then show ?thesis using that t(1) by (simp add: put_word_def word_upd_def)
qed

lemma sees_put_dword:
  assumes "sees p k s m v" "in_page a" "in_page (a + 1)" "in_page (a + 2)" "in_page (a + 3)"
  obtains t where "put_dword a w s = Some t" "sees p k t (dword_upd m a w) v"
proof -
  obtain t where t: "user_store a (ucast w) s = Some t" "sees p k t (m(a := ucast w)) v" by (rule sees_store [OF assms(1,2)])
  obtain u where u: "user_store (a + 1) (ucast (drop_bit 8 w)) t = Some u" "sees p k u (m(a := ucast w, a + 1 := ucast (drop_bit 8 w))) v"
    by (rule sees_store [OF t(2) assms(3)])
  obtain x where x: "user_store (a + 2) (ucast (drop_bit 16 w)) u = Some x"
    "sees p k x (m(a := ucast w, a + 1 := ucast (drop_bit 8 w), a + 2 := ucast (drop_bit 16 w))) v"
    by (rule sees_store [OF u(2) assms(4)])
  obtain y where "user_store (a + 3) (ucast (drop_bit 24 w)) x = Some y"
    "sees p k y (m(a := ucast w, a + 1 := ucast (drop_bit 8 w), a + 2 := ucast (drop_bit 16 w), a + 3 := ucast (drop_bit 24 w))) v"
    by (rule sees_store [OF x(2) assms(5)])
  then show ?thesis using that t(1) u(1) x(1) by (simp add: put_dword_def dword_upd_def)
qed

lemma word_in_off [simp]:
  "c \<noteq> a \<Longrightarrow> c \<noteq> a + 1 \<Longrightarrow> c + 1 \<noteq> a \<Longrightarrow> word_in (word_upd m a w) c = word_in m c"
  by (simp add: word_in_def word_upd_def)

lemma upd_other [simp]:
  "c \<noteq> a \<Longrightarrow> c \<noteq> a + 1 \<Longrightarrow> word_upd m a w c = m c"
  "c \<noteq> a \<Longrightarrow> c \<noteq> a + 1 \<Longrightarrow> c \<noteq> a + 2 \<Longrightarrow> c \<noteq> a + 3 \<Longrightarrow> dword_upd m a d c = m c"
  by (simp_all add: word_upd_def dword_upd_def)

lemma fields_page:
  assumes "user_buffer a 16"
  shows "in_page a" "in_page (a + 1)" "in_page (a + 2)" "in_page (a + 3)" "in_page (a + 4)" "in_page (a + 5)" "in_page (a + 6)"
    "in_page (a + 7)" "in_page (a + 8)" "in_page (a + 9)" "in_page (a + 10)" "in_page (a + 11)" "in_page (a + 12)"
    "in_page (a + 13)" "in_page (a + 14)" "in_page (a + 15)"
  using user_buffer_page [OF assms, of 0] user_buffer_page [OF assms, of 1] user_buffer_page [OF assms, of 2]
    user_buffer_page [OF assms, of 3] user_buffer_page [OF assms, of 4] user_buffer_page [OF assms, of 5]
    user_buffer_page [OF assms, of 6] user_buffer_page [OF assms, of 7] user_buffer_page [OF assms, of 8]
    user_buffer_page [OF assms, of 9] user_buffer_page [OF assms, of 10] user_buffer_page [OF assms, of 11]
    user_buffer_page [OF assms, of 12] user_buffer_page [OF assms, of 13] user_buffer_page [OF assms, of 14]
    user_buffer_page [OF assms, of 15] by simp_all

lemma pointer_page:
  assumes "user_buffer a 4"
  shows "in_page a" "in_page (a + 1)" "in_page (a + 2)" "in_page (a + 3)"
  using user_buffer_page [OF assms, of 0] user_buffer_page [OF assms, of 1] user_buffer_page [OF assms, of 2]
    user_buffer_page [OF assms, of 3] by simp_all

section \<open>Memories that agree\<close>

text \<open>\<open>same_off A m m'\<close>: the two memories differ at addresses of \<open>A\<close> only.\<close>

definition same_off :: "u32 set \<Rightarrow> (u32 \<Rightarrow> u8) \<Rightarrow> (u32 \<Rightarrow> u8) \<Rightarrow> bool" where
  "same_off A m m' \<longleftrightarrow> (\<forall>x. x \<notin> A \<longrightarrow> m' x = m x)"

lemma same_off_refl [simp]: "same_off A m m"
  by (simp add: same_off_def)

lemma same_off_trans: "same_off A m n \<Longrightarrow> same_off B n q \<Longrightarrow> same_off (A \<union> B) m q"
  by (auto simp: same_off_def)

lemma same_off_mono: "same_off A m n \<Longrightarrow> A \<subseteq> B \<Longrightarrow> same_off B m n"
  by (auto simp: same_off_def)

lemma field_in_span: "i < n \<Longrightarrow> of_nat i = (k :: u32) \<Longrightarrow> a + k \<in> span a n"
  using spanI [of i n a] by simp

lemma fields_span:
  "a \<in> span a 16" "a + 1 \<in> span a 16" "a + 2 \<in> span a 16" "a + 3 \<in> span a 16" "a + 4 \<in> span a 16" "a + 5 \<in> span a 16"
  "a + 6 \<in> span a 16" "a + 7 \<in> span a 16" "a + 8 \<in> span a 16" "a + 9 \<in> span a 16" "a + 10 \<in> span a 16" "a + 11 \<in> span a 16"
  "a + 12 \<in> span a 16" "a + 13 \<in> span a 16" "a + 14 \<in> span a 16" "a + 15 \<in> span a 16"
  using spanI [of 0 16 a] by (simp_all add: field_in_span [of 1] field_in_span [of 2] field_in_span [of 3] field_in_span [of 4]
    field_in_span [of 5] field_in_span [of 6] field_in_span [of 7] field_in_span [of 8] field_in_span [of 9] field_in_span [of 10]
    field_in_span [of 11] field_in_span [of 12] field_in_span [of 13] field_in_span [of 14] field_in_span [of 15])

lemma pointer_span: "a \<in> span a 4" "a + 1 \<in> span a 4" "a + 2 \<in> span a 4" "a + 3 \<in> span a 4"
  using spanI [of 0 4 a] by (simp_all add: field_in_span [of 1] field_in_span [of 2] field_in_span [of 3])

lemma same_pointer:
  assumes "same_off A m m'" "span a 4 \<inter> A = {}"
  shows "dword_in m' a = dword_in m a"
proof -
  have "m' x = m x" if "x \<in> span a 4" for x using assms that by (auto simp: same_off_def)
  note e = pointer_span [of a, THEN this]
  show ?thesis by (simp add: dword_in_def e)
qed

lemma same_off_word: "a \<in> A \<Longrightarrow> a + 1 \<in> A \<Longrightarrow> same_off A m n \<Longrightarrow> same_off A m (word_upd n a w)"
  by (auto simp: same_off_def word_upd_def)

lemma same_off_dword: "span a 4 \<subseteq> A \<Longrightarrow> same_off A m n \<Longrightarrow> same_off A m (dword_upd n a w)"
  using pointer_span [of a] by (auto simp: same_off_def dword_upd_def)

lemma next_span: "span (a + 12) 4 \<subseteq> span a 16"
proof
  fix x assume "x \<in> span (a + 12) 4"
  then obtain j where "x = a + of_nat (12 + j)" "j < 4" by (auto simp: span_def add.assoc)
  then show "x \<in> span a 16" using spanI [of "12 + j" 16 a] by simp
qed

section \<open>Loops that store\<close>

lemma store_loop:
  assumes "user_buffer d n" "sees p k s m v"
    and "\<And>i s m'. i < n \<Longrightarrow> sees p k s m' v \<Longrightarrow> same_off (span d n) m m' \<Longrightarrow> f i s = Some (g i)"
  shows "\<exists>t m'. foldM (\<lambda>i s. do { c \<leftarrow> f i s; user_store (d + of_nat i) c s }) [0..<n] s = Some t \<and> sees p k t m' v
    \<and> same_off (span d n) m m' \<and> (\<forall>i<n. m' (d + of_nat i) = g i)"
proof -
  let ?f = "\<lambda>i s. do { c \<leftarrow> f i s; user_store (d + of_nat i) c s }"
  have "j \<le> n \<Longrightarrow> \<exists>t m'. foldM ?f [0..<j] s = Some t \<and> sees p k t m' v
    \<and> same_off (span d n) m m' \<and> (\<forall>i<j. m' (d + of_nat i) = g i)" for j
  proof (induction j)
    case 0
    then show ?case using assms(2) by auto
  next
    case (Suc j)
    then obtain t m' where t: "foldM ?f [0..<j] s = Some t" "sees p k t m' v" "same_off (span d n) m m'" "\<forall>i<j. m' (d + of_nat i) = g i"
      by auto
    have j: "j < n" using Suc.prems by simp
    obtain u where u: "user_store (d + of_nat j) (g j) t = Some u" "sees p k u (m'(d + of_nat j := g j)) v"
      by (rule sees_store [OF t(2) user_buffer_page [OF assms(1) j]])
    have "f j t = Some (g j)" by (rule assms(3) [OF j t(2,3)])
    moreover have "d + of_nat i \<noteq> d + of_nat j" if "i < j" for i
      using word_add_of_nat_inj [of i j d] that j assms(1) by (auto simp: user_buffer_def)
    moreover have "same_off (span d n) m (m'(d + of_nat j := g j))" using t(3) spanI [OF j] by (auto simp: same_off_def)
    moreover have "foldM ?f [0..<Suc j] s = Some u" using t(1) u(1) calculation(1) by (simp add: foldM_append)
    moreover have "\<forall>i<Suc j. (m'(d + of_nat j := g j)) (d + of_nat i) = g i" using t(4) calculation(2) by (auto simp: less_Suc_eq)
    ultimately show ?case using u(2) by blast
  qed
  then show ?thesis by simp
qed

end
