(* ===== verification/Blinks.thy ===== *)
theory Blinks
  imports Userview
begin

text \<open>
  The list of blinking characters of \<open>blink.S\<close>: \<open>mp1_ioctl\<close> and \<open>mp1_rtc_tasklet\<close> on the program's
  memory are insertion, removal and a step of a counter on a HOL list of structures.
\<close>

section \<open>The structures\<close>

record blink =
  location :: u16
  on_char :: u8
  off_char :: u8
  on_length :: u16
  off_length :: u16
  countdown :: u16
  status :: u16

definition blink_in :: "(u32 \<Rightarrow> u8) \<Rightarrow> u32 \<Rightarrow> blink" where
  "blink_in m a = \<lparr>location = word_in m a, on_char = m (a + 2), off_char = m (a + 3), on_length = word_in m (a + 4),
     off_length = word_in m (a + 6), countdown = word_in m (a + 8), status = word_in m (a + 10)\<rparr>"

text \<open>One tick of a blinking character: what it becomes, and what it shows.\<close>

definition due :: "blink \<Rightarrow> bool" where
  "due b \<longleftrightarrow> \<not> positive (countdown b - 1)"

definition lit_up :: "blink \<Rightarrow> bool" where
  "lit_up b \<longleftrightarrow> status b AND 1 \<noteq> 0"

definition blink_tick :: "blink \<Rightarrow> blink" where
  "blink_tick b =
     (if due b then b\<lparr>countdown := (if lit_up b then off_length b else on_length b), status := status b XOR 1\<rparr>
      else b\<lparr>countdown := countdown b - 1\<rparr>)"

definition show_tick :: "blink \<Rightarrow> (nat \<Rightarrow> u8) \<Rightarrow> nat \<Rightarrow> u8" where
  "show_tick b v =
     (if due b then v(2 * unat (location b) := (if lit_up b then off_char b else on_char b)) else v)"

text \<open>\<open>video l k m\<close>: the program was given the screen of terminal \<open>k\<close>, as \<open>vidmap\<close> does.\<close>

definition video :: "layout \<Rightarrow> nat \<Rightarrow> (u32 \<Rightarrow> u8) \<Rightarrow> bool" where
  "video l k m \<longleftrightarrow> user_buffer (vmem_base_addr l) 4 \<and> dword_in m (vmem_base_addr l) = screen_pointer (of_nat k)"

lemma poke_shows:
  assumes "sees p k s m v" "video l k m" "loc < 2000"
  obtains t where "mp1_poke l c (push_bit 1 (ucast (loc :: u16))) s = Some t" "sees p k t m (v(2 * unat loc := c))"
proof -
  have n: "2 * unat loc < 4096" using assms(3) by (simp add: word_less_nat_alt)
  have e: "push_bit 1 (ucast loc :: u32) = of_nat (2 * unat loc)"
    by (simp add: push_bit_eq_mult of_nat_unat)
  obtain t where t: "user_store (screen_pointer (of_nat k) + of_nat (2 * unat loc)) c s = Some t" "sees p k t m (v(2 * unat loc := c))"
    by (rule sees_show [OF assms(1) n])
  have "get_dword s (vmem_base_addr l) = Some (screen_pointer (of_nat k))"
    using sees_get_dword [OF assms(1)] pointer_page [of "vmem_base_addr l"] assms(2) by (simp add: video_def)
  then show ?thesis using that t unfolding mp1_poke_def e by simp
qed

lemma same_blink:
  assumes "same_off A m m'" "span a 16 \<inter> A = {}"
  shows "blink_in m' a = blink_in m a" "dword_in m' (a + 12) = dword_in m (a + 12)"
proof -
  have "m' x = m x" if "x \<in> span a 16" for x using assms that by (auto simp: same_off_def)
  note e = fields_span [of a, THEN this]
  show "blink_in m' a = blink_in m a" "dword_in m' (a + 12) = dword_in m (a + 12)"
    by (simp_all add: blink_in_def word_in_def dword_in_def add.assoc e)
qed

lemma same_video: "same_off A m m' \<Longrightarrow> span (vmem_base_addr l) 4 \<inter> A = {} \<Longrightarrow> video l k m' = video l k m"
  by (simp add: video_def same_pointer)

text \<open>A step writes within its structure, and shows what \<open>show_tick\<close> says.\<close>

lemma blink_step_ticks:
  assumes h: "sees p k s m v" "user_buffer a 16" "video l k m" "span (vmem_base_addr l) 4 \<inter> span a 16 = {}" "location (blink_in m a) < 2000"
  obtains t m' where "blink_step l a s = Some t" "sees p k t m' (show_tick (blink_in m a) v)" "blink_in m' a = blink_tick (blink_in m a)"
    "dword_in m' (a + 12) = dword_in m (a + 12)" "same_off (span a 16) m m'"
proof -
  note pg = fields_page [OF h(2)] and sp = fields_span [of a]
  define c where "c = countdown (blink_in m a) - 1"
  obtain t where t: "put_word (a + 8) c s = Some t" "sees p k t (word_upd m (a + 8) c) v"
    by (rule sees_put_word [OF h(1), of "a + 8"]) (simp_all add: pg add.assoc)
  have g: "get_word s (a + 8) = Some (c + 1)" using sees_get_word [OF h(1), of "a + 8"] by (simp add: pg add.assoc c_def blink_in_def)
  have g': "get_word t (a + 8) = Some c" using sees_get_word [OF t(2), of "a + 8"] by (simp add: pg add.assoc)
  let ?m = "word_upd m (a + 8) c"
  have o: "same_off (span a 16) m ?m" by (rule same_off_word) (simp_all add: sp add.assoc)
  show ?thesis
  proof (cases "positive c")
    case True
    then have "blink_step l a s = Some t" using t(1) g g' by (simp add: blink_step_def)
    moreover have "show_tick (blink_in m a) v = v" "blink_in ?m a = blink_tick (blink_in m a)" "dword_in ?m (a + 12) = dword_in m (a + 12)"
      using True by (simp_all add: show_tick_def blink_tick_def due_def blink_in_def c_def add.assoc dword_in_def)
    ultimately show ?thesis using that [of t ?m] t(2) o by simp
  next
    case False
    define on where "on = lit_up (blink_in m a)"
    define dx where "dx = (if on then off_length (blink_in m a) else on_length (blink_in m a))"
    define sta where "sta = status (blink_in m a)"
    have vd: "video l k ?m" using same_video [OF o h(4)] h(3) by simp
    obtain u where u: "mp1_poke l (if on then off_char (blink_in m a) else on_char (blink_in m a))
        (push_bit 1 (ucast (location (blink_in m a)))) t = Some u" "sees p k u ?m (show_tick (blink_in m a) v)"
      using poke_shows [OF t(2) vd h(5)] False by (auto simp: show_tick_def due_def c_def on_def)
    obtain w where w: "put_word (a + 8) dx u = Some w" "sees p k w (word_upd ?m (a + 8) dx) (show_tick (blink_in m a) v)"
      by (rule sees_put_word [OF u(2), of "a + 8"]) (simp_all add: pg add.assoc)
    obtain x where x: "put_word (a + 10) (sta XOR 1) w = Some x"
      "sees p k x (word_upd (word_upd ?m (a + 8) dx) (a + 10) (sta XOR 1)) (show_tick (blink_in m a) v)"
      by (rule sees_put_word [OF w(2), of "a + 10"]) (simp_all add: pg add.assoc)
    have r: "get_word t a = Some (location (blink_in m a))" "get_word t (a + 10) = Some sta"
      "user_load t (a + 3) = Some (off_char (blink_in m a))" "user_load t (a + 2) = Some (on_char (blink_in m a))"
      "get_word u (a + 6) = Some (off_length (blink_in m a))" "get_word u (a + 4) = Some (on_length (blink_in m a))"
      "get_word w (a + 10) = Some sta"
      using sees_get_word [OF t(2), of a] sees_get_word [OF t(2), of "a + 10"] sees_load [OF t(2), of "a + 3"] sees_load [OF t(2), of "a + 2"]
        sees_get_word [OF u(2), of "a + 6"] sees_get_word [OF u(2), of "a + 4"] sees_get_word [OF w(2), of "a + 10"]
      by (simp_all add: pg add.assoc blink_in_def sta_def)
    have "blink_node l a t = Some x"
      using u(1) w(1) x(1) r by (simp add: blink_node_def on_def lit_up_def sta_def dx_def Let_def split: if_splits)
    then have "blink_step l a s = Some x" using False t(1) g g' by (simp add: blink_step_def)
    moreover have "same_off (span a 16) m (word_upd (word_upd ?m (a + 8) dx) (a + 10) (sta XOR 1))"
      by (intro same_off_word o) (simp_all add: sp add.assoc)
    moreover have "blink_in (word_upd (word_upd ?m (a + 8) dx) (a + 10) (sta XOR 1)) a = blink_tick (blink_in m a)"
      using False by (simp add: blink_tick_def due_def blink_in_def c_def dx_def on_def sta_def add.assoc)
    moreover have "dword_in (word_upd (word_upd ?m (a + 8) dx) (a + 10) (sta XOR 1)) (a + 12) = dword_in m (a + 12)"
      by (simp add: dword_in_def add.assoc)
    ultimately show ?thesis using that x(2) by blast
  qed
qed

section \<open>The list\<close>

definition slot :: "layout \<Rightarrow> nat \<Rightarrow> u32" where
  "slot l i = blink_array l + of_nat (16 * i)"

definition slots :: "layout \<Rightarrow> u32 set" where
  "slots l = slot l ` {..<2000}"

text \<open>The program's globals and the structure on its stack are in its page and apart from each other.\<close>

definition layout_ok :: "layout \<Rightarrow> bool" where
  "layout_ok l \<longleftrightarrow> user_buffer (blink_array l) 32000 \<and> user_buffer (vmem_base_addr l) 4 \<and> user_buffer (mp1_list_head l) 4
     \<and> user_buffer (add_temp l) 16
     \<and> span (vmem_base_addr l) 4 \<inter> span (blink_array l) 32000 = {}
     \<and> span (mp1_list_head l) 4 \<inter> span (blink_array l) 32000 = {}
     \<and> span (add_temp l) 16 \<inter> span (blink_array l) 32000 = {}
     \<and> span (vmem_base_addr l) 4 \<inter> span (mp1_list_head l) 4 = {}
     \<and> span (vmem_base_addr l) 4 \<inter> span (add_temp l) 16 = {}
     \<and> span (mp1_list_head l) 4 \<inter> span (add_temp l) 16 = {}"

lemma slot_span:
  assumes "i < 2000"
  shows "span (slot l i) 16 \<subseteq> span (blink_array l) 32000"
proof
  fix x assume "x \<in> span (slot l i) 16"
  then obtain j where "x = blink_array l + of_nat (16 * i + j)" "j < 16" by (auto simp: span_def slot_def add.assoc)
  then show "x \<in> span (blink_array l) 32000" using spanI [of "16 * i + j" 32000 "blink_array l"] assms by simp
qed

lemma slot_at:
  assumes "layout_ok l" "i < 2000" "x \<in> span (slot l i) 16"
  shows "unat (blink_array l) + 16 * i \<le> unat x" "unat x < unat (blink_array l) + 16 * i + 16" "0x8000000 \<le> unat x" "unat x < 0x8400000"
proof -
  obtain j where "x = blink_array l + of_nat (16 * i + j)" "j < 16" using assms(3) by (auto simp: span_def slot_def add.assoc)
  moreover have "user_buffer (blink_array l) 32000" using assms(1) by (simp add: layout_ok_def)
  ultimately have "unat x = unat (blink_array l) + (16 * i + j)" "0x8000000 \<le> unat x" "unat x < 0x8400000"
    using user_buffer_at [of "blink_array l" 32000 "16 * i + j"] assms(2) by auto
  then show "unat (blink_array l) + 16 * i \<le> unat x" "unat x < unat (blink_array l) + 16 * i + 16" "0x8000000 \<le> unat x" "unat x < 0x8400000"
    using \<open>j < 16\<close> by auto
qed

lemma slots_apart:
  assumes "layout_ok l" "a \<in> slots l" "b \<in> slots l" "a \<noteq> b"
  shows "span a 16 \<inter> span b 16 = {}"
proof -
  obtain i j where ij: "a = slot l i" "b = slot l j" "i < 2000" "j < 2000" using assms(2,3) by (auto simp: slots_def)
  have "i = j" if "x \<in> span a 16" "x \<in> span b 16" for x
    using slot_at(1,2) [OF assms(1) ij(3), of x] slot_at(1,2) [OF assms(1) ij(4), of x] that ij(1,2) by auto
  then show ?thesis using ij assms(4) by blast
qed

lemma slot_buffer:
  assumes "layout_ok l" "a \<in> slots l"
  shows "user_buffer a 16" "a \<noteq> 0" "span a 16 \<subseteq> span (blink_array l) 32000"
    "span (vmem_base_addr l) 4 \<inter> span a 16 = {}" "span (mp1_list_head l) 4 \<inter> span a 16 = {}" "span (add_temp l) 16 \<inter> span a 16 = {}"
proof -
  obtain i where i: "a = slot l i" "i < 2000" using assms(2) by (auto simp: slots_def)
  have "user_buffer (blink_array l) 32000" using assms(1) by (simp add: layout_ok_def)
  then show "user_buffer a 16" "a \<noteq> 0"
    using user_buffer_at [of "blink_array l" 32000 "16 * i"] i unfolding slot_def user_buffer_def by auto
  show sub: "span a 16 \<subseteq> span (blink_array l) 32000" unfolding i(1) by (rule slot_span [OF i(2)])
  show "span (vmem_base_addr l) 4 \<inter> span a 16 = {}" "span (mp1_list_head l) 4 \<inter> span a 16 = {}" "span (add_temp l) 16 \<inter> span a 16 = {}"
    using sub assms(1) unfolding layout_ok_def by blast+
qed

text \<open>The structures from an address on, linked by their last field; address 0 ends the list.\<close>

primrec chain :: "(u32 \<Rightarrow> u8) \<Rightarrow> u32 \<Rightarrow> u32 list \<Rightarrow> bool" where
  "chain m h [] \<longleftrightarrow> h = 0"
| "chain m h (a # as) \<longleftrightarrow> h = a \<and> a \<noteq> 0 \<and> chain m (dword_in m (a + 12)) as"

lemma chain_same: "same_off A m m' \<Longrightarrow> \<forall>a\<in>set as. span a 16 \<inter> A = {} \<Longrightarrow> chain m' h as = chain m h as"
  by (induction as arbitrary: h) (auto simp: same_blink(2))

text \<open>\<open>blinking l m as\<close>: the list the head points to is made of different elements of \<open>blink_array\<close>, whose
  characters are on the screen; the first cell, whose location would mark the element as free, is not used.\<close>

definition on_screen :: "blink \<Rightarrow> bool" where
  "on_screen b \<longleftrightarrow> 0 < location b \<and> location b < 2000"

definition blinking :: "layout \<Rightarrow> (u32 \<Rightarrow> u8) \<Rightarrow> u32 list \<Rightarrow> bool" where
  "blinking l m as \<longleftrightarrow> chain m (dword_in m (mp1_list_head l)) as \<and> distinct as \<and> set as \<subseteq> slots l
     \<and> (\<forall>a\<in>set as. on_screen (blink_in m a))"

lemma tick_location [simp]: "location (blink_tick b) = location b" "on_screen (blink_tick b) = on_screen b"
  by (simp_all add: blink_tick_def on_screen_def)

definition nodes :: "u32 list \<Rightarrow> u32 set" where
  "nodes as = (\<Union>a\<in>set as. span a 16)"

lemma tasklet_loop_ticks:
  assumes "sees p k s m v" "layout_ok l" "video l k m" "chain m h as" "distinct as" "set as \<subseteq> slots l" "\<forall>a\<in>set as. location (blink_in m a) < 2000"
  shows "\<exists>t m'. tasklet_loop l h s = Some t \<and> sees p k t m' (fold show_tick (map (blink_in m) as) v)
    \<and> map (blink_in m') as = map (blink_tick \<circ> blink_in m) as \<and> chain m' h as \<and> same_off (nodes as) m m'"
  using assms
proof (induction as arbitrary: h s m v)
  case Nil
  then show ?case by (subst tasklet_loop.simps) (auto simp: nodes_def)
next
  case (Cons a as)
  have a: "a \<in> slots l" "h = a" "chain m (dword_in m (a + 12)) as" using Cons.prems(4,6) by auto
  note sb = slot_buffer [OF Cons.prems(2) a(1)]
  obtain t m1 where t: "blink_step l a s = Some t" "sees p k t m1 (show_tick (blink_in m a) v)" "blink_in m1 a = blink_tick (blink_in m a)"
    "dword_in m1 (a + 12) = dword_in m (a + 12)" "same_off (span a 16) m m1"
    using blink_step_ticks [OF Cons.prems(1) sb(1) Cons.prems(3) sb(4)] Cons.prems(7) by auto
  have dis: "span b 16 \<inter> span a 16 = {}" if "b \<in> set as" for b
    using slots_apart [OF Cons.prems(2), of b a] that Cons.prems(5,6) by auto
  have eq: "map (blink_in m1) as = map (blink_in m) as" using same_blink(1) [OF t(5)] dis by simp
  have c: "chain m1 (dword_in m (a + 12)) as" using chain_same [OF t(5)] dis a(3) by simp
  have "video l k m1" using same_video [OF t(5) sb(4)] Cons.prems(3) by simp
  moreover have "\<forall>b\<in>set as. location (blink_in m1 b) < 2000" using eq Cons.prems(7) by (auto simp: map_eq_conv)
  ultimately obtain u m2 where u: "tasklet_loop l (dword_in m (a + 12)) t = Some u"
    "sees p k u m2 (fold show_tick (map (blink_in m1) as) (show_tick (blink_in m a) v))"
    "map (blink_in m2) as = map (blink_tick \<circ> blink_in m1) as" "chain m2 (dword_in m (a + 12)) as" "same_off (nodes as) m1 m2"
    using Cons.IH [OF t(2) Cons.prems(2) _ c] Cons.prems(5,6) by auto
  have away: "span a 16 \<inter> nodes as = {}" using dis by (auto simp: nodes_def)
  have "get_dword t (a + 12) = Some (dword_in m (a + 12))"
    using sees_get_dword [OF t(2), of "a + 12"] t(4) by (simp add: fields_page [OF sb(1)] add.assoc)
  then have "tasklet_loop l h s = Some u" using t(1) u(1) a(2) sb(2) by (subst tasklet_loop.simps) simp
  moreover have "same_off (nodes (a # as)) m m2" using same_off_trans [OF t(5) u(5)] by (simp add: nodes_def)
  moreover have "map (blink_tick \<circ> blink_in m1) as = map (blink_tick \<circ> blink_in m) as" using eq by (auto simp: map_eq_conv)
  ultimately show ?case
    using u same_blink [OF u(5) away] t(3,4) eq a(2) sb(2) by (intro exI [of _ u] exI [of _ m2]) simp
qed

theorem tasklet_ticks:
  assumes "sees p k s m v" "layout_ok l" "video l k m" "blinking l m as"
  shows "\<exists>t m'. mp1_rtc_tasklet l s = Some t \<and> sees p k t m' (fold show_tick (map (blink_in m) as) v)
    \<and> blinking l m' as \<and> video l k m' \<and> map (blink_in m') as = map (blink_tick \<circ> blink_in m) as"
proof -
  note b = assms(4) [unfolded blinking_def]
  obtain t m' where t: "tasklet_loop l (dword_in m (mp1_list_head l)) s = Some t" "sees p k t m' (fold show_tick (map (blink_in m) as) v)"
    "map (blink_in m') as = map (blink_tick \<circ> blink_in m) as" "chain m' (dword_in m (mp1_list_head l)) as" "same_off (nodes as) m m'"
    using tasklet_loop_ticks [OF assms(1-3), of "dword_in m (mp1_list_head l)" as] b by (auto simp: on_screen_def)
  have n: "span (mp1_list_head l) 4 \<inter> nodes as = {}" "span (vmem_base_addr l) 4 \<inter> nodes as = {}"
    using slot_buffer(4,5) [OF assms(2)] b by (auto simp: nodes_def)
  have "get_dword s (mp1_list_head l) = Some (dword_in m (mp1_list_head l))"
    using sees_get_dword [OF assms(1)] pointer_page [of "mp1_list_head l"] assms(2) by (simp add: layout_ok_def)
  then have "mp1_rtc_tasklet l s = Some t" using t(1) by (simp add: mp1_rtc_tasklet_def)
  moreover have "blinking l m' as"
    using b t(3,4) same_pointer [OF t(5) n(1)] unfolding blinking_def by (auto simp: map_eq_conv)
  moreover have "video l k m'" using same_video [OF t(5) n(2)] assms(3) by simp
  ultimately show ?thesis using t(2,3) by blast
qed

section \<open>Finding\<close>

definition at_location :: "(u32 \<Rightarrow> u8) \<Rightarrow> u16 \<Rightarrow> u32 list \<Rightarrow> u32 option" where
  "at_location m x as = find (\<lambda>a. location (blink_in m a) = x) as"

definition or_null :: "u32 option \<Rightarrow> u32" where
  "or_null r = (case r of None \<Rightarrow> 0 | Some a \<Rightarrow> a)"

lemma find_loop_first:
  assumes "sees p k s m v" "chain m h as" "\<forall>a\<in>set as. user_buffer a 16"
  shows "find_loop x h s = Some (or_null (at_location m x as))"
  using assms(2,3)
proof (induction as arbitrary: h)
  case Nil
  then show ?case by (subst find_loop.simps) (simp add: at_location_def or_null_def)
next
  case (Cons a as)
  then have pg: "user_buffer a 16" and a: "h = a" "a \<noteq> 0" by auto
  have "get_word s a = Some (location (blink_in m a))" "get_dword s (a + 12) = Some (dword_in m (a + 12))"
    using sees_get_word [OF assms(1), of a] sees_get_dword [OF assms(1), of "a + 12"] by (simp_all add: fields_page [OF pg] blink_in_def add.assoc)
  moreover have "find_loop x (dword_in m (a + 12)) s = Some (or_null (at_location m x as))" using Cons.IH Cons.prems by simp
  ultimately show ?case using a by (subst find_loop.simps) (simp add: at_location_def or_null_def)
qed

lemma find_helper_first:
  assumes "sees p k s m v" "layout_ok l" "blinking l m as"
  shows "mp1_find_helper l x s = Some (or_null (at_location m (ucast x) as))"
proof -
  have "get_dword s (mp1_list_head l) = Some (dword_in m (mp1_list_head l))"
    using sees_get_dword [OF assms(1)] pointer_page [of "mp1_list_head l"] assms(2) by (simp add: layout_ok_def)
  moreover have "\<forall>a\<in>set as. user_buffer a 16" using slot_buffer(1) [OF assms(2)] assms(3) by (auto simp: blinking_def)
  ultimately show ?thesis using find_loop_first [OF assms(1)] assms(3) by (simp add: mp1_find_helper_def blinking_def)
qed

section \<open>Copying and allocating\<close>

lemma memcpy_struct:
  assumes "sees p k s m v" "user_buffer d 16" "user_buffer a 16" "span a 16 \<inter> span d 16 = {}"
  obtains t m' where "ece391_memcpy d a 16 s = Some (0, t)" "sees p k t m' v" "same_off (span d 16) m m'"
    "blink_in m' d = blink_in m a" "dword_in m' (d + 12) = dword_in m (a + 12)"
proof -
  have ld: "user_load u (a + of_nat i) = Some (m (a + of_nat i))" if "i < 16" "sees p k u m' v" "same_off (span d 16) m m'" for i u m'
    using sees_load [OF that(2) user_buffer_page [OF assms(3) that(1)]] that(3) spanI [OF that(1), of a] assms(4)
    by (auto simp: same_off_def)
  obtain t m' where t: "foldM (\<lambda>i s. do { c \<leftarrow> user_load s (a + of_nat i); user_store (d + of_nat i) c s }) [0..<16] s = Some t"
    "sees p k t m' v" "same_off (span d 16) m m'" "\<forall>i<16. m' (d + of_nat i) = m (a + of_nat i)"
    using store_loop [OF assms(2,1), of "\<lambda>i s. user_load s (a + of_nat i)" "\<lambda>i. m (a + of_nat i)"] ld by blast
  have e: "m' (d + of_nat i) = m (a + of_nat i)" if "i < 16" for i using t(4) that by blast
  note e = e [of 0] e [of 1] e [of 2] e [of 3] e [of 4] e [of 5] e [of 6] e [of 7] e [of 8] e [of 9] e [of 10] e [of 11] e [of 12]
    e [of 13] e [of 14] e [of 15]
  have "ece391_memcpy d a 16 s = Some (0, t)" using t(1) by (simp add: ece391_memcpy_def)
  moreover have "blink_in m' d = blink_in m a" "dword_in m' (d + 12) = dword_in m (a + 12)"
    using e by (simp_all add: blink_in_def word_in_def dword_in_def add.assoc)
  ultimately show ?thesis using that t(2,3) by blast
qed

lemma free_zeroes:
  assumes "sees p k s m v" "user_buffer d 16"
  obtains t m' where "mp1_free d s = Some t" "sees p k t m' v" "same_off (span d 16) m m'" "location (blink_in m' d) = 0"
proof -
  obtain t m' where t: "foldM (\<lambda>i s. do { c \<leftarrow> Some 0; user_store (d + of_nat i) c s }) [0..<16] s = Some t"
    "sees p k t m' v" "same_off (span d 16) m m'" "\<forall>i<16. m' (d + of_nat i) = 0"
    using store_loop [OF assms(2,1), of "\<lambda>i s. Some 0" "\<lambda>i. 0"] by blast
  have "m' d = 0" "m' (d + 1) = 0" using t(4) [rule_format, of 0] t(4) [rule_format, of 1] by simp_all
  then have "location (blink_in m' d) = 0" by (simp add: blink_in_def word_in_def word_of_bytes_def)
  moreover have "mp1_free d s = Some t" using t(1) by (simp add: mp1_free_def ece391_memset_def)
  ultimately show ?thesis using that t(2,3) by blast
qed

definition free_node :: "layout \<Rightarrow> (u32 \<Rightarrow> u8) \<Rightarrow> nat option" where
  "free_node l m = find (\<lambda>i. location (blink_in m (slot l i)) = 0) [0..<2000]"

lemma malloc_free_node:
  assumes "sees p k s m v" "layout_ok l"
  shows "mp1_malloc l s = Some (or_null (map_option (slot l) (free_node l m)))"
proof -
  have "malloc_from l is s = Some (or_null (map_option (slot l) (find (\<lambda>i. location (blink_in m (slot l i)) = 0) is)))"
    if "set is \<subseteq> {..<2000}" for "is"
    using that
  proof (induction "is")
    case Nil
    then show ?case by (simp add: or_null_def)
  next
    case (Cons i js)
    then have "slot l i \<in> slots l" by (simp add: slots_def)
    from slot_buffer(1) [OF assms(2) this] have "get_word s (slot l i) = Some (location (blink_in m (slot l i)))"
      using sees_get_word [OF assms(1)] by (simp add: fields_page blink_in_def)
    then show ?case using Cons by (simp add: or_null_def slot_def)
  qed
  from this [of "[0..<2000]"] show ?thesis by (simp add: mp1_malloc_def free_node_def atLeast0LessThan)
qed

section \<open>Adding\<close>

definition started :: "blink \<Rightarrow> blink" where
  "started b = b\<lparr>countdown := on_length b, status := 1\<rparr>"

lemma started_simps [simp]: "location (started b) = location b" "on_char (started b) = on_char b"
  by (simp_all add: started_def)

lemma same_free_node:
  assumes "same_off (span (add_temp l) 16) m m'" "layout_ok l"
  shows "free_node l m' = free_node l m"
proof -
  have "blink_in m' (slot l i) = blink_in m (slot l i)" if "i < 2000" for i
  proof (rule same_blink(1) [OF assms(1)])
    have "slot l i \<in> slots l" using that by (simp add: slots_def)
    then show "span (slot l i) 16 \<inter> span (add_temp l) 16 = {}" using slot_buffer(6) [OF assms(2)] by blast
  qed
  then show ?thesis unfolding free_node_def by (intro find_cong) auto
qed

text \<open>The copy on the stack, with \<open>countdown\<close> and \<open>status\<close> set.\<close>

lemma add_prepares:
  assumes "sees p k s m v" "layout_ok l" "user_buffer arg 16" "span arg 16 \<inter> span (add_temp l) 16 = {}"
  obtains t1 t2 t m1 m' where "ece391_memcpy (add_temp l) arg 16 s = Some (0, t1)" "get_word t1 (add_temp l) = Some (location (blink_in m arg))"
    "sees p k t1 m1 v" "same_off (span (add_temp l) 16) m m1"
    "put_word (add_temp l + 10) 1 t1 = Some t2" "get_word t2 (add_temp l + 4) = Some (on_length (blink_in m arg))"
    "put_word (add_temp l + 8) (on_length (blink_in m arg)) t2 = Some t" "sees p k t m' v" "same_off (span (add_temp l) 16) m m'"
    "blink_in m' (add_temp l) = started (blink_in m arg)"
proof -
  have ub: "user_buffer (add_temp l) 16" using assms(2) by (simp add: layout_ok_def)
  note pg = fields_page [OF ub] and sp = fields_span [of "add_temp l"]
  obtain t1 m1 where t1: "ece391_memcpy (add_temp l) arg 16 s = Some (0, t1)" "sees p k t1 m1 v" "same_off (span (add_temp l) 16) m m1"
    "blink_in m1 (add_temp l) = blink_in m arg"
    by (rule memcpy_struct [OF assms(1) ub assms(3,4)])
  obtain t2 where t2: "put_word (add_temp l + 10) 1 t1 = Some t2" "sees p k t2 (word_upd m1 (add_temp l + 10) 1) v"
    by (rule sees_put_word [OF t1(2), of "add_temp l + 10"]) (simp_all add: pg add.assoc)
  let ?o = "on_length (blink_in m arg)"
  obtain t where t: "put_word (add_temp l + 8) ?o t2 = Some t"
    "sees p k t (word_upd (word_upd m1 (add_temp l + 10) 1) (add_temp l + 8) ?o) v"
    by (rule sees_put_word [OF t2(2), of "add_temp l + 8"]) (simp_all add: pg add.assoc)
  have "get_word t1 (add_temp l) = Some (location (blink_in m arg))" "get_word t2 (add_temp l + 4) = Some ?o"
    using sees_get_word [OF t1(2), of "add_temp l"] sees_get_word [OF t2(2), of "add_temp l + 4"] arg_cong [OF t1(4), of location]
      arg_cong [OF t1(4), of on_length] by (simp_all add: pg add.assoc blink_in_def)
  moreover have "same_off (span (add_temp l) 16) m (word_upd (word_upd m1 (add_temp l + 10) 1) (add_temp l + 8) ?o)"
    by (intro same_off_word t1(3)) (simp_all add: sp add.assoc)
  moreover have "blink_in (word_upd (word_upd m1 (add_temp l + 10) 1) (add_temp l + 8) ?o) (add_temp l) = started (blink_in m arg)"
    using t1(4) by (simp add: started_def blink_in_def add.assoc)
  ultimately show ?thesis using that t1(1,2,3) t2(1) t by blast
qed

lemma add_refuses:
  assumes "sees p k s m v" "layout_ok l" "user_buffer arg 16" "span arg 16 \<inter> span (add_temp l) 16 = {}"
    and "2000 \<le> location (blink_in m arg) \<or> free_node l m = None"
  shows "\<exists>t m'. mp1_ioctl_add l arg s = Some (-1, t) \<and> sees p k t m' v \<and> same_off (span (add_temp l) 16) m m'"
proof -
  obtain t1 t2 t m1 m' where t: "ece391_memcpy (add_temp l) arg 16 s = Some (0, t1)" "get_word t1 (add_temp l) = Some (location (blink_in m arg))"
    "sees p k t1 m1 v" "same_off (span (add_temp l) 16) m m1"
    "put_word (add_temp l + 10) 1 t1 = Some t2" "get_word t2 (add_temp l + 4) = Some (on_length (blink_in m arg))"
    "put_word (add_temp l + 8) (on_length (blink_in m arg)) t2 = Some t" "sees p k t m' v" "same_off (span (add_temp l) 16) m m'"
    using add_prepares [OF assms(1-4)] by metis
  show ?thesis
  proof (cases "2000 \<le> location (blink_in m arg)")
    case True
    then have "mp1_ioctl_add l arg s = Some (-1, t1)" using t(1,2) by (simp add: mp1_ioctl_add_def)
    then show ?thesis using t(3,4) by blast
  next
    case False
    then have "free_node l m = None" using assms(5) by simp
    then have "mp1_malloc l t = Some 0"
      using malloc_free_node [OF t(8) assms(2)] same_free_node [OF t(9) assms(2)] by (simp add: or_null_def)
    then have "mp1_ioctl_add l arg s = Some (-1, t)" using False t by (simp add: mp1_ioctl_add_def)
    then show ?thesis using t(8,9) by blast
  qed
qed

lemma free_node_Some: "free_node l m = Some i \<Longrightarrow> i < 2000 \<and> location (blink_in m (slot l i)) = 0"
  by (auto simp: free_node_def find_Some_iff)

lemma add_links:
  assumes "sees p k s m v" "layout_ok l" "video l k m" "user_buffer arg 16" "span arg 16 \<inter> span (add_temp l) 16 = {}"
    and "location (blink_in m arg) < 2000" "free_node l m = Some i"
  defines "a \<equiv> slot l i" and "h \<equiv> mp1_list_head l" and "b \<equiv> blink_in m arg"
  obtains t m' where "mp1_ioctl_add l arg s = Some (0, t)" "sees p k t m' (v(2 * unat (location b) := on_char b))"
    "blink_in m' a = started b" "dword_in m' (a + 12) = dword_in m h" "dword_in m' h = a"
    "same_off (span (add_temp l) 16 \<union> span a 16 \<union> span h 4) m m'"
proof -
  have as: "a \<in> slots l" using free_node_Some [OF assms(7)] by (simp add: slots_def a_def)
  note sb = slot_buffer [OF assms(2) as] and lo = assms(2) [unfolded layout_ok_def]
  note pg = fields_page [OF sb(1)] and sp = fields_span [of a]
  have hb: "user_buffer h 4" using lo by (simp add: h_def)
  have ub: "user_buffer (add_temp l) 16" using lo by simp
  obtain t1 t2 t3 m1 m3 where t: "ece391_memcpy (add_temp l) arg 16 s = Some (0, t1)" "get_word t1 (add_temp l) = Some (location b)"
    "sees p k t1 m1 v" "same_off (span (add_temp l) 16) m m1"
    "put_word (add_temp l + 10) 1 t1 = Some t2" "get_word t2 (add_temp l + 4) = Some (on_length b)"
    "put_word (add_temp l + 8) (on_length b) t2 = Some t3" "sees p k t3 m3 v" "same_off (span (add_temp l) 16) m m3"
    "blink_in m3 (add_temp l) = started b"
    using add_prepares [OF assms(1,2,4,5)] unfolding b_def by metis
  have al: "mp1_malloc l t3 = Some a"
    using malloc_free_node [OF t(8) assms(2)] same_free_node [OF t(9) assms(2)] assms(7) by (simp add: or_null_def a_def)
  obtain t4 m4 where t4: "ece391_memcpy a (add_temp l) 16 t3 = Some (0, t4)" "sees p k t4 m4 v" "same_off (span a 16) m3 m4"
    "blink_in m4 a = started b"
    using memcpy_struct [OF t(8) sb(1) ub] sb(6) t(10) by (metis Int_commute)
  have hd: "dword_in m4 h = dword_in m h"
    using sb(5) lo unfolding h_def by (intro same_pointer [OF same_off_trans [OF t(9) t4(3)]]) (simp add: Int_Un_distrib)
  have gh: "get_dword t4 h = Some (dword_in m h)" using sees_get_dword [OF t4(2)] pointer_page [OF hb] hd by simp
  obtain t5 where t5: "put_dword (a + 12) (dword_in m h) t4 = Some t5" "sees p k t5 (dword_upd m4 (a + 12) (dword_in m h)) v"
    by (rule sees_put_dword [OF t4(2), of "a + 12"]) (simp_all add: pg add.assoc)
  obtain t6 where t6: "put_dword h a t5 = Some t6" "sees p k t6 (dword_upd (dword_upd m4 (a + 12) (dword_in m h)) h a) v"
    by (rule sees_put_dword [OF t5(2) pointer_page [OF hb]])
  let ?m5 = "dword_upd m4 (a + 12) (dword_in m h)"
  let ?m6 = "dword_upd ?m5 h a"
  have o5: "same_off (span a 16) m4 ?m5" by (rule same_off_dword [OF next_span same_off_refl])
  have o6: "same_off (span h 4) ?m5 ?m6" by (rule same_off_dword) simp_all
  have b5: "blink_in ?m5 a = started b" "dword_in ?m5 (a + 12) = dword_in m h" using t4(4) by (simp_all add: blink_in_def word_in_def add.assoc)
  have b6: "blink_in ?m6 a = started b" "dword_in ?m6 (a + 12) = dword_in m h"
    using same_blink [OF o6, of a] b5 sb(5) by (auto simp: h_def)
  have off: "same_off (span (add_temp l) 16 \<union> span a 16 \<union> span h 4) m ?m6"
    using same_off_trans [OF same_off_trans [OF same_off_trans [OF t(9) t4(3)] o5] o6] by (rule same_off_mono) auto
  have "span (vmem_base_addr l) 4 \<inter> (span (add_temp l) 16 \<union> span a 16 \<union> span h 4) = {}" using lo sb(4) by (auto simp: h_def)
  then have vd: "video l k ?m6" using same_video [OF off] assms(3) by simp
  obtain t7 where t7: "mp1_poke l (on_char b) (push_bit 1 (ucast (location b))) t6 = Some t7"
    "sees p k t7 ?m6 (v(2 * unat (location b) := on_char b))"
    using poke_shows [OF t6(2) vd, of "location b" "on_char b"] assms(6) by (auto simp: b_def)
  have "get_word t6 a = Some (location b)" "user_load t6 (a + 2) = Some (on_char b)"
    using sees_get_word [OF t6(2), of a] sees_load [OF t6(2), of "a + 2"] arg_cong [OF b6(1), of location] arg_cong [OF b6(1), of on_char]
    by (simp_all add: pg blink_in_def)
  then have "mp1_ioctl_add l arg s = Some (0, t7)"
    using t(1,2,5,6,7) al sb(2) t4(1) gh t5(1) t6(1) t7(1) assms(6) by (simp add: mp1_ioctl_add_def h_def b_def not_le)
  then show ?thesis using that t7(2) b6 off by simp
qed

text \<open>\<open>RTC_ADD\<close> of a character that is on the screen puts it at the front and shows it.\<close>

theorem add_inserts:
  assumes "sees p k s m v" "layout_ok l" "video l k m" "blinking l m as" "user_buffer arg 16" "span arg 16 \<inter> span (add_temp l) 16 = {}"
    and "on_screen (blink_in m arg)" "free_node l m = Some i"
  shows "\<exists>t m'. mp1_ioctl l arg 0 s = Some (0, t)
    \<and> sees p k t m' (v(2 * unat (location (blink_in m arg)) := on_char (blink_in m arg)))
    \<and> blinking l m' (slot l i # as) \<and> video l k m'
    \<and> map (blink_in m') (slot l i # as) = started (blink_in m arg) # map (blink_in m) as"
proof -
  let ?a = "slot l i" and ?W = "span (add_temp l) 16 \<union> span (slot l i) 16 \<union> span (mp1_list_head l) 4"
  have "location (blink_in m arg) < 2000" using assms(7) by (simp add: on_screen_def)
  then obtain t m' where t: "mp1_ioctl_add l arg s = Some (0, t)"
    "sees p k t m' (v(2 * unat (location (blink_in m arg)) := on_char (blink_in m arg)))"
    "blink_in m' ?a = started (blink_in m arg)" "dword_in m' (?a + 12) = dword_in m (mp1_list_head l)" "dword_in m' (mp1_list_head l) = ?a"
    "same_off ?W m m'"
    using add_links [OF assms(1-3,5,6) _ assms(8)] by metis
  note b = assms(4) [unfolded blinking_def] and f = free_node_Some [OF assms(8)]
  have as: "?a \<in> slots l" using f by (simp add: slots_def)
  have new: "?a \<notin> set as" using b f by (auto simp: on_screen_def)
  note sb = slot_buffer [OF assms(2) as]
  have dis: "span c 16 \<inter> ?W = {}" if "c \<in> set as" for c
  proof -
    have "c \<in> slots l" "c \<noteq> ?a" using that b new by auto
    then show ?thesis using slots_apart [OF assms(2) _ as, of c] slot_buffer(5,6) [OF assms(2), of c] by blast
  qed
  have e: "blink_in m' c = blink_in m c" if "c \<in> set as" for c by (rule same_blink(1) [OF t(6) dis [OF that]])
  have "chain m' (dword_in m (mp1_list_head l)) as" using chain_same [OF t(6)] dis b by blast
  then have "blinking l m' (?a # as)"
    using b e t(3-5) new as sb(2) assms(7) by (auto simp: blinking_def on_screen_def)
  moreover have "span (vmem_base_addr l) 4 \<inter> ?W = {}" using assms(2) sb(4) by (auto simp: layout_ok_def)
  then have "video l k m'" using same_video [OF t(6)] assms(3) by simp
  ultimately show ?thesis using t(1-3) e by (intro exI [of _ t] exI [of _ m']) (simp add: mp1_ioctl_def)
qed

text \<open>A location off the screen, or a full \<open>blink_array\<close>, is refused and the list stays as it is.\<close>

theorem add_rejects:
  assumes "sees p k s m v" "layout_ok l" "video l k m" "blinking l m as" "user_buffer arg 16" "span arg 16 \<inter> span (add_temp l) 16 = {}"
    and "2000 \<le> location (blink_in m arg) \<or> free_node l m = None"
  shows "\<exists>t m'. mp1_ioctl l arg 0 s = Some (-1, t) \<and> sees p k t m' v \<and> blinking l m' as \<and> video l k m'
    \<and> map (blink_in m') as = map (blink_in m) as"
proof -
  obtain t m' where t: "mp1_ioctl_add l arg s = Some (-1, t)" "sees p k t m' v" "same_off (span (add_temp l) 16) m m'"
    using add_refuses [OF assms(1,2,5-7)] by blast
  note b = assms(4) [unfolded blinking_def] and lo = assms(2) [unfolded layout_ok_def]
  have dis: "\<forall>c\<in>set as. span c 16 \<inter> span (add_temp l) 16 = {}" using slot_buffer(6) [OF assms(2)] b by blast
  have e: "map (blink_in m') as = map (blink_in m) as" using same_blink(1) [OF t(3)] dis by simp
  have "dword_in m' (mp1_list_head l) = dword_in m (mp1_list_head l)" by (rule same_pointer [OF t(3)]) (use lo in simp)
  then have "blinking l m' as" using b e chain_same [OF t(3) dis] by (auto simp: blinking_def map_eq_conv)
  moreover have "video l k m'" using same_video [OF t(3), of l k] lo assms(3) by simp
  ultimately show ?thesis using t(1,2) e by (intro exI [of _ t] exI [of _ m']) (simp add: mp1_ioctl_def)
qed

section \<open>Removing\<close>

text \<open>The last pointer before an element: the one at \<open>e\<close>, or the \<open>next\<close> field of its predecessor.\<close>

fun pointer_to :: "u32 \<Rightarrow> u32 list \<Rightarrow> u32" where
  "pointer_to e [] = e"
| "pointer_to e (x # xs) = pointer_to (x + 12) xs"

lemma data_apart_next: "span a 12 \<inter> span (a + 12) 4 = {}"
proof -
  have "(of_nat i :: u32) \<noteq> of_nat (12 + j)" if "i < 12" "j < 4" for i j
  proof
    assume "(of_nat i :: u32) = of_nat (12 + j)"
    then have "unat (of_nat i :: u32) = unat (of_nat (12 + j) :: u32)" by (rule arg_cong)
    then show False using that unat_of_nat_small [of i] unat_of_nat_small [of "12 + j"] by (simp del: of_nat_add)
  qed
  then show ?thesis by (auto simp: span_def add.assoc)
qed

lemma data_in_node: "span a 12 \<subseteq> span a 16"
  unfolding span_def by force

lemma same_data:
  assumes "same_off A m m'" "span a 12 \<inter> A = {}"
  shows "blink_in m' a = blink_in m a"
proof -
  have "m' (a + of_nat i) = m (a + of_nat i)" if "i < 12" for i using assms spanI [OF that, of a] by (auto simp: same_off_def)
  note e = this [of 0] this [of 1] this [of 2] this [of 3] this [of 4] this [of 5] this [of 6] this [of 7] this [of 8] this [of 9]
    this [of 10] this [of 11]
  show ?thesis using e by (simp add: blink_in_def word_in_def add.assoc)
qed

lemma pointer_to_span: "xs \<noteq> [] \<Longrightarrow> \<exists>x\<in>set xs. pointer_to e xs = x + 12"
proof (induction xs arbitrary: e)
  case (Cons x xs)
  then show ?case by (cases xs) (auto simp del: pointer_to.simps(2), auto)
qed simp

lemma find_prev_finds:
  assumes "sees p k s m v" "\<forall>x\<in>set xs. user_buffer x 16" "user_buffer e 4" "chain m (dword_in m e) (xs @ a # ys)" "a \<notin> set xs"
  shows "find_prev a e s = Some (pointer_to e xs)"
  using assms(2-)
proof (induction xs arbitrary: e)
  case Nil
  have "get_dword s e = Some a" using sees_get_dword [OF assms(1) pointer_page [OF Nil(2)]] Nil(3) by simp
  then show ?case by (subst find_prev.simps) simp
next
  case (Cons x xs)
  have "get_dword s e = Some x" using sees_get_dword [OF assms(1) pointer_page [OF Cons.prems(2)]] Cons.prems(3) by simp
  moreover have "user_buffer (x + 12) 4" using user_buffer_shift [of x 12 4] Cons.prems(1) by simp
  then have "find_prev a (x + 12) s = Some (pointer_to (x + 12) xs)" using Cons by simp
  ultimately show ?case using Cons.prems(4) by (subst find_prev.simps) auto
qed

text \<open>Storing the successor of \<open>a\<close> in that pointer takes \<open>a\<close> out of the list.\<close>

lemma unlink:
  assumes "layout_ok l" "chain m (dword_in m e) (xs @ a # ys)" "distinct (xs @ a # ys)" "set (xs @ a # ys) \<subseteq> slots l"
    and "\<forall>x\<in>set (xs @ ys). span e 4 \<inter> span x 16 = {}"
  defines "m' \<equiv> dword_upd m (pointer_to e xs) (dword_in m (a + 12))"
  shows "chain m' (dword_in m' e) (xs @ ys)"
proof -
  have "chain (dword_upd m (pointer_to e xs) w) (dword_in (dword_upd m (pointer_to e xs) w) e) (xs @ ys)"
    if "w = dword_in m (a + 12)" for w
    using assms(2-5) that
  proof (induction xs arbitrary: e)
    case Nil
    have "same_off (span e 4) m (dword_upd m e w)" by (rule same_off_dword) simp_all
    moreover have "\<forall>y\<in>set ys. span y 16 \<inter> span e 4 = {}" using Nil(4) by auto
    ultimately have "chain (dword_upd m e w) w ys = chain m w ys" by (rule chain_same)
    then show ?case using Nil(1,5) by simp
  next
    case (Cons x xs)
    let ?q = "pointer_to (x + 12) xs"
    have o: "same_off (span ?q 4) m (dword_upd m ?q w)" by (rule same_off_dword) simp_all
    obtain y where y: "y \<in> set (x # xs)" "?q = y + 12" using pointer_to_span [of "x # xs" e] by auto
    then have "span e 4 \<inter> span y 16 = {}" using Cons.prems(4) by auto
    then have "span e 4 \<inter> span ?q 4 = {}" using next_span [of y] y(2) by auto
    then have "dword_in (dword_upd m ?q w) e = x" using same_pointer [OF o] Cons.prems(1) by simp
    moreover have "\<forall>y\<in>set (xs @ ys). span (x + 12) 4 \<inter> span y 16 = {}"
    proof
      fix y assume "y \<in> set (xs @ ys)"
      then have "span x 16 \<inter> span y 16 = {}" using slots_apart [OF assms(1), of x y] Cons.prems(2,3) by auto
      then show "span (x + 12) 4 \<inter> span y 16 = {}" using next_span [of x] by blast
    qed
    then have "chain (dword_upd m ?q w) (dword_in (dword_upd m ?q w) (x + 12)) (xs @ ys)"
      using Cons.IH [of "x + 12"] Cons.prems by simp
    ultimately show ?case using Cons.prems(1) by simp
  qed
  then show ?thesis by (simp add: m'_def)
qed

lemma pointer_buffer:
  assumes "layout_ok l" "set xs \<subseteq> slots l" "c \<in> slots l"
  defines "q \<equiv> pointer_to (mp1_list_head l) xs"
  shows "user_buffer q 4" "span c 12 \<inter> span q 4 = {}" "span (vmem_base_addr l) 4 \<inter> span q 4 = {}"
proof -
  have "user_buffer q 4 \<and> span c 12 \<inter> span q 4 = {} \<and> span (vmem_base_addr l) 4 \<inter> span q 4 = {}"
  proof (cases "xs = []")
    case True
    then show ?thesis using slot_buffer(5) [OF assms(1,3)] data_in_node [of c] assms(1) by (auto simp: q_def layout_ok_def)
  next
    case False
    then obtain x where x: "x \<in> set xs" "q = x + 12" using pointer_to_span unfolding q_def by blast
    have xs: "x \<in> slots l" using x(1) assms(2) by auto
    have "span c 12 \<inter> span (x + 12) 4 = {}"
      using data_apart_next [of x] slots_apart [OF assms(1,3) xs] data_in_node [of c] next_span [of x] by (cases "c = x") blast+
    moreover have "user_buffer (x + 12) 4" using user_buffer_shift [of x 12 4] slot_buffer(1) [OF assms(1) xs] by simp
    moreover have "span (vmem_base_addr l) 4 \<inter> span (x + 12) 4 = {}" using slot_buffer(4) [OF assms(1) xs] next_span [of x] by blast
    ultimately show ?thesis using x(2) by simp
  qed
  then show "user_buffer q 4" "span c 12 \<inter> span q 4 = {}" "span (vmem_base_addr l) 4 \<inter> span q 4 = {}" by auto
qed

theorem remove_missing:
  assumes "sees p k s m v" "layout_ok l" "blinking l m as" "at_location m (ucast x) as = None"
  shows "mp1_ioctl l x 1 s = Some (-1, s)"
  using find_helper_first [OF assms(1-3)] assms(4) by (simp add: mp1_ioctl_def mp1_ioctl_remove_def or_null_def)

theorem remove_deletes:
  assumes "sees p k s m v" "layout_ok l" "video l k m" "blinking l m as" "at_location m (ucast x) as = Some a"
  shows "\<exists>t m'. mp1_ioctl l x 1 s = Some (0, t) \<and> sees p k t m' v \<and> blinking l m' (remove1 a as) \<and> video l k m'
    \<and> map (blink_in m') (remove1 a as) = map (blink_in m) (remove1 a as) \<and> location (blink_in m' a) = 0"
proof -
  note b = assms(4) [unfolded blinking_def]
  have "a \<in> set as" using assms(5) by (auto simp: at_location_def find_Some_iff)
  then obtain xs ys where as: "as = xs @ a # ys" "a \<notin> set xs" by (auto dest: split_list_first)
  then have rm: "remove1 a as = xs @ ys" by (simp add: remove1_append)
  have sl: "a \<in> slots l" "set xs \<subseteq> slots l" "set ys \<subseteq> slots l" "a \<notin> set ys" using b as by auto
  note sb = slot_buffer [OF assms(2) sl(1)]
  let ?h = "mp1_list_head l" and ?w = "dword_in m (a + 12)"
  let ?q = "pointer_to ?h xs"
  let ?m1 = "dword_upd m ?q ?w"
  note pb = pointer_buffer [OF assms(2) sl(2)]
  have fp: "find_prev a ?h s = Some ?q"
    using b as sl(2) slot_buffer(1) [OF assms(2)] assms(2) by (intro find_prev_finds [OF assms(1), of xs ?h a ys]) (auto simp: layout_ok_def)
  have gn: "get_dword s (a + 12) = Some ?w"
    using sees_get_dword [OF assms(1), of "a + 12"] by (simp add: fields_page [OF sb(1)] add.assoc)
  obtain t where t: "put_dword ?q ?w s = Some t" "sees p k t ?m1 v"
    by (rule sees_put_dword [OF assms(1) pointer_page [OF pb(1) [OF sl(1)]]])
  obtain u m' where u: "mp1_free a t = Some u" "sees p k u m' v" "same_off (span a 16) ?m1 m'" "location (blink_in m' a) = 0"
    by (rule free_zeroes [OF t(2) sb(1)])
  have o1: "same_off (span ?q 4) m ?m1" by (rule same_off_dword) simp_all
  have dis: "span c 16 \<inter> span a 16 = {}" if "c \<in> set (xs @ ys)" for c
    using slots_apart [OF assms(2) _ sl(1), of c] that sl as(2) by auto
  have e: "blink_in m' c = blink_in m c" if "c \<in> set (xs @ ys)" for c
  proof -
    have "c \<in> slots l" using that sl by auto
    then show ?thesis using same_blink(1) [OF u(3) dis [OF that]] same_data [OF o1 pb(2)] by simp
  qed
  have "\<forall>c\<in>set (xs @ ys). span ?h 4 \<inter> span c 16 = {}" using slot_buffer(5) [OF assms(2)] sl by auto
  then have "chain ?m1 (dword_in ?m1 ?h) (xs @ ys)" using unlink [OF assms(2), of m ?h xs a ys] b unfolding as(1) by blast
  then have "chain m' (dword_in m' ?h) (xs @ ys)"
    using chain_same [OF u(3), of "xs @ ys"] dis same_pointer [OF u(3) sb(5)] by auto
  then have "blinking l m' (xs @ ys)" using b e unfolding blinking_def as(1) by auto
  moreover have "video l k m'" using same_video [OF u(3) sb(4)] same_video [OF o1 pb(3) [OF sl(1)]] assms(3) by simp
  moreover have "mp1_find_helper l x s = Some a" using find_helper_first [OF assms(1,2,4)] assms(5) by (simp add: or_null_def)
  then have "mp1_ioctl l x 1 s = Some (0, u)" using fp gn t(1) u(1) sb(2) by (simp add: mp1_ioctl_def mp1_ioctl_remove_def)
  ultimately show ?thesis unfolding rm using u(2,4) e by (intro exI [of _ u] exI [of _ m']) simp
qed

section \<open>Synchronising\<close>

text \<open>\<open>RTC_SYNC\<close> copies the lengths and the phase, but shows the off character in either phase.\<close>

definition synced :: "blink \<Rightarrow> blink \<Rightarrow> blink" where
  "synced a b = b\<lparr>on_length := on_length a, off_length := off_length a, countdown := countdown a, status := status a\<rparr>"

lemma far_word:
  assumes "span a 16 \<inter> span b 16 = {}" "c \<in> span a 16" "c + 1 \<in> span a 16" "d \<in> span b 16" "d + 1 \<in> span b 16"
  shows "word_in (word_upd m d w) c = word_in m c"
  using assms by (intro word_in_off) auto

lemma low_bit_7: "\<not> bit (b AND 1 :: u8) 7"
  by (simp add: bit_simps)

lemma copies_phase:
  assumes "sees p k s m v" "user_buffer a 16" "user_buffer b 16" "a = b \<or> span a 16 \<inter> span b 16 = {}"
  obtains t1 t2 t3 t m' where "copy_word (b + 4) (a + 4) s = Some t1" "copy_word (b + 6) (a + 6) t1 = Some t2"
    "copy_word (b + 8) (a + 8) t2 = Some t3" "copy_word (b + 10) (a + 10) t3 = Some t" "sees p k t m' v"
    "blink_in m' b = synced (blink_in m a) (blink_in m b)" "dword_in m' (b + 12) = dword_in m (b + 12)" "same_off (span b 16) m m'"
proof -
  note pa = fields_page [OF assms(2)] and pb = fields_page [OF assms(3)] and sa = fields_span [of a] and sb = fields_span [of b]
  have step: "\<exists>u. copy_word d c x = Some u \<and> sees p k u (word_upd n d (word_in n c)) v"
    if "sees p k x n v" "in_page c" "in_page (c + 1)" "in_page d" "in_page (d + 1)" for c d x n
    using sees_get_word [OF that(1-3)] sees_put_word [OF that(1,4,5)] by (metis bind.bind_lunit copy_word_def)
  let ?m1 = "word_upd m (b + 4) (word_in m (a + 4))"
  let ?m2 = "word_upd ?m1 (b + 6) (word_in m (a + 6))"
  let ?m3 = "word_upd ?m2 (b + 8) (word_in m (a + 8))"
  let ?m4 = "word_upd ?m3 (b + 10) (word_in m (a + 10))"
  have e: "word_in ?m1 (a + 6) = word_in m (a + 6)" "word_in ?m2 (a + 8) = word_in m (a + 8)" "word_in ?m3 (a + 10) = word_in m (a + 10)"
    using assms(4) by (cases "a = b"; simp add: far_word [of a b] sa sb add.assoc)+
  obtain t1 where t1: "copy_word (b + 4) (a + 4) s = Some t1" "sees p k t1 ?m1 v"
    using step [OF assms(1), of "a + 4" "b + 4"] by (auto simp: pa pb add.assoc)
  obtain t2 where t2: "copy_word (b + 6) (a + 6) t1 = Some t2" "sees p k t2 ?m2 v"
    using step [OF t1(2), of "a + 6" "b + 6"] by (auto simp: pa pb add.assoc e)
  obtain t3 where t3: "copy_word (b + 8) (a + 8) t2 = Some t3" "sees p k t3 ?m3 v"
    using step [OF t2(2), of "a + 8" "b + 8"] by (auto simp: pa pb add.assoc e)
  obtain t4 where t4: "copy_word (b + 10) (a + 10) t3 = Some t4" "sees p k t4 ?m4 v"
    using step [OF t3(2), of "a + 10" "b + 10"] by (auto simp: pa pb add.assoc e)
  have "blink_in ?m4 b = synced (blink_in m a) (blink_in m b)" "dword_in ?m4 (b + 12) = dword_in m (b + 12)"
    by (simp_all add: blink_in_def synced_def dword_in_def add.assoc)
  moreover have "same_off (span b 16) m ?m4" by (intro same_off_word same_off_refl) (simp_all add: sb add.assoc)
  ultimately show ?thesis using that t1(1) t2(1) t3(1) t4 by blast
qed

theorem sync_copies:
  assumes "sees p k s m v" "layout_ok l" "video l k m" "blinking l m as"
    and "at_location m (ucast (drop_bit 16 arg)) as = Some a" "at_location m (ucast (arg AND 0xFFFF)) as = Some b"
  shows "\<exists>t m'. mp1_ioctl l arg 3 s = Some (0, t)
    \<and> sees p k t m' (v(2 * unat (location (blink_in m b)) := off_char (blink_in m b)))
    \<and> blinking l m' as \<and> video l k m'
    \<and> map (blink_in m') as = map (\<lambda>c. if c = b then synced (blink_in m a) (blink_in m b) else blink_in m c) as"
proof -
  have in_list: "a \<in> set as" "b \<in> set as" using assms(5,6) by (auto simp: at_location_def find_Some_iff)
  note bl = assms(4) [unfolded blinking_def]
  have sl: "a \<in> slots l" "b \<in> slots l" using in_list bl by auto
  note sa = slot_buffer [OF assms(2) sl(1)] and sb = slot_buffer [OF assms(2) sl(2)]
  have ab: "a = b \<or> span a 16 \<inter> span b 16 = {}" using slots_apart [OF assms(2) sl] by blast
  obtain t1 t2 t3 t m' where t: "copy_word (b + 4) (a + 4) s = Some t1" "copy_word (b + 6) (a + 6) t1 = Some t2"
    "copy_word (b + 8) (a + 8) t2 = Some t3" "copy_word (b + 10) (a + 10) t3 = Some t" "sees p k t m' v"
    "blink_in m' b = synced (blink_in m a) (blink_in m b)" "dword_in m' (b + 12) = dword_in m (b + 12)" "same_off (span b 16) m m'"
    by (rule copies_phase [OF assms(1) sa(1) sb(1) ab])
  have vd: "video l k m'" using same_video [OF t(8) sb(4)] assms(3) by simp
  have lb: "location (blink_in m' b) = location (blink_in m b)" "off_char (blink_in m' b) = off_char (blink_in m b)"
    using t(6) by (simp_all add: synced_def)
  have "location (blink_in m b) < 2000" using bl in_list by (auto simp: on_screen_def)
  then obtain u where u: "mp1_poke l (off_char (blink_in m b)) (push_bit 1 (ucast (location (blink_in m b)))) t = Some u"
    "sees p k u m' (v(2 * unat (location (blink_in m b)) := off_char (blink_in m b)))"
    by (rule poke_shows [OF t(5) vd])
  have ld: "get_word t b = Some (location (blink_in m b))" "user_load t (b + 3) = Some (off_char (blink_in m b))"
    "user_load t (b + 2) = Some (m' (b + 2))" "user_load t (b + 10) = Some (m' (b + 10))"
    using sees_get_word [OF t(5), of b] sees_load [OF t(5), of "b + 3"] sees_load [OF t(5), of "b + 2"] sees_load [OF t(5), of "b + 10"] lb
    by (simp_all add: fields_page [OF sb(1)] blink_in_def)
  have "mp1_find_helper l (drop_bit 16 arg) s = Some a" "mp1_find_helper l (arg AND 0xFFFF) s = Some b"
    using find_helper_first [OF assms(1,2,4)] assms(5,6) by (simp_all add: or_null_def)
  then have run: "mp1_ioctl l arg 3 s = Some (0, u)"
    using sa(2) sb(2) t(1-4) ld u(1) by (simp add: mp1_ioctl_def mp1_ioctl_sync_def low_bit_7)
  have e: "blink_in m' c = blink_in m c \<and> dword_in m' (c + 12) = dword_in m (c + 12)" if "c \<in> set as" "c \<noteq> b" for c
    using same_blink [OF t(8)] slots_apart [OF assms(2) _ sl(2) that(2)] that(1) bl by blast
  have "chain m' h cs = chain m h cs" if "set cs \<subseteq> set as" for h cs
    using that by (induction cs arbitrary: h) (use e t(7) in \<open>auto\<close>, metis+)
  then have "chain m' (dword_in m' (mp1_list_head l)) as" using bl same_pointer [OF t(8) sb(5)] by simp
  moreover have "on_screen (blink_in m' c)" if "c \<in> set as" for c
    using that e bl t(6) by (cases "c = b") (auto simp: on_screen_def synced_def)
  ultimately have "blinking l m' as" using bl by (simp add: blinking_def)
  moreover have "map (blink_in m') as = map (\<lambda>c. if c = b then synced (blink_in m a) (blink_in m b) else blink_in m c) as"
    using e t(6) by auto
  ultimately show ?thesis using run u(2) vd by blast
qed

section \<open>The first cell of the screen\<close>

text \<open>\<open>mp1_malloc\<close> takes an element whose location is 0 for free, also when it is in the list. A character in
  the first cell is so handed out again by the next \<open>RTC_ADD\<close>, its \<open>next\<close> field then points to itself, and
  the next tasklet does not end.\<close>

lemma self_loop:
  fixes s :: "'a machine_scheme"
  assumes "layout_ok l" "a \<in> slots l" "sees p k s m v" "video l k m" "location (blink_in m a) < 2000" "dword_in m (a + 12) = a"
  shows "tasklet_loop l a s = None"
proof -
  let ?Q = "\<lambda>s :: 'a machine_scheme. \<exists>m v. sees p k s m v \<and> video l k m \<and> location (blink_in m a) < 2000 \<and> dword_in m (a + 12) = a"
  note sb = slot_buffer [OF assms(1,2)]
  have never: "ebx = a \<longrightarrow> ?Q s \<longrightarrow> l' = l \<longrightarrow> False" if "tasklet_loop l' ebx s = Some y" for l' ebx y and s :: "'a machine_scheme"
  proof (rule tasklet_loop.raw_induct [where P = "\<lambda>l' ebx s y. ebx = a \<longrightarrow> ?Q s \<longrightarrow> l' = l \<longrightarrow> False", OF _ that], intro impI)
    fix f l' ebx y and s :: "'a machine_scheme"
    assume IH: "\<And>l' ebx s y. f l' ebx s = Some y \<Longrightarrow> ebx = a \<longrightarrow> ?Q s \<longrightarrow> l' = l \<longrightarrow> False"
      and body: "(if ebx = 0 then Some s else do { s \<leftarrow> blink_step l' ebx s; n \<leftarrow> get_dword s (ebx + 12); f l' n s }) = Some y"
      and h: "ebx = a" "?Q s" "l' = l"
    from h(2) obtain m v where q: "sees p k s m v" "video l k m" "location (blink_in m a) < 2000" "dword_in m (a + 12) = a" by blast
    obtain t m' where t: "blink_step l a s = Some t" "sees p k t m' (show_tick (blink_in m a) v)" "blink_in m' a = blink_tick (blink_in m a)"
      "dword_in m' (a + 12) = dword_in m (a + 12)" "same_off (span a 16) m m'"
      by (rule blink_step_ticks [OF q(1) sb(1) q(2) sb(4) q(3)])
    have "get_dword t (a + 12) = Some a"
      using sees_get_dword [OF t(2), of "a + 12"] t(4) q(4) by (simp add: fields_page [OF sb(1)] add.assoc)
    then have "f l a t = Some y" using body t(1) h sb(2) by simp
    moreover have "?Q t" using t q same_video [OF t(5) sb(4)] by auto
    ultimately show False using IH by blast
  qed
  have "?Q s" using assms(3-6) by blast
  then have "tasklet_loop l a s \<noteq> Some y" for y using never by blast
  then show ?thesis by (metis option.exhaust)
qed

theorem first_cell_hangs:
  assumes "sees p k s m v" "layout_ok l" "video l k m" "blinking l m []" "user_buffer arg 16"
    and "span arg 16 \<inter> (span (add_temp l) 16 \<union> span (blink_array l) 32000 \<union> span (mp1_list_head l) 4) = {}"
    and "location (blink_in m arg) = 0" "free_node l m = Some i"
  shows "\<exists>t u. mp1_ioctl l arg 0 s = Some (0, t) \<and> mp1_ioctl l arg 0 t = Some (0, u) \<and> mp1_rtc_tasklet l u = None"
proof -
  let ?a = "slot l i" and ?h = "mp1_list_head l"
  let ?W = "span (add_temp l) 16 \<union> span (slot l i) 16 \<union> span (mp1_list_head l) 4"
  have i: "?a \<in> slots l" "i < 2000" using free_node_Some [OF assms(8)] by (simp_all add: slots_def)
  note sb = slot_buffer [OF assms(2) i(1)]
  have hb: "user_buffer ?h 4" using assms(2) by (simp add: layout_ok_def)
  have ap: "span arg 16 \<inter> span (add_temp l) 16 = {}" "span arg 16 \<inter> ?W = {}" "span (vmem_base_addr l) 4 \<inter> ?W = {}"
    using assms(2,6) sb(3,4) by (auto simp: layout_ok_def)
  have z0: "location (blink_in m arg) < 2000" using assms(7) by simp
  obtain t m1 where t: "mp1_ioctl_add l arg s = Some (0, t)"
    "sees p k t m1 (v(2 * unat (location (blink_in m arg)) := on_char (blink_in m arg)))"
    "blink_in m1 ?a = started (blink_in m arg)" "dword_in m1 (?a + 12) = dword_in m ?h" "dword_in m1 ?h = ?a" "same_off ?W m m1"
    by (rule add_links [OF assms(1-3,5) ap(1) z0 assms(8)])
  have v1: "video l k m1" using same_video [OF t(6) ap(3)] assms(3) by simp
  have b1: "blink_in m1 arg = blink_in m arg" by (rule same_blink(1) [OF t(6) ap(2)])
  have "location (blink_in m1 (slot l j)) = location (blink_in m (slot l j))" if "j < 2000" for j
  proof (cases "slot l j = ?a")
    case True
    then show ?thesis using t(3) assms(7) free_node_Some [OF assms(8)] by simp
  next
    case False
    have j: "slot l j \<in> slots l" using that by (simp add: slots_def)
    then have "span (slot l j) 16 \<inter> ?W = {}"
      using slots_apart [OF assms(2) j i(1) False] slot_buffer(5,6) [OF assms(2) j] by blast
    then show ?thesis using same_blink(1) [OF t(6)] by simp
  qed
  then have "free_node l m1 = free_node l m" unfolding free_node_def by (intro find_cong) auto
  then have f: "free_node l m1 = Some i" using assms(8) by simp
  have z: "location (blink_in m1 arg) < 2000" using b1 assms(7) by simp
  obtain u m2 where u: "mp1_ioctl_add l arg t = Some (0, u)"
    "sees p k u m2 ((v(2 * unat (location (blink_in m arg)) := on_char (blink_in m arg)))
       (2 * unat (location (blink_in m1 arg)) := on_char (blink_in m1 arg)))"
    "blink_in m2 ?a = started (blink_in m1 arg)" "dword_in m2 (?a + 12) = dword_in m1 ?h" "dword_in m2 ?h = ?a" "same_off ?W m1 m2"
    by (rule add_links [OF t(2) assms(2) v1 assms(5) ap(1) z f])
  have v2: "video l k m2" using same_video [OF u(6) ap(3)] v1 by simp
  have "tasklet_loop l ?a u = None"
    using self_loop [OF assms(2) i(1) u(2) v2] u(3,4) t(5) z by simp
  moreover have "get_dword u ?h = Some ?a" using sees_get_dword [OF u(2) pointer_page [OF hb]] u(5) by simp
  ultimately show ?thesis using t(1) u(1) by (simp add: mp1_ioctl_def mp1_rtc_tasklet_def)
qed

end
