(* ===== verification/Fishrun.thy ===== *)
theory Fishrun
  imports Blinks Sample
begin

text \<open>
  The fish program on the kernel: its start, which clears \<open>blink_array\<close> and asks the kernel for the screen,
  establishes what the operations of \<open>blink.S\<close> rely on; and a concrete program on which they are instantiated.
\<close>

section \<open>The start of the program\<close>

lemma st_user: "sees p k s m v \<Longrightarrow> in_page a \<Longrightarrow> st a b s = user_store a b s"
  using user_st(1) [of s p a b] user_store_page [of s p a b] by (simp add: sees_def in_page_def)

lemma st_dword_user:
  assumes "sees p k s m v" "user_buffer a 4"
  shows "st_dword a w s = put_dword a w s"
proof -
  note pg = pointer_page [OF assms(2)]
  obtain t where t: "user_store a (ucast w) s = Some t" "sees p k t (m(a := ucast w)) v" by (rule sees_store [OF assms(1) pg(1)])
  obtain u where u: "user_store (a + 1) (ucast (drop_bit 8 w)) t = Some u" "sees p k u (m(a := ucast w, a + 1 := ucast (drop_bit 8 w))) v"
    by (rule sees_store [OF t(2) pg(2)])
  obtain x where x: "user_store (a + 2) (ucast (drop_bit 16 w)) u = Some x"
    "sees p k x (m(a := ucast w, a + 1 := ucast (drop_bit 8 w), a + 2 := ucast (drop_bit 16 w))) v"
    by (rule sees_store [OF u(2) pg(3)])
  obtain y where y: "user_store (a + 3) (ucast (drop_bit 24 w)) x = Some y" by (rule sees_store [OF x(2) pg(4)])
  show ?thesis
    using t(1) u(1) x(1) y st_user [OF assms(1) pg(1)] st_user [OF t(2) pg(2)] st_user [OF u(2) pg(3)] st_user [OF x(2) pg(4)]
    by (simp add: st_dword_def put_dword_def add.assoc)
qed

lemma vidmap_video:
  assumes "sees p (unat (curr_term s)) s m v" "user_buffer (vmem_base_addr l) 4"
  obtains t where "vidmap (vmem_base_addr l) s = Some (0, t)" "sees p (unat (curr_term s)) t (dword_upd m (vmem_base_addr l) (screen_pointer (curr_term s))) v"
    "get_dword t (vmem_base_addr l) = Some (screen_pointer (curr_term s))"
proof -
  let ?a = "vmem_base_addr l" and ?w = "screen_pointer (curr_term s)"
  note pg = pointer_page [OF assms(2)]
  obtain t where t: "put_dword ?a ?w s = Some t" "sees p (unat (curr_term s)) t (dword_upd m ?a ?w) v"
    by (rule sees_put_dword [OF assms(1) pg])
  have "\<not> (?a < 0x08000000 \<or> 0x08400000 \<le> ?a)"
    using assms(2) by (auto simp: user_buffer_def word_less_nat_alt word_le_nat_alt)
  then have "vidmap ?a s = Some (0, t)"
    using t(1) st_dword_user [OF assms, of ?w] by (simp add: vidmap_def screen_pointer_def)
  moreover have "get_dword t ?a = Some ?w" using sees_get_dword [OF t(2) pg] by simp
  ultimately show ?thesis using that t(2) by blast
qed

lemma screen_pointer_nonzero:
  assumes "unat c < 3"
  shows "screen_pointer c \<noteq> 0"
proof -
  have "unat (screen_pointer c) = 0x84B8000 + 0x2000 * unat c"
    using screen_pointer_nat [OF assms, of 0] by (simp add: screen_pointer_of [OF assms])
  then show ?thesis by auto
qed

lemma memset_phys: "ece391_memset a c n s = Some t \<Longrightarrow> \<exists>ph. t = s\<lparr>phys := ph\<rparr>"
proof -
  have "foldM (\<lambda>i. user_store (a + of_nat i) c) is s = Some t \<Longrightarrow> \<exists>ph. t = s\<lparr>phys := ph\<rparr>" for "is" :: "nat list"
  proof (induction "is" arbitrary: s)
    case Nil
    then show ?case by (auto intro: exI [of _ "phys s"])
  next
    case (Cons i js)
    then obtain u where u: "user_store (a + of_nat i) c s = Some u" "foldM (\<lambda>i. user_store (a + of_nat i) c) js u = Some t"
      by (auto simp: bind_eq_Some_conv)
    obtain ph where "t = u\<lparr>phys := ph\<rparr>" using Cons.IH [OF u(2)] by blast
    then show ?case using u(1) by (auto simp: user_store_def)
  qed
  then show "ece391_memset a c n s = Some t \<Longrightarrow> \<exists>ph. t = s\<lparr>phys := ph\<rparr>" by (simp add: ece391_memset_def)
qed

lemma clears_array:
  assumes "sees p k s m v" "layout_ok l"
  obtains t m' where "ece391_memset (blink_array l) 0 (16 * 80 * 25) s = Some t" "sees p k t m' v"
    "same_off (span (blink_array l) 32000) m m'" "\<forall>i<32000. m' (blink_array l + of_nat i) = 0"
proof -
  have "user_buffer (blink_array l) 32000" using assms(2) by (simp add: layout_ok_def)
  then obtain t m' where t: "foldM (\<lambda>i s. do { c \<leftarrow> Some 0; user_store (blink_array l + of_nat i) c s }) [0..<32000] s = Some t"
    "sees p k t m' v" "same_off (span (blink_array l) 32000) m m'" "\<forall>i<32000. m' (blink_array l + of_nat i) = 0"
    using store_loop [OF _ assms(1), of "blink_array l" 32000 "\<lambda>i s. Some 0" "\<lambda>i. 0"] by blast
  then show ?thesis using that by (simp add: ece391_memset_def)
qed

lemma zeroes_free:
  assumes "\<forall>i<32000. m (blink_array l + of_nat i) = 0"
  shows "free_node l m = Some 0"
proof -
  have "m (blink_array l + of_nat 0) = 0" "m (blink_array l + of_nat 1) = 0" using assms [rule_format, of 0] assms [rule_format, of 1] by simp_all
  then have "location (blink_in m (slot l 0)) = 0" by (simp add: slot_def blink_in_def word_in_def word_of_bytes_def)
  then show ?thesis unfolding free_node_def by (subst upt_conv_Cons) simp_all
qed

theorem fish_start_ready:
  assumes "sees p (unat (curr_term s)) s m v" "layout_ok l" "dword_in m (mp1_list_head l) = 0"
  shows "\<exists>t m'. fish_start e l s = Some (Done (screen_pointer (curr_term s)), t) \<and> screen_pointer (curr_term s) \<noteq> 0
    \<and> sees p (unat (curr_term s)) t m' v \<and> video l (unat (curr_term s)) m' \<and> blinking l m' [] \<and> free_node l m' = Some 0"
proof -
  let ?k = "unat (curr_term s)" and ?w = "screen_pointer (curr_term s)" and ?a = "vmem_base_addr l"
  note lo = assms(2) [unfolded layout_ok_def]
  obtain t m1 where t: "ece391_memset (blink_array l) 0 (16 * 80 * 25) s = Some t" "sees p ?k t m1 v"
    "same_off (span (blink_array l) 32000) m m1" "\<forall>i<32000. m1 (blink_array l + of_nat i) = 0"
    by (rule clears_array [OF assms(1,2)])
  have ct: "curr_term t = curr_term s" using memset_phys [OF t(1)] by auto
  have ub: "user_buffer ?a 4" using lo by simp
  obtain u where u: "vidmap ?a t = Some (0, u)" "sees p ?k u (dword_upd m1 ?a ?w) v" "get_dword u ?a = Some ?w"
    using vidmap_video [OF _ ub, of p t m1 v] t(2) unfolding ct by blast
  have o: "same_off (span ?a 4) m1 (dword_upd m1 ?a ?w)" by (rule same_off_dword) simp_all
  have "dword_in (dword_upd m1 ?a ?w) (mp1_list_head l) = dword_in m (mp1_list_head l)"
    using same_pointer [OF o, of "mp1_list_head l"] same_pointer [OF t(3), of "mp1_list_head l"] lo by auto
  then have "blinking l (dword_upd m1 ?a ?w) []" using assms(3) by (simp add: blinking_def)
  moreover have "dword_upd m1 ?a ?w (blink_array l + of_nat i) = 0" if "i < 32000" for i
  proof -
    have "blink_array l + of_nat i \<notin> span ?a 4" using spanI [OF that, of "blink_array l"] lo by blast
    then show ?thesis using o t(4) that by (simp add: same_off_def)
  qed
  then have "free_node l (dword_upd m1 ?a ?w) = Some 0" using zeroes_free by blast
  moreover have "?k < 3" using assms(1) by (simp add: sees_def)
  then have "?w \<noteq> 0" "video l ?k (dword_upd m1 ?a ?w)" using ub by (simp_all add: screen_pointer_nonzero video_def)
  moreover have "fish_start e l s = Some (Done ?w, u)"
    using t(1) u(1,3) by (simp add: fish_start_def quiet_def mp1_set_video_mode_def stubs)
  ultimately show ?thesis using u(2) by blast
qed

section \<open>A concrete program\<close>

text \<open>Process 0 of the sample kernel runs the fish, which shows one character, about to change, and has
  filled in a structure for another.\<close>

definition fish_layout :: layout where
  "fish_layout = \<lparr>vmem_base_addr = 0x8049000, blink_array = 0x8050000, mp1_list_head = 0x8049004, add_temp = 0x83FF000,
     find_key = 0x83FF010, file0 = 0x8049010, file1 = 0x8049020, blink_struct = 0x83FF100, ret_val = 0x83FF110,
     garbage = 0x83FF114, frame_struct = 0x83FF120, char0 = 0x83FF130, char1 = 0x83FF131\<rparr>"

definition letter_m :: "u8 list" where
  "letter_m = [0x54, 1, 73, 77, 7, 0, 6, 0, 1, 0, 1, 0, 0, 0, 0, 0]"

definition letter_x :: "u8 list" where
  "letter_x = [0x1C, 2, 88, 89, 15, 0, 15, 0, 0, 0, 0, 0, 0, 0, 0, 0]"

definition fish_phys :: "u32 \<Rightarrow> u8" where
  "fish_phys = place_at 0x849000 [0, 0x80, 0x4B, 8, 0, 0, 5, 8] (place_at 0x850000 letter_m (place_at 0xBFF100 letter_x (\<lambda>_. 0)))"

definition fish_sample :: kernel where
  "fish_sample = sample\<lparr>phys := fish_phys\<rparr>"

definition fish_mem :: "u32 \<Rightarrow> u8" where
  "fish_mem = umem 0 fish_sample"

lemma fish_sees: "sees 0 0 fish_sample fish_mem (vmem 0 fish_sample)"
  using sample_runs by (simp add: sees_def fish_mem_def fish_sample_def)

lemma span_apart:
  assumes "user_buffer a n" "user_buffer b m" "unat a + n \<le> unat b \<or> unat b + m \<le> unat a"
  shows "span a n \<inter> span b m = {}"
proof -
  have "x \<noteq> y" if "x \<in> span a n" "y \<in> span b m" for x y
  proof -
    obtain i j where "x = a + of_nat i" "i < n" "y = b + of_nat j" "j < m" using \<open>x \<in> span a n\<close> \<open>y \<in> span b m\<close> by (auto simp: span_def)
    then show ?thesis using user_buffer_at [OF assms(1), of i] user_buffer_at [OF assms(2), of j] assms(3) by auto
  qed
  then show ?thesis by blast
qed

lemma fish_layout_ok: "layout_ok fish_layout"
  unfolding layout_ok_def by (intro conjI span_apart) (simp_all add: fish_layout_def user_buffer_def)

lemma fish_byte: "in_page a \<Longrightarrow> fish_mem a = fish_phys (of_nat (0x800000 + (unat a - 0x8000000)))"
  by (simp add: fish_mem_def umem_def fish_sample_def prog_addr_def)

lemma fish_blink:
  "blink_in fish_mem 0x8050000 = \<lparr>location = 340, on_char = 73, off_char = 77, on_length = 7, off_length = 6, countdown = 1, status = 1\<rparr>"
  "blink_in fish_mem 0x83FF100 = \<lparr>location = 540, on_char = 88, off_char = 89, on_length = 15, off_length = 15, countdown = 0, status = 0\<rparr>"
  "blink_in fish_mem 0x8050010 = \<lparr>location = 0, on_char = 0, off_char = 0, on_length = 0, off_length = 0, countdown = 0, status = 0\<rparr>"
  by (simp_all add: blink_in_def word_in_def fish_byte in_page_def fish_phys_def place_at_def letter_m_def letter_x_def word_of_bytes_def)

lemma fish_pointers: "dword_in fish_mem 0x8049000 = 0x84B8000" "dword_in fish_mem 0x8049004 = 0x8050000" "dword_in fish_mem 0x805000C = 0"
  by (simp_all add: dword_in_def fish_byte in_page_def fish_phys_def place_at_def letter_m_def letter_x_def word_of_bytes_def)

lemma fish_video: "video fish_layout 0 fish_mem"
  using fish_layout_ok fish_pointers(1) by (simp add: video_def layout_ok_def fish_layout_def screen_pointer_def)

lemma fish_slots: "slot fish_layout 0 = 0x8050000" "slot fish_layout 1 = 0x8050010" "0x8050000 \<in> slots fish_layout"
proof -
  show s: "slot fish_layout 0 = 0x8050000" "slot fish_layout 1 = 0x8050010" by (simp_all add: slot_def fish_layout_def)
  have "slot fish_layout 0 \<in> slots fish_layout" by (simp add: slots_def)
  then show "0x8050000 \<in> slots fish_layout" by (simp add: s)
qed

lemma fish_blinking: "blinking fish_layout fish_mem [0x8050000]"
  using fish_pointers(2,3) fish_slots(3) fish_blink(1) by (simp add: blinking_def on_screen_def fish_layout_def)

lemma fish_free: "free_node fish_layout fish_mem = Some 1"
proof -
  have n: "[0..<2000] ! 0 = 0" "[0..<2000] ! 1 = 1" by (subst nth_upt; simp)+
  show ?thesis unfolding free_node_def find_Some_iff
    by (rule exI [of _ 1]) (use n fish_slots(1,2) fish_blink(1,3) in \<open>simp del: upt_rec_numeral\<close>)
qed

lemma fish_at: "at_location fish_mem (ucast (340 :: u32)) [0x8050000] = Some 0x8050000"
  by (simp add: at_location_def fish_blink(1))

lemma sample_head: "dword_in (umem 0 sample) (mp1_list_head fish_layout) = 0"
  by (simp add: dword_in_def umem_def in_page_def prog_addr_def fish_layout_def sample_phys_def place_at_def sample_command_def
    sample_header_def sample_entry_def sample_inode_def sample_program_def word_of_bytes_def bytes_def)

end
