(* ===== verification/Spec2Isabelle.thy ===== *)
theory Spec2Isabelle
  imports Prelude Machine Paging Memlib Usermem Strings Pic Console Screen Printf Terminal Lineedit Output Pcb Filesys Fileread Files Rtc Sched Proc Descriptors Exec Calls Clearing Handlers Boot Login Shells Startup Desctypes Bootinfo Sample Coldsample Bootsample Userlib Userrun Programs Progruns Usernum Syserr Usersample Fish Userview Blinks Fishrun
begin

text \<open>
  A verification development for the teaching kernel in \<open>src/student-distrib\<close>: a 32-bit x86 kernel
  that shares one processor between three terminals, runs up to six programs, one per 4 MB page, and serves
  them ten system calls through vector 0x80.

  \<^bold>\<open>How the state is laid out.\<close> The kernel's globals are one record that grows with the parts that
  declare them, in the order of the includes: \<open>machine\<close> (physical memory, the paging structures, control
  registers, interrupt flag, log of port traffic), \<open>pic\<close> (copies of the interrupt masks), \<open>console\<close> (the
  three \<open>terms\<close>, \<open>curr_term\<close>, \<open>term_on_screen\<close>, \<open>curr_pid\<close>, the scheduler's \<open>terminal\<close> array), \<open>keyboard\<close>,
  \<open>process\<close> (process control blocks, slot table, task state segment, stack pointer), \<open>filesys\<close>, \<open>rtc\<close>,
  \<open>sched\<close>, \<open>kernel\<close> (process counters) and \<open>boot\<close> (descriptor tables). An operation takes the state and returns
  an option: \<open>None\<close> is a fault of the processor, a store outside an object of C, or a read of something C leaves
  undefined; an error code is a value. Where control leaves the C function for another stack, the result says
  where (\<open>leaving\<close>: a program is started, resumed, or a kernel stack is unwound). Integers are words of the
  width of \<open>types.h\<close>; signed comparisons are written out (\<open>slt\<close>). Memory is accessed through the processor's
  walk of the page tables (\<open>translate\<close>), so a store through one process's tables reaches the page those tables
  name. What a device answers is a parameter (\<open>device\<close>), a function of the port traffic so far.

  \<^bold>\<open>Which theory models what.\<close>
  \<open>Prelude\<close>: integer types, readings of words, loops by invariant.
  \<open>Machine\<close>: \<open>paging.c\<close>, \<open>paging.h\<close>, the ports and flag operations of \<open>lib.h\<close>; \<open>Paging\<close> has the lemmas.
  \<open>Memlib\<close>, \<open>Strings\<close>: the memory and string routines of \<open>lib.c\<close>, with the phases of the assembly;
  \<open>Usermem\<close>: buffers in a program's page.
  \<open>Pic\<close>: \<open>i8259.c\<close>.
  \<open>Console\<close>: \<open>putc\<close>, \<open>puts\<close>, \<open>printf\<close>, \<open>clear\<close> of \<open>lib.c\<close>, scrolling, cursor and terminal switching of
  \<open>terminal.c\<close>; \<open>Screen\<close>, \<open>Printf\<close>, \<open>Clearing\<close>: what is seen on the screen.
  \<open>Terminal\<close>: \<open>kbd_to_char\<close>, \<open>kbd\<close> and the terminal driver of \<open>terminal.c\<close>; \<open>Lineedit\<close>, \<open>Output\<close>: the typed
  line and the written bytes.
  \<open>Pcb\<close>: \<open>syscall.h\<close> and \<open>fetch_cur_pcb_ptr\<close>.
  \<open>Filesys\<close>: \<open>filesystem.c\<close>; \<open>Fileread\<close>, \<open>Files\<close>: its contents as lists.
  \<open>Rtc\<close>: \<open>rtc.c\<close>.
  \<open>Sched\<close>: \<open>schedule.c\<close>, \<open>timer\<close> of \<open>inthandler.c\<close> and \<open>timer_hand\<close> of \<open>handlers.S\<close>.
  \<open>Proc\<close>: \<open>syscall.c\<close> and \<open>sys_call.S\<close>; \<open>Descriptors\<close>, \<open>Exec\<close>, \<open>Calls\<close>: what the calls promise.
  \<open>Handlers\<close>: the exception handlers of \<open>inthandler.c\<close>, the vector tables of \<open>kernel.c\<close> and the gates of
  \<open>x86_desc.h\<close>; \<open>Desctypes\<close>: the types in the descriptor table.
  \<open>Boot\<close>: \<open>start\<close> of \<open>boot.S\<close>, \<open>entry\<close> of \<open>kernel.c\<close>, \<open>multiboot.h\<close> and the user table of \<open>user.c\<close>;
  \<open>Startup\<close>, \<open>Shells\<close>: the initialisation and the first shells; \<open>Bootinfo\<close>: the text \<open>entry\<close> prints of what
  the boot loader left, a function of the memory, and the whole way from the boot loader to the first shell.
  \<open>Login\<close>: \<open>prompt_login\<close> of \<open>user.c\<close>, which \<open>entry\<close> no longer calls.
  \<open>Userlib\<close>: \<open>ece391support.c\<close>, the stubs of \<open>ece391syscall.S\<close> and its header; \<open>Userrun\<close>: what a run of
  a program leaves behind.
  \<open>Programs\<close>: the programs of \<open>src/syscalls\<close>; \<open>Progruns\<close>, \<open>Usernum\<close>: runs of \<open>cat\<close>, \<open>ls\<close> and
  \<open>counter\<close>. \<open>Syserr\<close>: \<open>ece391syserr.c\<close> and its verdicts.
  \<open>Fish\<close>: \<open>fish.c\<close> and \<open>blink.S\<close> of \<open>src/fish\<close>; \<open>Userview\<close>, \<open>Blinks\<close>, \<open>Fishrun\<close>: its memory as a function, the
  list of blinking characters as a list, and the start of the program.
  \<open>Sample\<close>, \<open>Coldsample\<close>, \<open>Bootsample\<close>, \<open>Usersample\<close>: concrete states of the running kernel, of the machine before and
  after the boot loader, and of a program with its strings loaded, on which the properties below are instantiated.

  \<^bold>\<open>How the parts meet.\<close> Interfaces are locales, interpreted on the model's own definitions:
  \<open>irq_lines\<close> (enabling and disabling of lines) by \<open>i8259.c\<close>; \<open>byte_sink\<close> (where \<open>read_data\<close> puts its bytes)
  by memory and by a local array; \<open>line_discipline\<close> (a keyboard handler that edits a line) by \<open>kbd\<close>;
  \<open>descriptor_table\<close> by \<open>open\<close> and \<open>close\<close>; \<open>round_robin\<close> by the timer interrupt; \<open>printing\<close> (what a
  program may expect of a call that writes to its terminal) by the kernel's own system calls.

  \<^bold>\<open>What is shown.\<close> \<open>mmu_ok\<close> is the invariant of the paging structures, \<open>sched_ok\<close> that of the
  scheduler and \<open>proc_ok\<close> that of the process table; \<open>init_paging\<close> and \<open>init_schedule\<close> establish the first
  two, the three \<open>execute\<close> calls of \<open>entry\<close> the third, all of it from the machine the boot loader leaves
  (\<open>boot_block\<close>), and system calls and timer interrupts keep them. On
  these rest the confinement of programs to their page and the screens, loading, entering and leaving programs,
  reading files, the fairness of the scheduler, and the integrity of a process across preemption. The console
  refines an abstract text screen (\<open>tty\<close>), and \<open>printf\<close>, \<open>terminal_write\<close> and the exception handlers are
  described on it. A user program is a function on the same state that reaches memory through its page tables and the
  kernel through vector 0x80, so its runs go through the modelled calls: \<open>effect\<close> says what a run wrote to the
  screen, into the program's own page and into its descriptor table, and \<open>ready\<close> what it needs to start. On these
  rest the properties of \<open>cat\<close>, \<open>ls\<close>, \<open>counter\<close> and the error tests. \<open>sees\<close> abstracts the page and
  the screen of a program to functions; on them the linked list of \<open>blink.S\<close> (\<open>blinking\<close>) is a list of structures
  whose operations are insertion, removal and a tick. The memory routines equal plain byte loops. Properties that hold only away from a known defect say so
  in their hypotheses (\<open>can_show\<close> keeps clear of the last cell of the screen), and the defect has its own
  theorem.

  \<^bold>\<open>Loops.\<close> Counting loops are folds over their range. Loops whose end depends on data are recursive
  functions with a measure, or \<open>partial_function (option)\<close>, where \<open>None\<close> also stands for a loop that does
  not end (\<open>printf\<close> on a string without NUL, the memory map of the boot loader, waiting for the clock); the
  properties about them state that a result exists. The fuels are the number of interrupts \<open>read_rtc\<close> may wait
  for, of which one is enough, the same number as \<open>patience\<close> of a program's environment, and the number of turns
  of \<open>pingpong\<close>, whose loop never ends by itself.

  \<^bold>\<open>Not modelled.\<close> \<open>x86_desc.S\<close> is not in the repository: the addresses of the LDT and TSS and the
  first contents of the IDT are parameters. Timing, the processor's caches and the order of interrupts within one
  operation are left out: an operation runs with interrupts off, as the gates enter it, and interleaving is
  explicit at the points where the code turns them on (waiting for a line, waiting for the clock, the scheduler's
  steps). The registers of a preempted program are on its kernel stack, of which only the pointer is modelled.
  \<open>kbd_hand\<close> and \<open>rtc_hand\<close> of \<open>handlers.S\<close> are in no table, and the C functions they call end in an
  \<open>iret\<close> of their own, so they would not come back. Of a user program, the addresses of its local arrays are arguments, and the addresses of its string literals, the
  devices and the values a stub passes in registers the program never set are parameters (\<open>env\<close>); while a program runs, the stack pointer of
  the state is the kernel stack the processor takes from the task state segment during a call, and a call that leaves
  the program (\<open>halt\<close>, \<open>execute\<close>) ends its run. The host emulation \<open>ece391emulate.c\<close>, which
  runs the programs on Linux system calls, and the prebuilt tools are not modelled.
\<close>

section \<open>Memory protection\<close>

text \<open>C1: after \<open>init_paging\<close>, whichever process's directory CR3 is given by
  \<open>flush_tlb\<close>, an address user code can reach lies in that process's own 4 MB program page or in
  one of the three text screens; the kernel page and the other programs are out of reach.\<close>

theorem paging_confines_programs:
  assumes "link_ok s" "video_table s = (\<lambda>_ _. blank_pte)" "p < 6"
    and "user_translate (flush_tlb p (init_paging s)) va = Some pa"
  shows "in_program p pa \<or> (\<exists>k<3. in_screen k pa)"
proof -
  have "runs (flush_tlb p (init_paging s)) p"
    using init_paging_establishes [OF assms(1,2)] assms(3) by (intro runs_flush) simp_all
  then show ?thesis using user_space_confined [OF _ _ assms(3,4)] by (simp add: runs_def)
qed

lemma base_runs: "p < 6 \<Longrightarrow> runs (flush_tlb p (init_paging base_image)) p"
  using init_paging_establishes [OF base_linked] by (intro runs_flush) (simp_all add: base_image_def)

theorem paging_confines_programs_witness:
  "in_program 2 (prog_addr 2 0x8048000) \<or> (\<exists>k<3. in_screen k (prog_addr 2 0x8048000))"
proof (rule paging_confines_programs [OF base_linked])
  show "user_translate (flush_tlb 2 (init_paging base_image)) 0x8048000 = Some (prog_addr 2 0x8048000)"
    by (rule user_translate_program [OF base_runs]) simp_all
qed (simp_all add: base_image_def)

section \<open>Library routines\<close>


text \<open>C30: \<open>memset\<close>, which aligns, stores dwords and then the rest, is the plain loop that
  stores the low byte of \<open>c\<close> \<open>n\<close> times, for every address, alignment and length, and it faults exactly when that
  loop does.\<close>

theorem memset_fills: "memset p c n s = put_bytes p (replicate (unat n) (ucast c)) s"
  by (rule memset_put_bytes)

text \<open>C28: between regions that do not share memory, \<open>memcpy\<close> leaves the source's bytes at the
  destination.\<close>

theorem memcpy_copies:
  assumes "ld_bytes s src (unat n) = Some bs" "noalias s d src (unat n)"
  shows "memcpy d src n s = put_bytes d bs s"
  using assms by (rule memcpy_put_bytes)

lemma sample_noalias: "noalias sample 0x8049000 0x410040 5"
  by (rule kernel_user_noalias [OF sample_runs]) (simp_all add: in_kernel_def user_buffer_def)

theorem memcpy_copies_witness:
  "memcpy 0x8049000 0x410040 5 sample = put_bytes 0x8049000 (bytes ''shell'') sample"
proof (rule memcpy_copies)
  show "ld_bytes sample 0x410040 (unat (5 :: u32)) = Some (bytes ''shell'')"
    using entry_load [of 0 5] by (simp add: sample_entry_def bytes_def)
  show "noalias sample 0x8049000 0x410040 (unat (5 :: u32))" using sample_noalias by simp
qed

text \<open>C29: \<open>memmove\<close> stores the bytes the source held before the call, however the two
  regions overlap; the first component says that the direction flag is left set when it copies downwards.\<close>

theorem memmove_moves:
  assumes "ld_bytes s src (unat n) = Some bs" "unat d + unat n \<le> 2 ^ 32" "unat src + unat n \<le> 2 ^ 32"
    and "unshared s (span d (unat n) \<union> span src (unat n))"
  shows "memmove d src n s = map_option (Pair (src < d)) (put_bytes d bs s)"
  using assms by (rule memmove_put_bytes)

lemma base_unshared: "unshared base_image A"
  by (simp add: unshared_def translate_def base_image_def)

theorem memmove_moves_witness:
  "memmove 0x1001 0x1000 3 (base_image\<lparr>phys := \<lambda>a. ucast a\<rparr>)
     = map_option (Pair True) (put_bytes 0x1001 [0, 1, 2] (base_image\<lparr>phys := \<lambda>a. ucast a\<rparr>))"
proof -
  let ?s = "base_image\<lparr>phys := \<lambda>a. ucast a\<rparr>"
  have l: "ld ?s a = Some (ucast a)" for a by (simp add: ld_def translate_def base_image_def)
  have "memmove 0x1001 0x1000 3 ?s = map_option (Pair ((0x1000 :: u32) < 0x1001)) (put_bytes 0x1001 [0, 1, 2] ?s)"
  proof (rule memmove_moves)
    have u: "unat (3 :: u32) = Suc (Suc (Suc 0))" by simp
    show "ld_bytes ?s 0x1000 (unat (3 :: u32)) = Some [0, 1, 2]" unfolding u by (simp add: l)
    show "unshared ?s (span 0x1001 (unat (3 :: u32)) \<union> span 0x1000 (unat (3 :: u32)))"
      by (simp add: unshared_def translate_def base_image_def)
  qed simp_all
  then show ?thesis by simp
qed

text \<open>On strings that end within \<open>n\<close> characters or reach them, \<open>strncmp\<close> returns 0 exactly
  for equal strings.\<close>

theorem strncmp_decides:
  assumes "cstr_n s1 (unat n) xs" "cstr_n s2 (unat n) ys"
  shows "\<exists>r. strncmp s1 s2 n = Some r \<and> (r = 0 \<longleftrightarrow> xs = ys)"
  using strncmp_cstr [OF assms] by metis

theorem strncmp_decides_witness:
  "\<exists>r. strncmp (lit (bytes ''shell'' @ [0])) (lit (bytes ''shed'' @ [0])) 6 = Some r \<and> (r = 0 \<longleftrightarrow> bytes ''shell'' = bytes ''shed'')"
proof (rule strncmp_decides)
  show "cstr_n (lit (bytes ''shell'' @ [0])) (unat (6 :: u32)) (bytes ''shell'')"
    using lit_cstr_n [of "bytes ''shell''" 6] by (simp add: bytes_def asc_def)
  show "cstr_n (lit (bytes ''shed'' @ [0])) (unat (6 :: u32)) (bytes ''shed'')"
    using lit_cstr_n [of "bytes ''shed''" 6] by (simp add: cstr_n_def lit_def bytes_def asc_def forall_less_Suc_shift)
qed

text \<open>C31: in every radix from 2 to 36, what \<open>itoa\<close> leaves in a buffer with room for it is a
  NUL-terminated string, within the buffer, that reads back as the value.\<close>

theorem itoa_reads_back:
  assumes "2 \<le> unat r" "unat r \<le> 36" "length (decimal r v) < length R"
  shows "\<exists>ds b. itoa v (L @ R) (length L) r = Some b \<and> length b = length (L @ R) \<and> take (length L) b = L
    \<and> cstr (\<lambda>i. buf_get b (length L + unat i)) ds \<and> number (unat r) ds = unat v"
proof (intro exI conjI)
  let ?b = "L @ decimal r v @ 0 # drop (length (decimal r v) + 1) R"
  show "itoa v (L @ R) (length L) r = Some ?b" by (rule itoa_decimal [OF assms])
  show "length ?b = length (L @ R)" "take (length L) ?b = L" using assms(3) by simp_all
  have "unat v < 2 ^ LENGTH(32)" by (rule unsigned_less)
  then have "length (decimal r v) \<le> 32"
    using decimal_length [OF assms(1), of v 32] power_mono [OF assms(1), of 32] by simp
  then show "cstr (\<lambda>i. buf_get ?b (length L + unat i)) (decimal r v)"
    using decimal_nonzero [OF assms(2)] by (intro buf_cstr) simp_all
  show "number (unat r) (decimal r v) = unat v"
    using number_digits [OF assms(1,2)] digit_value_lookup [of 0] by (simp add: decimal_def number_def lookup_digits_list)
qed

theorem itoa_reads_back_witness:
  "\<exists>ds b. itoa 391 ([7] @ replicate 8 0) (length [7 :: u8]) 16 = Some b \<and> length b = length ([7 :: u8] @ replicate 8 0)
    \<and> take (length [7 :: u8]) b = [7] \<and> cstr (\<lambda>i. buf_get b (length [7 :: u8] + unat i)) ds \<and> number (unat (16 :: u32)) ds = unat (391 :: u32)"
  by (rule itoa_reads_back) (use decimal_length [of 16 391 3] in simp_all)

section \<open>Interrupt controller\<close>

text \<open>C32: disabling a line that is up and enabling it again leaves all 16 lines as they were,
  and after both calls the masks the kernel remembers are the last bytes written to the two data ports.\<close>

theorem irq_critical_section:
  assumes "pic_synced s" "n < 16" "irq_enabled s n" "8 \<le> n \<longrightarrow> irq_enabled s 2"
  defines "t \<equiv> enable_irq (of_nat n) (disable_irq (of_nat n) s)"
  shows "(\<forall>i<16. irq_enabled t i = irq_enabled s i) \<and> \<not> irq_enabled (disable_irq (of_nat n) s) n \<and> pic_synced t"
  using lines.critical_section [of n _ s] lines.up_disable [of n n s] 
    pic_synced_steps(2) [of s "of_nat n"] pic_synced_steps(1) [of "disable_irq (of_nat n) s" "of_nat n"] assms
  by (simp add: t_def)

definition masked :: kernel where
  "masked = sample\<lparr>master_mask := 0xFA, slave_mask := 0xFE, io_log := [Outb 0xFA 0x21, Outb 0xFE 0xA1]\<rparr>"

theorem irq_critical_section_witness:
  "irq_enabled (enable_irq (of_nat 8) (disable_irq (of_nat 8) masked)) 8 \<and> irq_enabled (enable_irq (of_nat 8) (disable_irq (of_nat 8) masked)) 2
    \<and> \<not> irq_enabled (enable_irq (of_nat 8) (disable_irq (of_nat 8) masked)) 1
    \<and> \<not> irq_enabled (disable_irq (of_nat 8) masked) 8 \<and> pic_synced (enable_irq (of_nat 8) (disable_irq (of_nat 8) masked))"
proof -
  have m: "pic_synced masked" "irq_enabled masked 8" "irq_enabled masked 2" "\<not> irq_enabled masked 1"
    by (simp_all add: masked_def pic_synced_def irq_enabled_def bit_numeral_rec)
  show ?thesis using irq_critical_section [OF m(1), of 8] m by simp
qed

section \<open>Console\<close>

text \<open>C17: \<open>putc\<close>, over the memory of a text screen, is one step of an 80 by 24 terminal that
  wraps and scrolls, and it touches nothing but the running terminal's screen and cursor; the corner cell is the
  one exception.\<close>

theorem putc_refines_terminal:
  assumes "console_ok s" "tty_ok (tty_of (unat (curr_term s)) s)" "\<not> tty_last c (tty_of (unat (curr_term s)) s)"
  shows "\<exists>t. putc c s = Some t \<and> tty_of (unat (curr_term s)) t = tty_putc c (tty_of (unat (curr_term s)) s)
    \<and> tty_ok (tty_of (unat (curr_term s)) t) \<and> output_only s t"
  using putc_refines [OF assms] tty_ok_putc [OF assms(2)] by metis

theorem putc_refines_terminal_witness:
  "\<exists>t. putc 65 sample = Some t \<and> tty_of (unat (curr_term sample)) t = tty_putc 65 (tty_of (unat (curr_term sample)) sample)
    \<and> tty_ok (tty_of (unat (curr_term sample)) t) \<and> output_only sample t"
  by (rule putc_refines_terminal) (simp_all add: sample_console sample_tty tty_ok_def tty_last_def)

text \<open>A character printed in the last column of the last row scrolls the screen but leaves
  \<open>screen_y\<close> at 24, one row below the screen, where the clock line is.\<close>

theorem putc_corner_row:
  assumes "console_ok s" "c \<noteq> 10" "c \<noteq> 13" "screen_x (cur s) = 79" "screen_y (cur s) = 23"
  shows "\<exists>t. putc c s = Some t \<and> screen_x (cur t) = 0 \<and> screen_y (cur t) = 24 \<and> \<not> tty_ok (tty_of (unat (curr_term s)) t)"
proof -
  obtain ph l where "putc c s = Some (place s ph 0 24 l)" using putc_corner [OF assms] by blast
  then show ?thesis by (simp add: place_def cur_def tty_ok_def tty_of_def)
qed

definition cornered :: kernel where
  "cornered = sample\<lparr>terms := (\<lambda>_. idle_term\<lparr>screen_x := 79, screen_y := 23\<rparr>)\<rparr>"

lemma cornered_console: "console_ok cornered"
  using sample_views by (simp add: console_ok_def cornered_def views_fields)

theorem putc_corner_row_witness:
  "\<exists>t. putc 65 cornered = Some t \<and> screen_x (cur t) = 0 \<and> screen_y (cur t) = 24
    \<and> \<not> tty_ok (tty_of (unat (curr_term cornered)) t)"
  by (rule putc_corner_row [OF cornered_console]) (simp_all add: cornered_def cur_def)

text \<open>C24: a format of conversions other than \<open>%s\<close> is printed as \<open>render\<close> says, character by
  character through the terminal, and nothing else changes.\<close>

theorem printf_renders:
  assumes "0 \<notin> set (bytes format)" "length format < 2 ^ 31" "render (bytes format) as = Some out" "can_show s out"
  shows "\<exists>t. printf format as s = Some (of_nat (length format), t)
    \<and> tty_of (unat (curr_term s)) t = fold tty_putc out (tty_of (unat (curr_term s)) s) \<and> output_only s t"
  using printf_shows [OF assms] unfolding shows_out_def by metis

lemma sample_can_show: "tty_fits xs \<lparr> tty_char = (\<lambda>_. 0), tty_x = 0, tty_y = 0 \<rparr> \<Longrightarrow> can_show sample xs"
  using sample_tty sample_console by (simp add: can_show_def tty_ok_def)

theorem printf_renders_witness:
  "\<exists>t. printf ''n=%d'' [-7] sample = Some (of_nat (length ''n=%d''), t)
    \<and> tty_of (unat (curr_term sample)) t = fold tty_putc [110, 61, 45, 55] (tty_of (unat (curr_term sample)) sample)
    \<and> output_only sample t"
proof (rule printf_renders)
  show "render (bytes ''n=%d'') [-7] = Some [110, 61, 45, 55]"
    by (simp add: bytes_def asc_def number_out_def signed_decimal_def slt_def decimal_def digits.simps [of 10 7] digits.simps [of 10 0] lookup_digits_list)
  show "can_show sample [110, 61, 45, 55]" by (rule sample_can_show) (simp add: tty_last_def tty_putc_def Let_def)
qed (simp_all add: bytes_def asc_def)

section \<open>Keyboard and terminal\<close>

text \<open>C18: whatever keys arrive while a terminal is read, the keyboard driver stays within the
  line buffer and the screen, and the buffered line is the one a line editor with backspace and enter would hold, of
  at most 128 characters.\<close>

theorem typing_edits_line:
  assumes "typing s"
  shows "\<exists>t. foldM key_step cs s = Some t \<and> typing t \<and> typed_line t = fold line_edit cs (typed_line s)
    \<and> length (fst (typed_line t)) \<le> 128"
proof -
  have "typing_from s s" using assms by (simp add: typing_from_def)
  then show ?thesis using ld.keys_edit [of s s cs] ld.keys_short [of s s cs] by (auto simp: typing_from_def)
qed

theorem typing_edits_line_witness:
  "\<exists>t. foldM key_step [97, 98, 8] (terminal_read_begin sample) = Some t \<and> typing t
    \<and> typed_line t = fold line_edit [97, 98, 8] (typed_line (terminal_read_begin sample)) \<and> length (fst (typed_line t)) \<le> 128"
  by (rule typing_edits_line) (use read_begin_typing(1) [OF sample_may_read] in \<open>simp add: typing_from_def\<close>)



text \<open>C40: enter on the last row of the terminal on the screen, while a process of
  another terminal is running, scrolls that other terminal's text and leaves the visible one as it was: the driver
  scrolls \<open>video_mem\<close>, which is the running process's screen.\<close>

theorem enter_scrolls_wrong_screen:
  assumes "console_ok s" "term_on_screen s \<noteq> curr_term s" "screen_y (shown s) = 23"
  shows "\<exists>t. key_enter s = Some t
    \<and> (\<forall>n<1920. phys t (cell (unat (curr_term s)) n) = (if n < 1840 then phys s (cell (unat (curr_term s)) (n + 80)) else 0))
    \<and> (\<forall>n<1920. phys t (cell (unat (term_on_screen s)) n) = phys s (cell (unat (term_on_screen s)) n))"
proof -
  let ?k = "unat (curr_term s)" and ?l = "unat (term_on_screen s)"
  let ?u = "upd_shown (\<lambda>t. t\<lparr>screen_y := screen_y t - 1\<rparr>) (upd_shown (\<lambda>t. t\<lparr>screen_y := screen_y t + 1, screen_x := 0\<rparr>) s)"
  have k: "views s ?k" "?k < 3" "?l < 3" "?l \<noteq> ?k"
    using assms(1,2) views_less by (auto simp: console_ok_def word_unat_eq_iff)
  obtain ph where ph: "scroll_screen ?u = Some (?u\<lparr>phys := ph\<rparr>)" "scrolled ?k ?u 1920 (?u\<lparr>phys := ph\<rparr>)"
    by (rule scroll_some [of ?u ?k]) (simp add: k)
  have e: "key_enter s = Some (update_cursor (upd_shown (\<lambda>t. t\<lparr>terminal_read_on := 0\<rparr>) (?u\<lparr>phys := ph\<rparr>)))"
    using assms(3) ph(1) by (simp add: key_enter_def)
  have "ph (cell ?k n) = (if n < 1840 then phys s (cell ?k (n + 80)) else 0)" if "n < 1920" for n
    using ph(2) that by (simp add: scrolled_def)
  moreover have "ph (cell ?l n) = phys s (cell ?l n)" if "n < 1920" for n
  proof -
    have "\<not> in_screen ?k (cell ?l n)" unfolding cell_def using in_screen_addr [OF k(3), of "2 * n" ?k] that k(4) by simp
    then show ?thesis using scrolled_frame [OF k(2) ph(2)] by simp
  qed
  ultimately show ?thesis using e by simp
qed

definition other_terminal :: kernel where
  "other_terminal = sample\<lparr>term_on_screen := 1, terms := (\<lambda>_. idle_term\<lparr>screen_y := 23\<rparr>)\<rparr>"

theorem enter_scrolls_wrong_screen_witness:
  "\<exists>t. key_enter other_terminal = Some t
    \<and> (\<forall>n<1920. phys t (cell (unat (curr_term other_terminal)) n) =
         (if n < 1840 then phys other_terminal (cell (unat (curr_term other_terminal)) (n + 80)) else 0))
    \<and> (\<forall>n<1920. phys t (cell (unat (term_on_screen other_terminal)) n) =
         phys other_terminal (cell (unat (term_on_screen other_terminal)) n))"
  by (rule enter_scrolls_wrong_screen)
     (use sample_views in \<open>simp_all add: other_terminal_def console_ok_def views_fields shown_def\<close>)

section \<open>Files and descriptors\<close>

text \<open>A device that answers 0, for the instances.\<close>

definition silent :: device where
  "silent log port = 0"

text \<open>C7: \<open>open\<close> on the name of a regular file takes the lowest free descriptor, and whatever
  sequence of counts \<open>read\<close> is then called with, the pieces put together are the file from its start: no byte is
  skipped, repeated or read past the end.\<close>

theorem open_then_read_file:
  assumes "runs s q" "fetch_cur_pcb_ptr s = Some p" "directory_ok s n" "cstr_n (at s filename) 32 f"
    and "k < n" "entry_name s k = f" "\<forall>j<k. entry_name s j \<noteq> f" "read_entry s (of_nat k) = Some d" "dentry_filetype d = 2"
    and "dentry_inode_num d \<noteq> -1" "holds_file s (dentry_inode_num d) bs"
    and "2 \<le> i" "i < 8" "\<not> desc_busy p s i" "\<forall>j. 2 \<le> j \<longrightarrow> j < i \<longrightarrow> desc_busy p s j"
    and "\<forall>m\<in>set ns. m < 2 ^ 32 \<and> user_buffer buf m"
  shows "\<exists>t u. sys_open dev filename s = Some (of_nat i, t) \<and> sys_read_on dev (of_nat i) buf ns t = Some (take (sum_list ns) bs, u)"
  by (rule open_then_read [OF assms])

lemma sample_busy: "desc_busy 0 sample j \<longleftrightarrow> j < 2"
  by (simp add: desc_busy_def desc_of_def sample_pcb_def sample_desc_def)

lemma sample_disk_name: "cstr_n (at sample 0x410040) 32 (bytes ''shell'')"
  using entry_name_cstr [OF sample_runs sample_directory, of 0] sample_name by (simp add: entry_def)

theorem open_then_read_file_witness:
  "\<exists>t u. sys_open silent 0x410040 sample = Some (of_nat 2, t)
    \<and> sys_read_on silent (of_nat 2) 0x8049000 [10, 0, 20] t = Some (take (sum_list [10, 0, 20]) sample_program, u)"
proof -
  obtain d where d: "read_entry sample (of_nat 0) = Some d" "dentry_filetype d = 2" "dentry_inode_num d = 0"
    using sample_read_entry by auto
  show ?thesis
  proof (rule open_then_read_file [OF sample_runs sample_fetch sample_directory sample_disk_name])
    show "holds_file sample (dentry_inode_num d) sample_program" using sample_file d(3) by simp
    show "read_entry sample (of_nat 0) = Some d" "dentry_filetype d = 2" "dentry_inode_num d \<noteq> -1" using d by simp_all
  qed (simp_all add: sample_name sample_busy user_buffer_def)
qed

text \<open>C25: \<open>read_dentry_by_name\<close> finds the first entry of that name, 32 characters being enough
  to tell names apart, and returns \<open>-1\<close> when there is none.\<close>

theorem lookup_by_name:
  assumes "runs s p" "directory_ok s n" "cstr_n fname 32 f"
  shows "((\<forall>j<n. entry_name s j \<noteq> f) \<longrightarrow> read_dentry_by_name fname s = Some (-1, None))
    \<and> (\<forall>k<n. entry_name s k = f \<and> (\<forall>j<k. entry_name s j \<noteq> f) \<longrightarrow>
         (\<exists>d. read_dentry_by_name fname s = Some (0, Some d) \<and> read_entry s (of_nat k) = Some d))"
  using read_dentry_by_name_first [OF assms] by blast

theorem lookup_by_name_witness:
  "read_dentry_by_name (lit (bytes ''spell'' @ [0])) sample = Some (-1, None)
    \<and> (\<exists>d. read_dentry_by_name (lit (bytes ''shell'' @ [0])) sample = Some (0, Some d) \<and> read_entry sample (of_nat 0) = Some d)"
proof -
  have c: "cstr_n (lit (bytes ''spell'' @ [0])) 32 (bytes ''spell'')" "cstr_n (lit (bytes ''shell'' @ [0])) 32 (bytes ''shell'')"
    by (simp_all add: cstr_n_def lit_def bytes_def asc_def forall_less_Suc_shift)
  show ?thesis
    using lookup_by_name [OF sample_runs sample_directory c(1)] lookup_by_name [OF sample_runs sample_directory c(2)]
    by (simp add: sample_name bytes_def asc_def)
qed

text \<open>Reading a directory descriptor copies out the next name and returns its length,
  whatever count the caller gives, and moves to the next entry.\<close>

theorem directory_read_name:
  assumes "at_directory s p i fd n pos" "pos < n" "length (entry_name s pos) < 32" "user_buffer buf 32"
  shows "\<exists>t. filesystem_read fd buf cnt s = Some (of_nat (length (entry_name s pos)), t) \<and> at_directory t p i fd n (pos + 1)
    \<and> ld_bytes t buf (length (entry_name s pos)) = Some (entry_name s pos)"
  using name_read [OF assms] by metis

definition midlist :: kernel where
  "midlist = upd_desc 0 2 (set_desc 1 0) sample"

lemma midlist_directory: "at_directory midlist 0 0 2 1 0"
proof -
  have d: "desc_only 0 2 sample midlist"
    unfolding desc_only_def midlist_def by (rule exI [of _ "set_desc 1 0 (sample_desc 2)"], rule exI [of _ "[]"], rule exI [of _ False])
       (simp add: upd_desc_def upd_pcb_def sample_pcb_def sample_def Let_def)
  show ?thesis
    using sample_runs sample_fetch sample_directory desc_only_files(2) [OF d] desc_only_fetch [OF d]
    by (simp add: at_directory_def) (simp add: midlist_def set_desc_def)
qed

theorem directory_read_name_witness:
  "\<exists>t. filesystem_read 2 0x8049000 1 midlist = Some (of_nat (length (entry_name midlist 0)), t) \<and> at_directory t 0 0 2 1 (0 + 1)
    \<and> ld_bytes t 0x8049000 (length (entry_name midlist 0)) = Some (entry_name midlist 0)"
proof (rule directory_read_name [OF midlist_directory])
  have "entry_name midlist 0 = entry_name sample 0" by (simp add: entry_name_def entry_def midlist_def)
  then show "length (entry_name midlist 0) < 32" by (simp add: sample_name bytes_def)
qed (simp_all add: user_buffer_def)

text \<open>C20: opens that succeed one after the other give different descriptors from 2 to 7, none
  of which was open, and close nothing.\<close>

theorem opens_are_distinct:
  assumes "fetch_cur_pcb_ptr s = Some p" "\<forall>e\<in>set es. openable e s" "fds.allocs dev es s = Some (is, t)"
  shows "distinct is \<and> (\<forall>i\<in>set is. 2 \<le> i \<and> i < 8 \<and> \<not> desc_busy p s i \<and> desc_busy p t i) \<and> (\<forall>j. desc_busy p s j \<longrightarrow> desc_busy p t j)"
  using assms by (rule fds.allocs_distinct)

lemma sample_openable: "openable 0x410040 sample"
  using read_dentry_by_name_first(2) [OF sample_runs sample_directory sample_disk_name, of 0] sample_name sample_read_entry
  by (auto simp: openable_def names_def)

theorem opens_are_distinct_witness:
  "\<exists>is t. fds.allocs silent [0x410040, 0x410040] sample = Some (is, t) \<and> distinct is
    \<and> (\<forall>i\<in>set is. 2 \<le> i \<and> i < 8 \<and> \<not> desc_busy 0 sample i \<and> desc_busy 0 t i) \<and> (\<forall>j. desc_busy 0 sample j \<longrightarrow> desc_busy 0 t j)"
proof -
  have "{i. 2 \<le> i \<and> i < 8 \<and> \<not> desc_busy 0 sample i} = {2..<8}" by (auto simp: sample_busy)
  then obtain js t where a: "fds.allocs silent [0x410040, 0x410040] sample = Some (js, t)"
    using fds.allocs_all [of sample 0 "[0x410040, 0x410040]" silent] sample_fetch sample_openable by auto
  then show ?thesis using opens_are_distinct [OF sample_fetch _ a] sample_openable by auto
qed

text \<open>C21: \<open>read\<close>, \<open>write\<close> and \<open>close\<close> on a number outside the table or on a descriptor that
  is not open return \<open>-1\<close> and change nothing; so do reading standard output, writing standard input and closing
  either.\<close>

theorem bad_descriptors_refused:
  assumes "fetch_cur_pcb_ptr s = Some p" "sint fd < 0 \<or> 7 < sint fd \<or> fd < 8 \<and> \<not> desc_busy p s (unat fd)"
  shows "sys_read dev n fd buf m s = Some (Done (-1), s) \<and> sys_write dev fd buf m s = Some (-1, s) \<and> sys_close fd s = Some (-1, s)
    \<and> sys_read dev n 1 buf m s = Some (Done (-1), s) \<and> sys_write dev 0 buf m s = Some (-1, s)
    \<and> sys_close 0 s = Some (-1, s) \<and> sys_close 1 s = Some (-1, s)"
  using assms(2) bad_descriptor [OF assms(1)] by auto

theorem bad_descriptors_refused_witness:
  "sys_read silent 0 5 0x8049000 4 sample = Some (Done (-1), sample) \<and> sys_write silent 5 0x8049000 4 sample = Some (-1, sample)
    \<and> sys_close 5 sample = Some (-1, sample) \<and> sys_read silent 0 1 0x8049000 4 sample = Some (Done (-1), sample)
    \<and> sys_write silent 0 0x8049000 4 sample = Some (-1, sample) \<and> sys_close 0 sample = Some (-1, sample) \<and> sys_close 1 sample = Some (-1, sample)"
  by (rule bad_descriptors_refused [OF sample_fetch]) (simp add: sample_busy)

section \<open>Real-time clock\<close>

text \<open>C34: \<open>write_rtc\<close> accepts exactly the powers of two from 2 to 1024 Hz. It then programs the divider
  of that frequency into register A, keeping the register's other four bits, and otherwise returns \<open>-1\<close> without
  writing a register.\<close>

theorem rtc_rate_set:
  fixes dev :: device
  assumes "ld_bytes s buf 4 = Some bs"
  defines "p \<equiv> dev (io_log s @ [Outb 0x8A 0x70]) 0x71"
  shows "if unat (word_of_bytes bs) \<in> (\<lambda>k. 2 ^ k) ` {1..10}
    then \<exists>v. write_rtc dev fd buf 4 s = Some (0, s\<lparr>iflag := True,
            io_log := io_log s @ [Outb 0x8A 0x70, Inb 0x71 p, Outb 0x8A 0x70, Outb v 0x71]\<rparr>)
        \<and> v AND 0xF0 = p AND 0xF0 \<and> rate_hz (v AND 0x0F) = unat (word_of_bytes bs)
    else write_rtc dev fd buf 4 s = Some (-1, s\<lparr>iflag := True, io_log := io_log s @ [Outb 0x8A 0x70, Inb 0x71 p]\<rparr>)"
proof (cases "unat (word_of_bytes bs) \<in> (\<lambda>k. 2 ^ k) ` {1..10}")
  case True
  then show ?thesis using write_rtc_rate(1) [OF assms(1) True, of dev fd] unfolding p_def by (simp only: if_True)
next
  case False
  then show ?thesis using write_rtc_rate(2) [OF assms(1) False, of dev fd] unfolding p_def by (simp only: if_False)
qed

theorem rtc_rate_set_witness:
  "if unat (word_of_bytes [2, 0, 0, 0]) \<in> (\<lambda>k. 2 ^ k) ` {1..10}
    then \<exists>v. write_rtc silent 2 0x410060 4 sample = Some (0, sample\<lparr>iflag := True,
            io_log := io_log sample @ [Outb 0x8A 0x70, Inb 0x71 (silent (io_log sample @ [Outb 0x8A 0x70]) 0x71), Outb 0x8A 0x70, Outb v 0x71]\<rparr>)
        \<and> v AND 0xF0 = silent (io_log sample @ [Outb 0x8A 0x70]) 0x71 AND 0xF0 \<and> rate_hz (v AND 0x0F) = unat (word_of_bytes [2, 0, 0, 0])
    else write_rtc silent 2 0x410060 4 sample = Some (-1, sample\<lparr>iflag := True,
            io_log := io_log sample @ [Outb 0x8A 0x70, Inb 0x71 (silent (io_log sample @ [Outb 0x8A 0x70]) 0x71)]\<rparr>)"
  by (rule rtc_rate_set) (use entry_load [of 32 4] in \<open>simp add: sample_entry_def bytes_def\<close>)

text \<open>C39: on a clock chip whose BCD registers show the UTC time \<open>t\<close>, \<open>gettime\<close> returns the time
  five hours earlier: the same day of the month, or the one before for the first five hours of a day that is not the
  first of its month, with the day of the week moved back too.\<close>

theorem clock_is_local:
  assumes "answers dev regs" "shows_clock regs t" "clock_ok t" "5 \<le> hour t \<or> 2 \<le> day t"
  shows "\<exists>u. fst (gettime dev s) = u \<and> clock_ok u \<and> 24 * day u + hour u = 24 * day t + hour t - 5
    \<and> second u = second t \<and> minute u = minute t \<and> month u = month t \<and> year u = year t
    \<and> week u = (if 5 \<le> hour t then week t else if week t = 1 then 7 else week t - 1)"
  using gettime_local [OF assms(1-3), of s] local_time_shift [OF assms(3,4)] by simp

definition clock_at :: "int \<Rightarrow> int \<Rightarrow> time_t" where
  "clock_at d h = \<lparr> second = 30, minute = 59, hour = h, week = 1, day = d, month = 3, year = 2015 \<rparr>"

definition clock_regs :: "time_t \<Rightarrow> u8 \<Rightarrow> u8" where
  "clock_regs t r = (if r = 0 then bcd_byte (nat (second t)) else if r = 2 then bcd_byte (nat (minute t))
     else if r = 4 then bcd_byte (nat (hour t)) else if r = 6 then of_nat (nat (week t)) else if r = 7 then bcd_byte (nat (day t))
     else if r = 8 then bcd_byte (nat (month t)) else if r = 9 then bcd_byte (nat (year t - 2000)) else 0)"

definition clock_chip :: "time_t \<Rightarrow> device" where
  "clock_chip t log port = (case last log of Outb r p \<Rightarrow> clock_regs t r | Inb _ _ \<Rightarrow> 0)"

lemma clock_chip_answers: "answers (clock_chip t) (clock_regs t)"
  by (simp add: answers_def clock_chip_def)

lemma clock_regs_show: "shows_clock (clock_regs t) t"
  by (simp add: shows_clock_def clock_regs_def)

theorem clock_is_local_witness:
  "\<exists>u. fst (gettime (clock_chip (clock_at 2 3)) sample) = u \<and> clock_ok u
    \<and> 24 * day u + hour u = 24 * day (clock_at 2 3) + hour (clock_at 2 3) - 5
    \<and> second u = second (clock_at 2 3) \<and> minute u = minute (clock_at 2 3) \<and> month u = month (clock_at 2 3) \<and> year u = year (clock_at 2 3)
    \<and> week u = (if 5 \<le> hour (clock_at 2 3) then week (clock_at 2 3) else if week (clock_at 2 3) = 1 then 7 else week (clock_at 2 3) - 1)"
  by (rule clock_is_local [OF clock_chip_answers clock_regs_show]) (simp_all add: clock_ok_def clock_at_def)

text \<open>In the first five hours of the first day of a month \<open>gettime\<close> returns day 0 of the same
  month: the test \<open>day < 0\<close>, which should move to the month before, never holds.\<close>

theorem clock_day_zero:
  assumes "answers dev regs" "shows_clock regs t" "clock_ok t" "hour t < 5" "day t = 1"
  shows "day (fst (gettime dev s)) = 0 \<and> month (fst (gettime dev s)) = month t \<and> year (fst (gettime dev s)) = year t"
  using gettime_local [OF assms(1-3), of s] local_time_day_zero [OF assms(3-5)] by simp

theorem clock_day_zero_witness:
  "day (fst (gettime (clock_chip (clock_at 1 3)) sample)) = 0
    \<and> month (fst (gettime (clock_chip (clock_at 1 3)) sample)) = month (clock_at 1 3)
    \<and> year (fst (gettime (clock_chip (clock_at 1 3)) sample)) = year (clock_at 1 3)"
  by (rule clock_day_zero [OF clock_chip_answers clock_regs_show]) (simp_all add: clock_ok_def clock_at_def)

text \<open>The clock line has the date, the day and minutes and seconds in two digits each, but the
  hour it shows is one less than \<open>hour t\<close>: 23 at midnight, and at 10 and 20 o'clock the character before \<open>0\<close> in
  place of the second digit.\<close>

theorem clock_line_text:
  assumes "clock_ok t" "day_name (week t - 1) = Some name"
  shows "time_text name t = clock_line name t
    (if hour t = 0 then bytes ''23'' else [digit (hour t div 10), digit (hour t mod 10 - 1)])"
  using time_text_line [OF assms(1) day_name_length [OF assms(2)]] .

theorem clock_line_text_witness:
  "time_text ''SUN'' (clock_at 2 10) = clock_line ''SUN'' (clock_at 2 10)
    (if hour (clock_at 2 10) = 0 then bytes ''23'' else [digit (hour (clock_at 2 10) div 10), digit (hour (clock_at 2 10) mod 10 - 1)])"
  by (rule clock_line_text) (simp_all add: clock_ok_def clock_at_def day_name_def)

text \<open>C35: \<open>read_rtc\<close> does not return before a clock interrupt and returns 0 at the first one;
  the handler draws the clock line below the screen of the running process, leaves all other memory and every
  terminal's text and cursor as they were, and flips the flag the reader waits on.\<close>

theorem rtc_read_waits_one_tick:
  assumes "views s k" "day_name (week (fst (gettime dev (sti s))) - 1) = Some name"
  shows "read_rtc dev 0 fd buf nbytes s = None \<and> (\<exists>t. read_rtc dev (Suc n) fd buf nbytes s = Some (0, t)
    \<and> clock_shown k (time_text name (fst (gettime dev (sti s)))) 28 t \<and> (\<forall>a. a \<notin> clock_cells k \<longrightarrow> phys t a = phys s a)
    \<and> terms t = terms s \<and> (\<forall>l<3. tty_of l t = tty_of l s) \<and> (rtc_interrupt_occured t \<noteq> 0 \<longleftrightarrow> rtc_interrupt_occured s = 0))"
proof -
  obtain t where t: "read_rtc dev (Suc n) fd buf nbytes s = Some (0, t)" "tick dev k (sti s) t"
    using read_rtc_one_interrupt(2) [OF assms] by metis
  have v: "views (sti s) k" using assms(1) views_mmu [of "sti s" s] by simp
  have "tty_of l t = tty_of l s" if "l < 3" for l
    using tick_tty [OF t(2) v that] by (simp add: tty_of_def sti_def cong: if_cong)
  then show ?thesis
    using t assms(2) read_rtc_one_interrupt(1) [OF assms] by (auto simp: tick_def sti_def)
qed

lemma clock_chip_week: "5 \<le> hour t \<Longrightarrow> clock_ok t \<Longrightarrow> week (fst (gettime (clock_chip t) s)) = week t"
  using gettime_local [OF clock_chip_answers clock_regs_show, of t s] local_time_shift(7) [of t] by simp

theorem rtc_read_waits_one_tick_witness:
  "read_rtc (clock_chip (clock_at 2 9)) 0 2 0 4 sample = None \<and> (\<exists>t. read_rtc (clock_chip (clock_at 2 9)) (Suc 0) 2 0 4 sample = Some (0, t)
    \<and> clock_shown 0 (time_text ''SUN'' (fst (gettime (clock_chip (clock_at 2 9)) (sti sample)))) 28 t
    \<and> (\<forall>a. a \<notin> clock_cells 0 \<longrightarrow> phys t a = phys sample a)
    \<and> terms t = terms sample \<and> (\<forall>l<3. tty_of l t = tty_of l sample) \<and> (rtc_interrupt_occured t \<noteq> 0 \<longleftrightarrow> rtc_interrupt_occured sample = 0))"
  by (rule rtc_read_waits_one_tick [OF sample_views])
     (simp add: clock_chip_week clock_ok_def clock_at_def day_name_def)

section \<open>Scheduling\<close>

text \<open>Without the devices between them: \<open>init_schedule\<close> after \<open>init_paging\<close> establishes the scheduler's invariant: the
  ring of three terminals, each slot's process on its own screen, and process 0 running on terminal 0, whose slot is
  the only active one.\<close>

theorem boot_establishes_scheduler:
  assumes "link_ok s" "video_table s = (\<lambda>_ _. blank_pte)" "curr_pid s = 0"
  shows "sched_ok (init_schedule (init_paging s)) \<and> slot_ready 0 (init_schedule (init_paging s))"
proof -
  have "curr_pid (init_paging s) = curr_pid s"
    unfolding init_paging_def set_cr0_def set_pse_def flush_tlb_def Let_def
    by (simp add: fold_keeps [where g = curr_pid] map_process_def map_video_pages_def map_video_dirs_def map_program_def map_kernel_def
        clear_tables_def set_pde_def set_pte_def set_vte_def Let_def)
  then show ?thesis
    using init_paging_establishes [OF assms(1,2)] assms(3) by (intro init_schedule_ok) simp_all
qed

definition unpaged :: kernel where
  "unpaged = sample\<lparr>video_table := (\<lambda>_ _. blank_pte)\<rparr>"

theorem boot_establishes_scheduler_witness:
  "sched_ok (init_schedule (init_paging unpaged)) \<and> slot_ready 0 (init_schedule (init_paging unpaged))"
  by (rule boot_establishes_scheduler)
     (simp_all add: unpaged_def link_ok_def aligned_def sample_def Let_def base_image_def
       init_paging_def set_cr0_def set_pse_def flush_tlb_def)



text \<open>C8: every active terminal gets the processor within three timer interrupts.\<close>

theorem terminals_are_served:
  assumes "sched_ok s" "i < 3" "slot_ready i s" "length es = 3"
  shows "\<exists>k<3. \<exists>t. foldM tick_step (take (Suc k) es) s = Some t \<and> slot_running i t"
  using assms by (rule terminal_soon)

theorem terminals_are_served_witness:
  "\<exists>k<3. \<exists>t. foldM tick_step (take (Suc k) [0x7FFE00, 0x7FDE00, 0x7FBE00]) sample = Some t \<and> slot_running 2 t"
  by (rule terminals_are_served [OF sample_sched]) (simp_all add: slot_ready_def sample_task_def)

text \<open>C9: a process preempted with its registers saved at \<open>e\<close>, when it next gets the
  processor, resumes at \<open>e\<close>, whatever happened in between that left its block alone.\<close>

theorem preempted_process_resumes:
  assumes "sched_ok s" "shell_flag (pcbs s p) = 0" "unat (curr_pid s) = p"
    and "timer_hand e s = Some (Some l, t)" "away p t u" "sched_ok u"
    and "timer_hand e' u = Some (Some l', v)" "unat (curr_pid v) = p"
  shows "l' = Resume e"
  by (rule preempt_resume [OF assms])

lemma sample_switch:
  assumes "sched_ok s" "slot_ready (task_list_head s) s" "unat (curr_pid s) \<noteq> unat (task_pid (terminal s (task_list_head s)))"
  obtains l t where "timer_hand e s = Some (Some l, t)" "sched_ok t" "terminal t = terminal s"
    "task_list_head t = (task_list_head s + 1) mod 3" "unat (curr_pid t) = unat (task_pid (terminal s (task_list_head s)))"
proof -
  obtain l t where t: "timer_hand e s = Some (l, t)" "handed (s\<lparr>sched_esp := e\<rparr>) l t" "sched_ok t"
    using timer_hand_hands [OF assms(1), of e] by metis
  then obtain k where "l = Some k" using assms(2,3) by (cases l) (auto simp: handed_def Let_def slot_ready_def)
  then show ?thesis using t by (intro that [of k t]) (simp_all add: handed_def Let_def)
qed

theorem preempted_process_resumes_witness:
  "\<exists>l t l2 u l3 v. timer_hand 0x7FFE00 sample = Some (Some l, t) \<and> timer_hand 0x7FDE00 t = Some (Some l2, u)
    \<and> timer_hand 0x7FBE00 u = Some (Some l3, v) \<and> l3 = Resume 0x7FFE00"
proof -
  obtain l t where t: "timer_hand 0x7FFE00 sample = Some (Some l, t)" "sched_ok t" "terminal t = sample_task" "task_list_head t = 2"
    "unat (curr_pid t) = 1"
    by (rule sample_switch [OF sample_sched, of "0x7FFE00"]) (auto simp: slot_ready_def sample_task_def)
  obtain l2 u where u: "timer_hand 0x7FDE00 t = Some (Some l2, u)" "sched_ok u" "terminal u = sample_task" "task_list_head u = 0"
    "unat (curr_pid u) = 2"
    by (rule sample_switch [OF t(2), of "0x7FDE00"]) (use t in \<open>auto simp: slot_ready_def sample_task_def\<close>)
  obtain l3 v where v: "timer_hand 0x7FBE00 u = Some (Some l3, v)" "unat (curr_pid v) = 0"
    by (rule sample_switch [OF u(2), of "0x7FBE00"]) (use u in \<open>auto simp: slot_ready_def sample_task_def\<close>)
  have a: "away 0 t u" using away_tick [OF away_start t(2) u(1), of 0] t(5) u(5) by simp
  have "l3 = Resume 0x7FFE00"
    by (rule preempted_process_resumes [OF sample_sched _ _ t(1) a u(2) v(1)]) (simp_all add: sample_pcb_def v(2))
  with t(1) u(1) v(1) show ?thesis by blast
qed

section \<open>Processes\<close>

text \<open>C2: \<open>execute\<close> of a program in the directory, when a slot is free, enters the program's image,
  loaded byte for byte, with its arguments, standard input and output open and nothing else, on its own tables; when
  it later calls \<open>halt\<close>, the caller goes on where it was, on its own tables and stack, with the status, and the slot is
  free again. Both ways the invariant of the process table holds.\<close>

theorem execute_and_halt:
  assumes "proc_ok s" "command_is cmd name ys" "take 5 name \<noteq> bytes ''clear''" "program_in s n k name inode bs eip"
    and "free_slot s = Some i" "3 \<le> i" "i < 6" "3 \<le> active_root_shell s" "3 \<le> active_proc_num s" "active_proc_num s < 255"
  shows "\<exists>t. execute cmd s = Some (Left (Start eip 0x083FFFFC), t) \<and> proc_ok t
    \<and> curr_pid t = of_nat i \<and> current_dir t = Some i \<and> ld_bytes t 0x08048000 (length bs) = Some bs
    \<and> args (pcbs t i) = ys @ replicate (129 - length ys) 0
    \<and> (\<forall>j<8. desc_busy i t j \<longleftrightarrow> j < 2) \<and> (\<forall>j<2. file_ops_table_ptr (desc_of t i j) = Terminal_ops)
    \<and> (\<forall>u status. child_runs t (unat (curr_pid s)) u \<longrightarrow>
         (\<exists>v. halt status u = Some (Left (Unwind (esp s) (ucast status)), v) \<and> proc_ok v
           \<and> returned u (unat (curr_pid s)) (esp s) (ss s) v \<and> pcb_status_array v = (pcb_status_array s)[i := 0]))"
  by (rule execute_then_halt [OF assms]) blast

theorem execute_and_halt_witness:
  "\<exists>t. execute (at sample 0x8048100) sample = Some (Left (Start 0x08048018 0x083FFFFC), t) \<and> proc_ok t
    \<and> curr_pid t = of_nat 3 \<and> current_dir t = Some 3 \<and> ld_bytes t 0x08048000 (length sample_program) = Some sample_program
    \<and> args (pcbs t 3) = bytes ''hi'' @ replicate (129 - length (bytes ''hi'')) 0
    \<and> (\<forall>j<8. desc_busy 3 t j \<longleftrightarrow> j < 2) \<and> (\<forall>j<2. file_ops_table_ptr (desc_of t 3 j) = Terminal_ops)
    \<and> (\<forall>u status. child_runs t (unat (curr_pid sample)) u \<longrightarrow>
         (\<exists>v. halt status u = Some (Left (Unwind (esp sample) (ucast status)), v) \<and> proc_ok v
           \<and> returned u (unat (curr_pid sample)) (esp sample) (ss sample) v \<and> pcb_status_array v = (pcb_status_array sample)[3 := 0]))"
  by (rule execute_and_halt [OF sample_proc sample_command_is _ sample_program_in sample_free]) (simp_all add: bytes_def asc_def)

text \<open>C26: a command whose program is not in the directory prints a message and returns \<open>-1\<close>,
  changing only the caller's screen, but returns with the timer line disabled, so no terminal is scheduled any more.\<close>

theorem execute_missing_program:
  assumes "runs s q" "command_is cmd name ys" "take 5 name \<noteq> bytes ''clear''" "directory_ok s n" "\<forall>k<n. entry_name s k \<noteq> name"
    and "can_show s (bytes ''execute:no such file\<newline>'')"
  shows "\<exists>t. execute cmd s = Some (Done (-1), t) \<and> output_only (disable_irq 0 s) t \<and> \<not> irq_enabled t 0
    \<and> tty_of (unat (curr_term s)) t = fold tty_putc (bytes ''execute:no such file\<newline>'') (tty_of (unat (curr_term s)) s)"
  by (rule execute_missing [OF assms])

lemma sample_message: "can_show sample (bytes ''execute:no such file\<newline>'')"
  using sample_tty sample_console by (simp add: can_show_def tty_ok_def bytes_def asc_def tty_last_def tty_putc_def tty_newline_def Let_def)

theorem execute_missing_program_witness:
  "\<exists>t. execute (lit (bytes ''spell x'' @ [0])) sample = Some (Done (-1), t) \<and> output_only (disable_irq 0 sample) t \<and> \<not> irq_enabled t 0
    \<and> tty_of (unat (curr_term sample)) t = fold tty_putc (bytes ''execute:no such file\<newline>'') (tty_of (unat (curr_term sample)) sample)"
proof (rule execute_missing_program [OF sample_runs _ _ sample_directory _ sample_message])
  show "command_is (lit (bytes ''spell x'' @ [0])) (bytes ''spell'') (bytes ''x'')"
    by (simp add: command_is_def word_at_def lit_def bytes_def asc_def forall_less_Suc_shift)
qed (simp_all add: sample_name bytes_def asc_def)

text \<open>C27: a command whose first word has more than 32 characters is copied past the end of
  the 32-byte array on the kernel stack: the length is only tested afterwards.\<close>

theorem execute_overlong_name:
  assumes "word_at cmd 0 name" "32 \<notin> set name" "32 < length name"
  shows "execute cmd s = None"
  by (rule execute_overlong [OF assms])

theorem execute_overlong_name_witness: "execute (lit (replicate 40 65)) sample = None"
proof (rule execute_overlong_name [where name = "replicate 40 65"])
  have "unat (of_nat i :: u32) = i" if "i < 40" for i using that by (intro unat_of_nat_small) simp
  then show "word_at (lit (replicate 40 65)) 0 (replicate 40 65)" by (auto simp: word_at_def lit_def)
qed simp_all

text \<open>C23: a program's \<open>getargs\<close> with room for its arguments and their NUL gives back what
  \<open>execute\<close> was given, padded with NULs up to the 129 bytes of the block's array, in the caller's memory alone; a
  larger buffer is filled on with whatever follows in the kernel; with too little room the call is refused.\<close>

theorem getargs_round_trip:
  assumes "runs s p" "curr_pid s < 6" "args (pcbs s (unat (curr_pid s))) = ys @ replicate (129 - length ys) 0" "0 \<notin> set ys"
    and "length ys \<le> 128" "m \<le> 8064" "user_buffer buf m"
  shows "if length ys < m
    then \<exists>bs t. getargs buf (of_nat m) s = Some (0, t) \<and> ld_bytes t buf m = Some bs
      \<and> take 129 bs = ys @ replicate (min m 129 - length ys) 0 \<and> only_program p s t
    else getargs buf (of_nat m) s = Some (-1, s)"
  using getargs_copies [OF assms(1-4) _ assms(5-7)] getargs_short [OF assms(2-5), of m] by (cases "length ys < m") simp_all

theorem getargs_round_trip_witness:
  "if length ([] :: u8 list) < 1024
    then \<exists>bs t. getargs 0x8049000 (of_nat 1024) sample = Some (0, t) \<and> ld_bytes t 0x8049000 1024 = Some bs
      \<and> take 129 bs = [] @ replicate (min 1024 129 - length ([] :: u8 list)) 0 \<and> only_program 0 sample t
    else getargs 0x8049000 (of_nat 1024) sample = Some (-1, sample)"
  by (rule getargs_round_trip [OF sample_runs]) (simp_all add: sample_pcb_def user_buffer_def)

text \<open>C22: \<open>vidmap\<close> stores at the user's pointer an address through which the program, at user
  level, reaches each byte of the text screen of its own terminal; a pointer outside the program's page is refused.\<close>

theorem vidmap_gives_screen:
  assumes "runs s p" "user_buffer a 4" "unat (curr_term s) < 3"
  shows "\<exists>t v. vidmap a s = Some (0, t) \<and> only_program p s t \<and> ld_word t a = Some v
    \<and> (\<forall>n<4096. user_translate t (v + of_nat n) = Some (screen_addr (unat (curr_term s)) n))
    \<and> (\<forall>b. unat b < 0x8000000 \<or> 0x8400000 \<le> unat b \<longrightarrow> vidmap b s = Some (-1, s))"
proof -
  obtain t where t: "vidmap a s = Some (0, t)" "only_program p s t" "ld_word t a = Some (screen_pointer (curr_term s))"
    using vidmap_maps [OF assms] by blast
  have "runs t p" using assms(1) only_program_runs [OF t(2)] by simp
  then show ?thesis using t screen_pointer_user [of t p "curr_term s"] assms(3) vidmap_refuses by blast
qed

theorem vidmap_gives_screen_witness:
  "\<exists>t v. vidmap 0x8049000 sample = Some (0, t) \<and> only_program 0 sample t \<and> ld_word t 0x8049000 = Some v
    \<and> (\<forall>n<4096. user_translate t (v + of_nat n) = Some (screen_addr (unat (curr_term sample)) n))
    \<and> (\<forall>b. unat b < 0x8000000 \<or> 0x8400000 \<le> unat b \<longrightarrow> vidmap b sample = Some (-1, sample))"
  by (rule vidmap_gives_screen [OF sample_runs]) (simp_all add: user_buffer_def)

text \<open>Below the programs: \<open>terminal_write\<close> shows the bytes of the caller's buffer on the caller's terminal,
  in order, and changes no other terminal, process memory or kernel state; it returns 0 with interrupts enabled.\<close>

theorem terminal_write_shows_bytes:
  assumes "runs s p" "console_ok s" "user_buffer a (length bs)" "ld_bytes s a (length bs) = Some bs" "can_show s bs" "length bs < 2 ^ 31"
  shows "\<exists>t. terminal_write fd a (of_nat (length bs)) s = Some (0, t) \<and> iflag t
    \<and> tty_of (unat (curr_term s)) t = fold tty_putc bs (tty_of (unat (curr_term s)) s) \<and> output_only (s\<lparr>iflag := True\<rparr>) t"
  by (rule terminal_write_shows [OF assms])

theorem terminal_write_shows_bytes_witness:
  "\<exists>t. terminal_write 1 0x8048100 (of_nat (length (bytes ''shell hi''))) sample = Some (0, t) \<and> iflag t
    \<and> tty_of (unat (curr_term sample)) t = fold tty_putc (bytes ''shell hi'') (tty_of (unat (curr_term sample)) sample)
    \<and> output_only (sample\<lparr>iflag := True\<rparr>) t"
proof (rule terminal_write_shows_bytes [OF sample_runs sample_console])
  show "ld_bytes sample 0x8048100 (length (bytes ''shell hi'')) = Some (bytes ''shell hi'')"
    using sample_user [of 0] sample_user [of 1] sample_user [of 2] sample_user [of 3] sample_user [of 4] sample_user [of 5] sample_user [of 6] sample_user [of 7]
    by (simp add: bytes_def sample_command_def)
  show "can_show sample (bytes ''shell hi'')"
    using sample_tty sample_console by (simp add: can_show_def tty_ok_def bytes_def asc_def tty_last_def tty_putc_def Let_def)
qed (simp_all add: user_buffer_def bytes_def)

section \<open>Boot\<close>

text \<open>The last step on its own: from the state \<open>entry\<close> has prepared, with the shell in the file system, its three
  \<open>execute ("shell")\<close> calls end by entering the shell's code as process 0 with interrupts and the timer line
  on; three processes exist, each with the whole program image in its own page, the invariant of the process table
  holds, and processes 1 and 2 will start at the shell's entry point when they are first scheduled.\<close>

theorem first_shell_entered:
  assumes "before_shells s" "command_is (shell_command s) (bytes ''shell'') ys" "program_in s n k (bytes ''shell'') inode bs eip"
  shows "\<exists>t. start_shells s = Some (Left (Start eip 0x083FFFFC), t) \<and> proc_ok t \<and> curr_pid t = 0 \<and> irq_enabled t 0 \<and> iflag t
    \<and> pcb_status_array t = [1, 1, 1, 0, 0, 0] \<and> active_proc_num t = 3 \<and> active_root_shell t = 3
    \<and> (\<forall>p<3. image_at (phys t) p bs) \<and> (\<forall>p\<in>{1, 2}. shell_flag (pcbs t p) = 1 \<and> cmd_eip (pcbs t p) = eip)"
  using start_shells_enters [OF assms] by metis

definition sample_boot :: kernel where
  "sample_boot = sample\<lparr>pcb_status_array := [1, 0, 0, 0, 0, 0], active_proc_num := 0, active_root_shell := 0\<rparr>"

lemma sample_boot_runs: "runs sample_boot 0" "screen_of sample_boot = screen_of sample"
proof -
  have m: "mmu sample_boot = mmu sample" by (simp add: sample_boot_def mmu_def)
  show "runs sample_boot 0" "screen_of sample_boot = screen_of sample" using runs_mmu [OF m] mmu_cong(5) [OF m] sample_runs by simp_all
qed

lemma sample_before_shells: "before_shells sample_boot"
  using sample_boot_runs sample_paging sample_sched
  by (simp add: before_shells_def sched_ok_def ring_ok_def) (simp add: sample_boot_def sample_task_def)

lemma sample_boot_program: "program_in sample_boot 1 0 (bytes ''shell'') 0 sample_program 0x08048018"
proof (rule same_program [OF _ sample_program_in])
  show "kernel_same sample sample_boot"
    using sample_runs sample_boot_runs(1) unfolding kernel_same_def by (auto simp: sample_boot_def)
qed

lemma sample_boot_command: "command_is (shell_command sample_boot) (bytes ''shell'') []"
  by (simp add: command_is_def word_at_def shell_command_def bytes_def asc_def sample_boot_def sample_def Let_def forall_less_Suc_shift)

theorem first_shell_entered_witness:
  "\<exists>t. start_shells sample_boot = Some (Left (Start 0x08048018 0x083FFFFC), t) \<and> proc_ok t \<and> curr_pid t = 0 \<and> irq_enabled t 0
    \<and> iflag t \<and> pcb_status_array t = [1, 1, 1, 0, 0, 0] \<and> active_proc_num t = 3 \<and> active_root_shell t = 3
    \<and> (\<forall>p<3. image_at (phys t) p sample_program)
    \<and> (\<forall>p\<in>{1, 2}. shell_flag (pcbs t p) = 1 \<and> cmd_eip (pcbs t p) = 0x08048018)"
  by (rule first_shell_entered [OF sample_before_shells sample_boot_command sample_boot_program])





text \<open>C38: the descriptors \<open>entry\<close> builds in the GDT, packed and decoded the way the
  processor does it, give the address and the low 20 bits of the size of the LDT and of the task state segment.\<close>

theorem segments_describe_tables:
  "segment_base (seg_word (ldt_desc_ptr (load_ldt k s))) = ldt_addr k
    \<and> segment_limit (seg_word (ldt_desc_ptr (load_ldt k s))) = ldt_size k AND mask 20
    \<and> segment_base (seg_word (tss_desc_ptr (load_tss k s))) = tss_addr k
    \<and> segment_limit (seg_word (tss_desc_ptr (load_tss k s))) = tss_size k AND mask 20"
  by (simp add: load_ldt_def load_tss_def ldt_descriptor_def tss_descriptor_def segment_decode)

text \<open>The initialisation and the three \<open>execute ("shell")\<close> calls alone, from a machine on which the address of the file
  system is known.\<close>

theorem boot_reaches_shell:
  assumes "cold s" "link_ok s" "video_table s = (\<lambda>_ _. blank_pte)" "in_kernel (filesystem_base s) 12"
    and "pcb_status_array s = [1, 0, 0, 0, 0, 0]" "command_is (shell_command s) (bytes ''shell'') ys"
    and "file_system_init (init_paging s) = Some (r, d)" "program_in d n k (bytes ''shell'') inode bs eip"
  shows "\<exists>t u. init_devices dev s = Some t \<and> start_shells t = Some (Left (Start eip 0x083FFFFC), u) \<and> proc_ok u
    \<and> curr_pid u = 0 \<and> irq_enabled u 0 \<and> iflag u \<and> pcb_status_array u = [1, 1, 1, 0, 0, 0]
    \<and> (\<forall>p<3. image_at (phys u) p bs)"
  using boot_enters_shell [OF assms] by metis

theorem boot_reaches_shell_witness:
  "\<exists>t u. init_devices silent sample_cold = Some t \<and> start_shells t = Some (Left (Start 0x08048018 0x083FFFFC), u) \<and> proc_ok u
    \<and> curr_pid u = 0 \<and> irq_enabled u 0 \<and> iflag u \<and> pcb_status_array u = [1, 1, 1, 0, 0, 0]
    \<and> (\<forall>p<3. image_at (phys u) p sample_program)"
proof -
  obtain d where d: "file_system_init (init_paging sample_cold) = Some (0, d)"
    "program_in d 1 0 (bytes ''shell'') 0 sample_program 0x08048018"
    using cold_disk by blast
  have c: "command_is (shell_command sample_cold) (bytes ''shell'') []"
    by (simp add: command_is_def word_at_def shell_command_def bytes_def asc_def forall_less_Suc_shift)
  show ?thesis
    by (rule boot_reaches_shell [OF _ cold_link _ _ _ c d]) (simp_all add: cold_def in_kernel_def)
qed



section \<open>User programs\<close>

text \<open>C5: the kernel passes its own error tests. With \<open>.\<close> in the directory, no file of the wrong names the
  tests try, and nothing open but 0 and 1, \<open>syserr\<close> run on all its tests returns 0 and prints the eight \<open>PASS\<close>
  lines and the overall one: calls on bad, unopened and wrong descriptors, unknown names and call numbers and bad
  pointers are refused, a seventh file cannot be opened, and what was opened is closed again. Every call goes through
  the system call stubs, and nothing else changes but the screen.\<close>

theorem syserr_passes:
  assumes "under_test e p i n s" "only_stdio i s"
    and "tty_ok (tty_of (unat (curr_term s)) s)" "tty_x (tty_of (unat (curr_term s)) s) = 0"
  shows "\<exists>t. run_test e tests 0 s = Some (Done 0, t) \<and> effect p i {} verdicts s t \<and> under_test e p i n t \<and> only_stdio i t"
proof -
  have "can_show s verdicts" using narrow_show assms verdicts_narrow by (metis under_test_def)
  then obtain t where "all_tests e tests s = Some (Done 0, t)" "effect p i {} verdicts s t" "under_test e p i n t \<and> only_stdio i t"
    using tests.does_run [OF all_pass] assms(1,2) by blast
  then show ?thesis by (auto simp: run_test_def)
qed

theorem syserr_passes_witness:
  "\<exists>t. run_test user_env (\<lambda>k. 0x08060000) 0 user_sample = Some (Done 0, t) \<and> effect 0 0 {} verdicts user_sample t
    \<and> under_test user_env 0 0 2 t \<and> only_stdio 0 t"
  by (rule syserr_passes [OF user_under_test user_stdio]) (simp_all add: user_tty tty_ok_def)

text \<open>C6: \<open>cat\<close>, given the name of a file as \<open>execute\<close> stored it, asks for its arguments, opens the
  file, reads it in pieces of 1024 bytes and writes each piece to the terminal until a read returns 0; then it
  returns 0. The screen shows the file, byte for byte, and beside the program's own page, the descriptor it opened
  and the terminal nothing changes.\<close>

theorem cat_prints_file:
  assumes "ready p i s" "curr_pid s < 6" "args (pcbs s (unat (curr_pid s))) = name @ replicate (129 - length name) 0" "0 \<notin> set name"
    and "length name \<le> 32" "listed s n name d" "dentry_filetype d = 2" "dentry_inode_num d \<noteq> -1" "holds_file s (dentry_inode_num d) bs"
    and "2 \<le> k" "k < 8" "\<not> desc_busy i s k" "\<forall>j. 2 \<le> j \<longrightarrow> j < k \<longrightarrow> desc_busy i s j" "user_buffer buf 1024" "can_show s bs"
  shows "\<exists>t. cat_main e buf s = Some (Done 0, t) \<and> effect p i own_page bs s t"
  by (rule cat_main_run [OF assms])

theorem cat_prints_file_witness:
  "\<exists>t. cat_main user_env 0x08060000 user_sample = Some (Done 0, t) \<and> effect 0 0 own_page sample_program user_sample t"
proof -
  obtain d where d: "listed user_sample 2 (bytes ''shell'') d" "dentry_filetype d = 2" "dentry_inode_num d = 0"
    using user_listed(1) by blast
  have "can_show user_sample sample_program"
    by (rule narrow_show [OF user_ready]) (simp_all add: user_tty tty_ok_def narrow_short)
  then show ?thesis
    using d user_file user_stdio
    by (intro cat_prints_file [OF user_ready _ _ _ _ d(1,2), where k = 2])
      (simp_all add: user_sample_def user_buffer_def bytes_def asc_def only_stdio_def)
qed

text \<open>C10: \<open>ls\<close> prints every entry of the directory in order, one to a line, and returns 0, for a
  directory whose names are not empty and shorter than the 32 bytes of an entry.\<close>

theorem ls_lists_directory:
  assumes "ready p i s" "holds_str s (literal e ''.'') (bytes ''.'')" "listed s n (bytes ''.'') d" "dentry_filetype d = 1"
    and "2 \<le> k" "k < 8" "\<not> desc_busy i s k" "\<forall>j. 2 \<le> j \<longrightarrow> j < k \<longrightarrow> desc_busy i s j" "user_buffer buf 33"
    and "tty_ok (tty_of (unat (curr_term s)) s)" "tty_x (tty_of (unat (curr_term s)) s) = 0"
    and "\<forall>j<n. entry_name s j \<noteq> [] \<and> length (entry_name s j) < 32"
  shows "\<exists>t. ls_main e buf s = Some (Done 0, t) \<and> effect p i own_page (concat (map (\<lambda>j. entry_name s j @ [10]) [0..<n])) s t"
proof -
  have "can_show s (listing s n 0)" using narrow_show [OF assms(1,10)] listing_narrow [of n s] assms(11,12) by simp
  then show ?thesis using ls_main_run [OF assms(1-9) _ assms(12)] by (simp add: listing_def)
qed

theorem ls_lists_directory_witness:
  "\<exists>t. ls_main user_env 0x08060000 user_sample = Some (Done 0, t) \<and> effect 0 0 own_page (bytes ''shell'' @ [10] @ bytes ''.'' @ [10]) user_sample t"
proof -
  obtain d where d: "listed user_sample 2 (bytes ''.'') d" "dentry_filetype d = 1" using user_listed(2) by blast
  have l: "concat (map (\<lambda>j. entry_name user_sample j @ [10]) [0..<2]) = bytes ''shell'' @ [10] @ bytes ''.'' @ [10]"
    using user_names by (simp add: upt_rec)
  show ?thesis
    unfolding l [symmetric]
  proof (rule ls_lists_directory [OF user_ready _ d, where k = 2])
    show "holds_str user_sample (literal user_env ''.'') (bytes ''.'')" using user_string [of "''.''"] by (simp add: user_strings_def test_strings_def)
    show "\<forall>j<2. entry_name user_sample j \<noteq> [] \<and> length (entry_name user_sample j) < 32"
      using user_names by (auto simp: less_2_cases_iff bytes_def)
  qed (use user_stdio in \<open>simp_all add: user_buffer_def user_tty tty_ok_def only_stdio_def\<close>)
qed



text \<open>C12: descriptor tables stay well typed: every open descriptor of a process points to the driver its
  number calls for, the terminal for 0 and 1, the clock or the file system from 2 on. The block \<open>execute\<close> builds is
  well typed whatever was in it before, and \<open>open\<close>, \<open>close\<close> and \<open>write\<close> keep it so whatever the program passes, also
  where they fail; so a call through an open descriptor never goes through a stale pointer.\<close>

theorem descriptors_typed:
  assumes "fetch_cur_pcb_ptr s = Some p" "typed_descs p s"
  shows "typed_descs i (exec_block i fname arg m u)
    \<and> pred_option (\<lambda>(v, t). typed_descs p t) (sys_open dev e s)
    \<and> pred_option (\<lambda>(v, t). typed_descs p t) (sys_close fd s)
    \<and> pred_option (\<lambda>(v, t). typed_descs p t) (sys_write dev out buf n s)"
  using exec_block_typed sys_open_typed [OF assms, of dev e] sys_close_typed [OF assms, of fd] sys_write_typed [OF assms, of dev out buf n]
  by (auto simp: pred_option_def)

theorem descriptors_typed_witness:
  "typed_descs 3 (exec_block 3 (replicate 32 0) (replicate 128 0) 0 sample)
    \<and> pred_option (\<lambda>(v, t). typed_descs 0 t) (sys_open (\<lambda>_ _. 0) 0x8048100 sample)
    \<and> pred_option (\<lambda>(v, t). typed_descs 0 t) (sys_close 2 sample)
    \<and> pred_option (\<lambda>(v, t). typed_descs 0 t) (sys_write (\<lambda>_ _. 0) 1 0x8048100 8 sample)"
  by (rule descriptors_typed [OF sample_fetch])
     (simp add: typed_descs_def desc_busy_def desc_of_def sample_pcb_def sample_desc_def)

section \<open>The fish\<close>

text \<open>C16: \<open>main\<close> of \<open>fish.c\<close> begins with an empty \<open>blink_array\<close> and the address \<open>vidmap\<close> stores for it:
  from any state of the program with a NULL list head it goes on, with its terminal's screen reachable through
  \<open>vmem_base_addr\<close>, an empty list and all elements free.\<close>

theorem fish_starts:
  assumes "sees p (unat (curr_term s)) s m v" "layout_ok l" "dword_in m (mp1_list_head l) = 0"
  shows "\<exists>t m'. fish_start e l s = Some (Done (screen_pointer (curr_term s)), t) \<and> screen_pointer (curr_term s) \<noteq> 0
    \<and> sees p (unat (curr_term s)) t m' v \<and> video l (unat (curr_term s)) m' \<and> blinking l m' [] \<and> free_node l m' = Some 0"
  using assms by (rule fish_start_ready)

theorem fish_starts_witness:
  "\<exists>t m'. fish_start user_env fish_layout sample = Some (Done 0x84B8000, t)
    \<and> sees 0 0 t m' (vmem 0 sample) \<and> video fish_layout 0 m' \<and> blinking fish_layout m' []"
proof -
  have "sees 0 (unat (curr_term sample)) sample (umem 0 sample) (vmem 0 sample)" using sample_runs by (simp add: sees_def)
  from fish_starts [OF this fish_layout_ok sample_head, of user_env] show ?thesis by (auto simp: screen_pointer_def)
qed

text \<open>C14: \<open>mp1_ioctl\<close> with \<open>RTC_ADD\<close> puts the caller's structure, with its countdown and status set, in front
  of the list and shows its first character, or, when the location is off the screen or all elements are in use, returns
  -1 and leaves list and screen as they are.\<close>

theorem fish_adds:
  assumes "sees p k s m v" "layout_ok l" "video l k m" "blinking l m as" "user_buffer arg 16" "span arg 16 \<inter> span (add_temp l) 16 = {}"
    and "blink_in m arg = b" "0 < location b"
  shows "if location b < 2000 \<and> free_node l m \<noteq> None
    then \<exists>t m'. mp1_ioctl l arg 0 s = Some (0, t) \<and> sees p k t m' (v(2 * unat (location b) := on_char b))
      \<and> blinking l m' (slot l (the (free_node l m)) # as) \<and> video l k m'
      \<and> map (blink_in m') (slot l (the (free_node l m)) # as) = started b # map (blink_in m) as
    else \<exists>t m'. mp1_ioctl l arg 0 s = Some (-1, t) \<and> sees p k t m' v \<and> blinking l m' as \<and> video l k m'
      \<and> map (blink_in m') as = map (blink_in m) as"
proof (cases "location b < 2000 \<and> free_node l m \<noteq> None")
  case True
  then obtain i where "free_node l m = Some i" "on_screen (blink_in m arg)" using assms(7,8) by (auto simp: on_screen_def)
  from add_inserts [OF assms(1-6) this(2,1)] show ?thesis using True \<open>free_node l m = Some i\<close> assms(7) by simp
next
  case False
  then have "2000 \<le> location (blink_in m arg) \<or> free_node l m = None" using assms(7) by auto
  from add_rejects [OF assms(1-6) this] show ?thesis unfolding if_not_P [OF False] .
qed

theorem fish_adds_witness:
  "\<exists>t m'. mp1_ioctl fish_layout 0x83FF100 0 fish_sample = Some (0, t) \<and> sees 0 0 t m' ((vmem 0 fish_sample)(1080 := 88))
    \<and> blinking fish_layout m' [0x8050010, 0x8050000]"
proof -
  have ub: "user_buffer 0x83FF100 16" "span 0x83FF100 16 \<inter> span (add_temp fish_layout) 16 = {}"
    using span_apart [of "0x83FF100" 16 "0x83FF000" 16] by (simp_all add: user_buffer_def fish_layout_def)
  from fish_adds [OF fish_sees fish_layout_ok fish_video fish_blinking ub fish_blink(2)] show ?thesis
    unfolding fish_free using fish_slots(2) by auto
qed

text \<open>C15: \<open>mp1_ioctl\<close> with \<open>RTC_REMOVE\<close> takes the first structure with the given location out of the list
  and frees its element, keeping the order and contents of the others; without such a structure it returns -1 and changes
  nothing.\<close>

theorem fish_removes:
  assumes "sees p k s m v" "layout_ok l" "video l k m" "blinking l m as"
  shows "case at_location m (ucast x) as of
      None \<Rightarrow> mp1_ioctl l x 1 s = Some (-1, s)
    | Some a \<Rightarrow> \<exists>t m'. mp1_ioctl l x 1 s = Some (0, t) \<and> sees p k t m' v \<and> blinking l m' (remove1 a as) \<and> video l k m'
        \<and> map (blink_in m') (remove1 a as) = map (blink_in m) (remove1 a as) \<and> location (blink_in m' a) = 0"
  using remove_missing [OF assms(1,2,4), of x] remove_deletes [OF assms, of x] by (simp split: option.split)

theorem fish_removes_witness:
  "\<exists>t m'. mp1_ioctl fish_layout 340 1 fish_sample = Some (0, t) \<and> sees 0 0 t m' (vmem 0 fish_sample) \<and> blinking fish_layout m' []"
  using fish_removes [OF fish_sees fish_layout_ok fish_video fish_blinking, of 340] unfolding fish_at by auto

text \<open>C13: \<open>mp1_rtc_tasklet\<close> returns, and refines one tick of a list of counters: each character counts down,
  and one that is due changes its phase, takes that phase's length and shows its other character; nothing else on the screen
  and in the list changes.\<close>

theorem fish_ticks:
  assumes "sees p k s m v" "layout_ok l" "video l k m" "blinking l m as"
  shows "\<exists>t m'. mp1_rtc_tasklet l s = Some t \<and> sees p k t m' (fold show_tick (map (blink_in m) as) v)
    \<and> blinking l m' as \<and> video l k m' \<and> map (blink_in m') as = map (blink_tick \<circ> blink_in m) as"
  using assms by (rule tasklet_ticks)

theorem fish_ticks_witness:
  "\<exists>t m'. mp1_rtc_tasklet fish_layout fish_sample = Some t \<and> sees 0 0 t m' ((vmem 0 fish_sample)(680 := 77))
    \<and> blinking fish_layout m' [0x8050000] \<and> status (blink_in m' 0x8050000) = 0 \<and> countdown (blink_in m' 0x8050000) = 6"
  using fish_ticks [OF fish_sees fish_layout_ok fish_video fish_blinking]
  by (fastforce simp: fish_blink(1) show_tick_def blink_tick_def due_def lit_up_def positive_def)

end
